(* ===== verification/Errors.thy ===== *)
theory Errors
  imports Prelude
begin

text \<open>
  The exception hierarchy of \<open>clients/python/pgque/errors.py\<close> together with the exceptions
  of Python and of psycopg that the client meets, and \<open>_wrap_sql_error\<close> of
  \<open>clients/python/pgque/client.py\<close>, which classifies a database error by SQLSTATE and by
  its text. \<open>isinstance\<close> is membership in the method resolution order, so that an
  \<open>except\<close> clause of the source is a test on the class of the raised value.
\<close>

section \<open>Database errors as psycopg reports them\<close>

record pg_diag =
  message_primary :: "string option"
  message_hint :: "string option"

record pg_error =
  pg_str :: string
  pg_diagnostic :: "pg_diag option"
  pg_sqlstate :: "string option"
  pg_operational :: bool

section \<open>Exceptions\<close>

record overflow =
  ovf_message :: string
  ovf_sqlstate :: "string option"
  ovf_hint :: "string option"
  ovf_configured_limit :: int
  ovf_operation :: string

datatype exc =
    PgqueError string
  | PgqueReceiveOverflowError overflow
  | PgqueConnectionError string
  | PgqueQueueNotFound string
  | PgqueBatchNotFound string
  | PgqueConsumerNotFound string
  | PsycopgError pg_error
  | TypeError string
  | ValueError string
  | IndexError string
  | OtherException string
  | KeyboardInterrupt
  | SystemExit

datatype pyclass =
    CPgqueError | CPgqueReceiveOverflowError | CPgqueConnectionError | CPgqueQueueNotFound
  | CPgqueBatchNotFound | CPgqueConsumerNotFound | CPsycopgError | CPsycopgOperationalError
  | CTypeError | CValueError | CIndexError | COtherException | CKeyboardInterrupt | CSystemExit
  | CException | CBaseException

fun class_of :: "exc \<Rightarrow> pyclass" where
  "class_of (PgqueError _) = CPgqueError"
| "class_of (PgqueReceiveOverflowError _) = CPgqueReceiveOverflowError"
| "class_of (PgqueConnectionError _) = CPgqueConnectionError"
| "class_of (PgqueQueueNotFound _) = CPgqueQueueNotFound"
| "class_of (PgqueBatchNotFound _) = CPgqueBatchNotFound"
| "class_of (PgqueConsumerNotFound _) = CPgqueConsumerNotFound"
| "class_of (PsycopgError e) = (if pg_operational e then CPsycopgOperationalError else CPsycopgError)"
| "class_of (TypeError _) = CTypeError"
| "class_of (ValueError _) = CValueError"
| "class_of (IndexError _) = CIndexError"
| "class_of (OtherException _) = COtherException"
| "class_of KeyboardInterrupt = CKeyboardInterrupt"
| "class_of SystemExit = CSystemExit"

text \<open>The base class each \<open>class\<close> statement names.\<close>

fun class_base :: "pyclass \<Rightarrow> pyclass option" where
  "class_base CPgqueError = Some CException"
| "class_base CPgqueReceiveOverflowError = Some CPgqueError"
| "class_base CPgqueConnectionError = Some CPgqueError"
| "class_base CPgqueQueueNotFound = Some CPgqueError"
| "class_base CPgqueBatchNotFound = Some CPgqueError"
| "class_base CPgqueConsumerNotFound = Some CPgqueError"
| "class_base CPsycopgOperationalError = Some CPsycopgError"
| "class_base CPsycopgError = Some CException"
| "class_base CTypeError = Some CException"
| "class_base CValueError = Some CException"
| "class_base CIndexError = Some CException"
| "class_base COtherException = Some CException"
| "class_base CException = Some CBaseException"
| "class_base CKeyboardInterrupt = Some CBaseException"
| "class_base CSystemExit = Some CBaseException"
| "class_base CBaseException = None"

text \<open>
  The chain of base classes; the hierarchy is four classes deep, so four steps reach
  \<open>BaseException\<close> from everywhere (\<open>mro_complete\<close>).
\<close>

fun class_chain :: "nat \<Rightarrow> pyclass \<Rightarrow> pyclass list" where
  "class_chain 0 c = [c]"
| "class_chain (Suc n) c = c # (case class_base c of None \<Rightarrow> [] | Some b \<Rightarrow> class_chain n b)"

definition mro :: "pyclass \<Rightarrow> pyclass list" where
  "mro c = class_chain 4 c"

definition isinstance :: "exc \<Rightarrow> pyclass \<Rightarrow> bool" where
  "isinstance e c \<longleftrightarrow> c \<in> set (mro (class_of e))"

lemma mro_complete: "last (mro c) = CBaseException"
  by (cases c) (simp_all add: mro_def eval_nat_numeral)

lemma isinstance_simps [simp]:
  "isinstance (PgqueError m) CPgqueError"
  "isinstance (PgqueReceiveOverflowError x) CPgqueError"
  "isinstance (PgqueConnectionError m) CPgqueError"
  "isinstance (PgqueQueueNotFound m) CPgqueError"
  "isinstance (PgqueBatchNotFound m) CPgqueError"
  "isinstance (PgqueConsumerNotFound m) CPgqueError"
  "\<not> isinstance (PsycopgError p) CPgqueError"
  "\<not> isinstance (TypeError m) CPgqueError"
  "\<not> isinstance (ValueError m) CPgqueError"
  "\<not> isinstance (IndexError m) CPgqueError"
  "\<not> isinstance (OtherException m) CPgqueError"
  "\<not> isinstance KeyboardInterrupt CPgqueError"
  "\<not> isinstance SystemExit CPgqueError"
  "isinstance (PsycopgError p) CPsycopgError"
  "isinstance (PsycopgError p) CPsycopgOperationalError \<longleftrightarrow> pg_operational p"
  "\<not> isinstance KeyboardInterrupt CException"
  "\<not> isinstance SystemExit CException"
  by (simp_all add: isinstance_def mro_def eval_nat_numeral)

lemma isinstance_psycopg: "isinstance e CPsycopgError \<longleftrightarrow> (\<exists>p. e = PsycopgError p)"
  by (cases e) (simp_all add: isinstance_def mro_def eval_nat_numeral)

lemma isinstance_overflow:
  "isinstance e CPgqueReceiveOverflowError \<longleftrightarrow> (\<exists>x. e = PgqueReceiveOverflowError x)"
  by (cases e) (simp_all add: isinstance_def mro_def eval_nat_numeral)

lemma isinstance_Exception:
  "isinstance e CException \<longleftrightarrow> e \<noteq> KeyboardInterrupt \<and> e \<noteq> SystemExit"
  by (cases e) (simp_all add: isinstance_def mro_def eval_nat_numeral)

lemma pgque_is_Exception: "isinstance e CPgqueError \<Longrightarrow> isinstance e CException"
  by (cases e) (simp_all add: isinstance_Exception)

text \<open>The text \<open>str(e)\<close> of an error of the package.\<close>

fun exc_str :: "exc \<Rightarrow> string" where
  "exc_str (PgqueError m) = m"
| "exc_str (PgqueReceiveOverflowError x) = ovf_message x"
| "exc_str (PgqueConnectionError m) = m"
| "exc_str (PgqueQueueNotFound m) = m"
| "exc_str (PgqueBatchNotFound m) = m"
| "exc_str (PgqueConsumerNotFound m) = m"
| "exc_str (PsycopgError e) = pg_str e"
| "exc_str (TypeError m) = m"
| "exc_str (ValueError m) = m"
| "exc_str (IndexError m) = m"
| "exc_str (OtherException m) = m"
| "exc_str KeyboardInterrupt = []"
| "exc_str SystemExit = []"

section \<open>Pickling of the overflow error\<close>

text \<open>
  \<open>__reduce__\<close> returns the reconstructor's positional arguments and the instance
  dictionary; unpickling calls \<open>_restore_receive_overflow_error\<close> on the arguments and
  then updates the new instance's dictionary, which holds the four keyword attributes.
\<close>

type_synonym overflow_args = "string \<times> string option \<times> string option \<times> int \<times> string"

record overflow_dict =
  dict_sqlstate :: "string option"
  dict_hint :: "string option"
  dict_configured_limit :: int
  dict_operation :: string

definition overflow_init ::
  "string \<Rightarrow> string option \<Rightarrow> string option \<Rightarrow> int \<Rightarrow> string \<Rightarrow> overflow" where
  "overflow_init message sqlstate hint configured_limit operation =
     \<lparr>ovf_message = message, ovf_sqlstate = sqlstate, ovf_hint = hint,
      ovf_configured_limit = configured_limit, ovf_operation = operation\<rparr>"

definition overflow_reduce :: "overflow \<Rightarrow> overflow_args \<times> overflow_dict" where
  "overflow_reduce x =
     ((exc_str (PgqueReceiveOverflowError x), ovf_sqlstate x, ovf_hint x,
       ovf_configured_limit x, ovf_operation x),
      \<lparr>dict_sqlstate = ovf_sqlstate x, dict_hint = ovf_hint x,
       dict_configured_limit = ovf_configured_limit x, dict_operation = ovf_operation x\<rparr>)"

fun restore_receive_overflow_error :: "overflow_args \<Rightarrow> overflow" where
  "restore_receive_overflow_error (message, sqlstate, hint, configured_limit, operation) =
     overflow_init message sqlstate hint configured_limit operation"

definition overflow_setstate :: "overflow \<Rightarrow> overflow_dict \<Rightarrow> overflow" where
  "overflow_setstate x d =
     x\<lparr>ovf_sqlstate := dict_sqlstate d, ovf_hint := dict_hint d,
       ovf_configured_limit := dict_configured_limit d, ovf_operation := dict_operation d\<rparr>"

section \<open>Classification of database errors\<close>

definition error_primary :: "pg_error \<Rightarrow> string" where
  "error_primary e =
     (case pg_diagnostic e of
        None \<Rightarrow> pg_str e
      | Some d \<Rightarrow> (case message_primary d of
            None \<Rightarrow> pg_str e
          | Some p \<Rightarrow> if p = [] then pg_str e else p))"

definition overflow_text :: "string \<Rightarrow> int \<Rightarrow> string" where
  "overflow_text operation configured_limit =
     ''pgque.'' @ operation @ '': batch exceeds max_return of '' @ str_of_int configured_limit"

definition is_overflow :: "pg_error \<Rightarrow> string option \<Rightarrow> int option \<Rightarrow> bool" where
  "is_overflow e operation configured_limit \<longleftrightarrow>
     pg_sqlstate e = Some ''54000'' \<and>
     (case operation of None \<Rightarrow> False
      | Some op \<Rightarrow> op \<in> {''receive'', ''receive_coop''} \<and>
          (case configured_limit of None \<Rightarrow> False
           | Some n \<Rightarrow> error_primary e = overflow_text op n))"

definition names_queue :: "string \<Rightarrow> bool" where
  "names_queue low \<longleftrightarrow> contains ''queue not found'' low"

definition names_consumer :: "string \<Rightarrow> bool" where
  "names_consumer low \<longleftrightarrow> contains ''consumer not registered'' low
     \<or> contains ''consumer not found'' low \<or> contains ''not subscriber to queue'' low"

definition names_batch :: "string \<Rightarrow> bool" where
  "names_batch low \<longleftrightarrow> contains ''batch not found'' low
     \<or> contains ''cannot find data for batch'' low"

definition wrap_sql_error :: "pg_error \<Rightarrow> string option \<Rightarrow> int option \<Rightarrow> exc" where
  "wrap_sql_error e operation configured_limit =
     (let msg = pg_str e; low = str_lower msg in
      if is_overflow e operation configured_limit then
        PgqueReceiveOverflowError
          (overflow_init msg (pg_sqlstate e)
             (case pg_diagnostic e of None \<Rightarrow> None | Some d \<Rightarrow> message_hint d)
             (the configured_limit) (the operation))
      else if names_queue low then PgqueQueueNotFound msg
      else if names_consumer low then PgqueConsumerNotFound msg
      else if names_batch low then PgqueBatchNotFound msg
      else PgqueError msg)"

lemma wrap_is_pgque [simp]: "isinstance (wrap_sql_error e op n) CPgqueError"
  by (simp add: wrap_sql_error_def Let_def)

lemma wrap_not_psycopg [simp]: "wrap_sql_error e op n \<noteq> PsycopgError p"
  by (simp add: wrap_sql_error_def Let_def)

lemma wrap_no_operation: "\<not> is_overflow e None n"
  by (simp add: is_overflow_def)

lemma wrap_overflow_iff:
  "(\<exists>x. wrap_sql_error e op n = PgqueReceiveOverflowError x) \<longleftrightarrow> is_overflow e op n"
  by (simp add: wrap_sql_error_def Let_def)

end
