(* ===== verification/Values.thy ===== *)
theory Values
  imports Errors
begin

text \<open>
  Python values as the client passes them to psycopg and gets them back, the text that
  \<open>json.dumps\<close> gives for them, and the data classes of \<open>clients/python/pgque/types.py\<close>.
  A float is represented by the text of its \<open>repr\<close>, which determines it; a date is its
  distance in microseconds from the epoch; \<open>PyObj\<close> stands for any other object.
\<close>

section \<open>Values\<close>

datatype pyval =
    PyNone
  | PyBool bool
  | PyInt int
  | PyFloat string
  | PyStr string
  | PyDatetime int
  | PyList "pyval list"
  | PyDict "(pyval \<times> pyval) list"
  | PyEvent pyval string
  | PyObj nat

text \<open>\<open>Event(payload, type)\<close>: the constructor \<open>PyEvent\<close>; \<open>type\<close> defaults to "default".\<close>

definition default_event :: "pyval \<Rightarrow> pyval" where
  "default_event payload = PyEvent payload ''default''"

record message =
  msg_id :: pyval
  batch_id :: pyval
  msg_type :: pyval
  payload :: pyval
  retry_count :: pyval
  created_at :: pyval
  extra1 :: pyval
  extra2 :: pyval
  extra3 :: pyval
  extra4 :: pyval

section \<open>JSON text\<close>

definition hex_char :: "nat \<Rightarrow> char" where
  "hex_char d = (if d < 10 then char_of (48 + d) else char_of (87 + d))"

definition json_escape_char :: "char \<Rightarrow> string" where
  "json_escape_char c = (let n = (of_char c :: nat) in
     if n = 34 then [CHR 0x5C, CHR 0x22]
     else if n = 92 then [CHR 0x5C, CHR 0x5C]
     else if n = 10 then [CHR 0x5C, CHR ''n'']
     else if n = 13 then [CHR 0x5C, CHR ''r'']
     else if n = 9 then [CHR 0x5C, CHR ''t'']
     else if n = 12 then [CHR 0x5C, CHR ''f'']
     else if n = 8 then [CHR 0x5C, CHR ''b'']
     else if 32 \<le> n \<and> n \<le> 126 then [c]
     else [CHR 0x5C, CHR ''u'', CHR ''0'', CHR ''0'', hex_char (n div 16), hex_char (n mod 16)])"

definition json_string :: "string \<Rightarrow> string" where
  "json_string s = [CHR 0x22] @ concat (map json_escape_char s) @ [CHR 0x22]"

fun join :: "string \<Rightarrow> string list \<Rightarrow> string" where
  "join sep [] = []"
| "join sep [x] = x"
| "join sep (x # y # ys) = x @ sep @ join sep (y # ys)"

text \<open>A float in JSON is its \<open>repr\<close>, but for the three values that have no digits.\<close>

definition json_float :: "string \<Rightarrow> string" where
  "json_float f = (if f = ''nan'' then ''NaN'' else if f = ''inf'' then ''Infinity''
     else if f = ''-inf'' then ''-Infinity'' else f)"

text \<open>Keys of a dict: text, and the JSON spelling of numbers, booleans and \<open>None\<close>.\<close>

fun json_key :: "pyval \<Rightarrow> exc + string" where
  "json_key (PyStr s) = Inr (json_string s)"
| "json_key (PyInt i) = Inr (json_string (str_of_int i))"
| "json_key (PyFloat f) = Inr (json_string (json_float f))"
| "json_key (PyBool b) = Inr (json_string (if b then ''true'' else ''false''))"
| "json_key PyNone = Inr (json_string ''null'')"
| "json_key _ = Inl (TypeError ''keys must be str, int, float, bool or None'')"

fun json_dumps :: "pyval \<Rightarrow> exc + string" where
  "json_dumps PyNone = Inr ''null''"
| "json_dumps (PyBool b) = Inr (if b then ''true'' else ''false'')"
| "json_dumps (PyInt i) = Inr (str_of_int i)"
| "json_dumps (PyFloat f) = Inr (json_float f)"
| "json_dumps (PyStr s) = Inr (json_string s)"
| "json_dumps (PyList vs) =
     bindE (mapE json_dumps vs) (\<lambda>ts. Inr (''['' @ join '', '' ts @ '']''))"
| "json_dumps (PyDict kvs) =
     bindE (mapE (\<lambda>(k, v). bindE (json_key k) (\<lambda>kt.
                  bindE (json_dumps v) (\<lambda>vt. Inr (kt @ '': '' @ vt)))) kvs)
       (\<lambda>ts. Inr (''{'' @ join '', '' ts @ ''}''))"
| "json_dumps _ = Inl (TypeError ''Object is not JSON serializable'')"

section \<open>Payload encoding\<close>

text \<open>
  The conversion shared by \<open>send\<close> and \<open>send_batch\<close>: a dict or a list becomes JSON text,
  \<open>None\<close> the text \<open>null\<close>, everything else is passed as it is.
\<close>

fun encode_payload :: "pyval \<Rightarrow> exc + pyval" where
  "encode_payload (PyDict kvs) = bindE (json_dumps (PyDict kvs)) (\<lambda>t. Inr (PyStr t))"
| "encode_payload (PyList vs) = bindE (json_dumps (PyList vs)) (\<lambda>t. Inr (PyStr t))"
| "encode_payload PyNone = Inr (PyStr ''null'')"
| "encode_payload v = Inr v"

text \<open>The conversion of \<open>nack\<close>: as above, but \<open>None\<close> stays \<open>None\<close> (SQL NULL).\<close>

fun encode_nack_payload :: "pyval \<Rightarrow> exc + pyval" where
  "encode_nack_payload (PyDict kvs) = bindE (json_dumps (PyDict kvs)) (\<lambda>t. Inr (PyStr t))"
| "encode_nack_payload (PyList vs) = bindE (json_dumps (PyList vs)) (\<lambda>t. Inr (PyStr t))"
| "encode_nack_payload v = Inr v"

text \<open>
  Text of a value in an f-string; \<open>rep\<close> is the text of the values whose \<open>str\<close> is not that
  of a literal.
\<close>

fun py_str :: "(pyval \<Rightarrow> string) \<Rightarrow> pyval \<Rightarrow> string" where
  "py_str rep PyNone = ''None''"
| "py_str rep (PyBool b) = (if b then ''True'' else ''False'')"
| "py_str rep (PyInt i) = str_of_int i"
| "py_str rep (PyFloat f) = f"
| "py_str rep (PyStr s) = s"
| "py_str rep v = rep v"

lemma encode_payload_text: "encode_payload p = Inr v \<Longrightarrow> v \<noteq> PyNone"
  by (cases p) (auto simp: bindE_eq_Inr)

lemma encode_payload_not_container:
  "encode_payload p = Inr v \<Longrightarrow> (\<forall>l. v \<noteq> PyList l) \<and> (\<forall>d. v \<noteq> PyDict d)"
  by (cases p) (auto simp: bindE_eq_Inr)

lemma encode_payload_idem: "encode_payload p = Inr v \<Longrightarrow> encode_payload v = Inr v"
  by (cases p) (auto simp: bindE_eq_Inr)

lemma encode_nack_agrees: "p \<noteq> PyNone \<Longrightarrow> encode_nack_payload p = encode_payload p"
  by (cases p) auto

lemma encode_nack_str [simp]: "encode_nack_payload (PyStr s) = Inr (PyStr s)"
  by simp

end
