(* ===== verification/Client.thy ===== *)
theory Client
  imports Values
begin

text \<open>
  \<open>clients/python/pgque/client.py\<close>: the class \<open>PgqueClient\<close> and \<open>connect\<close>. psycopg is not
  part of the repository: a connection is a state of any type \<open>'s\<close> and a record of the
  operations the client calls on it. Every method is the SQL text and the parameters it
  passes to \<open>execute\<close>, the mapping of a database error, and what it makes of the rows.
\<close>

section \<open>The connection\<close>

record 's driver =
  drv_connect :: "'s \<Rightarrow> string \<Rightarrow> bool \<Rightarrow> 's \<times> (exc + unit)"
  drv_close :: "'s \<Rightarrow> 's"
  drv_closed :: "'s \<Rightarrow> bool"
  drv_execute :: "'s \<Rightarrow> string \<Rightarrow> pyval list \<Rightarrow> 's \<times> (exc + pyval list list)"
  drv_listen :: "'s \<Rightarrow> string \<Rightarrow> 's \<times> (exc + unit)"
  drv_tx_enter :: "'s \<Rightarrow> 's \<times> (exc + unit)"
  drv_tx_commit :: "'s \<Rightarrow> 's \<times> (exc + unit)"
  drv_tx_rollback :: "'s \<Rightarrow> 's"
  drv_commit :: "'s \<Rightarrow> 's \<times> (exc + unit)"
  drv_rollback :: "'s \<Rightarrow> 's \<times> (exc + unit)"
  drv_rep :: "pyval \<Rightarrow> string"

text \<open>A statement under \<open>except psycopg.Error as e: raise wrap(e) from e\<close>.\<close>

definition run_sql :: "'s driver \<Rightarrow> (pg_error \<Rightarrow> exc) \<Rightarrow> 's \<Rightarrow> string \<Rightarrow> pyval list
    \<Rightarrow> 's \<times> (exc + pyval list list)" where
  "run_sql d wrap s sql params =
     (case drv_execute d s sql params of
        (s', Inl e) \<Rightarrow> (s', Inl (case e of PsycopgError p \<Rightarrow> wrap p | _ \<Rightarrow> e))
      | (s', Inr rows) \<Rightarrow> (s', Inr rows))"

definition plain_wrap :: "pg_error \<Rightarrow> exc" where
  "plain_wrap e = wrap_sql_error e None None"

definition fetchone :: "pyval list list \<Rightarrow> pyval list option" where
  "fetchone rows = (case rows of [] \<Rightarrow> None | r # _ \<Rightarrow> Some r)"

text \<open>\<open>row[k]\<close> of the result of \<open>fetchone()\<close>.\<close>

definition row_item :: "pyval list option \<Rightarrow> nat \<Rightarrow> exc + pyval" where
  "row_item row k = (case row of
       None \<Rightarrow> Inl (TypeError ''NoneType object is not subscriptable'')
     | Some r \<Rightarrow> if k < length r then Inr (r ! k) else Inl (IndexError ''tuple index out of range''))"

text \<open>\<open>row = execute(sql, params).fetchone()\<close> and \<open>return row[0]\<close>.\<close>

definition call_scalar :: "'s driver \<Rightarrow> 's \<Rightarrow> string \<Rightarrow> pyval list \<Rightarrow> 's \<times> (exc + pyval)" where
  "call_scalar d s sql params =
     (case run_sql d plain_wrap s sql params of (s', r) \<Rightarrow>
        (s', bindE r (\<lambda>rows. row_item (fetchone rows) 0)))"

section \<open>Life cycle\<close>

record client =
  owns_conn :: bool

definition connect :: "'s driver \<Rightarrow> 's \<Rightarrow> string \<Rightarrow> bool \<Rightarrow> 's \<times> (exc + client)" where
  "connect d s dsn autocommit =
     (case drv_connect d s dsn autocommit of
        (s', Inl e) \<Rightarrow> (s', Inl (if isinstance e CPsycopgOperationalError
                                 then PgqueConnectionError (exc_str e) else e))
      | (s', Inr _) \<Rightarrow> (s', Inr \<lparr>owns_conn = True\<rparr>))"

definition client_close :: "'s driver \<Rightarrow> client \<Rightarrow> 's \<Rightarrow> 's" where
  "client_close d c s = (if owns_conn c \<and> \<not> drv_closed d s then drv_close d s else s)"

section \<open>Producer\<close>

definition send :: "'s driver \<Rightarrow> 's \<Rightarrow> string \<Rightarrow> pyval \<Rightarrow> string \<Rightarrow> 's \<times> (exc + pyval)" where
  "send d s qname payload0 type0 =
     (let (type1, payload1) = (case payload0 of PyEvent p t \<Rightarrow> (t, p) | _ \<Rightarrow> (type0, payload0))
      in case encode_payload payload1 of
           Inl e \<Rightarrow> (s, Inl e)
         | Inr p \<Rightarrow>
             if type1 \<noteq> [] \<and> type1 \<noteq> ''default''
             then call_scalar d s ''select pgque.send(%s, %s, %s::jsonb)''
                    [PyStr qname, PyStr type1, p]
             else call_scalar d s ''select pgque.send(%s, %s::jsonb)'' [PyStr qname, p])"

text \<open>\<open>list(row[0])\<close>: a list is copied, text gives its characters, a dict its keys.\<close>

fun py_list :: "pyval \<Rightarrow> exc + pyval list" where
  "py_list (PyList vs) = Inr vs"
| "py_list (PyStr s) = Inr (map (\<lambda>c. PyStr [c]) s)"
| "py_list (PyDict kvs) = Inr (map fst kvs)"
| "py_list _ = Inl (TypeError ''object is not iterable'')"

definition send_batch ::
  "'s driver \<Rightarrow> 's \<Rightarrow> string \<Rightarrow> string \<Rightarrow> pyval list \<Rightarrow> 's \<times> (exc + pyval list)" where
  "send_batch d s qname type1 payloads =
     (case mapE encode_payload payloads of
        Inl e \<Rightarrow> (s, Inl e)
      | Inr json_payloads \<Rightarrow>
          (case call_scalar d s ''select pgque.send_batch(%s, %s, %s::jsonb[])''
                  [PyStr qname, PyStr type1, PyList json_payloads] of
             (s', r) \<Rightarrow> (s', bindE r py_list)))"

section \<open>Consumer side\<close>

definition subscribe :: "'s driver \<Rightarrow> 's \<Rightarrow> string \<Rightarrow> string \<Rightarrow> 's \<times> (exc + pyval)" where
  "subscribe d s qname cname =
     call_scalar d s ''select pgque.subscribe(%s, %s)'' [PyStr qname, PyStr cname]"

definition unsubscribe :: "'s driver \<Rightarrow> 's \<Rightarrow> string \<Rightarrow> string \<Rightarrow> 's \<times> (exc + pyval)" where
  "unsubscribe d s qname cname =
     call_scalar d s ''select pgque.unsubscribe(%s, %s)'' [PyStr qname, PyStr cname]"

definition message_of_row :: "pyval list \<Rightarrow> exc + message" where
  "message_of_row r =
     (if length r < 10 then Inl (IndexError ''tuple index out of range'')
      else Inr \<lparr>msg_id = r ! 0, batch_id = r ! 1, msg_type = r ! 2, payload = r ! 3,
               retry_count = r ! 4, created_at = r ! 5, extra1 = r ! 6, extra2 = r ! 7,
               extra3 = r ! 8, extra4 = r ! 9\<rparr>)"

definition receive ::
  "'s driver \<Rightarrow> 's \<Rightarrow> string \<Rightarrow> string \<Rightarrow> int \<Rightarrow> 's \<times> (exc + message list)" where
  "receive d s qname cname max_msgs =
     (case run_sql d (\<lambda>e. wrap_sql_error e (Some ''receive'') (Some max_msgs)) s
             ''select * from pgque.receive(%s, %s, %s)''
             [PyStr qname, PyStr cname, PyInt max_msgs] of
        (s', r) \<Rightarrow> (s', bindE r (mapE message_of_row)))"

definition ack :: "'s driver \<Rightarrow> 's \<Rightarrow> pyval \<Rightarrow> 's \<times> (exc + pyval)" where
  "ack d s bid = call_scalar d s ''select pgque.ack(%s)'' [bid]"

definition force_next_tick :: "'s driver \<Rightarrow> 's \<Rightarrow> string \<Rightarrow> 's \<times> (exc + pyval)" where
  "force_next_tick d s qname =
     call_scalar d s ''select pgque.force_next_tick(%s)'' [PyStr qname]"

definition force_tick :: "'s driver \<Rightarrow> 's \<Rightarrow> string \<Rightarrow> 's \<times> (exc + pyval)" where
  "force_tick d s qname = force_next_tick d s qname"

definition ticker :: "'s driver \<Rightarrow> 's \<Rightarrow> string \<Rightarrow> 's \<times> (exc + pyval)" where
  "ticker d s qname = call_scalar d s ''select pgque.ticker(%s)'' [PyStr qname]"

definition ticker_all :: "'s driver \<Rightarrow> 's \<Rightarrow> 's \<times> (exc + pyval)" where
  "ticker_all d s = call_scalar d s ''select pgque.ticker()'' []"

section \<open>Cooperative consumers\<close>

definition subscribe_subconsumer ::
  "'s driver \<Rightarrow> 's \<Rightarrow> string \<Rightarrow> string \<Rightarrow> string \<Rightarrow> 's \<times> (exc + pyval)" where
  "subscribe_subconsumer d s qname cname sub =
     call_scalar d s ''select pgque.subscribe_subconsumer(%s, %s, %s)''
       [PyStr qname, PyStr cname, PyStr sub]"

definition unsubscribe_subconsumer ::
  "'s driver \<Rightarrow> 's \<Rightarrow> string \<Rightarrow> string \<Rightarrow> string \<Rightarrow> int \<Rightarrow> 's \<times> (exc + pyval)" where
  "unsubscribe_subconsumer d s qname cname sub batch_handling =
     call_scalar d s ''select pgque.unsubscribe_subconsumer(%s, %s, %s, %s)''
       [PyStr qname, PyStr cname, PyStr sub, PyInt batch_handling]"

definition opt_str :: "string option \<Rightarrow> pyval" where
  "opt_str x = (case x of None \<Rightarrow> PyNone | Some t \<Rightarrow> PyStr t)"

definition receive_coop ::
  "'s driver \<Rightarrow> 's \<Rightarrow> string \<Rightarrow> string \<Rightarrow> string \<Rightarrow> int \<Rightarrow> string option
    \<Rightarrow> 's \<times> (exc + message list)" where
  "receive_coop d s qname cname sub max_msgs dead =
     (case run_sql d (\<lambda>e. wrap_sql_error e (Some ''receive_coop'') (Some max_msgs)) s
             ''select * from pgque.receive_coop(%s, %s, %s, %s, %s::interval)''
             [PyStr qname, PyStr cname, PyStr sub, PyInt max_msgs, opt_str dead] of
        (s', r) \<Rightarrow> (s', bindE r (mapE message_of_row)))"

definition touch_subconsumer ::
  "'s driver \<Rightarrow> 's \<Rightarrow> string \<Rightarrow> string \<Rightarrow> string \<Rightarrow> 's \<times> (exc + pyval)" where
  "touch_subconsumer d s qname cname sub =
     call_scalar d s ''select pgque.touch_subconsumer(%s, %s, %s)''
       [PyStr qname, PyStr cname, PyStr sub]"

section \<open>Negative acknowledgement\<close>

definition nack_sql :: string where
  "nack_sql = ''select pgque.nack('' @ ''  %s,'' @
     ''  ROW(%s, %s, %s, %s, %s, %s, %s, %s, %s, %s)::pgque.message,'' @
     ''  %s::interval,'' @ ''  %s'' @ '')''"

definition nack_params ::
  "(pyval \<Rightarrow> string) \<Rightarrow> pyval \<Rightarrow> message \<Rightarrow> pyval \<Rightarrow> pyval \<Rightarrow> string option \<Rightarrow> pyval list" where
  "nack_params rep bid msg body retry_after reason =
     [bid, msg_id msg, batch_id msg, msg_type msg, body, retry_count msg, created_at msg,
      extra1 msg, extra2 msg, extra3 msg, extra4 msg,
      PyStr (py_str rep retry_after @ '' seconds''), opt_str reason]"

definition nack ::
  "'s driver \<Rightarrow> 's \<Rightarrow> pyval \<Rightarrow> message \<Rightarrow> pyval \<Rightarrow> string option \<Rightarrow> 's \<times> (exc + unit)" where
  "nack d s bid msg retry_after reason =
     (case encode_nack_payload (payload msg) of
        Inl e \<Rightarrow> (s, Inl e)
      | Inr body \<Rightarrow>
          (case run_sql d plain_wrap s nack_sql
                  (nack_params (drv_rep d) bid msg body retry_after reason) of
             (s', r) \<Rightarrow> (s', bindE r (\<lambda>_. Inr ()))))"

section \<open>Facts shared by the methods\<close>

lemma run_sql_cases:
  "run_sql d wrap s sql ps = (s', Inl e) \<Longrightarrow>
     \<exists>e0. drv_execute d s sql ps = (s', Inl e0) \<and>
       e = (case e0 of PsycopgError p \<Rightarrow> wrap p | _ \<Rightarrow> e0)"
  by (auto simp: run_sql_def split: prod.splits sum.splits)

lemma run_sql_no_psycopg:
  assumes "\<And>p q. wrap p \<noteq> PsycopgError q"
  shows "run_sql d wrap s sql ps \<noteq> (s', Inl (PsycopgError p))"
  using assms by (auto simp: run_sql_def split: prod.splits sum.splits exc.splits)

lemma call_scalar_no_psycopg: "call_scalar d s sql ps \<noteq> (s', Inl (PsycopgError p))"
proof
  assume a: "call_scalar d s sql ps = (s', Inl (PsycopgError p))"
  obtain s1 r where r: "run_sql d plain_wrap s sql ps = (s1, r)" by (cases "run_sql d plain_wrap s sql ps")
  show False
  proof (cases r)
    case (Inl e)
    with a r have "run_sql d plain_wrap s sql ps = (s', Inl (PsycopgError p))"
      by (simp add: call_scalar_def)
    then show False by (simp add: run_sql_no_psycopg plain_wrap_def)
  next
    case (Inr rows)
    with a r show False
      by (auto simp: call_scalar_def row_item_def split: option.splits if_splits)
  qed
qed

lemma call_scalar_execute:
  "drv_execute d s sql ps = (s', Inr rows) \<Longrightarrow> call_scalar d s sql ps = (s', row_item (fetchone rows) 0)"
  by (simp add: call_scalar_def run_sql_def)

lemma call_scalar_error:
  "drv_execute d s sql ps = (s', Inl (PsycopgError p)) \<Longrightarrow> call_scalar d s sql ps = (s', Inl (plain_wrap p))"
  by (simp add: call_scalar_def run_sql_def)

lemma call_scalar_value:
  "drv_execute d s sql ps = (s', Inr [[v]]) \<Longrightarrow> call_scalar d s sql ps = (s', Inr v)"
  by (simp add: call_scalar_execute row_item_def fetchone_def)

lemma json_key_error: "json_key k = Inl e \<Longrightarrow> \<exists>m. e = TypeError m"
  by (cases k) auto

lemma mapE_error: "mapE f xs = Inl e \<Longrightarrow> \<exists>x\<in>set xs. f x = Inl e"
  by (induction xs) (auto simp: bindE_eq_Inl)

lemma json_dumps_error: "json_dumps v = Inl e \<Longrightarrow> \<exists>m. e = TypeError m"
proof (induction v rule: json_dumps.induct)
  case (6 vs)
  then show ?case by (auto simp: bindE_eq_Inl dest!: mapE_error)
next
  case (7 kvs)
  from 7(2) obtain k v where kv: "(k, v) \<in> set kvs"
      "bindE (json_key k) (\<lambda>kt. bindE (json_dumps v) (\<lambda>vt. Inr (kt @ '': '' @ vt))) = Inl e"
    by (auto simp: bindE_eq_Inl dest!: mapE_error)
  then show ?case
    using 7(1)[OF kv(1)] by (auto simp: bindE_eq_Inl dest: json_key_error)
qed auto

lemma encode_payload_error: "encode_payload p = Inl e \<Longrightarrow> \<exists>m. e = TypeError m"
  by (cases p) (auto simp: bindE_eq_Inl dest: json_dumps_error simp del: json_dumps.simps)

lemma encode_nack_error: "encode_nack_payload p = Inl e \<Longrightarrow> \<exists>m. e = TypeError m"
  by (cases p) (auto simp: bindE_eq_Inl dest: json_dumps_error simp del: json_dumps.simps)

end
