(* ===== verification/Consumer.thy ===== *)
theory Consumer
  imports Client Complex_Main
begin

text \<open>
  \<open>clients/python/pgque/consumer.py\<close>: the class \<open>Consumer\<close>. Handlers are functions on an
  application world \<open>'w\<close> that return or raise. What other threads, signals, the clock and
  the socket do is an environment: the value of each successive read of \<open>_running\<close>, of
  \<open>time.monotonic()\<close>, of \<open>select\<close> and of \<open>notifies(timeout=0)\<close>, indexed by one counter
  that every observation advances.
\<close>

section \<open>State\<close>

type_synonym 'w handler = "message \<Rightarrow> 'w \<Rightarrow> 'w \<times> exc option"

record 'w consumer =
  c_dsn :: string
  c_queue :: string
  c_name :: string
  c_poll_interval :: rat
  c_max_messages :: int
  c_retry_after :: pyval
  c_policy :: string
  c_subconsumer :: "string option"
  c_dead_interval :: "string option"
  c_handlers :: "string \<rightharpoonup> 'w handler"
  c_default_handler :: "'w handler option"

definition WAIT_SLICE_SECONDS :: rat where
  "WAIT_SLICE_SECONDS = 1 / 2"

definition DEFAULT_MAX_MESSAGES :: int where
  "DEFAULT_MAX_MESSAGES = 2147483647"

definition consumer_init ::
  "string \<Rightarrow> string \<Rightarrow> string \<Rightarrow> rat \<Rightarrow> int \<Rightarrow> pyval \<Rightarrow> string \<Rightarrow> string option \<Rightarrow> string option
    \<Rightarrow> exc + 'w consumer" where
  "consumer_init dsn qname name poll maxm retry policy sub dead =
     (if policy \<notin> {''nack'', ''ack''} then
        Inl (ValueError ''unknown_handler_policy must be nack or ack'')
      else if dead \<noteq> None \<and> sub = None then
        Inl (ValueError ''dead_interval is only valid in cooperative mode (set subconsumer=...)'')
      else Inr \<lparr>c_dsn = dsn, c_queue = qname, c_name = name, c_poll_interval = poll,
                c_max_messages = maxm, c_retry_after = retry, c_policy = policy,
                c_subconsumer = sub, c_dead_interval = dead,
                c_handlers = Map.empty, c_default_handler = None\<rparr>)"

definition consumer_on :: "'w consumer \<Rightarrow> string \<Rightarrow> 'w handler \<Rightarrow> 'w consumer" where
  "consumer_on c event_type func =
     (if event_type = ''*'' then c\<lparr>c_default_handler := Some func\<rparr>
      else c\<lparr>c_handlers := (c_handlers c)(event_type \<mapsto> func)\<rparr>)"

text \<open>\<open>self._handlers.get(msg.type, self._default_handler)\<close>; the keys are text.\<close>

definition handler_for :: "'w consumer \<Rightarrow> pyval \<Rightarrow> 'w handler option" where
  "handler_for c ty =
     (case ty of
        PyStr t \<Rightarrow> (case c_handlers c t of Some h \<Rightarrow> Some h | None \<Rightarrow> c_default_handler c)
      | _ \<Rightarrow> c_default_handler c)"

section \<open>One poll\<close>

text \<open>
  The loop over the messages of a batch: the flag is \<open>nack_failed\<close>; a left result is an
  exception that leaves the loop (one that is not an \<open>Exception\<close>).
\<close>

fun dispatch :: "'s driver \<Rightarrow> 'w consumer \<Rightarrow> pyval \<Rightarrow> message list \<Rightarrow> bool \<Rightarrow> 's \<Rightarrow> 'w
    \<Rightarrow> 's \<times> 'w \<times> (exc + bool)" where
  "dispatch d c bid [] nack_failed s w = (s, w, Inr nack_failed)"
| "dispatch d c bid (m # ms) nack_failed s w =
     (case handler_for c (msg_type m) of
        None \<Rightarrow>
          if c_policy c = ''ack'' then dispatch d c bid ms nack_failed s w
          else (case nack d s bid m (c_retry_after c)
                       (Some (''no handler for type='' @ py_str (drv_rep d) (msg_type m))) of
              (s', Inl e) \<Rightarrow> if isinstance e CException then dispatch d c bid ms True s' w
                             else (s', w, Inl e)
            | (s', Inr _) \<Rightarrow> dispatch d c bid ms nack_failed s' w)
      | Some h \<Rightarrow>
          (case h m w of
             (w', None) \<Rightarrow> dispatch d c bid ms nack_failed s w'
           | (w', Some e) \<Rightarrow>
               if isinstance e CException
               then (case nack d s bid m (c_retry_after c) None of
                   (s', Inl e') \<Rightarrow> if isinstance e' CException then dispatch d c bid ms True s' w'
                                   else (s', w', Inl e')
                 | (s', Inr _) \<Rightarrow> dispatch d c bid ms nack_failed s' w')
               else (s, w', Inl e)))"

definition poll_receive :: "'s driver \<Rightarrow> 'w consumer \<Rightarrow> 's \<Rightarrow> 's \<times> (exc + message list)" where
  "poll_receive d c s =
     (case c_subconsumer c of
        Some sub \<Rightarrow> receive_coop d s (c_queue c) (c_name c) sub (c_max_messages c) (c_dead_interval c)
      | None \<Rightarrow> receive d s (c_queue c) (c_name c) (c_max_messages c))"

text \<open>The body of the \<open>with conn.transaction()\<close> block.\<close>

definition poll_body :: "'s driver \<Rightarrow> 'w consumer \<Rightarrow> 's \<Rightarrow> 'w \<Rightarrow> 's \<times> 'w \<times> (exc + bool)" where
  "poll_body d c s w =
     (case poll_receive d c s of
        (s1, Inl e) \<Rightarrow> (s1, w, Inl e)
      | (s1, Inr msgs) \<Rightarrow>
          (case msgs of
             [] \<Rightarrow> (s1, w, Inr False)
           | m # _ \<Rightarrow>
               (case dispatch d c (batch_id m) msgs False s1 w of
                  (s2, w', Inl e) \<Rightarrow> (s2, w', Inl e)
                | (s2, w', Inr True) \<Rightarrow> (s2, w', Inr False)
                | (s2, w', Inr False) \<Rightarrow>
                    (case ack d s2 (batch_id m) of
                       (s3, Inl e) \<Rightarrow> (s3, w', Inl e)
                     | (s3, Inr _) \<Rightarrow> (s3, w', Inr True)))))"

text \<open>The block commits when its body ends normally and rolls back when it raises.\<close>

definition poll_once :: "'s driver \<Rightarrow> 'w consumer \<Rightarrow> 's \<Rightarrow> 'w \<Rightarrow> 's \<times> 'w \<times> (exc + bool)" where
  "poll_once d c s w =
     (case drv_tx_enter d s of
        (s1, Inl e) \<Rightarrow> (s1, w, Inl e)
      | (s1, Inr _) \<Rightarrow>
          (case poll_body d c s1 w of
             (s2, w', Inl e) \<Rightarrow> (drv_tx_rollback d s2, w', Inl e)
           | (s2, w', Inr b) \<Rightarrow>
               (case drv_tx_commit d s2 of
                  (s3, Inl e) \<Rightarrow> (s3, w', Inl e)
                | (s3, Inr _) \<Rightarrow> (s3, w', Inr b))))"

section \<open>Waiting\<close>

record env =
  run_at :: "nat \<Rightarrow> bool"
  clock_at :: "nat \<Rightarrow> rat"
  ready_at :: "nat \<Rightarrow> exc + bool"
  drain_at :: "nat \<Rightarrow> exc + nat"

text \<open>
  \<open>_wait_for_notify_or_stop\<close> after the entry drain: returns the counter, the time-outs
  passed to \<open>select\<close>, and how it ended. \<open>None\<close>: the fuel is spent.
\<close>

fun wait_loop :: "nat \<Rightarrow> env \<Rightarrow> rat \<Rightarrow> nat \<Rightarrow> (nat \<times> rat list \<times> (exc + unit)) option" where
  "wait_loop 0 env deadline i = None"
| "wait_loop (Suc fuel) env deadline i =
     (if \<not> run_at env i then Some (Suc i, [], Inr ())
      else let remaining = deadline - clock_at env (i + 1) in
        if remaining \<le> 0 then Some (i + 2, [], Inr ())
        else let slice_timeout = min WAIT_SLICE_SECONDS remaining in
          case ready_at env (i + 2) of
            Inl e \<Rightarrow> Some (i + 3, [slice_timeout], Inl e)
          | Inr r \<Rightarrow>
              if \<not> run_at env (i + 3) then Some (i + 4, [slice_timeout], Inr ())
              else if r then
                (case drain_at env (i + 4) of
                   Inl e \<Rightarrow> Some (i + 5, [slice_timeout], Inl e)
                 | Inr _ \<Rightarrow> Some (i + 5, [slice_timeout], Inr ()))
              else (case wait_loop fuel env deadline (i + 4) of
                      None \<Rightarrow> None
                    | Some (j, ts, r) \<Rightarrow> Some (j, slice_timeout # ts, r)))"

definition wait_for_notify_or_stop ::
  "nat \<Rightarrow> env \<Rightarrow> rat \<Rightarrow> nat \<Rightarrow> (nat \<times> rat list \<times> (exc + unit)) option" where
  "wait_for_notify_or_stop fuel env poll i =
     (case drain_at env i of
        Inl e \<Rightarrow> Some (Suc i, [], Inl e)
      | Inr n \<Rightarrow> if n > 0 then Some (Suc i, [], Inr ())
                 else wait_loop fuel env (clock_at env (Suc i) + poll) (i + 2))"

fun sleep_loop :: "nat \<Rightarrow> env \<Rightarrow> rat \<Rightarrow> nat \<Rightarrow> (nat \<times> rat list) option" where
  "sleep_loop 0 env deadline i = None"
| "sleep_loop (Suc fuel) env deadline i =
     (if \<not> run_at env i then Some (Suc i, [])
      else let remaining = deadline - clock_at env (i + 1) in
        if remaining \<le> 0 then Some (i + 2, [])
        else (case sleep_loop fuel env deadline (i + 2) of
                None \<Rightarrow> None
              | Some (j, ts) \<Rightarrow> Some (j, min WAIT_SLICE_SECONDS remaining # ts)))"

definition sleep_before_reconnect :: "nat \<Rightarrow> env \<Rightarrow> rat \<Rightarrow> nat \<Rightarrow> (nat \<times> rat list) option" where
  "sleep_before_reconnect fuel env poll i = sleep_loop fuel env (clock_at env i + poll) (Suc i)"

section \<open>Sessions and the main loop\<close>

fun session_loop :: "nat \<Rightarrow> 's driver \<Rightarrow> 'w consumer \<Rightarrow> env \<Rightarrow> nat \<Rightarrow> 's \<Rightarrow> 'w
    \<Rightarrow> (nat \<times> 's \<times> 'w \<times> (exc + unit)) option" where
  "session_loop 0 d c env i s w = None"
| "session_loop (Suc fuel) d c env i s w =
     (if \<not> run_at env i then Some (Suc i, s, w, Inr ())
      else case poll_once d c s w of
          (s', w', Inl e) \<Rightarrow> Some (Suc i, s', w', Inl e)
        | (s', w', Inr processed) \<Rightarrow>
            if \<not> run_at env (i + 1) then Some (i + 2, s', w', Inr ())
            else if processed then session_loop fuel d c env (i + 2) s' w'
            else (case wait_for_notify_or_stop fuel env (c_poll_interval c) (i + 2) of
                    None \<Rightarrow> None
                  | Some (j, _, Inl e) \<Rightarrow> Some (j, s', w', Inl e)
                  | Some (j, _, Inr _) \<Rightarrow> session_loop fuel d c env j s' w'))"

definition run_session :: "nat \<Rightarrow> 's driver \<Rightarrow> 'w consumer \<Rightarrow> env \<Rightarrow> nat \<Rightarrow> 's \<Rightarrow> 'w
    \<Rightarrow> (nat \<times> 's \<times> 'w \<times> (exc + unit)) option" where
  "run_session fuel d c env i s w =
     (case drv_connect d s (c_dsn c) True of
        (s1, Inl e) \<Rightarrow> Some (i, s1, w, Inl e)
      | (s1, Inr _) \<Rightarrow>
          (case drv_listen d s1 (''pgque_'' @ c_queue c) of
             (s2, Inl e) \<Rightarrow> Some (i, drv_close d s2, w, Inl e)
           | (s2, Inr _) \<Rightarrow>
               (case session_loop fuel d c env i s2 w of
                  None \<Rightarrow> None
                | Some (j, s3, w', r) \<Rightarrow> Some (j, drv_close d s3, w', r))))"

fun start_loop :: "nat \<Rightarrow> 's driver \<Rightarrow> 'w consumer \<Rightarrow> env \<Rightarrow> nat \<Rightarrow> 's \<Rightarrow> 'w
    \<Rightarrow> (nat \<times> 's \<times> 'w \<times> (exc + unit)) option" where
  "start_loop 0 d c env i s w = None"
| "start_loop (Suc fuel) d c env i s w =
     (if \<not> run_at env i then Some (Suc i, s, w, Inr ())
      else case run_session fuel d c env (Suc i) s w of
          None \<Rightarrow> None
        | Some (j, s', w', Inr _) \<Rightarrow> start_loop fuel d c env j s' w'
        | Some (j, s', w', Inl e) \<Rightarrow>
            if isinstance e CPgqueReceiveOverflowError then Some (j, s', w', Inl e)
            else if isinstance e CPsycopgError \<or> isinstance e CPgqueError then
              (if \<not> run_at env j then Some (Suc j, s', w', Inr ())
               else case sleep_before_reconnect fuel env (c_poll_interval c) (Suc j) of
                   None \<Rightarrow> None
                 | Some (k, _) \<Rightarrow> start_loop fuel d c env k s' w')
            else Some (j, s', w', Inl e))"

text \<open>
  The process around the loop: the flag \<open>_running\<close> and the two signal dispositions.
  \<open>Stop\<close> is the closure that \<open>start\<close> installs.
\<close>

datatype 'g disposition = Original 'g | Stop

record 'g proc =
  p_running :: bool
  p_sigterm :: "'g disposition"
  p_sigint :: "'g disposition"

definition start_enter :: "bool \<Rightarrow> 'g proc \<Rightarrow> 'g proc" where
  "start_enter in_main_thread p =
     (let p1 = p\<lparr>p_running := True\<rparr> in
      if in_main_thread then p1\<lparr>p_sigterm := Stop, p_sigint := Stop\<rparr> else p1)"

definition start_finally :: "bool \<Rightarrow> 'g proc \<Rightarrow> 'g proc \<Rightarrow> 'g proc" where
  "start_finally in_main_thread saved p =
     (let p1 = p\<lparr>p_running := False\<rparr> in
      if in_main_thread then p1\<lparr>p_sigterm := p_sigterm saved, p_sigint := p_sigint saved\<rparr> else p1)"

definition start :: "nat \<Rightarrow> bool \<Rightarrow> 's driver \<Rightarrow> 'w consumer \<Rightarrow> env \<Rightarrow> 'g proc \<Rightarrow> 's \<Rightarrow> 'w
    \<Rightarrow> ('g proc \<times> 's \<times> 'w \<times> (exc + unit)) option" where
  "start fuel in_main_thread d c env p s w =
     (let p1 = start_enter in_main_thread p in
      case start_loop fuel d c env 0 s w of
        None \<Rightarrow> None
      | Some (_, s', w', r) \<Rightarrow> Some (start_finally in_main_thread p p1, s', w', r))"

definition stop :: "'g proc \<Rightarrow> 'g proc" where
  "stop p = p\<lparr>p_running := False\<rparr>"

section \<open>Dispatch as two passes\<close>

text \<open>
  The reference for the message loop: a pass over the messages that only runs handlers and
  says which messages are to be nacked, with their reasons, and a pass that nacks those.
\<close>

fun verdicts :: "(pyval \<Rightarrow> string) \<Rightarrow> 'w consumer \<Rightarrow> message list \<Rightarrow> 'w
    \<Rightarrow> (message \<times> string option) list \<times> 'w \<times> exc option" where
  "verdicts rep c [] w = ([], w, None)"
| "verdicts rep c (m # ms) w =
     (case handler_for c (msg_type m) of
        None \<Rightarrow>
          (case verdicts rep c ms w of (ns, w', r) \<Rightarrow>
             (if c_policy c = ''ack'' then ns
              else (m, Some (''no handler for type='' @ py_str rep (msg_type m))) # ns, w', r))
      | Some h \<Rightarrow>
          (case h m w of
             (w1, None) \<Rightarrow> verdicts rep c ms w1
           | (w1, Some e) \<Rightarrow>
               if isinstance e CException
               then (case verdicts rep c ms w1 of (ns, w', r) \<Rightarrow> ((m, None) # ns, w', r))
               else ([], w1, Some e)))"

fun nack_all :: "'s driver \<Rightarrow> 'w consumer \<Rightarrow> pyval \<Rightarrow> (message \<times> string option) list \<Rightarrow> bool \<Rightarrow> 's
    \<Rightarrow> 's \<times> (exc + bool)" where
  "nack_all d c bid [] nf s = (s, Inr nf)"
| "nack_all d c bid ((m, reason) # ns) nf s =
     (case nack d s bid m (c_retry_after c) reason of
        (s', Inl e) \<Rightarrow> if isinstance e CException then nack_all d c bid ns True s' else (s', Inl e)
      | (s', Inr _) \<Rightarrow> nack_all d c bid ns nf s')"

text \<open>The handlers' effect on the world, message by message.\<close>

definition handle_effect :: "'w consumer \<Rightarrow> message \<Rightarrow> 'w \<Rightarrow> 'w" where
  "handle_effect c m w = (case handler_for c (msg_type m) of None \<Rightarrow> w | Some h \<Rightarrow> fst (h m w))"

lemma verdicts_world: "verdicts rep c ms w = (ns, w', None) \<Longrightarrow> w' = fold (handle_effect c) ms w"
proof (induction ms arbitrary: w ns)
  case (Cons m ms)
  then show ?case
    by (auto simp: handle_effect_def split: option.splits prod.splits if_splits)
qed simp

lemma verdicts_subset: "verdicts rep c ms w = (ns, w', r) \<Longrightarrow> set (map fst ns) \<subseteq> set ms"
proof (induction ms arbitrary: w ns w' r)
  case (Cons m ms)
  then show ?case
    by (simp split: option.splits prod.splits if_splits) (fastforce)+
qed simp

text \<open>
  The loop returns normally exactly when both passes do: every message reaches its handler
  once, in order, whatever the nacks of earlier messages did.
\<close>

lemma dispatch_eq:
  "dispatch d c bid ms nf s w = (s', w', Inr f) \<longleftrightarrow>
   (\<exists>ns. verdicts (drv_rep d) c ms w = (ns, w', None) \<and> nack_all d c bid ns nf s = (s', Inr f))"
proof (induction ms arbitrary: nf s w)
  case (Cons m ms)
  show ?case
  proof (cases "handler_for c (msg_type m)")
    case None
    then show ?thesis
      by (cases "verdicts (drv_rep d) c ms w")
         (auto simp: Cons.IH split: prod.splits sum.splits)
  next
    case (Some h)
    obtain w1 r where h: "h m w = (w1, r)" by (cases "h m w")
    show ?thesis
    proof (cases r)
      case None
      with Some h show ?thesis by (simp add: Cons.IH)
    next
      case (Some e)
      with \<open>handler_for c (msg_type m) = Some h\<close> h show ?thesis
        by (cases "verdicts (drv_rep d) c ms w1")
           (auto simp: Cons.IH split: prod.splits sum.splits)
    qed
  qed
qed auto

lemma nack_all_flag: "nack_all d c bid ns True s = (s', Inr f) \<Longrightarrow> f"
proof (induction ns arbitrary: s)
  case (Cons n ns)
  then show ?case by (cases n) (auto split: prod.splits sum.splits if_splits)
qed simp

text \<open>A predicate that every nack keeps is kept by the loop.\<close>

lemma dispatch_preserves:
  assumes step: "\<And>s m ra rs s' r. I s \<Longrightarrow> nack d s b m ra rs = (s', r) \<Longrightarrow> I s'"
  shows "I s \<Longrightarrow> dispatch d c b ms nf s w = (s', w', r) \<Longrightarrow> I s'"
proof (induction ms arbitrary: nf s w)
  case (Cons m ms)
  obtain s1 r1 where n1: "nack d s b m (c_retry_after c)
      (Some (''no handler for type='' @ py_str (drv_rep d) (msg_type m))) = (s1, r1)" by fastforce
  obtain s2 r2 where n2: "nack d s b m (c_retry_after c) None = (s2, r2)" by fastforce
  have I12: "I s1" "I s2" using step[OF Cons.prems(1)] n1 n2 by blast+
  show ?case
  proof (cases "handler_for c (msg_type m)")
    case None
    show ?thesis
      using Cons.prems Cons.IH I12(1) None n1
      by (cases r1) (auto split: if_splits)
  next
    case (Some h)
    obtain w1 x where h: "h m w = (w1, x)" by fastforce
    show ?thesis
      using Cons.prems Cons.IH I12(2) Some h n2
      by (cases x; cases r2) (auto split: if_splits)
  qed
qed simp

section \<open>What the driver promises: transactions\<close>

text \<open>
  PostgreSQL's transactions as psycopg exposes them: inside a block the durable contents do
  not change; a statement that fails marks the block failed for good; leaving a failed block
  by commit, or any block by rollback, discards it.
\<close>

locale tx_driver =
  fixes d :: "'s driver" and durable :: "'s \<Rightarrow> 'd" and in_tx :: "'s \<Rightarrow> bool"
    and failed :: "'s \<Rightarrow> bool"
  assumes enter: "drv_tx_enter d s = (s', Inr u) \<Longrightarrow> in_tx s' \<and> \<not> failed s' \<and> durable s' = durable s"
    and enter_raise: "drv_tx_enter d s = (s', Inl x) \<Longrightarrow> durable s' = durable s"
    and execute: "in_tx s \<Longrightarrow> drv_execute d s q ps = (s', r) \<Longrightarrow>
      in_tx s' \<and> durable s' = durable s \<and> (failed s \<longrightarrow> failed s')"
    and execute_fails: "in_tx s \<Longrightarrow> drv_execute d s q ps = (s', Inl (PsycopgError e)) \<Longrightarrow> failed s'"
    and execute_raises: "drv_execute d s q ps = (s', Inl x) \<Longrightarrow> isinstance x CException \<Longrightarrow>
      isinstance x CPsycopgError"
    and rollback: "in_tx s \<Longrightarrow> durable (drv_tx_rollback d s) = durable s"
    and commit_failed: "in_tx s \<Longrightarrow> failed s \<Longrightarrow> durable (fst (drv_tx_commit d s)) = durable s"
begin

lemma run_sql_tx:
  "in_tx s \<Longrightarrow> run_sql d wrap s q ps = (s', r) \<Longrightarrow>
     in_tx s' \<and> durable s' = durable s \<and> (failed s \<longrightarrow> failed s')"
  by (auto simp: run_sql_def dest: execute split: prod.splits sum.splits)

lemma nack_tx:
  "in_tx s \<Longrightarrow> nack d s b m ra rs = (s', r) \<Longrightarrow>
     in_tx s' \<and> durable s' = durable s \<and> (failed s \<longrightarrow> failed s')"
  by (auto simp: nack_def dest: run_sql_tx split: prod.splits sum.splits)

lemma call_scalar_tx:
  "in_tx s \<Longrightarrow> call_scalar d s q ps = (s', r) \<Longrightarrow>
     in_tx s' \<and> durable s' = durable s \<and> (failed s \<longrightarrow> failed s')"
  by (auto simp: call_scalar_def dest: run_sql_tx split: prod.splits)

lemma receive_tx:
  "in_tx s \<Longrightarrow> poll_receive d c s = (s', r) \<Longrightarrow>
     in_tx s' \<and> durable s' = durable s \<and> (failed s \<longrightarrow> failed s')"
  by (auto simp: poll_receive_def receive_def receive_coop_def dest: run_sql_tx
      split: prod.splits option.splits)

lemma dispatch_tx:
  assumes "in_tx s" "dispatch d c b ms nf s w = (s', w', r)"
  shows "in_tx s' \<and> durable s' = durable s \<and> (failed s \<longrightarrow> failed s')"
proof -
  let ?I = "\<lambda>x. in_tx x \<and> durable x = durable s \<and> (failed s \<longrightarrow> failed x)"
  have "?I x'" if "?I x" "nack d x b m ra rs = (x', r)" for x m ra rs x' r
    using nack_tx[of x b m ra rs x' r] that by auto
  then show ?thesis using dispatch_preserves[of ?I d b s c ms nf w s' w' r] assms by blast
qed

lemma poll_body_tx:
  assumes "in_tx s" "poll_body d c s w = (s', w', r)"
  shows "in_tx s' \<and> durable s' = durable s \<and> (failed s \<longrightarrow> failed s')"
proof -
  obtain s1 r1 where p: "poll_receive d c s = (s1, r1)" by fastforce
  note t1 = receive_tx[OF assms(1) p]
  show ?thesis
  proof (cases "\<exists>m ms. r1 = Inr (m # ms)")
    case False
    with assms(2) p t1 show ?thesis
      by (auto simp: poll_body_def split: sum.splits list.splits)
  next
    case True
    then obtain m ms where r1: "r1 = Inr (m # ms)" by blast
    obtain s2 w2 r2 where q: "dispatch d c (batch_id m) (m # ms) False s1 w = (s2, w2, r2)"
      by (cases "dispatch d c (batch_id m) (m # ms) False s1 w")
    obtain s3 r3 where a: "ack d s2 (batch_id m) = (s3, r3)" by fastforce
    have t2: "in_tx s2 \<and> durable s2 = durable s1 \<and> (failed s1 \<longrightarrow> failed s2)"
      using dispatch_tx[OF _ q] t1 by simp
    have t3: "in_tx s3 \<and> durable s3 = durable s2 \<and> (failed s2 \<longrightarrow> failed s3)"
      using call_scalar_tx[OF _ a[unfolded ack_def]] t2 by simp
    from assms(2) p r1 q a have "s' = s2 \<or> s' = s3"
      by (auto simp: poll_body_def simp del: dispatch.simps split: sum.splits bool.splits)
    with t1 t2 t3 show ?thesis by auto
  qed
qed

text \<open>A poll that raises from its body leaves the database as it was.\<close>

lemma poll_raise_durable:
  assumes "drv_tx_enter d s = (s1, Inr u)" and "poll_body d c s1 w = (s2, w', Inl e)"
  shows "\<exists>s'. poll_once d c s w = (s', w', Inl e) \<and> durable s' = durable s"
  using assms enter poll_body_tx rollback by (fastforce simp: poll_once_def)

lemma nack_raise_failed:
  assumes "in_tx s" "nack d s b m ra rs = (s', Inl e)" "isinstance e CException"
    and "encode_nack_payload (payload m) = Inr v"
  shows "failed s'"
proof -
  from assms(2,4) obtain e0 where x: "drv_execute d s nack_sql (nack_params (drv_rep d) b m v ra rs) = (s', Inl e0)"
      "e = (case e0 of PsycopgError p \<Rightarrow> plain_wrap p | _ \<Rightarrow> e0)"
    by (auto simp: nack_def run_sql_def bindE_eq_Inl split: prod.splits sum.splits)
  with assms(3) have "isinstance e0 CException"
    by (cases e0) (auto simp: isinstance_Exception)
  with x(1) obtain p where "e0 = PsycopgError p"
    using execute_raises isinstance_psycopg by blast
  with x(1) assms(1) show ?thesis using execute_fails by blast
qed

lemma dispatch_nack_failed:
  assumes "in_tx s" "dispatch d c b ms nf s w = (s', w', Inr True)" "nf \<longrightarrow> failed s"
    and "\<forall>m\<in>set ms. \<exists>v. encode_nack_payload (payload m) = Inr v"
  shows "failed s'"
  using assms
proof (induction ms arbitrary: nf s w)
  case (Cons m ms)
  have step: "failed s1" if "nack d s b m ra rs = (s1, Inl e)" "isinstance e CException" for s1 ra rs e
    using nack_raise_failed[OF Cons.prems(1) that] Cons.prems(4) by auto
  have keep: "in_tx s1 \<and> (failed s \<longrightarrow> failed s1)" if "nack d s b m ra rs = (s1, r)" for s1 ra rs r
    using nack_tx[OF Cons.prems(1) that] by simp
  have rest: "\<forall>m\<in>set ms. \<exists>v. encode_nack_payload (payload m) = Inr v" using Cons.prems(4) by simp
  show ?case
    using Cons.prems(2,3) rest
    by (simp split: option.splits prod.splits sum.splits if_splits)
       (use Cons.IH Cons.prems(1) step keep in blast)+
qed simp

text \<open>
  A poll in which a nack failed in the database leaves the database as it was: the block
  ends without an exception, but PostgreSQL answers the commit of a failed block by a
  rollback, so the nacks that succeeded before are undone with it.
\<close>

lemma poll_nack_failed_durable:
  assumes "drv_tx_enter d s = (s1, Inr u)" "poll_receive d c s1 = (s2, Inr (m # ms))"
    and "dispatch d c (batch_id m) (m # ms) False s2 w = (s3, w', Inr True)"
    and "\<forall>x\<in>set (m # ms). \<exists>v. encode_nack_payload (payload x) = Inr v"
  shows "\<exists>s'. (poll_once d c s w = (s', w', Inr False) \<or> (\<exists>e. poll_once d c s w = (s', w', Inl e)))
    \<and> durable s' = durable s"
proof -
  from assms(1) have s1: "in_tx s1" "durable s1 = durable s" using enter by blast+
  from receive_tx[OF s1(1) assms(2)] s1 have s2: "in_tx s2" "durable s2 = durable s" by auto
  from dispatch_tx[OF s2(1) assms(3)] s2 have s3: "in_tx s3" "durable s3 = durable s" by auto
  have "failed s3" by (rule dispatch_nack_failed[OF s2(1) assms(3) _ assms(4)]) simp
  then have "durable (fst (drv_tx_commit d s3)) = durable s" using commit_failed s3 by simp
  moreover have "poll_body d c s1 w = (s3, w', Inr False)"
    using assms(2,3) by (simp add: poll_body_def)
  ultimately show ?thesis
    using assms(1) by (cases "drv_tx_commit d s3"; cases "snd (drv_tx_commit d s3)")
      (auto simp: poll_once_def)
qed

end

end
