(* ===== verification/ConsumerLoops.thy ===== *)
theory ConsumerLoops
  imports Consumer
begin

text \<open>
  Properties of the consumer of \<open>clients/python/pgque/consumer.py\<close> that need no knowledge of
  the server: registration of handlers, what one poll does, the waits, the error policy of
  the main loop, and the clean-up of \<open>start\<close>. The second half states the interface between
  the consumer and a queue server, and what a poll achieves on any server that keeps it.
\<close>

section \<open>Construction and registration\<close>

text \<open>
  The constructor rejects exactly an unknown handler policy and a
  \<open>dead_interval\<close> without a \<open>subconsumer\<close>; otherwise it stores its arguments and has no
  handler.
\<close>

theorem consumer_init_spec:
  "case consumer_init dsn qname name poll maxm retry policy sub dead of
     Inl e \<Rightarrow> (\<exists>m. e = ValueError m)
       \<and> (policy \<notin> {''nack'', ''ack''} \<or> (dead \<noteq> None \<and> sub = None))
   | Inr c \<Rightarrow> policy \<in> {''nack'', ''ack''} \<and> (dead = None \<or> sub \<noteq> None)
       \<and> c_dsn c = dsn \<and> c_queue c = qname \<and> c_name c = name \<and> c_poll_interval c = poll
       \<and> c_max_messages c = maxm \<and> c_retry_after c = retry \<and> c_policy c = policy
       \<and> c_subconsumer c = sub \<and> c_dead_interval c = dead
       \<and> (\<forall>t. handler_for c t = None)"
  by (auto simp: consumer_init_def handler_for_def split: pyval.splits)

text \<open>
  Registering a handler for a type changes the handler of messages of that type
  only; registering one for "*" changes the handler of exactly the messages whose type has
  none of its own.
\<close>

theorem consumer_on_handler:
  "handler_for (consumer_on c ty f) t =
     (if ty = ''*'' then
        (if \<exists>u. t = PyStr u \<and> c_handlers c u \<noteq> None then handler_for c t else Some f)
      else if t = PyStr ty then Some f else handler_for c t)"
  by (auto simp: consumer_on_def handler_for_def split: pyval.splits option.splits)

section \<open>One poll\<close>

lemma poll_once_True:
  assumes "poll_once d c s w = (s', w', Inr True)"
  obtains s1 s2 m ms ns s3 s4 v where
    "drv_tx_enter d s = (s1, Inr ())" "poll_receive d c s1 = (s2, Inr (m # ms))"
    "verdicts (drv_rep d) c (m # ms) w = (ns, w', None)"
    "nack_all d c (batch_id m) ns False s2 = (s3, Inr False)"
    "ack d s3 (batch_id m) = (s4, Inr v)" "drv_tx_commit d s4 = (s', Inr ())"
proof -
  obtain s1 s4 where e: "drv_tx_enter d s = (s1, Inr ())"
      "poll_body d c s1 w = (s4, w', Inr True)" "drv_tx_commit d s4 = (s', Inr ())"
    using assms by (auto simp: poll_once_def split: prod.splits sum.splits)
  from e(2) obtain s2 m ms where r: "poll_receive d c s1 = (s2, Inr (m # ms))"
    by (auto simp: poll_body_def split: prod.splits sum.splits list.splits)
  with e(2) obtain s3 v where q: "dispatch d c (batch_id m) (m # ms) False s2 w = (s3, w', Inr False)"
      "ack d s3 (batch_id m) = (s4, Inr v)"
    by (auto simp: poll_body_def simp del: dispatch.simps split: prod.splits sum.splits bool.splits)
  from dispatch_eq[THEN iffD1, OF q(1)] show thesis using that e r q by blast
qed

text \<open>
  A poll that receives a batch and returns normally has run the handlers of all
  its messages, each once and in order, whether or not nacks failed on the way: the
  application world is the fold of the handlers' effects over the batch.
\<close>

theorem poll_once_runs_all_handlers:
  assumes "drv_tx_enter d s = (s1, Inr ())" and "poll_receive d c s1 = (s2, Inr msgs)"
    and "poll_once d c s w = (s', w', Inr b)"
  shows "w' = fold (handle_effect c) msgs w"
proof (cases msgs)
  case Nil
  with assms show ?thesis
    by (auto simp: poll_once_def poll_body_def split: prod.splits sum.splits)
next
  case (Cons m ms)
  from assms obtain s3 f where "dispatch d c (batch_id m) msgs False s2 w = (s3, w', Inr f)"
    unfolding Cons
    by (auto simp: poll_once_def poll_body_def simp del: dispatch.simps
        split: prod.splits sum.splits bool.splits)
  then show ?thesis using dispatch_eq verdicts_world by metis
qed

text \<open>
  Claim C32. The message loop is a pass that only runs handlers followed by a pass that
  nacks, in order, exactly the messages whose handler raised or that have no handler under
  the policy "nack": it returns a flag exactly when the two passes do, in the same state.
\<close>

theorem dispatch_two_passes:
  "dispatch d c bid ms False s w = (s', w', Inr f) \<longleftrightarrow>
   (\<exists>ns. verdicts (drv_rep d) c ms w = (ns, w', None)
         \<and> nack_all d c bid ns False s = (s', Inr f))"
  by (rule dispatch_eq)

section \<open>Waiting\<close>

text \<open>
  What \<open>select\<close> promises: when it reports no readiness, its time-out has passed on the
  clock by the next reading.
\<close>

definition select_waits :: "env \<Rightarrow> rat \<Rightarrow> bool" where
  "select_waits env deadline \<longleftrightarrow>
     (\<forall>k. ready_at env (k + 2) = Inr False \<and> clock_at env (k + 1) < deadline \<longrightarrow>
       clock_at env (k + 1) + min WAIT_SLICE_SECONDS (deadline - clock_at env (k + 1))
         \<le> clock_at env (k + 5))"

lemma wait_loop_slices:
  "wait_loop fuel env deadline i = Some (j, ts, r) \<Longrightarrow> t \<in> set ts \<Longrightarrow> 0 < t \<and> t \<le> WAIT_SLICE_SECONDS"
proof (induction fuel env deadline i arbitrary: j ts r rule: wait_loop.induct)
  case (2 fuel env deadline i)
  have pos: "0 < WAIT_SLICE_SECONDS" by (simp add: WAIT_SLICE_SECONDS_def)
  from "2.prems" "2.IH" pos show ?case
    by (auto simp: Let_def split: if_splits sum.splits option.splits)
qed simp

lemma wait_loop_sum:
  "select_waits env deadline \<Longrightarrow> wait_loop fuel env deadline i = Some (j, ts, r) \<Longrightarrow>
     sum_list ts \<le> max 0 (deadline - clock_at env (i + 1))"
proof (induction fuel env deadline i arbitrary: j ts r rule: wait_loop.induct)
  case (2 fuel env deadline i)
  let ?rem = "deadline - clock_at env (i + 1)"
  let ?sl = "min WAIT_SLICE_SECONDS ?rem"
  show ?case
  proof (cases "run_at env i \<and> 0 < ?rem \<and> ready_at env (i + 2) = Inr False \<and> run_at env (i + 3)")
    case False
    then show ?thesis
      using "2.prems"(2) by (auto simp: Let_def split: if_splits sum.splits option.splits)
  next
    case True
    with "2.prems"(2) obtain ts' where ts': "wait_loop fuel env deadline (i + 4) = Some (j, ts', r)"
        "ts = ?sl # ts'"
      by (auto simp: Let_def split: option.splits prod.splits)
    have "sum_list ts' \<le> max 0 (deadline - clock_at env (i + 4 + 1))"
      using "2.IH"[of ?rem ?sl False j ts' r] True ts'(1) "2.prems"(1) by simp
    moreover have "clock_at env (i + 1) + ?sl \<le> clock_at env (i + 5)"
      using True "2.prems"(1) by (simp add: select_waits_def)
    ultimately show ?thesis using True ts'(2) by (auto simp: add.commute)
  qed
qed simp

lemma wait_loop_fuel:
  "select_waits env deadline \<Longrightarrow> deadline - clock_at env (i + 1) \<le> of_nat n * WAIT_SLICE_SECONDS \<Longrightarrow>
     \<exists>res. wait_loop (Suc n) env deadline i = Some res"
proof (induction n arbitrary: i)
  case 0
  then show ?case by (simp add: Let_def)
next
  case (Suc n)
  let ?rem = "deadline - clock_at env (i + 1)"
  show ?case
  proof (cases "0 < ?rem \<and> ready_at env (i + 2) = Inr False")
    case False
    then show ?thesis by (auto simp: Let_def split: sum.splits)
  next
    case True
    then have "clock_at env (i + 1) + min WAIT_SLICE_SECONDS ?rem \<le> clock_at env (i + 5)"
      using Suc.prems(1) by (simp add: select_waits_def)
    moreover have "(of_nat (Suc n) :: rat) * WAIT_SLICE_SECONDS = of_nat n * WAIT_SLICE_SECONDS + WAIT_SLICE_SECONDS"
      by (simp add: distrib_right)
    moreover have "0 \<le> (of_nat n :: rat) * WAIT_SLICE_SECONDS" by (simp add: WAIT_SLICE_SECONDS_def)
    ultimately have "deadline - clock_at env (i + 4 + 1) \<le> of_nat n * WAIT_SLICE_SECONDS"
      using Suc.prems(2) by (auto simp: min_def add.commute split: if_splits)
    from Suc.IH[OF Suc.prems(1) this] obtain res where "wait_loop (Suc n) env deadline (i + 4) = Some res" ..
    then show ?thesis
      using True by (cases res) (auto simp: Let_def simp del: wait_loop.simps(2)
          simp: wait_loop.simps(2)[of "Suc n"])
  qed
qed

text \<open>
  Claim C31. The wait for a notification ends: with a clock that does not run backwards and a
  \<open>select\<close> that waits its time-out, a poll interval of at most \<open>n\<close> slices needs at most
  \<open>n + 1\<close> rounds of the loop, every time-out handed to \<open>select\<close> is positive and at most one
  slice (half a second), and together they do not exceed the poll interval.
\<close>

theorem wait_bounded:
  assumes "select_waits env (clock_at env (Suc i) + poll)" and "mono (clock_at env)"
    and "0 \<le> poll" and "poll \<le> of_nat n * WAIT_SLICE_SECONDS"
  shows "\<exists>j ts r. wait_for_notify_or_stop (Suc n) env poll i = Some (j, ts, r)
     \<and> (\<forall>t\<in>set ts. 0 < t \<and> t \<le> 1 / 2) \<and> sum_list ts \<le> poll"
proof -
  have mono: "clock_at env (Suc i) \<le> clock_at env (i + 2 + 1)" using assms(2) by (simp add: monoD)
  have "\<exists>res. wait_loop (Suc n) env (clock_at env (Suc i) + poll) (i + 2) = Some res"
    by (rule wait_loop_fuel[OF assms(1)]) (use mono assms(4) in linarith)
  then obtain j ts r where w: "wait_loop (Suc n) env (clock_at env (Suc i) + poll) (i + 2) = Some (j, ts, r)"
    by auto
  have "sum_list ts \<le> poll"
    using wait_loop_sum[OF assms(1) w] mono assms(3) by linarith
  moreover have "\<forall>t\<in>set ts. 0 < t \<and> t \<le> 1 / 2"
    using wait_loop_slices[OF w] by (simp add: WAIT_SLICE_SECONDS_def)
  ultimately show ?thesis
    using w assms(3) by (auto simp: wait_for_notify_or_stop_def simp del: wait_loop.simps split: sum.splits)
qed

text \<open>
  Once \<open>stop()\<close> has cleared the flag, a wait in progress makes at most three more
  observations, of which at most one is a \<open>select\<close> of at most one slice: a wait that starts
  before observation \<open>n\<close>, with the flag cleared from \<open>n\<close> on, is over by observation \<open>n + 3\<close>.
\<close>

theorem wait_stops_promptly:
  assumes "wait_loop fuel env deadline i = Some (j, ts, r)"
    and "i \<le> n" and "\<forall>k\<ge>n. \<not> run_at env k"
  shows "j \<le> n + 3"
  using assms
proof (induction fuel env deadline i arbitrary: j ts r rule: wait_loop.induct)
  case (2 fuel env deadline i)
  show ?case
  proof (cases "run_at env i \<and> run_at env (i + 3)")
    case False
    then have "j \<le> i + 4 \<and> (\<not> run_at env i \<longrightarrow> j = Suc i)"
      using "2.prems"(1) by (auto simp: Let_def split: if_splits sum.splits option.splits)
    moreover have "run_at env i \<Longrightarrow> i < n" using "2.prems"(2,3) by (metis linorder_not_less)
    ultimately show ?thesis using "2.prems"(2) by (cases "run_at env i") auto
  next
    case True
    then have "i + 3 < n" using "2.prems"(3) by (metis linorder_not_less)
    then show ?thesis
      using "2.prems" "2.IH" True
      by (auto simp: Let_def split: if_splits sum.splits option.splits prod.splits)
  qed
qed simp

section \<open>Sessions and the error policy\<close>

definition transient :: "exc \<Rightarrow> bool" where
  "transient e \<longleftrightarrow> (isinstance e CPsycopgError \<or> isinstance e CPgqueError)
     \<and> \<not> isinstance e CPgqueReceiveOverflowError"

lemma start_loop_raises:
  "start_loop fuel d c env i s w = Some (j, s', w', Inl e) \<Longrightarrow> \<not> transient e"
proof (induction fuel d c env i s w arbitrary: j s' w' e rule: start_loop.induct)
  case (2 fuel d c env i s w)
  from "2.prems" "2.IH" show ?case
    by (auto simp: transient_def split: if_splits option.splits prod.splits sum.splits)
qed simp

lemma sleep_loop_stops:
  "sleep_loop fuel env deadline i = Some (j, ts) \<Longrightarrow> i < j"
proof (induction fuel env deadline i arbitrary: j ts rule: sleep_loop.induct)
  case (2 fuel env deadline i)
  then show ?case
    by (fastforce simp: Let_def split: if_splits option.splits prod.splits)
qed simp

lemma sleep_loop_slices:
  "sleep_loop fuel env deadline i = Some (j, ts) \<Longrightarrow> t \<in> set ts \<Longrightarrow> 0 < t \<and> t \<le> WAIT_SLICE_SECONDS"
proof (induction fuel env deadline i arbitrary: j ts rule: sleep_loop.induct)
  case (2 fuel env deadline i)
  have pos: "0 < WAIT_SLICE_SECONDS" by (simp add: WAIT_SLICE_SECONDS_def)
  from 2 pos show ?case
    by (auto simp: Let_def split: if_splits option.splits prod.splits)
qed simp

lemma session_loop_ends:
  "session_loop fuel d c env i s w = Some (j, s', w', Inr u) \<Longrightarrow> \<exists>k. \<not> run_at env k"
proof (induction fuel d c env i s w arbitrary: j s' w' rule: session_loop.induct)
  case (2 fuel d c env i s w)
  from "2.prems" "2.IH" show ?case
    by (auto split: if_splits option.splits prod.splits sum.splits)
qed simp

lemma start_loop_ends:
  "start_loop fuel d c env i s w = Some (j, s', w', Inr u) \<Longrightarrow> \<exists>k. \<not> run_at env k"
proof (induction fuel d c env i s w arbitrary: j s' w' rule: start_loop.induct)
  case (2 fuel d c env i s w)
  from "2.prems" "2.IH" show ?case
    by (auto split: if_splits option.splits prod.splits sum.splits)
qed simp

text \<open>
  Claim C29. The error policy of \<open>start\<close>: no transient database error (any psycopg error or
  error of the package other than a receive overflow) ever leaves it, and it returns
  normally only after the running flag was seen cleared. However it ends, the flag is
  cleared and the signal dispositions are those it found.
\<close>

theorem start_error_policy:
  assumes "start fuel main d c env p s w = Some (p', s', w', r)"
  shows "\<not> p_running p' \<and> p_sigterm p' = p_sigterm p \<and> p_sigint p' = p_sigint p
    \<and> (case r of Inl e \<Rightarrow> \<not> transient e | Inr _ \<Rightarrow> \<exists>k. \<not> run_at env k)"
proof -
  from assms obtain j where l: "start_loop fuel d c env 0 s w = Some (j, s', w', r)"
      and p': "p' = start_finally main p (start_enter main p)"
    by (auto simp: start_def Let_def split: option.splits prod.splits)
  have "\<not> p_running p' \<and> p_sigterm p' = p_sigterm p \<and> p_sigint p' = p_sigint p"
    unfolding p' by (simp add: start_finally_def start_enter_def Let_def)
  moreover have "case r of Inl e \<Rightarrow> \<not> transient e | Inr _ \<Rightarrow> \<exists>k. \<not> run_at env k"
    using l by (cases r) (auto dest: start_loop_raises start_loop_ends)
  ultimately show ?thesis by blast
qed

text \<open>
  Claim C30. A receive overflow is not retried: if the first poll of a consumer that
  connects and listens overflows, \<open>start\<close> raises that error at once, after one connection,
  with no handler run and the transaction rolled back.
\<close>

theorem start_propagates_overflow:
  assumes "run_at env 0" and "run_at env 1"
    and "drv_connect d s (c_dsn c) True = (s1, Inr ())"
    and "drv_listen d s1 (''pgque_'' @ c_queue c) = (s2, Inr ())"
    and "drv_tx_enter d s2 = (s3, Inr ())"
    and "poll_receive d c s3 = (s4, Inl (PgqueReceiveOverflowError x))"
  shows "start (Suc (Suc fuel)) main d c env p s w =
    Some (start_finally main p (start_enter main p), drv_close d (drv_tx_rollback d s4), w,
          Inl (PgqueReceiveOverflowError x))"
proof -
  have "poll_once d c s2 w = (drv_tx_rollback d s4, w, Inl (PgqueReceiveOverflowError x))"
    using assms by (simp add: poll_once_def poll_body_def)
  then have "run_session (Suc fuel) d c env 1 s w =
      Some (2, drv_close d (drv_tx_rollback d s4), w, Inl (PgqueReceiveOverflowError x))"
    using assms by (simp add: run_session_def)
  then show ?thesis
    using assms(1) by (simp add: start_def Let_def isinstance_overflow)
qed

section \<open>The interface to a queue server\<close>

text \<open>
  What the consumer relies on when it acks a batch: a batch that \<open>receive\<close> opened stays open
  while its messages are nacked, a nack that succeeds settles its message (retry queue or
  dead letters), an ack that returns finishes the batch, and a commit keeps both.
\<close>

locale batch_server =
  fixes d :: "'s driver" and qname :: string and cname :: string
    and inv :: "'s \<Rightarrow> bool" and open_batch :: "'s \<Rightarrow> pyval \<Rightarrow> message list \<Rightarrow> bool"
    and settled :: "'s \<Rightarrow> message \<Rightarrow> bool" and finished :: "'s \<Rightarrow> pyval \<Rightarrow> message list \<Rightarrow> bool"
    and advanced :: "'s \<Rightarrow> pyval \<Rightarrow> message list \<Rightarrow> bool"
  assumes enter_inv: "inv s \<Longrightarrow> drv_tx_enter d s = (s', Inr u) \<Longrightarrow> inv s'"
    and receive_opens: "inv s \<Longrightarrow> receive d s qname cname n = (s', Inr (m # ms)) \<Longrightarrow>
      distinct (map msg_id (m # ms)) \<Longrightarrow> open_batch s' (batch_id m) (m # ms)"
    and nack_keeps: "open_batch s b ms \<Longrightarrow> x \<in> set ms \<Longrightarrow> nack d s b x ra rs = (s', Inr u) \<Longrightarrow>
      open_batch s' b ms \<and> settled s' x"
    and nack_mono: "open_batch s b ms \<Longrightarrow> x \<in> set ms \<Longrightarrow> nack d s b x ra rs = (s', Inr u) \<Longrightarrow>
      settled s y \<Longrightarrow> settled s' y"
    and ack_finishes: "open_batch s b ms \<Longrightarrow> ack d s b = (s', Inr v) \<Longrightarrow> finished s' b ms"
    and ack_mono: "open_batch s b ms \<Longrightarrow> ack d s b = (s', Inr v) \<Longrightarrow> settled s y \<Longrightarrow> settled s' y"
    and commit_advanced: "finished s b ms \<Longrightarrow> drv_tx_commit d s = (s', Inr u) \<Longrightarrow> advanced s' b ms"
    and commit_mono: "finished s b ms \<Longrightarrow> drv_tx_commit d s = (s', Inr u) \<Longrightarrow> settled s y \<Longrightarrow> settled s' y"
begin

lemma nack_all_settles:
  assumes "open_batch s b ms" "set (map fst ns) \<subseteq> set ms"
    and "nack_all d c b ns False s = (s', Inr False)"
  shows "open_batch s' b ms \<and> (\<forall>x\<in>set (map fst ns). settled s' x)
    \<and> (\<forall>y. settled s y \<longrightarrow> settled s' y)"
  using assms
proof (induction ns arbitrary: s)
  case (Cons n ns)
  obtain x reason where n: "n = (x, reason)" by (cases n)
  obtain s1 r where k: "nack d s b x (c_retry_after c) reason = (s1, r)" by fastforce
  from Cons.prems(3) n k obtain u where r: "r = Inr u"
    by (auto split: sum.splits if_splits dest: nack_all_flag)
  have x: "x \<in> set ms" using Cons.prems(2) n by simp
  note keep = nack_keeps[OF Cons.prems(1) x k[unfolded r]]
  have mono: "settled s y \<Longrightarrow> settled s1 y" for y
    using nack_mono[OF Cons.prems(1) x k[unfolded r]] by blast
  have "nack_all d c b ns False s1 = (s', Inr False)" using Cons.prems(3) n k r by simp
  from Cons.IH[OF _ _ this] keep Cons.prems(2) mono show ?case by (auto simp: n)
qed simp

lemma poll_True_settles:
  assumes "inv s" and "c_subconsumer c = None" "c_queue c = qname" "c_name c = cname"
    and "poll_once d c s w = (s', w', Inr True)"
  obtains s1 s2 m ms ns where "drv_tx_enter d s = (s1, Inr ())"
    "receive d s1 qname cname (c_max_messages c) = (s2, Inr (m # ms))"
    "verdicts (drv_rep d) c (m # ms) w = (ns, w', None)"
    "distinct (map msg_id (m # ms)) \<longrightarrow>
       (\<forall>x\<in>set (map fst ns). settled s' x) \<and> advanced s' (batch_id m) (m # ms)"
proof -
  from assms(5) obtain s1 s2 m ms ns s3 s4 v where p:
      "drv_tx_enter d s = (s1, Inr ())" "poll_receive d c s1 = (s2, Inr (m # ms))"
      "verdicts (drv_rep d) c (m # ms) w = (ns, w', None)"
      "nack_all d c (batch_id m) ns False s2 = (s3, Inr False)"
      "ack d s3 (batch_id m) = (s4, Inr v)" "drv_tx_commit d s4 = (s', Inr ())"
    by (rule poll_once_True)
  have rcv: "receive d s1 qname cname (c_max_messages c) = (s2, Inr (m # ms))"
    using p(2) assms(2-4) by (simp add: poll_receive_def)
  have "(\<forall>x\<in>set (map fst ns). settled s' x) \<and> advanced s' (batch_id m) (m # ms)"
    if dist: "distinct (map msg_id (m # ms))"
  proof -
    have o2: "open_batch s2 (batch_id m) (m # ms)"
      using receive_opens[OF enter_inv[OF assms(1) p(1)] rcv dist] .
    have o3: "open_batch s3 (batch_id m) (m # ms)" "\<forall>x\<in>set (map fst ns). settled s3 x"
      using nack_all_settles[OF o2 verdicts_subset[OF p(3)] p(4)] by blast+
    note fin = ack_finishes[OF o3(1) p(5)]
    show ?thesis
      using o3(2) ack_mono[OF o3(1) p(5)] commit_mono[OF fin p(6)] commit_advanced[OF fin p(6)] by blast
  qed
  then show thesis using that[OF p(1) rcv p(3)] by blast
qed

end

end
