(* ===== verification/Snapshots.thy ===== *)
theory Snapshots
  imports Prelude "HOL-Library.Multiset"
begin

text \<open>
  The selection of a batch's events, \<open>pgque.batch_event_sql\<close> of \<open>devel/sql/pgque.sql\<close>:
  the rows of the event tables whose transaction is invisible in the snapshot of the last
  tick and visible in the snapshot of the current one. The SQL scans a range of transaction
  ids and an explicit list of older ones; the reference definition is the "simplest
  solution" of the function's comment. Snapshots and their visibility are PostgreSQL's
  \<open>pg_snapshot\<close> with \<open>pg_visible_in_snapshot\<close>.
\<close>

section \<open>Events and snapshots\<close>

record evbody =
  ev_id :: int
  ev_time :: int
  ev_owner :: "int option"
  ev_retry :: "int option"
  ev_type :: "string option"
  ev_data :: "string option"
  ev_extra1 :: "string option"
  ev_extra2 :: "string option"
  ev_extra3 :: "string option"
  ev_extra4 :: "string option"

record event = evbody +
  ev_txid :: int

record snapshot =
  snap_xmin :: int
  snap_xmax :: int
  snap_xip :: "int list"

definition pg_visible_in_snapshot :: "int \<Rightarrow> snapshot \<Rightarrow> bool" where
  "pg_visible_in_snapshot x s \<longleftrightarrow>
     (if x < snap_xmin s then True
      else if x \<ge> snap_xmax s then False
      else x \<notin> set (snap_xip s))"

definition snap_wf :: "snapshot \<Rightarrow> bool" where
  "snap_wf s \<longleftrightarrow> snap_xmin s \<le> snap_xmax s \<and> sorted_wrt (<) (snap_xip s)
     \<and> (\<forall>x\<in>set (snap_xip s). snap_xmin s \<le> x \<and> x < snap_xmax s)"

section \<open>The statement that batch_event_sql builds\<close>

text \<open>
  The loop over the transactions that were running at the last tick and are not running at
  the current one, in descending order: it lowers the start of the range while the next one
  is at most 100 below it, and lists the others.
\<close>

fun load_older :: "int \<Rightarrow> int list \<Rightarrow> int \<times> int list" where
  "load_older tx_start [] = (tx_start, [])"
| "load_older tx_start (x # xs) =
     (if tx_start - 100 \<le> x then load_older x xs
      else (case load_older tx_start xs of (st, arr) \<Rightarrow> (st, x # arr)))"

definition older_ids :: "snapshot \<Rightarrow> snapshot \<Rightarrow> int list" where
  "older_ids prv cur = rev (sort (filter (\<lambda>x. x \<notin> set (snap_xip cur)) (snap_xip prv)))"

definition retry_expr :: "int \<Rightarrow> event \<Rightarrow> bool" where
  "retry_expr sub e \<longleftrightarrow> ev_owner e = None \<or> ev_owner e = Some sub"

text \<open>The part of the \<open>union all\<close> for one event table.\<close>

definition batch_part ::
  "int \<Rightarrow> int list \<Rightarrow> snapshot \<Rightarrow> snapshot \<Rightarrow> int \<Rightarrow> event list \<Rightarrow> event list" where
  "batch_part tx_start arr prv cur sub tbl =
     filter (\<lambda>e. tx_start \<le> ev_txid e \<and> ev_txid e \<le> snap_xmax cur
                 \<and> pg_visible_in_snapshot (ev_txid e) cur
                 \<and> \<not> pg_visible_in_snapshot (ev_txid e) prv
                 \<and> retry_expr sub e) tbl
     @ (if arr = [] then [] else filter (\<lambda>e. ev_txid e \<in> set arr \<and> retry_expr sub e) tbl)"

definition batch_event_sql :: "snapshot \<Rightarrow> snapshot \<Rightarrow> int \<Rightarrow> event list list \<Rightarrow> event list" where
  "batch_event_sql prv cur sub tables =
     (case load_older (snap_xmax prv) (older_ids prv cur) of
        (tx_start, arr) \<Rightarrow>
          sort_key ev_id (concat (map (batch_part tx_start arr prv cur sub) tables)))"

section \<open>The reference selection\<close>

definition in_window :: "snapshot \<Rightarrow> snapshot \<Rightarrow> int \<Rightarrow> bool" where
  "in_window prv cur x \<longleftrightarrow> snap_xmin prv \<le> x \<and> x \<le> snap_xmax cur
     \<and> \<not> pg_visible_in_snapshot x prv \<and> pg_visible_in_snapshot x cur"

definition batch_reference :: "snapshot \<Rightarrow> snapshot \<Rightarrow> int \<Rightarrow> event list list \<Rightarrow> event list" where
  "batch_reference prv cur sub tables =
     filter (\<lambda>e. in_window prv cur (ev_txid e) \<and> retry_expr sub e) (concat tables)"

section \<open>The two agree\<close>

lemma load_older_le: "load_older st xs = (st', arr) \<Longrightarrow> sorted_wrt (>) (st # xs) \<Longrightarrow> st' \<le> st"
proof (induction st xs arbitrary: st' arr rule: load_older.induct)
  case (2 st x xs)
  show ?case
  proof (cases "st - 100 \<le> x")
    case True
    then have "st' \<le> x" using "2.IH"(1)[OF True, of st' arr] "2.prems" by simp
    then show ?thesis using "2.prems" by simp
  next
    case False
    then show ?thesis using "2.IH"(2)[OF False] "2.prems" by (auto split: prod.splits)
  qed
qed simp

text \<open>Every id is either in the range or in the list, and the list lies below the range.\<close>

lemma load_older_split:
  assumes "load_older st xs = (st', arr)" and "sorted_wrt (>) (st # xs)"
  shows "x \<in> set xs \<Longrightarrow> st' \<le> x \<or> x \<in> set arr" and "x \<in> set arr \<Longrightarrow> x < st' \<and> x \<in> set xs"
proof -
  have "(\<forall>x\<in>set xs. st' \<le> x \<or> x \<in> set arr) \<and> (\<forall>x\<in>set arr. x < st' \<and> x \<in> set xs)"
    using assms
  proof (induction st xs arbitrary: st' arr rule: load_older.induct)
    case (2 st x xs)
    show ?case
    proof (cases "st - 100 \<le> x")
      case True
      with 2 have "load_older x xs = (st', arr)" "sorted_wrt (>) (x # xs)" by simp_all
      with "2.IH"(1)[OF True] load_older_le[of x xs st' arr] show ?thesis by auto
    next
      case False
      with "2.prems" obtain arr' where a: "load_older st xs = (st', arr')" "arr = x # arr'"
        by (auto split: prod.splits)
      have s: "sorted_wrt (>) (st # xs)" using "2.prems" by simp
      have same: "st' = st"
        using a(1) False "2.prems"(2)
      proof (induction xs arbitrary: arr')
        case (Cons y ys)
        from Cons.prems have "\<not> st - 100 \<le> y" by auto
        with Cons show ?case by (auto split: prod.splits)
      qed simp
      show ?thesis using "2.IH"(2)[OF False a(1) s] a(2) same "2.prems" by auto
    qed
  qed simp
  then show "x \<in> set xs \<Longrightarrow> st' \<le> x \<or> x \<in> set arr" "x \<in> set arr \<Longrightarrow> x < st' \<and> x \<in> set xs"
    by blast+
qed

lemma sorted_wrt_rev_less: "sorted_wrt (<) xs \<Longrightarrow> sorted_wrt (>) (rev (xs :: int list))"
  by (simp add: sorted_wrt_rev)

lemma older_ids_desc:
  assumes "snap_wf prv"
  shows "sorted_wrt (>) (snap_xmax prv # older_ids prv cur)"
proof -
  let ?f = "filter (\<lambda>x. x \<notin> set (snap_xip cur)) (snap_xip prv)"
  have s: "sorted_wrt (<) ?f" using assms by (auto simp: snap_wf_def intro: sorted_wrt_filter)
  then have "sort ?f = ?f" by (simp add: sorted_sort_id strict_sorted_iff)
  with s have "sorted_wrt (>) (older_ids prv cur)"
    by (simp add: older_ids_def sorted_wrt_rev_less)
  moreover have "\<forall>x\<in>set (older_ids prv cur). x < snap_xmax prv"
    using assms by (auto simp: older_ids_def snap_wf_def)
  ultimately show ?thesis by simp
qed

lemma set_older_ids: "set (older_ids prv cur) = set (snap_xip prv) - set (snap_xip cur)"
  by (auto simp: older_ids_def)

text \<open>The two filters of one table are the reference filter, each row taken once.\<close>

lemma window_split:
  assumes wf: "snap_wf prv" "snap_wf cur" and mono: "snap_xmax prv \<le> snap_xmax cur"
    and lo: "load_older (snap_xmax prv) (older_ids prv cur) = (st, arr)"
  shows "in_window prv cur x \<longleftrightarrow>
    (st \<le> x \<and> x \<le> snap_xmax cur \<and> pg_visible_in_snapshot x cur \<and> \<not> pg_visible_in_snapshot x prv)
    \<or> x \<in> set arr"
    and "x \<in> set arr \<Longrightarrow> x < st"
proof -
  note desc = older_ids_desc[OF wf(1), of cur]
  note split = load_older_split[OF lo desc]
  show "x \<in> set arr \<Longrightarrow> x < st" using split(2) by blast
  have le: "st \<le> snap_xmax prv" using load_older_le[OF lo desc] .
  have arr_ok: "in_window prv cur x" if "x \<in> set arr"
  proof -
    have "x \<in> set (snap_xip prv)" "x \<notin> set (snap_xip cur)"
      using split(2)[OF that] set_older_ids by auto
    then show ?thesis
      using wf mono by (auto simp: in_window_def pg_visible_in_snapshot_def snap_wf_def)
  qed
  have "st \<le> x \<or> x \<in> set arr" if w: "in_window prv cur x"
  proof (cases "snap_xmax prv \<le> x")
    case True
    then show ?thesis using le by simp
  next
    case False
    then have "x \<in> set (snap_xip prv)" "x \<notin> set (snap_xip cur)"
      using w wf by (auto simp: in_window_def pg_visible_in_snapshot_def snap_wf_def split: if_splits)
    then show ?thesis using split(1) set_older_ids by blast
  qed
  then show "in_window prv cur x \<longleftrightarrow>
    (st \<le> x \<and> x \<le> snap_xmax cur \<and> pg_visible_in_snapshot x cur \<and> \<not> pg_visible_in_snapshot x prv)
    \<or> x \<in> set arr"
    using arr_ok by (auto simp: in_window_def pg_visible_in_snapshot_def split: if_splits)
qed

lemma mset_filter_disjoint:
  "(\<And>x. P x \<Longrightarrow> \<not> Q x) \<Longrightarrow> mset (filter P xs) + mset (filter Q xs) = mset (filter (\<lambda>x. P x \<or> Q x) xs)"
  by (induction xs) auto

lemma batch_part_mset:
  assumes "snap_wf prv" "snap_wf cur" "snap_xmax prv \<le> snap_xmax cur"
    and "load_older (snap_xmax prv) (older_ids prv cur) = (st, arr)"
  shows "mset (batch_part st arr prv cur sub tbl) =
    mset (filter (\<lambda>e. in_window prv cur (ev_txid e) \<and> retry_expr sub e) tbl)"
proof -
  note w = window_split[OF assms]
  let ?P = "\<lambda>e. st \<le> ev_txid e \<and> ev_txid e \<le> snap_xmax cur \<and> pg_visible_in_snapshot (ev_txid e) cur
      \<and> \<not> pg_visible_in_snapshot (ev_txid e) prv \<and> retry_expr sub e"
  let ?Q = "\<lambda>e. ev_txid e \<in> set arr \<and> retry_expr sub e"
  have "mset (batch_part st arr prv cur sub tbl) = mset (filter ?P tbl) + mset (filter ?Q tbl)"
    by (simp add: batch_part_def)
  also have "\<dots> = mset (filter (\<lambda>e. ?P e \<or> ?Q e) tbl)"
    using w(2) by (intro mset_filter_disjoint) force
  also have "(\<lambda>e. ?P e \<or> ?Q e) = (\<lambda>e. in_window prv cur (ev_txid e) \<and> retry_expr sub e)"
    using w(1) by (intro ext) blast
  finally show ?thesis .
qed

lemma batch_event_sql_mset:
  assumes "snap_wf prv" "snap_wf cur" "snap_xmax prv \<le> snap_xmax cur"
  shows "mset (batch_event_sql prv cur sub tables) = mset (batch_reference prv cur sub tables)"
proof -
  obtain st arr where lo: "load_older (snap_xmax prv) (older_ids prv cur) = (st, arr)"
    by (cases "load_older (snap_xmax prv) (older_ids prv cur)")
  have "mset (concat (map (batch_part st arr prv cur sub) tables)) =
      mset (filter (\<lambda>e. in_window prv cur (ev_txid e) \<and> retry_expr sub e) (concat tables))"
    by (induction tables) (simp_all add: batch_part_mset[OF assms lo])
  then show ?thesis by (simp add: batch_event_sql_def lo batch_reference_def)
qed

lemma batch_event_sql_set:
  assumes "snap_wf prv" "snap_wf cur" "snap_xmax prv \<le> snap_xmax cur"
  shows "set (batch_event_sql prv cur sub tables) = set (batch_reference prv cur sub tables)"
  using batch_event_sql_mset[OF assms] by (metis set_mset_mset)

section \<open>Consecutive batches\<close>

text \<open>
  Snapshots taken one after the other: what is visible stays visible, and the bounds grow.
\<close>

definition snap_le :: "snapshot \<Rightarrow> snapshot \<Rightarrow> bool" where
  "snap_le s t \<longleftrightarrow> snap_xmin s \<le> snap_xmin t \<and> snap_xmax s \<le> snap_xmax t
     \<and> (\<forall>x\<in>set (snap_xip t). x < snap_xmax s \<longrightarrow> x \<in> set (snap_xip s))"

lemma snap_le_visible:
  "snap_wf s \<Longrightarrow> snap_wf t \<Longrightarrow> snap_le s t \<Longrightarrow> pg_visible_in_snapshot x s \<Longrightarrow> pg_visible_in_snapshot x t"
  by (force simp: pg_visible_in_snapshot_def snap_le_def snap_wf_def split: if_splits)

lemma snap_le_refl: "snap_le s s"
  by (simp add: snap_le_def)

lemma snap_le_trans: "snap_le s t \<Longrightarrow> snap_le t u \<Longrightarrow> snap_le s u"
  by (auto simp: snap_le_def)

lemma in_window_simp:
  "snap_wf prv \<Longrightarrow> snap_wf cur \<Longrightarrow>
   in_window prv cur x \<longleftrightarrow> \<not> pg_visible_in_snapshot x prv \<and> pg_visible_in_snapshot x cur"
  by (auto simp: in_window_def pg_visible_in_snapshot_def snap_wf_def split: if_splits)

lemma in_window_chain:
  assumes "snap_wf s" "snap_wf t" "snap_wf u" "snap_le s t" "snap_le t u"
  shows "in_window s u x \<longleftrightarrow> in_window s t x \<or> in_window t u x"
    and "in_window s t x \<Longrightarrow> \<not> in_window t u x"
  using assms snap_le_visible[of s t x] snap_le_visible[of t u x] by (auto simp: in_window_simp)

text \<open>The batches of a consumer that walks over a list of ticks, one after the other.\<close>

fun batches :: "snapshot list \<Rightarrow> int \<Rightarrow> event list list \<Rightarrow> event list" where
  "batches (s # t # ts) sub tables = batch_event_sql s t sub tables @ batches (t # ts) sub tables"
| "batches _ sub tables = []"

definition snap_chain :: "snapshot list \<Rightarrow> bool" where
  "snap_chain ss \<longleftrightarrow> (\<forall>s\<in>set ss. snap_wf s) \<and> sorted_wrt snap_le ss"

lemma batches_mset:
  assumes "snap_chain (s # ts)"
  shows "mset (batches (s # ts) sub tables) = mset (batch_reference s (last (s # ts)) sub tables)"
  using assms
proof (induction ts arbitrary: s)
  case Nil
  have "\<not> in_window s s x" for x using Nil by (simp add: in_window_simp snap_chain_def)
  then show ?case by (simp add: batch_reference_def)
next
  case (Cons t ts)
  let ?u = "last (t # ts)"
  have wf: "snap_wf s" "snap_wf t" "snap_wf ?u" and le: "snap_le s t"
    using Cons.prems by (auto simp: snap_chain_def)
  have tu: "snap_le t ?u"
    using Cons.prems by (cases ts) (auto simp: snap_chain_def snap_le_refl)
  note ch = in_window_chain[OF wf le tu]
  let ?P = "\<lambda>e. in_window s t (ev_txid e) \<and> retry_expr sub e"
  let ?Q = "\<lambda>e. in_window t ?u (ev_txid e) \<and> retry_expr sub e"
  have "mset (batches (s # t # ts) sub tables) =
      mset (filter ?P (concat tables)) + mset (filter ?Q (concat tables))"
    using Cons.IH[of t] Cons.prems batch_event_sql_mset[OF wf(1,2)] le
    by (simp add: batch_reference_def snap_chain_def snap_le_def)
  also have "\<dots> = mset (filter (\<lambda>e. ?P e \<or> ?Q e) (concat tables))"
    using ch(2) by (intro mset_filter_disjoint) blast
  also have "(\<lambda>e. ?P e \<or> ?Q e) = (\<lambda>e. in_window s ?u (ev_txid e) \<and> retry_expr sub e)"
    using ch(1) by (intro ext) blast
  finally show ?case by (simp add: batch_reference_def)
qed

section \<open>What the batches hold\<close>

text \<open>
  Claim C4. The query that \<open>batch_event_sql\<close> generates (the transactions between the two
  snapshots as a range, the earlier ones one by one, the range cut per table) returns, with
  multiplicity, exactly the reference set: the rows of every table whose transaction the later
  snapshot sees and the earlier does not, for this subscription, ordered by event id.
\<close>

theorem batch_sql_is_reference:
  assumes "snap_wf prv" "snap_wf cur" "snap_xmax prv \<le> snap_xmax cur"
  shows "mset (batch_event_sql prv cur sub tables) = mset (batch_reference prv cur sub tables)
    \<and> sorted (map ev_id (batch_event_sql prv cur sub tables))"
  using batch_event_sql_mset[OF assms] by (simp add: batch_event_sql_def split: prod.splits)

text \<open>
  Claim C3. Exactly once over a run of ticks: the batches between successive ticks together hold
  every event of the window from the first snapshot to the last as often as the tables hold it.
\<close>

theorem batches_exactly_once:
  assumes "snap_chain (s # ts)"
  shows "mset (batches (s # ts) sub tables) =
    mset (filter (\<lambda>e. \<not> pg_visible_in_snapshot (ev_txid e) s \<and> pg_visible_in_snapshot (ev_txid e) (last (s # ts))
                   \<and> retry_expr sub e) (concat tables))"
proof -
  have "snap_wf s" "snap_wf (last (s # ts))" using assms by (simp_all add: snap_chain_def)
  then show ?thesis by (simp add: batches_mset[OF assms] batch_reference_def in_window_simp del: last.simps)
qed

end
