(* ===== verification/Server.thy ===== *)
theory Server
  imports Snapshots Errors "HOL-Library.List_Lexorder" "HOL-Library.Char_ord"
begin

text \<open>
  The SQL functions of \<open>devel/sql/pgque.sql\<close> that the clients call. A database is the
  tables (rows as records, in lists) and the sequences, which a rollback does not undo. A
  function takes what PostgreSQL supplies to a statement (clock, transaction id, snapshot,
  whether the session role is "replica", the casts to jsonb and interval, the text of an interval,
  the hash of a text) and acts on a database; a raised exception keeps the
  sequence values already drawn, and the caller's transaction discards the table changes.
  The events of a queue are one table here; theory Rotation has the ring of tables of the code
  and shows that a batch cannot tell the two apart.
\<close>

section \<open>Rows\<close>

record qrow =
  queue_id :: int
  queue_name :: string
  queue_external_ticker :: bool
  queue_disable_insert :: bool
  queue_ticker_paused :: bool
  queue_ticker_max_count :: int
  queue_ticker_max_lag :: int
  queue_ticker_idle_period :: int
  queue_rotation_period :: int
  queue_max_retries :: "int option"
  queue_extra_maint :: "string list option"
  queue_events :: "event list"

record tick =
  tick_queue :: int
  tick_id :: int
  tick_time :: int
  tick_snapshot :: snapshot
  tick_event_seq :: int

record co_row =
  co_id :: int
  co_name :: string

datatype sub_role = Role_normal | Role_coop_main | Role_coop_member

record sub_row =
  sub_id :: int
  sub_queue :: int
  sub_consumer :: int
  sub_last_tick :: "int option"
  sub_active :: int
  sub_batch :: "int option"
  sub_next_tick :: "int option"
  sub_role :: sub_role

record retry_row =
  rq_retry_after :: int
  rq_queue :: int
  rq_event :: evbody

record dead_row =
  dl_id :: int
  dl_queue_id :: int
  dl_consumer_id :: int
  dl_time :: int
  dl_reason :: "string option"
  dl_event :: event

record part_row =
  pa_queue :: int
  pa_consumer :: string
  pa_n :: int

record slot_row =
  sl_queue :: int
  sl_consumer :: string
  sl_slot :: int
  sl_owner :: "string option"
  sl_until :: "int option"
  sl_ttl :: "int option"
  sl_epoch :: int

record idem_row =
  id_queue :: int
  id_key :: string
  id_event :: "int option"
  id_expires :: int

record sq =
  last_value :: int
  is_called :: bool

record tables =
  t_queues :: "qrow list"
  t_ticks :: "tick list"
  t_consumers :: "co_row list"
  t_subs :: "sub_row list"
  t_retry :: "retry_row list"
  t_dead :: "dead_row list"
  t_parts :: "part_row list"
  t_slots :: "slot_row list"
  t_idem :: "idem_row list"

record db = tables +
  s_batch :: sq
  s_event :: "int \<Rightarrow> sq"
  s_tick :: "int \<Rightarrow> sq"
  s_consumer :: sq
  s_sub :: sq
  s_dead :: sq
  s_queue :: sq

text \<open>What PostgreSQL supplies to a statement.\<close>

record pgctx =
  pg_now :: int
  pg_clock :: int
  pg_xid :: int
  pg_snapshot :: snapshot
  pg_replica :: bool
  pg_jsonb_text :: "string \<Rightarrow> string option"
  pg_interval_secs :: "string \<Rightarrow> int option"
  pg_interval_us :: "string \<Rightarrow> int option"
  pg_interval_out :: "int \<Rightarrow> string"
  pg_hash_text :: "string \<Rightarrow> int"

section \<open>Statements\<close>

type_synonym 'a sql = "db \<Rightarrow> db \<times> (pg_error + 'a)"

definition sql_return :: "'a \<Rightarrow> 'a sql" where
  "sql_return x = (\<lambda>t. (t, Inr x))"

definition sql_bind :: "'a sql \<Rightarrow> ('a \<Rightarrow> 'b sql) \<Rightarrow> 'b sql" where
  "sql_bind m f = (\<lambda>t. case m t of (t', Inl e) \<Rightarrow> (t', Inl e) | (t', Inr x) \<Rightarrow> f x t')"

definition sql_read :: "(db \<Rightarrow> 'a) \<Rightarrow> 'a sql" where
  "sql_read f = (\<lambda>t. (t, Inr (f t)))"

definition sql_update :: "(db \<Rightarrow> db) \<Rightarrow> unit sql" where
  "sql_update f = (\<lambda>t. (f t, Inr ()))"

definition pg_raise :: "string \<Rightarrow> 'a sql" where
  "pg_raise msg = (\<lambda>t. (t, Inl \<lparr>pg_str = msg,
     pg_diagnostic = Some \<lparr>message_primary = Some msg, message_hint = None\<rparr>,
     pg_sqlstate = Some ''P0001'', pg_operational = False\<rparr>))"

definition pg_raise_code :: "string \<Rightarrow> string \<Rightarrow> string \<Rightarrow> 'a sql" where
  "pg_raise_code msg code hint = (\<lambda>t. (t, Inl \<lparr>pg_str = msg @ [CHR 0x0A] @ ''HINT:  '' @ hint,
     pg_diagnostic = Some \<lparr>message_primary = Some msg, message_hint = Some hint\<rparr>,
     pg_sqlstate = Some code, pg_operational = False\<rparr>))"

lemmas sql_defs = sql_return_def sql_bind_def sql_read_def sql_update_def pg_raise_def
  pg_raise_code_def

definition sq_next :: "sq \<Rightarrow> int" where
  "sq_next s = (if is_called s then last_value s + 1 else last_value s)"

definition sq_set :: "int \<Rightarrow> sq" where
  "sq_set v = \<lparr>last_value = v, is_called = True\<rparr>"

definition nextval_batch :: "int sql" where
  "nextval_batch = (\<lambda>t. (t\<lparr>s_batch := sq_set (sq_next (s_batch t))\<rparr>, Inr (sq_next (s_batch t))))"

definition nextval_event :: "int \<Rightarrow> int sql" where
  "nextval_event q = (\<lambda>t. (t\<lparr>s_event := (s_event t)(q := sq_set (sq_next (s_event t q)))\<rparr>,
     Inr (sq_next (s_event t q))))"

definition nextval_tick :: "int \<Rightarrow> int sql" where
  "nextval_tick q = (\<lambda>t. (t\<lparr>s_tick := (s_tick t)(q := sq_set (sq_next (s_tick t q)))\<rparr>,
     Inr (sq_next (s_tick t q))))"

definition nextval_consumer :: "int sql" where
  "nextval_consumer =
     (\<lambda>t. (t\<lparr>s_consumer := sq_set (sq_next (s_consumer t))\<rparr>, Inr (sq_next (s_consumer t))))"

definition nextval_sub :: "int sql" where
  "nextval_sub = (\<lambda>t. (t\<lparr>s_sub := sq_set (sq_next (s_sub t))\<rparr>, Inr (sq_next (s_sub t))))"

definition nextval_dead :: "int sql" where
  "nextval_dead = (\<lambda>t. (t\<lparr>s_dead := sq_set (sq_next (s_dead t))\<rparr>, Inr (sq_next (s_dead t))))"

definition nextval_queue :: "int sql" where
  "nextval_queue = (\<lambda>t. (t\<lparr>s_queue := sq_set (sq_next (s_queue t))\<rparr>, Inr (sq_next (s_queue t))))"

definition find_queue :: "string \<Rightarrow> db \<Rightarrow> qrow option" where
  "find_queue q t = find (\<lambda>r. queue_name r = q) (t_queues t)"

definition find_consumer :: "string \<Rightarrow> db \<Rightarrow> co_row option" where
  "find_consumer c t = find (\<lambda>r. co_name r = c) (t_consumers t)"

definition find_batch :: "int \<Rightarrow> db \<Rightarrow> sub_row option" where
  "find_batch b t = find (\<lambda>s. sub_batch s = Some b) (t_subs t)"

definition find_tick :: "int \<Rightarrow> int option \<Rightarrow> db \<Rightarrow> tick option" where
  "find_tick q i t = (case i of None \<Rightarrow> None
     | Some n \<Rightarrow> find (\<lambda>r. tick_queue r = q \<and> tick_id r = n) (t_ticks t))"

definition max_tick :: "int \<Rightarrow> (tick \<Rightarrow> bool) \<Rightarrow> db \<Rightarrow> tick option" where
  "max_tick q P t = (case filter (\<lambda>r. tick_queue r = q \<and> P r) (t_ticks t) of
     [] \<Rightarrow> None
   | r # rs \<Rightarrow> Some (foldl (\<lambda>a b. if tick_id a < tick_id b then b else a) r rs))"

definition min_tick :: "int \<Rightarrow> (tick \<Rightarrow> bool) \<Rightarrow> db \<Rightarrow> tick option" where
  "min_tick q P t = (case filter (\<lambda>r. tick_queue r = q \<and> P r) (t_ticks t) of
     [] \<Rightarrow> None
   | r # rs \<Rightarrow> Some (foldl (\<lambda>a b. if tick_id b < tick_id a then b else a) r rs))"

definition set_sub :: "(sub_row \<Rightarrow> bool) \<Rightarrow> (sub_row \<Rightarrow> sub_row) \<Rightarrow> unit sql" where
  "set_sub P f = sql_update (\<lambda>t. t\<lparr>t_subs := map (\<lambda>s. if P s then f s else s) (t_subs t)\<rparr>)"

section \<open>Producing\<close>

definition new_event :: "pgctx \<Rightarrow> int \<Rightarrow> int \<Rightarrow> int option \<Rightarrow> int option \<Rightarrow> string option \<Rightarrow> string option
    \<Rightarrow> string option \<Rightarrow> string option \<Rightarrow> string option \<Rightarrow> string option \<Rightarrow> event" where
  "new_event ctx eid tm owner retry ty data x1 x2 x3 x4 =
     \<lparr>ev_id = eid, ev_time = tm, ev_owner = owner, ev_retry = retry, ev_type = ty, ev_data = data,
      ev_extra1 = x1, ev_extra2 = x2, ev_extra3 = x3, ev_extra4 = x4, ev_txid = pg_xid ctx\<rparr>"

definition add_events :: "int \<Rightarrow> event list \<Rightarrow> unit sql" where
  "add_events q es = sql_update (\<lambda>t. t\<lparr>t_queues :=
     map (\<lambda>r. if queue_id r = q then r\<lparr>queue_events := queue_events r @ es\<rparr> else r) (t_queues t)\<rparr>)"

definition insert_event_raw :: "pgctx \<Rightarrow> string \<Rightarrow> int option \<Rightarrow> int \<Rightarrow> int option \<Rightarrow> int option
    \<Rightarrow> string option \<Rightarrow> string option \<Rightarrow> string option \<Rightarrow> string option \<Rightarrow> string option
    \<Rightarrow> string option \<Rightarrow> int sql" where
  "insert_event_raw ctx q eid tm owner retry ty data x1 x2 x3 x4 =
     sql_bind (sql_read (find_queue q)) (\<lambda>qr. case qr of
         None \<Rightarrow> pg_raise (''queue not found: '' @ q)
       | Some r \<Rightarrow> sql_bind (nextval_event (queue_id r)) (\<lambda>next_ev_id.
           let eid' = (case eid of None \<Rightarrow> next_ev_id | Some i \<Rightarrow> i) in
           if queue_disable_insert r \<and> \<not> pg_replica ctx then pg_raise ''Insert into queue disallowed''
           else sql_bind (add_events (queue_id r)
                  [new_event ctx eid' tm owner retry ty data x1 x2 x3 x4])
                (\<lambda>_. sql_return eid')))"

definition insert_event :: "pgctx \<Rightarrow> string \<Rightarrow> string option \<Rightarrow> string option \<Rightarrow> int sql" where
  "insert_event ctx q ty data =
     insert_event_raw ctx q None (pg_now ctx) None None ty data None None None None"

text \<open>The cast \<open>%s::jsonb\<close> of the caller and \<open>payload::text\<close> of the function.\<close>

definition jsonb_cast :: "pgctx \<Rightarrow> string \<Rightarrow> string sql" where
  "jsonb_cast ctx txt = (case pg_jsonb_text ctx txt of
      None \<Rightarrow> pg_raise ''invalid input syntax for type json''
    | Some u \<Rightarrow> sql_return u)"

definition pg_send :: "pgctx \<Rightarrow> string \<Rightarrow> string \<Rightarrow> string \<Rightarrow> int sql" where
  "pg_send ctx q ty jtext = insert_event ctx q (Some ty) (Some jtext)"

fun nextvals :: "int \<Rightarrow> 'a list \<Rightarrow> (int \<times> 'a) list sql" where
  "nextvals q [] = sql_return []"
| "nextvals q (x # xs) = sql_bind (nextval_event q) (\<lambda>i. sql_bind (nextvals q xs)
     (\<lambda>r. sql_return ((i, x) # r)))"

definition insert_event_bulk :: "pgctx \<Rightarrow> string \<Rightarrow> string option \<Rightarrow> string list \<Rightarrow> int list sql" where
  "insert_event_bulk ctx q ty ev_data_list =
     sql_bind (sql_read (find_queue q)) (\<lambda>qr. case qr of
         None \<Rightarrow> pg_raise (''queue not found: '' @ q)
       | Some r \<Rightarrow>
           if queue_disable_insert r \<and> \<not> pg_replica ctx then pg_raise ''Insert into queue disallowed''
           else sql_bind (nextvals (queue_id r) ev_data_list) (\<lambda>numbered.
                sql_bind (add_events (queue_id r)
                  (map (\<lambda>(i, data). new_event ctx i (pg_now ctx) None None ty (Some data)
                          None None None None) numbered))
                (\<lambda>_. sql_return (map fst numbered))))"

definition pg_send_batch :: "pgctx \<Rightarrow> string \<Rightarrow> string \<Rightarrow> string list \<Rightarrow> int list sql" where
  "pg_send_batch ctx q ty payloads =
     (if payloads = [] then sql_return []
      else insert_event_bulk ctx q (Some ty) payloads)"

section \<open>Registration\<close>

definition register_consumer :: "pgctx \<Rightarrow> string \<Rightarrow> string \<Rightarrow> int sql" where
  "register_consumer ctx q c =
     sql_bind (sql_read (find_queue q)) (\<lambda>qr. case qr of
         None \<Rightarrow> pg_raise ''Event queue not created yet''
       | Some r \<Rightarrow>
         sql_bind (sql_read (find_consumer c)) (\<lambda>cr.
         sql_bind (case cr of
             Some x \<Rightarrow> sql_return (co_id x)
           | None \<Rightarrow> sql_bind nextval_consumer (\<lambda>i. sql_bind
               (sql_update (\<lambda>t. t\<lparr>t_consumers := t_consumers t @ [\<lparr>co_id = i, co_name = c\<rparr>]\<rparr>))
               (\<lambda>_. sql_return i))) (\<lambda>cid.
         sql_bind (sql_read (\<lambda>t. find (\<lambda>s. sub_consumer s = cid \<and> sub_queue s = queue_id r) (t_subs t)))
           (\<lambda>sr. case sr of
               Some _ \<Rightarrow> sql_return 0
             | None \<Rightarrow>
               sql_bind (sql_read (max_tick (queue_id r) (\<lambda>_. True))) (\<lambda>tr. case tr of
                   None \<Rightarrow> pg_raise ''No ticks for this queue.  Please run ticker on database.''
                 | Some tk \<Rightarrow> sql_bind nextval_sub (\<lambda>sid. sql_bind
                     (sql_update (\<lambda>t. t\<lparr>t_subs := t_subs t @
                        [\<lparr>sub_id = sid, sub_queue = queue_id r, sub_consumer = cid,
                          sub_last_tick = Some (tick_id tk), sub_active = pg_now ctx,
                          sub_batch = None, sub_next_tick = None, sub_role = Role_normal\<rparr>]\<rparr>))
                     (\<lambda>_. sql_return 1)))))))"

definition pg_subscribe :: "pgctx \<Rightarrow> string \<Rightarrow> string \<Rightarrow> int sql" where
  "pg_subscribe ctx q c =
     (if CHR 0x23 \<in> set c
      then pg_raise (''consumer name must not contain the reserved character #: '' @ c)
      else register_consumer ctx q c)"

section \<open>Batches\<close>

definition find_sub :: "string \<Rightarrow> string \<Rightarrow> db \<Rightarrow> sub_row option" where
  "find_sub q c t = (case (find_queue q t, find_consumer c t) of
     (Some qr, Some cr) \<Rightarrow>
       find (\<lambda>s. sub_queue s = queue_id qr \<and> sub_consumer s = co_id cr) (t_subs t)
   | _ \<Rightarrow> None)"

text \<open>\<open>next_batch_custom\<close> with no minimum lag, count or interval, as \<open>next_batch\<close> calls it.\<close>

definition next_batch :: "pgctx \<Rightarrow> string \<Rightarrow> string \<Rightarrow> int option sql" where
  "next_batch ctx q c =
     sql_bind (sql_read (find_sub q c)) (\<lambda>sr. case sr of
       None \<Rightarrow> pg_raise (''Not subscriber to queue: '' @ q @ ''/'' @ c)
     | Some s \<Rightarrow>
       sql_bind (sql_read (\<lambda>t. sub_role s = Role_coop_main \<and>
           (\<exists>x\<in>set (t_subs t). sub_queue x = sub_queue s \<and> sub_id x = sub_id s
              \<and> sub_role x = Role_coop_member))) (\<lambda>has_members.
       if has_members then
         pg_raise (''consumer '' @ c @ '' on queue '' @ q @ '' is a cooperative main consumer; use cooperative receive/next_batch with a subconsumer'')
       else if sub_role s = Role_coop_member then
         pg_raise (''consumer '' @ c @ '' on queue '' @ q @ '' is a cooperative subconsumer; use receive_coop / next_batch (cooperative form) instead of the legacy 5-arg next_batch_custom'')
       else sql_bind (sql_read (find_tick (sub_queue s) (sub_last_tick s))) (\<lambda>tk. case tk of
           None \<Rightarrow> pg_raise (''PgQ corruption: Consumer '' @ c @ '' on queue '' @ q @ '' does not see tick <NULL>'')
         | Some prev \<Rightarrow>
           (case sub_batch s of
              Some b \<Rightarrow> sql_return (Some b)
            | None \<Rightarrow>
              sql_bind (sql_read (min_tick (sub_queue s) (\<lambda>r. tick_id prev < tick_id r))) (\<lambda>nt. case nt of
                  None \<Rightarrow> sql_return None
                | Some cur \<Rightarrow> sql_bind nextval_batch (\<lambda>b.
                    sql_bind (set_sub (\<lambda>x. sub_queue x = sub_queue s \<and> sub_consumer x = sub_consumer s
                                          \<and> sub_role x = Role_normal)
                        (\<lambda>x. x\<lparr>sub_batch := Some b, sub_next_tick := Some (tick_id cur),
                              sub_active := pg_now ctx\<rparr>))
                    (\<lambda>_. sql_return (Some b))))))))"

text \<open>
  The rows of an active batch: the two ticks of its subscription and the event tables of
  its queue (one table per queue here).
\<close>

definition batch_rows :: "int \<Rightarrow> db \<Rightarrow> event list option" where
  "batch_rows b t = (case find_batch b t of
      None \<Rightarrow> None
    | Some s \<Rightarrow>
      (case (find_tick (sub_queue s) (sub_last_tick s) t, find_tick (sub_queue s) (sub_next_tick s) t,
             find (\<lambda>r. queue_id r = sub_queue s) (t_queues t)) of
         (Some prev, Some cur, Some qr) \<Rightarrow>
           Some (batch_event_sql (tick_snapshot prev) (tick_snapshot cur) (sub_id s) [queue_events qr])
       | _ \<Rightarrow> None))"

definition get_batch_events :: "int \<Rightarrow> event list sql" where
  "get_batch_events b = sql_bind (sql_read (batch_rows b)) (\<lambda>r. case r of
      None \<Rightarrow> pg_raise ''batch not found''
    | Some es \<Rightarrow> sql_return es)"

definition finish_batch :: "pgctx \<Rightarrow> int \<Rightarrow> int sql" where
  "finish_batch ctx b = sql_bind (sql_read (find_batch b)) (\<lambda>sr. case sr of
      None \<Rightarrow> sql_return 0
    | Some s \<Rightarrow>
      (case sub_role s of
         Role_coop_main \<Rightarrow> pg_raise (''cannot finish cooperative main consumer batch ''
            @ str_of_int b @ '' as normal active consumer'')
       | Role_coop_member \<Rightarrow>
         sql_bind (set_sub (\<lambda>x. sub_queue x = sub_queue s \<and> sub_consumer x = sub_consumer s)
            (\<lambda>x. x\<lparr>sub_active := pg_now ctx, sub_last_tick := None, sub_next_tick := None,
                  sub_batch := None\<rparr>)) (\<lambda>_. sql_return 1)
       | Role_normal \<Rightarrow>
         sql_bind (set_sub (\<lambda>x. sub_queue x = sub_queue s \<and> sub_consumer x = sub_consumer s)
            (\<lambda>x. x\<lparr>sub_active := pg_now ctx, sub_last_tick := sub_next_tick x,
                  sub_next_tick := None, sub_batch := None\<rparr>)) (\<lambda>_. sql_return 1)))"

section \<open>The consume API: receive, ack, nack\<close>

text \<open>
  A row of the composite type \<open>pgque.message\<close>. The loop raises when one more event follows
  the last that fits.
\<close>

record pg_message =
  pm_msg_id :: int
  pm_batch_id :: int
  pm_event :: event

fun receive_loop :: "int \<Rightarrow> int \<Rightarrow> int \<Rightarrow> event list \<Rightarrow> pg_message list sql" where
  "receive_loop b max_return cnt [] = sql_return []"
| "receive_loop b max_return cnt (ev # evs) =
     (if cnt = max_return then
        pg_raise_code (''pgque.receive: batch exceeds max_return of '' @ str_of_int max_return) ''54000''
          ''Retry with a larger resource-safe max_return to receive the complete batch. Do not acknowledge after this error.''
      else sql_bind (receive_loop b max_return (cnt + 1) evs) (\<lambda>ms.
             sql_return (\<lparr>pm_msg_id = ev_id ev, pm_batch_id = b, pm_event = ev\<rparr> # ms)))"

definition pg_receive :: "pgctx \<Rightarrow> string \<Rightarrow> string \<Rightarrow> int \<Rightarrow> pg_message list sql" where
  "pg_receive ctx q c max_return =
     (if max_return < 1 then
        pg_raise (''pgque.receive: max_return must be >= 1, got '' @ str_of_int max_return)
      else if CHR 0x23 \<in> set c then
        pg_raise (''consumer '' @ c @ '' is a partition slot consumer; use pgque.receive_partitioned()'')
      else sql_bind (next_batch ctx q c) (\<lambda>bo. case bo of
          None \<Rightarrow> sql_return []
        | Some b \<Rightarrow> sql_bind (get_batch_events b) (\<lambda>evs.
            sql_bind (receive_loop b max_return 0 evs) (\<lambda>ms.
              if evs = [] then sql_bind (finish_batch ctx b) (\<lambda>_. sql_return ms)
              else sql_return ms))))"

text \<open>The guard against raw slot consumers, shared by \<open>ack\<close> and \<open>nack\<close>.\<close>

definition slot_batch_name :: "int \<Rightarrow> db \<Rightarrow> string option" where
  "slot_batch_name b t = (case find_batch b t of
      None \<Rightarrow> None
    | Some s \<Rightarrow> (case find (\<lambda>r. co_id r = sub_consumer s) (t_consumers t) of
          None \<Rightarrow> None
        | Some cr \<Rightarrow> if CHR 0x23 \<in> set (co_name cr) then Some (co_name cr) else None))"

definition pg_ack :: "pgctx \<Rightarrow> int \<Rightarrow> int sql" where
  "pg_ack ctx b = sql_bind (sql_read (slot_batch_name b)) (\<lambda>n. case n of
      Some cn \<Rightarrow> pg_raise (''batch '' @ str_of_int b @ '' belongs to partition slot consumer ''
                   @ cn @ ''; use pgque.ack_partitioned()'')
    | None \<Rightarrow> finish_batch ctx b)"

text \<open>\<open>event_retry\<close>: a duplicate key is caught and gives 0.\<close>

definition event_retry :: "pgctx \<Rightarrow> int \<Rightarrow> int \<Rightarrow> int \<Rightarrow> int sql" where
  "event_retry ctx b eid secs =
     sql_bind (get_batch_events b) (\<lambda>evs.
     sql_bind (sql_read (find_batch b)) (\<lambda>sr. case sr of
         None \<Rightarrow> pg_raise ''event not found''
       | Some s \<Rightarrow>
         (case filter (\<lambda>e. ev_id e = eid) evs of
            [] \<Rightarrow> pg_raise ''event not found''
          | [e] \<Rightarrow>
            sql_bind (sql_read (\<lambda>t. \<exists>r\<in>set (t_retry t).
                ev_owner (rq_event r) = Some (sub_id s) \<and> ev_id (rq_event r) = eid)) (\<lambda>dup.
            if dup then sql_return 0
            else sql_bind (sql_update (\<lambda>t. t\<lparr>t_retry := t_retry t @
                   [\<lparr>rq_retry_after = pg_now ctx + secs * 1000000, rq_queue = sub_queue s,
                     rq_event = evbody.truncate (e\<lparr>ev_owner := Some (sub_id s),
                       ev_retry := Some ((case ev_retry e of None \<Rightarrow> 0 | Some n \<Rightarrow> n) + 1)\<rparr>)\<rparr>]\<rparr>))
                 (\<lambda>_. sql_return 1))
          | _ # _ # _ \<Rightarrow> sql_return 0)))"

text \<open>
  \<open>event_dead\<close>: the row is attributed to the main consumer of a cooperative member; a row
  of the same queue, consumer and event is kept (\<open>on conflict do nothing\<close>).
\<close>

definition dead_consumer :: "sub_row \<Rightarrow> db \<Rightarrow> int" where
  "dead_consumer s t = (if sub_role s = Role_coop_member then
       (case find (\<lambda>m. sub_id m = sub_id s \<and> sub_queue m = sub_queue s
                        \<and> sub_role m = Role_coop_main) (t_subs t) of
          None \<Rightarrow> sub_consumer s
        | Some m \<Rightarrow> sub_consumer m)
     else sub_consumer s)"

definition event_dead :: "pgctx \<Rightarrow> int \<Rightarrow> event \<Rightarrow> string option \<Rightarrow> int sql" where
  "event_dead ctx b e reason =
     sql_bind (sql_read (find_batch b)) (\<lambda>sr. case sr of
         None \<Rightarrow> pg_raise (''batch not found: '' @ str_of_int b)
       | Some s \<Rightarrow>
         sql_bind nextval_dead (\<lambda>i. sql_bind (sql_update (\<lambda>t.
           let cid = dead_consumer s t in
           if \<exists>r\<in>set (t_dead t). dl_queue_id r = sub_queue s \<and> dl_consumer_id r = cid
                \<and> ev_id (dl_event r) = ev_id e
           then t
           else t\<lparr>t_dead := t_dead t @
              [\<lparr>dl_id = i, dl_queue_id = sub_queue s, dl_consumer_id = cid, dl_time = pg_now ctx,
                dl_reason = reason, dl_event = e\<lparr>ev_owner := None\<rparr>\<rparr>]\<rparr>))
         (\<lambda>_. sql_return 1)))"

definition nack_batch_event :: "pgctx \<Rightarrow> int \<Rightarrow> int \<Rightarrow> int \<Rightarrow> string option \<Rightarrow> int sql" where
  "nack_batch_event ctx b mid secs reason =
     sql_bind (sql_read (\<lambda>t. case find_batch b t of
         None \<Rightarrow> None
       | Some s \<Rightarrow> (case find (\<lambda>r. queue_id r = sub_queue s) (t_queues t) of
             None \<Rightarrow> None
           | Some qr \<Rightarrow> Some (case queue_max_retries qr of None \<Rightarrow> 5 | Some n \<Rightarrow> n)))) (\<lambda>mr. case mr of
       None \<Rightarrow> pg_raise (''batch not found: '' @ str_of_int b)
     | Some v_max_retries \<Rightarrow>
       sql_bind (get_batch_events b) (\<lambda>evs. case find (\<lambda>e. ev_id e = mid) evs of
           None \<Rightarrow> pg_raise (''msg_id '' @ str_of_int mid @ '' not found in batch '' @ str_of_int b)
         | Some v_ev \<Rightarrow>
             if v_max_retries \<le> (case ev_retry v_ev of None \<Rightarrow> 0 | Some n \<Rightarrow> n)
             then sql_bind (event_dead ctx b v_ev
                    (Some (case reason of None \<Rightarrow> ''max retries exceeded'' | Some r \<Rightarrow> r)))
                    (\<lambda>_. sql_return 1)
             else sql_bind (event_retry ctx b (ev_id v_ev) secs) (\<lambda>_. sql_return 1)))"

definition pg_nack :: "pgctx \<Rightarrow> int \<Rightarrow> int \<Rightarrow> int \<Rightarrow> string option \<Rightarrow> int sql" where
  "pg_nack ctx b mid secs reason = sql_bind (sql_read (slot_batch_name b)) (\<lambda>n. case n of
      Some cn \<Rightarrow> pg_raise (''batch '' @ str_of_int b @ '' belongs to partition slot consumer ''
                   @ cn @ ''; retry slot batches via pgque.nack_partitioned()'')
    | None \<Rightarrow> nack_batch_event ctx b mid secs reason)"

section \<open>Ticks\<close>

text \<open>An interval divided by two, rounded half to even.\<close>

definition half_interval :: "int \<Rightarrow> int" where
  "half_interval n = (let k = n div 2 in if even n then k else if even k then k else k + 1)"

definition pg_ticker :: "pgctx \<Rightarrow> string \<Rightarrow> int option sql" where
  "pg_ticker ctx q =
     sql_bind (sql_read (find_queue q)) (\<lambda>qr. case qr of
         None \<Rightarrow> pg_raise ''no such queue''
       | Some r \<Rightarrow>
         if queue_external_ticker r then pg_raise ''This queue has external tick source.''
         else if queue_ticker_paused r then pg_raise ''Ticker has been paused for this queue''
         else sql_bind (sql_read (\<lambda>t. last_value (s_event t (queue_id r)))) (\<lambda>event_seq.
         sql_bind (sql_read (max_tick (queue_id r) (\<lambda>_. True))) (\<lambda>st.
         sql_bind (case st of
             None \<Rightarrow> sql_return False
           | Some state \<Rightarrow>
             if pg_xid ctx < snap_xmin (tick_snapshot state) then
               pg_raise (''Invalid PgQ state: old xmin='' @ str_of_int (snap_xmin (tick_snapshot state)) @ '', old xmax=''
                 @ str_of_int (snap_xmax (tick_snapshot state)) @ '', cur txid='' @ str_of_int (pg_xid ctx))
             else if event_seq - tick_event_seq state > 0 then
               sql_return (event_seq - tick_event_seq state < queue_ticker_max_count r
                           \<and> pg_now ctx - tick_time state < queue_ticker_max_lag r)
             else sql_bind (sql_read (max_tick (queue_id r) (\<lambda>x. tick_id x < tick_id state))) (\<lambda>l2.
               case l2 of
                 None \<Rightarrow> sql_return False
               | Some last2 \<Rightarrow> sql_return
                   (pg_now ctx - tick_time state < half_interval (queue_ticker_max_lag r)
                    \<or> (pg_now ctx - tick_time state < (tick_time state - tick_time last2) * 2
                       \<and> pg_now ctx - tick_time state < queue_ticker_idle_period r)))) (\<lambda>skip.
         if skip then sql_return None
         else sql_bind (nextval_tick (queue_id r)) (\<lambda>i. sql_bind (sql_update (\<lambda>t. t\<lparr>t_ticks :=
             t_ticks t @ [\<lparr>tick_queue = queue_id r, tick_id = i, tick_time = pg_now ctx,
               tick_snapshot = pg_snapshot ctx, tick_event_seq = event_seq\<rparr>]\<rparr>))
             (\<lambda>_. sql_return (Some i)))))))"

definition pg_force_tick :: "string \<Rightarrow> int option sql" where
  "pg_force_tick q =
     sql_bind (sql_read (find_queue q)) (\<lambda>qr. case qr of
         None \<Rightarrow> pg_raise (''queue not found: '' @ q)
       | Some r \<Rightarrow>
         if queue_ticker_paused r then
           pg_raise (''queue '' @ q @ '' is paused (queue_ticker_paused = true)'')
         else if queue_external_ticker r then
           pg_raise (''queue '' @ q @ '' is configured for external ticker; force_tick is meaningless ''
             @ [CHR 0xE2, CHR 0x80, CHR 0x94] @ '' push ticks via pgque.ticker(queue, tick_id, ts, event_seq)'')
         else sql_bind (nextval_event (queue_id r)) (\<lambda>i.
           sql_bind (sql_update (\<lambda>t. t\<lparr>s_event := (s_event t)(queue_id r :=
               sq_set (i + queue_ticker_max_count r * 2 + 1000))\<rparr>)) (\<lambda>_.
           sql_bind (sql_read (max_tick (queue_id r) (\<lambda>_. True))) (\<lambda>tk.
             sql_return (map_option tick_id tk)))))"

definition pg_force_next_tick :: "string \<Rightarrow> int option sql" where
  "pg_force_next_tick q = pg_force_tick q"

text \<open>
  \<open>ticker()\<close>: every queue that is not paused and has no external ticker, by name (code
  point order).
\<close>

fun ticker_queues :: "pgctx \<Rightarrow> string list \<Rightarrow> int \<Rightarrow> int sql" where
  "ticker_queues ctx [] res = sql_return res"
| "ticker_queues ctx (q # qs) res = sql_bind (pg_ticker ctx q) (\<lambda>i.
     ticker_queues ctx qs (case i of None \<Rightarrow> res | Some n \<Rightarrow> if 0 < n then res + 1 else res))"

definition pg_ticker_all :: "pgctx \<Rightarrow> int sql" where
  "pg_ticker_all ctx = sql_bind (sql_read (\<lambda>t. sort (map queue_name
       (filter (\<lambda>r. \<not> queue_external_ticker r \<and> \<not> queue_ticker_paused r) (t_queues t)))))
     (\<lambda>qs. ticker_queues ctx qs 0)"

section \<open>Removing a consumer\<close>

text \<open>
  A consumer row goes with its last subscription, and its dead letters with it (the foreign
  key of \<open>dead_letter\<close> cascades).
\<close>

definition drop_consumer :: "int \<Rightarrow> unit sql" where
  "drop_consumer cid = sql_update (\<lambda>t.
     if \<exists>x\<in>set (t_subs t). sub_consumer x = cid then t
     else t\<lparr>t_consumers := filter (\<lambda>r. co_id r \<noteq> cid) (t_consumers t),
       t_dead := filter (\<lambda>r. dl_consumer_id r \<noteq> cid) (t_dead t)\<rparr>)"

definition delete_subs :: "(sub_row \<Rightarrow> bool) \<Rightarrow> unit sql" where
  "delete_subs P = sql_update (\<lambda>t. t\<lparr>t_subs := filter (\<lambda>x. \<not> P x) (t_subs t)\<rparr>)"

definition any_sub :: "(sub_row \<Rightarrow> bool) \<Rightarrow> bool sql" where
  "any_sub P = sql_read (\<lambda>t. \<exists>x\<in>set (t_subs t). P x)"

text \<open>
  One member of a cooperative group leaves; the last one turns the main row into a normal row.
\<close>

definition unregister_member :: "pgctx \<Rightarrow> sub_row \<Rightarrow> int sql" where
  "unregister_member ctx s =
     sql_bind (any_sub (\<lambda>x. sub_id x = sub_id s \<and> sub_consumer x = sub_consumer s \<and> sub_batch x \<noteq> None)) (\<lambda>busy.
     if busy then pg_raise ''cannot unregister active cooperative subconsumer without forced batch handling''
     else sql_bind (delete_subs (\<lambda>x. sub_id x = sub_id s \<and> sub_consumer x = sub_consumer s)) (\<lambda>_.
       sql_bind (drop_consumer (sub_consumer s)) (\<lambda>_.
       sql_bind (any_sub (\<lambda>x. sub_id x = sub_id s \<and> sub_role x = Role_coop_member)) (\<lambda>members.
       sql_bind (if members then sql_return ()
         else set_sub (\<lambda>x. sub_id x = sub_id s \<and> sub_role x = Role_coop_main)
                (\<lambda>x. x\<lparr>sub_role := Role_normal, sub_active := pg_now ctx\<rparr>)) (\<lambda>_. sql_return 1)))))"

definition unregister_whole :: "sub_row \<Rightarrow> int \<Rightarrow> int sql" where
  "unregister_whole s cnt =
     sql_bind (any_sub (\<lambda>x. sub_id x = sub_id s \<and> sub_role x = Role_coop_member)) (\<lambda>members.
     if sub_role s = Role_coop_main \<and> members then
       pg_raise ''cannot unregister cooperative main consumer with registered subconsumers''
     else sql_bind (any_sub (\<lambda>x. sub_id x = sub_id s \<and> sub_role x = Role_coop_member \<and> sub_batch x \<noteq> None)) (\<lambda>busy.
     if busy then pg_raise ''cannot unregister cooperative consumer with active subconsumer batches''
     else sql_bind (sql_update (\<lambda>t. t\<lparr>t_retry := filter (\<lambda>r. ev_owner (rq_event r) \<noteq> Some (sub_id s)) (t_retry t)\<rparr>)) (\<lambda>_.
       sql_bind (delete_subs (\<lambda>x. sub_id x = sub_id s)) (\<lambda>_.
       sql_bind (drop_consumer (sub_consumer s)) (\<lambda>_. sql_return cnt)))))"

definition unregister_consumer :: "pgctx \<Rightarrow> string \<Rightarrow> string \<Rightarrow> int sql" where
  "unregister_consumer ctx q c = sql_bind (sql_read (find_sub q c)) (\<lambda>sr. case sr of
      None \<Rightarrow> sql_return 0
    | Some s \<Rightarrow>
      sql_bind (sql_read (\<lambda>t. int (length (filter (\<lambda>x. sub_id x = sub_id s) (t_subs t))))) (\<lambda>cnt.
      if 1 < cnt \<and> sub_role s = Role_coop_member then unregister_member ctx s
      else unregister_whole s cnt))"

definition pg_unsubscribe :: "pgctx \<Rightarrow> string \<Rightarrow> string \<Rightarrow> int sql" where
  "pg_unsubscribe ctx q c = unregister_consumer ctx q c"

section \<open>Maintenance\<close>

text \<open>
  \<open>maint_retry_events\<close>: at most ten due rows, oldest first, go back into the event table of
  their queue under their own ids. Rows due at the same time are taken in table order.
\<close>

definition due_rows :: "pgctx \<Rightarrow> db \<Rightarrow> (string \<times> retry_row) list" where
  "due_rows ctx t = take 10 (sort_key (\<lambda>(n, r). rq_retry_after r)
     (concat (map (\<lambda>r. if rq_retry_after r \<le> pg_now ctx
        then map (\<lambda>q. (queue_name q, r)) (filter (\<lambda>q. queue_id q = rq_queue r) (t_queues t)) else []) (t_retry t))))"

fun move_rows :: "pgctx \<Rightarrow> (string \<times> retry_row) list \<Rightarrow> int \<Rightarrow> int sql" where
  "move_rows ctx [] cnt = sql_return cnt"
| "move_rows ctx ((q, r) # rs) cnt = (let e = rq_event r in
     sql_bind (insert_event_raw ctx q (Some (ev_id e)) (ev_time e) (ev_owner e) (ev_retry e) (ev_type e)
       (ev_data e) (ev_extra1 e) (ev_extra2 e) (ev_extra3 e) (ev_extra4 e)) (\<lambda>_.
     sql_bind (sql_update (\<lambda>t. t\<lparr>t_retry := filter (\<lambda>x. \<not> (ev_owner e \<noteq> None
         \<and> ev_owner (rq_event x) = ev_owner e \<and> ev_id (rq_event x) = ev_id e)) (t_retry t)\<rparr>)) (\<lambda>_.
     move_rows ctx rs (cnt + 1))))"

definition maint_retry_events :: "pgctx \<Rightarrow> int sql" where
  "maint_retry_events ctx = sql_bind (sql_read (due_rows ctx)) (\<lambda>rows. move_rows ctx rows 0)"

end
