(* ===== verification/ServerFacts.thy ===== *)
theory ServerFacts
  imports Server
begin

text \<open>
  Facts about the SQL functions of theory Server: the invariant of the subscription table,
  which every function keeps, and what a successful \<open>receive\<close>, \<open>nack\<close> and \<open>ack\<close> do to
  the tables.
\<close>

section \<open>Lists as tables\<close>

lemma find_map: "find P (map g xs) = map_option g (find (\<lambda>x. P (g x)) xs)"
  by (induction xs) auto

lemma find_unique:
  assumes "x \<in> set xs" "P x" "\<And>y. y \<in> set xs \<Longrightarrow> P y \<Longrightarrow> y = x"
  shows "find P xs = Some x"
proof (cases "find P xs")
  case None
  with assms(1,2) show ?thesis by (simp add: find_None_iff)
next
  case (Some y)
  then have "y \<in> set xs \<and> P y" by (auto simp: find_Some_iff)
  with Some assms(3) show ?thesis by blast
qed

lemma find_SomeD: "find P xs = Some x \<Longrightarrow> x \<in> set xs \<and> P x"
  by (auto simp: find_Some_iff)

lemma distinct_keyD:
  "distinct (map f xs) \<Longrightarrow> x \<in> set xs \<Longrightarrow> y \<in> set xs \<Longrightarrow> f x = f y \<Longrightarrow> x = y"
  by (metis distinct_map inj_onD)

section \<open>The subscription invariant\<close>

definition sub_key :: "sub_row \<Rightarrow> int \<times> int" where
  "sub_key s = (sub_queue s, sub_consumer s)"

definition subs_ok :: "db \<Rightarrow> bool" where
  "subs_ok t \<longleftrightarrow> distinct (map sub_key (t_subs t))
     \<and> distinct (map queue_id (t_queues t)) \<and> distinct (map co_id (t_consumers t))
     \<and> distinct (map sub_batch (filter (\<lambda>s. sub_batch s \<noteq> None) (t_subs t)))
     \<and> list_all (\<lambda>s. case sub_batch s of None \<Rightarrow> True | Some b \<Rightarrow> b < sq_next (s_batch t)) (t_subs t)
     \<and> list_all (\<lambda>s. sub_batch s \<noteq> None \<longrightarrow> sub_next_tick s \<noteq> None) (t_subs t)"

lemma subs_ok_batch_unique:
  assumes "subs_ok t" "x \<in> set (t_subs t)" "y \<in> set (t_subs t)" "sub_batch x = Some b" "sub_batch y = Some b"
  shows "x = y"
  using assms distinct_keyD[of sub_batch "filter (\<lambda>s. sub_batch s \<noteq> None) (t_subs t)" x y]
  by (simp add: subs_ok_def)

lemma find_batch_iff:
  "subs_ok t \<Longrightarrow> find_batch b t = Some s \<longleftrightarrow> s \<in> set (t_subs t) \<and> sub_batch s = Some b"
  by (auto simp: find_batch_def dest: find_SomeD intro: find_unique subs_ok_batch_unique)

lemma subs_ok_fresh:
  "subs_ok t \<Longrightarrow> s \<in> set (t_subs t) \<Longrightarrow> sub_batch s \<noteq> Some (sq_next (s_batch t))"
  by (auto simp: subs_ok_def list_all_iff split: option.splits)

lemma subs_ok_key: "subs_ok t \<Longrightarrow> x \<in> set (t_subs t) \<Longrightarrow> y \<in> set (t_subs t) \<Longrightarrow> sub_key x = sub_key y \<Longrightarrow> x = y"
  by (auto simp: subs_ok_def dest: distinct_keyD)

lemma find_sub_mem: "find_sub q c t = Some s \<Longrightarrow> s \<in> set (t_subs t)"
  by (auto simp: find_sub_def dest: find_SomeD split: option.splits)

text \<open>Rewriting the row of one key keeps the keys and the lookups by key.\<close>

definition upd_key :: "int \<times> int \<Rightarrow> (sub_row \<Rightarrow> sub_row) \<Rightarrow> sub_row list \<Rightarrow> sub_row list" where
  "upd_key k f = map (\<lambda>s. if sub_key s = k then f s else s)"

lemma upd_key_keys:
  "(\<And>s. sub_key (f s) = sub_key s) \<Longrightarrow> map sub_key (upd_key k f xs) = map sub_key xs"
  by (simp add: upd_key_def)

lemma upd_key_set:
  assumes "distinct (map sub_key xs)" "s \<in> set xs" "sub_key s = k"
  shows "set (upd_key k f xs) = insert (f s) (set xs - {s})"
proof -
  have "sub_key x = k \<longleftrightarrow> x = s" if "x \<in> set xs" for x
    using distinct_keyD[OF assms(1) that assms(2)] assms(3) by auto
  then have "set (upd_key k f xs) = (\<lambda>x. if x = s then f s else x) ` set xs"
    unfolding upd_key_def by (auto intro!: image_cong)
  with assms(2) show ?thesis by auto
qed

lemma filter_upd_batch_None:
  assumes "\<And>s. sub_batch (f s) = None"
  shows "map sub_batch (filter (\<lambda>s. sub_batch s \<noteq> None) (upd_key k f xs)) =
    map sub_batch (filter (\<lambda>s. sub_batch s \<noteq> None \<and> sub_key s \<noteq> k) xs)"
  using assms by (induction xs) (auto simp: upd_key_def)

lemma distinct_batches_stamp:
  assumes "distinct (map sub_key xs)"
    and "distinct (map sub_batch (filter (\<lambda>s. sub_batch s \<noteq> None) xs))"
    and "\<And>s. sub_batch (f s) = Some b" and "\<And>s. s \<in> set xs \<Longrightarrow> sub_batch s \<noteq> Some b"
  shows "distinct (map sub_batch (filter (\<lambda>s. sub_batch s \<noteq> None) (upd_key k f xs)))"
  using assms(1,2,4)
proof (induction xs)
  case (Cons x xs)
  have other: "sub_batch ` set (filter (\<lambda>s. sub_batch s \<noteq> None) (upd_key k f xs)) \<subseteq>
      insert (Some b) (sub_batch ` set (filter (\<lambda>s. sub_batch s \<noteq> None) xs))"
    using assms(3) by (auto simp: upd_key_def)
  show ?case
  proof (cases "sub_key x = k")
    case True
    have "k \<notin> set (map sub_key xs)" using True Cons.prems(1) by auto
    then have "upd_key k f xs = xs" unfolding upd_key_def by (intro map_idI) auto
    moreover have "Some b \<notin> sub_batch ` set xs" using Cons.prems(3) by force
    ultimately show ?thesis
      using True Cons.prems assms(3) by (auto simp: upd_key_def split: if_splits)
  next
    case False
    have "upd_key k f (x # xs) = x # upd_key k f xs" using False by (simp add: upd_key_def)
    moreover have "sub_batch x \<noteq> Some b" using Cons.prems(3) by simp
    ultimately show ?thesis
      using Cons other by (auto split: if_splits)
  qed
qed (simp add: upd_key_def)

section \<open>Ticks\<close>

lemma foldl_pick: "(\<And>a b. f a b \<in> {a, b}) \<Longrightarrow> foldl f r rs \<in> set (r # rs)"
proof (induction rs arbitrary: r)
  case (Cons x rs)
  from Cons.IH[OF Cons.prems, of "f r x"] Cons.prems[of r x] show ?case by auto
qed simp

lemma min_tick_mem: "min_tick q P t = Some k \<Longrightarrow> k \<in> set (t_ticks t) \<and> tick_queue k = q \<and> P k"
proof -
  have f: "foldl (\<lambda>a b. if tick_id b < tick_id a then b else a) r rs \<in> set (r # rs)" for r rs
    by (rule foldl_pick) simp
  assume "min_tick q P t = Some k"
  then obtain r rs where x: "filter (\<lambda>k. tick_queue k = q \<and> P k) (t_ticks t) = r # rs"
    "k = foldl (\<lambda>a b. if tick_id b < tick_id a then b else a) r rs"
    by (auto simp: min_tick_def split: list.splits)
  from f[of r rs] x(2) have "k \<in> set (filter (\<lambda>k. tick_queue k = q \<and> P k) (t_ticks t))" unfolding x(1) by simp
  then show ?thesis by simp
qed

lemma find_tick_mem: "find_tick q i t = Some k \<Longrightarrow> k \<in> set (t_ticks t) \<and> tick_queue k = q \<and> i = Some (tick_id k)"
  by (auto simp: find_tick_def dest: find_SomeD split: option.splits)

section \<open>next_batch\<close>

definition stamp :: "pgctx \<Rightarrow> int \<Rightarrow> int \<Rightarrow> sub_row \<Rightarrow> sub_row" where
  "stamp ctx b tk x = x\<lparr>sub_batch := Some b, sub_next_tick := Some tk, sub_active := pg_now ctx\<rparr>"

lemma stamp_simps [simp]:
  "sub_key (stamp ctx b tk x) = sub_key x" "sub_batch (stamp ctx b tk x) = Some b"
  "sub_next_tick (stamp ctx b tk x) = Some tk" "sub_last_tick (stamp ctx b tk x) = sub_last_tick x"
  "sub_id (stamp ctx b tk x) = sub_id x" "sub_queue (stamp ctx b tk x) = sub_queue x"
  "sub_consumer (stamp ctx b tk x) = sub_consumer x" "sub_role (stamp ctx b tk x) = sub_role x"
  by (simp_all add: stamp_def sub_key_def)

lemma set_sub_key:
  assumes "subs_ok t" "s \<in> set (t_subs t)" "P s" "\<And>x. P x \<Longrightarrow> sub_key x = sub_key s"
    and "t_subs t0 = t_subs t"
  shows "set_sub P f t0 = (t0\<lparr>t_subs := upd_key (sub_key s) f (t_subs t)\<rparr>, Inr ())"
proof -
  have "P x \<longleftrightarrow> sub_key x = sub_key s" if "x \<in> set (t_subs t)" for x
    using assms(1-4) that subs_ok_key by blast
  then have "map (\<lambda>x. if P x then f x else x) (t_subs t) = upd_key (sub_key s) f (t_subs t)"
    unfolding upd_key_def by (intro map_cong) auto
  then show ?thesis by (simp add: set_sub_def sql_update_def assms(5))
qed

text \<open>
  \<open>next_batch\<close> returns the active batch of the subscription, or opens the batch up to the
  next tick under a fresh number; a main consumer without members keeps its row unstamped.
\<close>

lemma next_batch_cases:
  assumes "subs_ok t" and "next_batch ctx q c t = (t', Inr (Some b))"
  obtains s where "find_sub q c t = Some s" "sub_batch s = Some b" "t' = t"
  | s prev cur where "find_sub q c t = Some s" "sub_batch s = None"
      "b = sq_next (s_batch t)"
      "find_tick (sub_queue s) (sub_last_tick s) t = Some prev"
      "min_tick (sub_queue s) (\<lambda>r. tick_id prev < tick_id r) t = Some cur"
      "t' = t\<lparr>s_batch := sq_set b,
              t_subs := (if sub_role s = Role_normal
                         then upd_key (sub_key s) (stamp ctx b (tick_id cur)) (t_subs t)
                         else t_subs t)\<rparr>"
proof -
  from assms(2) obtain s prev where s: "find_sub q c t = Some s"
      "find_tick (sub_queue s) (sub_last_tick s) t = Some prev"
    by (auto simp: next_batch_def sql_defs split: option.splits if_splits)
  show thesis
  proof (cases "sub_batch s")
    case (Some b')
    with assms(2) s show thesis
      by (intro that(1)[of s]) (auto simp: next_batch_def sql_defs split: if_splits)
  next
    case None
    from assms(2) s None obtain cur where cur:
        "min_tick (sub_queue s) (\<lambda>r. tick_id prev < tick_id r) t = Some cur"
      by (auto simp: next_batch_def sql_defs split: option.splits if_splits)
    let ?b = "sq_next (s_batch t)"
    let ?t0 = "t\<lparr>s_batch := sq_set ?b\<rparr>"
    let ?P = "\<lambda>x. sub_queue x = sub_queue s \<and> sub_consumer x = sub_consumer s \<and> sub_role x = Role_normal"
    have eq: "b = ?b \<and> t' = fst (set_sub ?P (\<lambda>x. x\<lparr>sub_batch := Some ?b,
        sub_next_tick := Some (tick_id cur), sub_active := pg_now ctx\<rparr>) ?t0)"
      using assms(2) s None cur
      by (auto simp: next_batch_def sql_defs nextval_batch_def set_sub_def split: if_splits)
    have mem: "s \<in> set (t_subs t)" using find_sub_mem[OF s(1)] .
    have st: "(\<lambda>x. x\<lparr>sub_batch := Some ?b, sub_next_tick := Some (tick_id cur), sub_active := pg_now ctx\<rparr>)
        = stamp ctx ?b (tick_id cur)" by (simp add: stamp_def fun_eq_iff)
    show thesis
    proof (cases "sub_role s = Role_normal")
      case True
      have "set_sub ?P (stamp ctx ?b (tick_id cur)) ?t0 =
          (?t0\<lparr>t_subs := upd_key (sub_key s) (stamp ctx ?b (tick_id cur)) (t_subs t)\<rparr>, Inr ())"
        by (rule set_sub_key[OF assms(1) mem]) (auto simp: True sub_key_def)
      with eq True st s cur None show thesis by (intro that(2)[of s prev cur]) auto
    next
      case False
      have "\<not> ?P x" if "x \<in> set (t_subs t)" for x
        using subs_ok_key[OF assms(1) that mem] False by (auto simp: sub_key_def)
      then have "map (\<lambda>x. if ?P x then stamp ctx ?b (tick_id cur) x else x) (t_subs t) = t_subs t"
        by (auto intro!: map_idI)
      with eq False st s cur None show thesis
        by (intro that(2)[of s prev cur]) (auto simp: set_sub_def sql_update_def)
    qed
  qed
qed

lemma sq_next_set [simp]: "sq_next (sq_set v) = v + 1"
  by (simp add: sq_next_def sq_set_def)

lemma subs_ok_open:
  assumes "subs_ok t" "s \<in> set (t_subs t)" "b = sq_next (s_batch t)"
    and f: "\<And>x. sub_key (f x) = sub_key x" "\<And>x. sub_batch (f x) = Some b" "sub_next_tick (f s) \<noteq> None"
  shows "subs_ok (t\<lparr>s_batch := sq_set b, t_subs := upd_key (sub_key s) f (t_subs t)\<rparr>)"
proof -
  have k: "distinct (map sub_key (t_subs t))" using assms(1) by (simp add: subs_ok_def)
  note set = upd_key_set[OF k assms(2) refl, of f]
  have "distinct (map sub_batch (filter (\<lambda>s. sub_batch s \<noteq> None) (upd_key (sub_key s) f (t_subs t))))"
    using assms subs_ok_fresh[OF assms(1)]
    by (intro distinct_batches_stamp[OF k, where b = b]) (auto simp: subs_ok_def)
  moreover have "c \<le> b" if "x \<in> set (t_subs t)" "sub_batch x = Some c" for x c
    using assms(1,3) that by (fastforce simp: subs_ok_def list_all_iff split: option.splits)
  moreover have "sub_next_tick x \<noteq> None" if "x \<in> set (t_subs t)" "sub_batch x \<noteq> None" for x
    using assms(1) that by (auto simp: subs_ok_def list_all_iff)
  ultimately show ?thesis
    using assms(1) f by (auto simp: subs_ok_def upd_key_keys[OF f(1)] set list_all_iff split: option.splits)
qed

lemma subs_ok_stamp:
  assumes "subs_ok t" "s \<in> set (t_subs t)" "b = sq_next (s_batch t)"
  shows "subs_ok (t\<lparr>s_batch := sq_set b, t_subs := upd_key (sub_key s) (stamp ctx b tk) (t_subs t)\<rparr>)"
  by (rule subs_ok_open[OF assms]) simp_all

lemma next_batch_ok:
  assumes "subs_ok t" "next_batch ctx q c t = (t', Inr (Some b))"
  shows "subs_ok t'"
  using assms(1)
proof (cases rule: next_batch_cases[OF assms])
  case (2 s prev cur)
  note mem = find_sub_mem[OF 2(1)]
  show ?thesis
  proof (cases "sub_role s = Role_normal")
    case True
    with 2 subs_ok_stamp[OF assms(1) mem 2(3)] show ?thesis by simp
  next
    case False
    with 2 assms(1) show ?thesis
      by (force simp: subs_ok_def list_all_iff split: option.splits)
  qed
qed simp

lemma upd_key_id: "(\<And>x. x \<in> set xs \<Longrightarrow> sub_key x \<noteq> k) \<Longrightarrow> upd_key k f xs = xs"
  unfolding upd_key_def by (intro map_idI) auto

lemma find_sub_upd:
  assumes "find_sub q c t = Some s" "\<And>x. sub_key (f x) = sub_key x"
    and "t_queues t' = t_queues t" "t_consumers t' = t_consumers t"
    and "t_subs t' = upd_key (sub_key s) f (t_subs t)"
  shows "find_sub q c t' = Some (f s)"
proof -
  from assms(1) obtain qr cr where qc: "find_queue q t = Some qr" "find_consumer c t = Some cr"
      "find (\<lambda>s. sub_queue s = queue_id qr \<and> sub_consumer s = co_id cr) (t_subs t) = Some s"
    by (auto simp: find_sub_def split: option.splits)
  have f: "sub_queue (f x) = sub_queue x \<and> sub_consumer (f x) = sub_consumer x" for x
    using assms(2)[of x] by (simp add: sub_key_def)
  have "(\<lambda>x. sub_queue (if sub_key x = k then f x else x) = queue_id qr \<and>
      sub_consumer (if sub_key x = k then f x else x) = co_id cr) =
      (\<lambda>s. sub_queue s = queue_id qr \<and> sub_consumer s = co_id cr)" for k
    using f by auto
  then show ?thesis
    using qc assms(3-5)
    by (simp add: find_sub_def find_queue_def find_consumer_def upd_key_def find_map)
qed

text \<open>
  After \<open>next_batch\<close> gave a number that names an active batch, that batch is the one of the
  named consumer's subscription.
\<close>

lemma next_batch_sub:
  assumes ok: "subs_ok t" and nb: "next_batch ctx q c t = (t', Inr (Some b))"
    and fb: "find_batch b t' = Some s'"
  shows "find_sub q c t' = Some s'"
proof -
  note ok' = next_batch_ok[OF ok nb]
  show ?thesis
  proof (cases rule: next_batch_cases[OF ok nb])
    case (1 s)
    with fb find_batch_iff[OF ok', of b s] find_sub_mem show ?thesis by auto
  next
    case (2 s prev cur)
    note mem = find_sub_mem[OF 2(1)]
    show ?thesis
    proof (cases "sub_role s = Role_normal")
      case True
      have "find_sub q c t' = Some (stamp ctx b (tick_id cur) s)"
        by (rule find_sub_upd[OF 2(1)]) (use 2(6) True in simp_all)
      moreover from this have "find_batch b t' = Some (stamp ctx b (tick_id cur) s)"
        using find_batch_iff[OF ok'] find_sub_mem by fastforce
      ultimately show ?thesis using fb by simp
    next
      case False
      with 2(6) have "t_subs t' = t_subs t" by simp
      with fb 2(3) subs_ok_fresh[OF ok] show ?thesis
        by (auto simp: find_batch_def dest!: find_SomeD)
    qed
  qed
qed

section \<open>receive\<close>

definition to_message :: "int \<Rightarrow> event \<Rightarrow> pg_message" where
  "to_message b ev = \<lparr>pm_msg_id = ev_id ev, pm_batch_id = b, pm_event = ev\<rparr>"

definition overflow_error :: "int \<Rightarrow> pg_error" where
  "overflow_error n = (case snd ((pg_raise_code (''pgque.receive: batch exceeds max_return of '' @ str_of_int n)
     ''54000'' ''Retry with a larger resource-safe max_return to receive the complete batch. Do not acknowledge after this error.''
     :: unit sql) undefined) of Inl e \<Rightarrow> e | Inr _ \<Rightarrow> undefined)"

lemma receive_loop_eq:
  "0 \<le> cnt \<Longrightarrow> cnt \<le> n \<Longrightarrow> receive_loop b n cnt evs t =
     (if cnt + int (length evs) \<le> n then (t, Inr (map (to_message b) evs))
      else (t, Inl (overflow_error n)))"
proof (induction evs arbitrary: cnt)
  case Nil
  then show ?case by (simp add: sql_defs)
next
  case (Cons ev evs)
  show ?case
  proof (cases "cnt = n")
    case True
    then show ?thesis by (simp add: overflow_error_def pg_raise_code_def)
  next
    case False
    then show ?thesis using Cons.IH[of "cnt + 1"] Cons.prems
      by (auto simp: sql_bind_def sql_return_def to_message_def)
  qed
qed

lemma get_batch_events_eq:
  "get_batch_events b t = (case batch_rows b t of
     None \<Rightarrow> pg_raise ''batch not found'' t | Some es \<Rightarrow> (t, Inr es))"
  by (simp add: get_batch_events_def sql_bind_def sql_read_def sql_return_def split: option.splits)

lemma receive_cases:
  assumes "pg_receive ctx q c n t = (t', Inr ms)" and "ms \<noteq> []"
  obtains b evs where "next_batch ctx q c t = (t', Inr (Some b))" "batch_rows b t' = Some evs"
    "ms = map (to_message b) evs" "int (length evs) \<le> n"
proof -
  have n: "1 \<le> n" and c: "CHR 0x23 \<notin> set c"
    using assms(1) by (auto simp: pg_receive_def pg_raise_def split: if_splits)
  obtain t1 r where nb: "next_batch ctx q c t = (t1, r)" by fastforce
  from assms n c nb obtain b where r: "r = Inr (Some b)"
    by (cases r) (auto simp: pg_receive_def sql_bind_def sql_return_def split: option.splits)
  obtain evs where rows: "batch_rows b t1 = Some evs"
    using assms n c nb r
    by (cases "batch_rows b t1") (auto simp: pg_receive_def sql_bind_def get_batch_events_eq pg_raise_def)
  have len: "int (length evs) \<le> n"
    using assms n c nb r rows
    by (auto simp: pg_receive_def sql_bind_def get_batch_events_eq receive_loop_eq split: if_splits)
  with assms n c nb r rows have "ms = map (to_message b) evs \<and> (evs \<noteq> [] \<longrightarrow> t' = t1)"
    by (auto simp: pg_receive_def sql_bind_def get_batch_events_eq receive_loop_eq sql_return_def
        split: prod.splits sum.splits if_splits)
  with that nb r rows len assms(2) show thesis by auto
qed

section \<open>nack\<close>

text \<open>An event is settled for a subscription: queued for retry or a dead letter of its consumer.\<close>

definition settled_event :: "sub_row \<Rightarrow> int \<Rightarrow> db \<Rightarrow> bool" where
  "settled_event s eid t \<longleftrightarrow>
     (\<exists>r\<in>set (t_retry t). ev_owner (rq_event r) = Some (sub_id s) \<and> ev_id (rq_event r) = eid)
     \<or> (\<exists>r\<in>set (t_dead t). dl_queue_id r = sub_queue s \<and> dl_consumer_id r = dead_consumer s t
          \<and> ev_id (dl_event r) = eid)"

definition same_batches :: "db \<Rightarrow> db \<Rightarrow> bool" where
  "same_batches t t' \<longleftrightarrow> t_subs t' = t_subs t \<and> t_queues t' = t_queues t \<and> t_ticks t' = t_ticks t
     \<and> t_consumers t' = t_consumers t \<and> s_batch t' = s_batch t"

lemma same_batches_facts:
  assumes "same_batches t t'"
  shows "find_batch b t' = find_batch b t" "batch_rows b t' = batch_rows b t"
    "find_sub q c t' = find_sub q c t" "subs_ok t' = subs_ok t" "dead_consumer s t' = dead_consumer s t"
    "slot_batch_name b t' = slot_batch_name b t"
  using assms by (simp_all add: same_batches_def find_batch_def batch_rows_def find_sub_def
      find_queue_def find_consumer_def find_tick_def subs_ok_def dead_consumer_def slot_batch_name_def
      split: option.splits)

lemma filter_single:
  "distinct (map f xs) \<Longrightarrow> x \<in> set xs \<Longrightarrow> filter (\<lambda>y. f y = f x) xs = [x]"
proof (induction xs)
  case (Cons a xs)
  have rest: "filter (\<lambda>y. f y = f a) xs = []" using Cons.prems(1)
    by (auto simp: filter_empty_conv) (metis image_eqI)
  have "f x \<noteq> f a" if "x \<in> set xs" using that Cons.prems(1) by (simp, metis image_eqI)
  with Cons rest show ?case by auto
qed simp

lemma event_retry_spec:
  assumes "event_retry ctx b eid secs t = (t', Inr v)" "find_batch b t = Some s"
    and "batch_rows b t = Some evs" "distinct (map ev_id evs)" "e \<in> set evs" "ev_id e = eid"
  shows "same_batches t t' \<and> settled_event s eid t' \<and> set (t_retry t) \<subseteq> set (t_retry t')
    \<and> t_dead t' = t_dead t"
proof -
  have "filter (\<lambda>x. ev_id x = eid) evs = [e]" using filter_single[OF assms(4,5)] assms(6) by simp
  with assms show ?thesis
    by (auto simp: event_retry_def sql_bind_def get_batch_events_eq sql_read_def sql_return_def
        sql_update_def same_batches_def settled_event_def evbody.truncate_def split: if_splits)
qed

lemma event_dead_spec:
  assumes "event_dead ctx b e reason t = (t', Inr v)" "find_batch b t = Some s"
  shows "same_batches t t' \<and> settled_event s (ev_id e) t' \<and> set (t_dead t) \<subseteq> set (t_dead t')
    \<and> t_retry t' = t_retry t"
proof -
  have [simp]: "dead_consumer s (t\<lparr>s_dead := x, t_dead := y\<rparr>) = dead_consumer s t"
    "dead_consumer s (t\<lparr>s_dead := x\<rparr>) = dead_consumer s t" for x y
    by (simp_all add: dead_consumer_def)
  show ?thesis using assms
    by (auto simp: event_dead_def sql_bind_def sql_read_def sql_return_def sql_update_def
        nextval_dead_def Let_def same_batches_def settled_event_def split: if_splits)
qed

lemma nack_spec:
  assumes "pg_nack ctx b mid secs reason t = (t', Inr v)" "find_batch b t = Some s"
    and "batch_rows b t = Some evs" "distinct (map ev_id evs)" "e \<in> set evs" "ev_id e = mid"
  shows "same_batches t t' \<and> settled_event s mid t' \<and> set (t_retry t) \<subseteq> set (t_retry t')
    \<and> set (t_dead t) \<subseteq> set (t_dead t')"
proof -
  have fe: "find (\<lambda>x. ev_id x = mid) evs = Some e"
    using assms(4-6) distinct_keyD[OF assms(4)] by (intro find_unique) auto
  have slot: "slot_batch_name b t = None"
    using assms(1) by (auto simp: pg_nack_def sql_bind_def sql_read_def pg_raise_def split: option.splits)
  from assms(1,2,3) fe slot obtain t1 u where
    "event_retry ctx b (ev_id e) secs t = (t1, Inr u) \<or> (\<exists>rs. event_dead ctx b e rs t = (t1, Inr u))" "t' = t1"
    by (auto simp: pg_nack_def nack_batch_event_def sql_bind_def sql_read_def pg_raise_def sql_return_def
        get_batch_events_eq split: option.splits if_splits prod.splits sum.splits)
  then show ?thesis
  proof (elim disjE exE)
    assume "event_retry ctx b (ev_id e) secs t = (t1, Inr u)"
    from event_retry_spec[OF this assms(2-5) refl] \<open>t' = t1\<close> assms(6) show ?thesis by simp
  next
    fix rs assume "event_dead ctx b e rs t = (t1, Inr u)"
    from event_dead_spec[OF this assms(2)] \<open>t' = t1\<close> assms(6) show ?thesis by simp
  qed
qed

section \<open>ack\<close>

definition advance :: "pgctx \<Rightarrow> sub_row \<Rightarrow> sub_row" where
  "advance ctx x = x\<lparr>sub_active := pg_now ctx, sub_last_tick := sub_next_tick x,
     sub_next_tick := None, sub_batch := None\<rparr>"

lemma finish_batch_spec:
  assumes "finish_batch ctx b t = (t', Inr v)" "subs_ok t" "find_batch b t = Some s"
    and "sub_role s = Role_normal"
  shows "t' = t\<lparr>t_subs := upd_key (sub_key s) (advance ctx) (t_subs t)\<rparr> \<and> v = 1"
proof -
  have mem: "s \<in> set (t_subs t)" using assms(3) by (auto simp: find_batch_def dest: find_SomeD)
  have a: "(\<lambda>x. x\<lparr>sub_active := pg_now ctx, sub_last_tick := sub_next_tick x,
      sub_next_tick := None, sub_batch := None\<rparr>) = advance ctx" by (simp add: advance_def fun_eq_iff)
  have "set_sub (\<lambda>x. sub_queue x = sub_queue s \<and> sub_consumer x = sub_consumer s) (advance ctx) t =
      (t\<lparr>t_subs := upd_key (sub_key s) (advance ctx) (t_subs t)\<rparr>, Inr ())"
    by (rule set_sub_key[OF assms(2) mem]) (auto simp: sub_key_def)
  with assms a show ?thesis
    by (auto simp: finish_batch_def sql_bind_def sql_read_def sql_return_def)
qed

end
