(* ===== verification/PgConn.thy ===== *)
theory PgConn
  imports ConsumerLoops ServerFacts
begin

text \<open>
  A connection to a database that holds the SQL functions of theory Server, as psycopg and
  PostgreSQL present it to the client: which function each statement text of
  \<open>clients/python/pgque/client.py\<close> calls, the transaction around a statement, and the
  commit or rollback of a block. The statements of the client whose SQL is not modelled
  (the cooperative calls) are the parameter \<open>other\<close>. The
  interfaces of the consumer are interpreted on this connection.
\<close>

section \<open>Statements of the client\<close>

definition opt_text :: "string option \<Rightarrow> pyval" where
  "opt_text x = (case x of None \<Rightarrow> PyNone | Some t \<Rightarrow> PyStr t)"

definition opt_num :: "int option \<Rightarrow> pyval" where
  "opt_num x = (case x of None \<Rightarrow> PyNone | Some n \<Rightarrow> PyInt n)"

definition message_row :: "pg_message \<Rightarrow> pyval list" where
  "message_row m = (let e = pm_event m in
     [PyInt (pm_msg_id m), PyInt (pm_batch_id m), opt_text (ev_type e), opt_text (ev_data e),
      opt_num (ev_retry e), PyDatetime (ev_time e),
      opt_text (ev_extra1 e), opt_text (ev_extra2 e), opt_text (ev_extra3 e), opt_text (ev_extra4 e)])"

definition scalar :: "('a \<Rightarrow> pyval) \<Rightarrow> 'a sql \<Rightarrow> pyval list list sql" where
  "scalar f m = sql_bind m (\<lambda>x. sql_return [[f x]])"

definition ill_typed :: "'a sql" where
  "ill_typed = pg_raise ''cannot cast the parameters of the statement''"

fun texts_of :: "pyval list \<Rightarrow> string list option" where
  "texts_of [] = Some []"
| "texts_of (PyStr s # vs) = map_option (Cons s) (texts_of vs)"
| "texts_of _ = None"

fun jsonb_casts :: "pgctx \<Rightarrow> string list \<Rightarrow> string list sql" where
  "jsonb_casts ctx [] = sql_return []"
| "jsonb_casts ctx (s # ss) = sql_bind (jsonb_cast ctx s) (\<lambda>u.
     sql_bind (jsonb_casts ctx ss) (\<lambda>us. sql_return (u # us)))"

definition call_send :: "pgctx \<Rightarrow> pyval list \<Rightarrow> pyval list list sql" where
  "call_send ctx ps = (case ps of
      [PyStr q, PyStr p] \<Rightarrow> scalar PyInt (sql_bind (jsonb_cast ctx p) (pg_send ctx q ''default''))
    | _ \<Rightarrow> ill_typed)"

definition call_send_typed :: "pgctx \<Rightarrow> pyval list \<Rightarrow> pyval list list sql" where
  "call_send_typed ctx ps = (case ps of
      [PyStr q, PyStr ty, PyStr p] \<Rightarrow> scalar PyInt (sql_bind (jsonb_cast ctx p) (pg_send ctx q ty))
    | _ \<Rightarrow> ill_typed)"

definition call_send_batch :: "pgctx \<Rightarrow> pyval list \<Rightarrow> pyval list list sql" where
  "call_send_batch ctx ps = (case ps of
      [PyStr q, PyStr ty, PyList vs] \<Rightarrow>
        (case texts_of vs of
           Some ts \<Rightarrow> scalar (\<lambda>ids. PyList (map PyInt ids))
             (sql_bind (jsonb_casts ctx ts) (pg_send_batch ctx q ty))
         | None \<Rightarrow> ill_typed)
    | _ \<Rightarrow> ill_typed)"

definition call_subscribe :: "pgctx \<Rightarrow> pyval list \<Rightarrow> pyval list list sql" where
  "call_subscribe ctx ps = (case ps of
      [PyStr q, PyStr c] \<Rightarrow> scalar PyInt (pg_subscribe ctx q c) | _ \<Rightarrow> ill_typed)"

definition call_receive :: "pgctx \<Rightarrow> pyval list \<Rightarrow> pyval list list sql" where
  "call_receive ctx ps = (case ps of
      [PyStr q, PyStr c, PyInt n] \<Rightarrow>
        sql_bind (pg_receive ctx q c n) (\<lambda>ms. sql_return (map message_row ms))
    | _ \<Rightarrow> ill_typed)"

definition call_ack :: "pgctx \<Rightarrow> pyval list \<Rightarrow> pyval list list sql" where
  "call_ack ctx ps = (case ps of [PyInt b] \<Rightarrow> scalar PyInt (pg_ack ctx b) | _ \<Rightarrow> ill_typed)"

definition call_force_next_tick :: "pyval list \<Rightarrow> pyval list list sql" where
  "call_force_next_tick ps = (case ps of
      [PyStr q] \<Rightarrow> scalar opt_num (pg_force_next_tick q) | _ \<Rightarrow> ill_typed)"

definition call_ticker :: "pgctx \<Rightarrow> pyval list \<Rightarrow> pyval list list sql" where
  "call_ticker ctx ps = (case ps of
      [PyStr q] \<Rightarrow> scalar opt_num (pg_ticker ctx q) | _ \<Rightarrow> ill_typed)"

text \<open>
  \<open>nack\<close>: of the fields of the message row the function reads \<open>msg_id\<close> only; the delay is
  cast to an interval.
\<close>

definition call_nack :: "pgctx \<Rightarrow> pyval list \<Rightarrow> pyval list list sql" where
  "call_nack ctx ps = (case ps of
      [PyInt b, PyInt mid, _, _, _, _, _, _, _, _, _, PyStr delay, reason] \<Rightarrow>
        (case pg_interval_secs ctx delay of
           None \<Rightarrow> pg_raise (''invalid input syntax for type interval: '' @ delay)
         | Some secs \<Rightarrow> (case reason of
               PyNone \<Rightarrow> scalar PyInt (pg_nack ctx b mid secs None)
             | PyStr r \<Rightarrow> scalar PyInt (pg_nack ctx b mid secs (Some r))
             | _ \<Rightarrow> ill_typed))
    | _ \<Rightarrow> ill_typed)"

definition call_unsubscribe :: "pgctx \<Rightarrow> pyval list \<Rightarrow> pyval list list sql" where
  "call_unsubscribe ctx ps = (case ps of
      [PyStr q, PyStr c] \<Rightarrow> scalar PyInt (pg_unsubscribe ctx q c) | _ \<Rightarrow> ill_typed)"

definition call_ticker_all :: "pgctx \<Rightarrow> pyval list \<Rightarrow> pyval list list sql" where
  "call_ticker_all ctx ps = (case ps of [] \<Rightarrow> scalar PyInt (pg_ticker_all ctx) | _ \<Rightarrow> ill_typed)"

type_synonym statements = "pgctx \<Rightarrow> string \<Rightarrow> pyval list \<Rightarrow> pyval list list sql"

definition pg_call :: "statements \<Rightarrow> statements" where
  "pg_call other ctx sql ps =
     (if sql = ''select pgque.send(%s, %s::jsonb)'' then call_send ctx ps
      else if sql = ''select pgque.send(%s, %s, %s::jsonb)'' then call_send_typed ctx ps
      else if sql = ''select pgque.send_batch(%s, %s, %s::jsonb[])'' then call_send_batch ctx ps
      else if sql = ''select pgque.subscribe(%s, %s)'' then call_subscribe ctx ps
      else if sql = ''select * from pgque.receive(%s, %s, %s)'' then call_receive ctx ps
      else if sql = ''select pgque.ack(%s)'' then call_ack ctx ps
      else if sql = ''select pgque.force_next_tick(%s)'' then call_force_next_tick ps
      else if sql = ''select pgque.ticker(%s)'' then call_ticker ctx ps
      else if sql = ''select pgque.unsubscribe(%s, %s)'' then call_unsubscribe ctx ps
      else if sql = ''select pgque.ticker()'' then call_ticker_all ctx ps
      else if sql = nack_sql then call_nack ctx ps
      else other ctx sql ps)"

lemma pg_call_simps [simp]:
  "pg_call other ctx ''select pgque.send(%s, %s::jsonb)'' = call_send ctx"
  "pg_call other ctx ''select pgque.send(%s, %s, %s::jsonb)'' = call_send_typed ctx"
  "pg_call other ctx ''select pgque.send_batch(%s, %s, %s::jsonb[])'' = call_send_batch ctx"
  "pg_call other ctx ''select pgque.subscribe(%s, %s)'' = call_subscribe ctx"
  "pg_call other ctx ''select * from pgque.receive(%s, %s, %s)'' = call_receive ctx"
  "pg_call other ctx ''select pgque.ack(%s)'' = call_ack ctx"
  "pg_call other ctx ''select pgque.force_next_tick(%s)'' = call_force_next_tick"
  "pg_call other ctx ''select pgque.ticker(%s)'' = call_ticker ctx"
  "pg_call other ctx ''select pgque.unsubscribe(%s, %s)'' = call_unsubscribe ctx"
  "pg_call other ctx ''select pgque.ticker()'' = call_ticker_all ctx"
  "pg_call other ctx nack_sql = call_nack ctx"
  by (simp_all add: pg_call_def nack_sql_def fun_eq_iff)

section \<open>The connection\<close>

text \<open>
  \<open>pc_txn\<close> counts the transactions and selects what PostgreSQL supplies to each (\<open>ctxs\<close>).
  A statement that raises in a block aborts the block, and everything but a rollback is
  refused until it ends; outside a block an autocommit connection commits each statement,
  any other begins a block.
\<close>

record pgconn =
  pc_committed :: db
  pc_work :: db
  pc_in_tx :: bool
  pc_failed :: bool
  pc_closed :: bool
  pc_autocommit :: bool
  pc_txn :: nat

definition keep_sequences :: "db \<Rightarrow> db \<Rightarrow> db" where
  "keep_sequences old new = old\<lparr>s_batch := s_batch new, s_event := s_event new,
     s_tick := s_tick new, s_consumer := s_consumer new, s_sub := s_sub new, s_dead := s_dead new,
     s_queue := s_queue new\<rparr>"

definition plain_error :: "string \<Rightarrow> string option \<Rightarrow> bool \<Rightarrow> pg_error" where
  "plain_error msg code operational = \<lparr>pg_str = msg,
     pg_diagnostic = Some \<lparr>message_primary = Some msg, message_hint = None\<rparr>,
     pg_sqlstate = code, pg_operational = operational\<rparr>"

definition aborted_error :: pg_error where
  "aborted_error = plain_error ''current transaction is aborted, commands ignored until end of transaction block''
     (Some ''25P02'') False"

definition closed_error :: pg_error where
  "closed_error = plain_error ''the connection is closed'' None True"

definition pg_block :: "statements \<Rightarrow> (nat \<Rightarrow> pgctx) \<Rightarrow> pgconn \<Rightarrow> string \<Rightarrow> pyval list
    \<Rightarrow> pgconn \<times> (exc + pyval list list)" where
  "pg_block other ctxs s sql ps =
     (if pc_failed s then (s, Inl (PsycopgError aborted_error))
      else case pg_call other (ctxs (pc_txn s)) sql ps (pc_work s) of
          (t, Inl e) \<Rightarrow> (s\<lparr>pc_work := keep_sequences (pc_work s) t, pc_failed := True\<rparr>,
                        Inl (PsycopgError e))
        | (t, Inr rows) \<Rightarrow> (s\<lparr>pc_work := t\<rparr>, Inr rows))"

definition pg_begin :: "pgconn \<Rightarrow> pgconn" where
  "pg_begin s = s\<lparr>pc_work := pc_committed s, pc_in_tx := True, pc_failed := False\<rparr>"

definition pg_execute :: "statements \<Rightarrow> (nat \<Rightarrow> pgctx) \<Rightarrow> pgconn \<Rightarrow> string \<Rightarrow> pyval list
    \<Rightarrow> pgconn \<times> (exc + pyval list list)" where
  "pg_execute other ctxs s sql ps =
     (if pc_closed s then (s\<lparr>pc_failed := True\<rparr>, Inl (PsycopgError closed_error))
      else if pc_in_tx s then pg_block other ctxs s sql ps
      else if \<not> pc_autocommit s then pg_block other ctxs (pg_begin s) sql ps
      else case pg_call other (ctxs (pc_txn s)) sql ps (pc_committed s) of
          (t, Inl e) \<Rightarrow> (s\<lparr>pc_committed := keep_sequences (pc_committed s) t, pc_txn := Suc (pc_txn s)\<rparr>,
                        Inl (PsycopgError e))
        | (t, Inr rows) \<Rightarrow> (s\<lparr>pc_committed := t, pc_txn := Suc (pc_txn s)\<rparr>, Inr rows))"

definition pg_enter :: "pgconn \<Rightarrow> pgconn \<times> (exc + unit)" where
  "pg_enter s =
     (if pc_closed s then (s, Inl (PsycopgError closed_error))
      else if pc_in_tx s then (s, Inl (OtherException ''nested block''))
      else (pg_begin s, Inr ()))"

definition pg_rollback :: "pgconn \<Rightarrow> pgconn" where
  "pg_rollback s = (if pc_in_tx s then
      s\<lparr>pc_committed := keep_sequences (pc_committed s) (pc_work s), pc_in_tx := False,
        pc_failed := False, pc_txn := Suc (pc_txn s)\<rparr> else s)"

text \<open>PostgreSQL answers the commit of an aborted block with a rollback, not an error.\<close>

definition pg_commit :: "pgconn \<Rightarrow> pgconn \<times> (exc + unit)" where
  "pg_commit s =
     (if pc_closed s then (pg_rollback s, Inl (PsycopgError closed_error))
      else if \<not> pc_in_tx s then (s, Inr ())
      else if pc_failed s then (pg_rollback s, Inr ())
      else (s\<lparr>pc_committed := pc_work s, pc_in_tx := False, pc_txn := Suc (pc_txn s)\<rparr>, Inr ()))"

definition pg_driver :: "statements \<Rightarrow> (nat \<Rightarrow> pgctx) \<Rightarrow> (pyval \<Rightarrow> string) \<Rightarrow> pgconn driver" where
  "pg_driver other ctxs rep =
     \<lparr>drv_connect = (\<lambda>s dsn ac. (s\<lparr>pc_closed := False, pc_in_tx := False, pc_failed := False,
        pc_autocommit := ac\<rparr>, Inr ())),
      drv_close = (\<lambda>s. (pg_rollback s)\<lparr>pc_closed := True\<rparr>),
      drv_closed = pc_closed,
      drv_execute = pg_execute other ctxs,
      drv_listen = (\<lambda>s ch. (s, if pc_closed s then Inl (PsycopgError closed_error) else Inr ())),
      drv_tx_enter = pg_enter,
      drv_tx_commit = pg_commit,
      drv_tx_rollback = pg_rollback,
      drv_commit = pg_commit,
      drv_rollback = (\<lambda>s. if pc_closed s then (s, Inl (PsycopgError closed_error)) else (pg_rollback s, Inr ())),
      drv_rep = rep\<rparr>"

lemma pg_driver_simps [simp]:
  "drv_execute (pg_driver other ctxs rep) = pg_execute other ctxs"
  "drv_tx_enter (pg_driver other ctxs rep) = pg_enter"
  "drv_tx_commit (pg_driver other ctxs rep) = pg_commit"
  "drv_tx_rollback (pg_driver other ctxs rep) = pg_rollback"
  "drv_commit (pg_driver other ctxs rep) = pg_commit"
  "drv_rep (pg_driver other ctxs rep) = rep"
  by (simp_all add: pg_driver_def)

text \<open>What a statement on the connection sees.\<close>

definition pg_view :: "pgconn \<Rightarrow> db" where
  "pg_view s = (if pc_in_tx s then pc_work s else pc_committed s)"

definition durable :: "pgconn \<Rightarrow> tables" where
  "durable s = tables.truncate (pc_committed s)"

lemma keep_sequences_tables [simp]: "tables.truncate (keep_sequences t u) = tables.truncate t"
  by (simp add: keep_sequences_def tables.truncate_def)

interpretation pgtx: tx_driver "pg_driver other ctxs rep" durable pc_in_tx pc_failed
  by unfold_locales
     (auto simp: pg_enter_def pg_begin_def durable_def pg_execute_def pg_block_def pg_rollback_def
        pg_commit_def isinstance_psycopg split: if_splits prod.splits sum.splits)

end
