(* ===== verification/Cooperative.thy ===== *)
theory Cooperative
  imports PgConn
begin

text \<open>
  Cooperative consumers, from \<open>devel/sql/pgque.sql\<close>: several workers (members, with the name
  \<open>consumer.subconsumer\<close>) share the subscription of one main consumer. The main row holds the
  position in the queue; a member holds at most one batch, the window between two ticks that
  it took from the main row or from a sibling whose heartbeat is too old. The members share
  the \<open>sub_id\<close> of the main row, so a retried event belongs to all of them.
\<close>

section \<open>Names and rows\<close>

definition validate_coop_names :: "string \<Rightarrow> string \<Rightarrow> string \<Rightarrow> unit sql" where
  "validate_coop_names q c sub =
     (if q = [] then pg_raise ''queue name must not be empty''
      else if c = [] then pg_raise ''consumer name must not be empty''
      else if sub = [] then pg_raise ''subconsumer name must not be empty''
      else if CHR ''.'' \<in> set c then
        pg_raise (''cooperative consumer name must not contain dot: '' @ c)
      else if CHR ''.'' \<in> set sub then
        pg_raise (''cooperative subconsumer name must not contain dot: '' @ sub)
      else sql_return ())"

definition member_name :: "string \<Rightarrow> string \<Rightarrow> string" where
  "member_name c sub = c @ ''.'' @ sub"

definition on_row :: "int \<Rightarrow> int \<Rightarrow> sub_row \<Rightarrow> bool" where
  "on_row qid cid x \<longleftrightarrow> sub_queue x = qid \<and> sub_consumer x = cid"

definition sub_of :: "int \<Rightarrow> int \<Rightarrow> db \<Rightarrow> sub_row option" where
  "sub_of qid cid t = find (on_row qid cid) (t_subs t)"

definition clear_member_cursor :: "pgctx \<Rightarrow> int \<Rightarrow> int \<Rightarrow> unit sql" where
  "clear_member_cursor ctx qid cid = set_sub (on_row qid cid)
     (\<lambda>x. x\<lparr>sub_active := pg_now ctx, sub_last_tick := None, sub_next_tick := None, sub_batch := None\<rparr>)"

definition insert_sub :: "sub_row \<Rightarrow> unit sql" where
  "insert_sub r = sql_update (\<lambda>t. t\<lparr>t_subs := t_subs t @ [r]\<rparr>)"

section \<open>Registration\<close>

text \<open>The row of a consumer name, made when it does not exist.\<close>

definition ensure_consumer :: "string \<Rightarrow> int sql" where
  "ensure_consumer c = sql_bind (sql_read (find_consumer c)) (\<lambda>cr. case cr of
      Some x \<Rightarrow> sql_return (co_id x)
    | None \<Rightarrow> sql_bind nextval_consumer (\<lambda>i.
        sql_bind (sql_update (\<lambda>t. t\<lparr>t_consumers := t_consumers t @ [\<lparr>co_id = i, co_name = c\<rparr>]\<rparr>))
          (\<lambda>_. sql_return i)))"

text \<open>
  The row of the main consumer: a new one on the last tick of the queue, an existing main
  row, or a normal subscription without an open batch that is converted on request. The number says
  whether a row was made.
\<close>

definition ensure_main :: "pgctx \<Rightarrow> string \<Rightarrow> string \<Rightarrow> int \<Rightarrow> int \<Rightarrow> bool \<Rightarrow> (sub_row \<times> int) sql" where
  "ensure_main ctx q c qid cid convert = sql_bind (sql_read (sub_of qid cid)) (\<lambda>sr. case sr of
      None \<Rightarrow> sql_bind (sql_read (max_tick qid (\<lambda>_. True))) (\<lambda>tk. case tk of
          None \<Rightarrow> pg_raise ''No ticks for this queue.  Please run ticker on database.''
        | Some k \<Rightarrow> sql_bind nextval_sub (\<lambda>i.
            let row = \<lparr>sub_id = i, sub_queue = qid, sub_consumer = cid,
                 sub_last_tick = Some (tick_id k), sub_active = pg_now ctx, sub_batch = None,
                 sub_next_tick = None, sub_role = Role_coop_main\<rparr>
            in sql_bind (insert_sub row) (\<lambda>_. sql_return (row, 1))))
    | Some m \<Rightarrow> (case sub_role m of
          Role_normal \<Rightarrow>
            if \<not> convert then pg_raise (''consumer '' @ c @ '' on queue '' @ q
                @ '' is already a normal consumer; explicit conversion is required'')
            else if sub_batch m \<noteq> None then pg_raise (''cannot convert active normal consumer ''
                @ c @ '' on queue '' @ q @ '' to cooperative main'')
            else sql_bind (set_sub (on_row qid cid)
                (\<lambda>x. x\<lparr>sub_role := Role_coop_main, sub_active := pg_now ctx\<rparr>))
              (\<lambda>_. sql_return (m\<lparr>sub_role := Role_coop_main, sub_active := pg_now ctx\<rparr>, 0))
        | Role_coop_main \<Rightarrow> sql_return (m, 0)
        | Role_coop_member \<Rightarrow> pg_raise (''consumer '' @ c @ '' on queue '' @ q
            @ '' is not a cooperative main consumer'')))"

definition register_member :: "pgctx \<Rightarrow> string \<Rightarrow> string \<Rightarrow> sub_row \<Rightarrow> int \<Rightarrow> int sql" where
  "register_member ctx q name m created = sql_bind (ensure_consumer name) (\<lambda>cid.
     sql_bind (sql_read (sub_of (sub_queue m) cid)) (\<lambda>sr. case sr of
       Some x \<Rightarrow>
         if sub_role x \<noteq> Role_coop_member \<or> sub_id x \<noteq> sub_id m then
           pg_raise (''consumer name '' @ name @ '' on queue '' @ q @ '' is already registered incompatibly'')
         else sql_bind (set_sub (on_row (sub_queue m) cid) (\<lambda>x. x\<lparr>sub_active := pg_now ctx\<rparr>))
           (\<lambda>_. sql_return created)
     | None \<Rightarrow> sql_bind (insert_sub \<lparr>sub_id = sub_id m, sub_queue = sub_queue m, sub_consumer = cid,
           sub_last_tick = None, sub_active = pg_now ctx, sub_batch = None, sub_next_tick = None,
           sub_role = Role_coop_member\<rparr>) (\<lambda>_. sql_return 1)))"

definition register_subconsumer :: "pgctx \<Rightarrow> string \<Rightarrow> string \<Rightarrow> string \<Rightarrow> bool \<Rightarrow> int sql" where
  "register_subconsumer ctx q c sub convert = sql_bind (validate_coop_names q c sub) (\<lambda>_.
     sql_bind (sql_read (find_queue q)) (\<lambda>qr. case qr of
       None \<Rightarrow> pg_raise ''Event queue not created yet''
     | Some r \<Rightarrow> sql_bind (ensure_consumer c) (\<lambda>cid.
         sql_bind (ensure_main ctx q c (queue_id r) cid convert) (\<lambda>(m, created).
         register_member ctx q (member_name c sub) m created))))"

definition pg_subscribe_subconsumer :: "pgctx \<Rightarrow> string \<Rightarrow> string \<Rightarrow> string \<Rightarrow> bool \<Rightarrow> int sql" where
  "pg_subscribe_subconsumer ctx q c sub convert = register_subconsumer ctx q c sub convert"

text \<open>The heartbeat; its time is the clock, not the start of the transaction.\<close>

definition member_row :: "string \<Rightarrow> string \<Rightarrow> db \<Rightarrow> sub_row \<Rightarrow> bool" where
  "member_row q name t x \<longleftrightarrow> (case (find_queue q t, find_consumer name t) of
      (Some r, Some cr) \<Rightarrow> on_row (queue_id r) (co_id cr) x \<and> sub_role x = Role_coop_member
    | _ \<Rightarrow> False)"

definition pg_touch_subconsumer :: "pgctx \<Rightarrow> string \<Rightarrow> string \<Rightarrow> string \<Rightarrow> int sql" where
  "pg_touch_subconsumer ctx q c sub = sql_bind (validate_coop_names q c sub) (\<lambda>_.
     sql_bind (sql_read (\<lambda>t. member_row q (member_name c sub) t)) (\<lambda>P.
     sql_bind (sql_read (\<lambda>t. int (length (filter P (t_subs t))))) (\<lambda>cnt.
     sql_bind (set_sub P (\<lambda>x. x\<lparr>sub_active := pg_clock ctx\<rparr>)) (\<lambda>_. sql_return cnt))))"

section \<open>The next batch of a member\<close>

definition coop_main :: "string \<Rightarrow> string \<Rightarrow> db \<Rightarrow> sub_row option" where
  "coop_main q c t = (case (find_queue q t, find_consumer c t) of
      (Some r, Some cr) \<Rightarrow>
        find (\<lambda>x. on_row (queue_id r) (co_id cr) x \<and> sub_role x = Role_coop_main) (t_subs t)
    | _ \<Rightarrow> None)"

definition coop_member :: "sub_row \<Rightarrow> string \<Rightarrow> db \<Rightarrow> sub_row option" where
  "coop_member m name t = (case find_consumer name t of
      None \<Rightarrow> None
    | Some cr \<Rightarrow> find (\<lambda>x. on_row (sub_queue m) (co_id cr) x \<and> sub_id x = sub_id m
        \<and> sub_role x = Role_coop_member) (t_subs t))"

text \<open>
  The sibling to take over from: it holds a batch, its heartbeat is older than the interval,
  and it is the first by heartbeat and consumer.
\<close>

definition stale_sibling :: "pgctx \<Rightarrow> int \<Rightarrow> sub_row \<Rightarrow> sub_row \<Rightarrow> db \<Rightarrow> sub_row option" where
  "stale_sibling ctx dead m x t =
     (case sort_key sub_active (sort_key sub_consumer (filter (\<lambda>v. sub_queue v = sub_queue m
         \<and> sub_id v = sub_id m \<and> sub_role v = Role_coop_member \<and> sub_consumer v \<noteq> sub_consumer x
         \<and> sub_batch v \<noteq> None \<and> sub_active v < pg_now ctx - dead) (t_subs t))) of
        [] \<Rightarrow> None
      | v # _ \<Rightarrow> Some v)"

definition give_window :: "pgctx \<Rightarrow> sub_row \<Rightarrow> int option \<Rightarrow> int option \<Rightarrow> int \<Rightarrow> unit sql" where
  "give_window ctx x from_tick to_tick b = set_sub (on_row (sub_queue x) (sub_consumer x))
     (\<lambda>y. y\<lparr>sub_active := pg_now ctx, sub_last_tick := from_tick, sub_next_tick := to_tick, sub_batch := Some b\<rparr>)"

definition takeover :: "pgctx \<Rightarrow> sub_row \<Rightarrow> sub_row \<Rightarrow> int option sql" where
  "takeover ctx x v = sql_bind nextval_batch (\<lambda>b.
     sql_bind (give_window ctx x (sub_last_tick v) (sub_next_tick v) b) (\<lambda>_.
     sql_bind (clear_member_cursor ctx (sub_queue v) (sub_consumer v)) (\<lambda>_. sql_return (Some b))))"

definition allocate :: "pgctx \<Rightarrow> string \<Rightarrow> string \<Rightarrow> sub_row \<Rightarrow> sub_row \<Rightarrow> int option sql" where
  "allocate ctx q c m x =
     (case sub_batch m of
        Some b \<Rightarrow> pg_raise (''cooperative main consumer '' @ q @ ''/'' @ c
          @ '' has an unexpected active batch '' @ str_of_int b)
      | None \<Rightarrow>
     (case sub_last_tick m of
        None \<Rightarrow> pg_raise (''PgQ corruption: cooperative main consumer '' @ c @ '' on queue '' @ q
          @ '' has no cursor'')
      | Some pos \<Rightarrow> sql_bind (sql_read (find_tick (sub_queue m) (Some pos))) (\<lambda>tk. case tk of
          None \<Rightarrow> pg_raise (''PgQ corruption: cooperative main consumer '' @ c @ '' on queue '' @ q
            @ '' does not see tick '' @ str_of_int pos)
        | Some _ \<Rightarrow> sql_bind (sql_read (min_tick (sub_queue m) (\<lambda>r. pos < tick_id r))) (\<lambda>nt. case nt of
            None \<Rightarrow> sql_return None
          | Some cur \<Rightarrow> sql_bind nextval_batch (\<lambda>b.
              sql_bind (set_sub (on_row (sub_queue m) (sub_consumer m))
                (\<lambda>y. y\<lparr>sub_active := pg_now ctx, sub_last_tick := Some (tick_id cur),
                      sub_next_tick := None, sub_batch := None\<rparr>)) (\<lambda>_.
              sql_bind (give_window ctx x (Some pos) (Some (tick_id cur)) b) (\<lambda>_. sql_return (Some b))))))))"

definition next_batch_coop :: "pgctx \<Rightarrow> string \<Rightarrow> string \<Rightarrow> string \<Rightarrow> int option \<Rightarrow> int option sql" where
  "next_batch_coop ctx q c sub dead = sql_bind (register_subconsumer ctx q c sub False) (\<lambda>_.
     sql_bind (sql_read (coop_main q c)) (\<lambda>mr. case mr of
       None \<Rightarrow> pg_raise (''cooperative main consumer not found: '' @ q @ ''/'' @ c)
     | Some m \<Rightarrow> sql_bind (sql_read (coop_member m (member_name c sub))) (\<lambda>xr. case xr of
         None \<Rightarrow> pg_raise (''cooperative subconsumer not found: '' @ q @ ''/'' @ c @ ''/'' @ sub)
       | Some x \<Rightarrow> (case sub_batch x of
           Some b \<Rightarrow> sql_bind (set_sub (on_row (sub_queue x) (sub_consumer x))
               (\<lambda>y. y\<lparr>sub_active := pg_now ctx\<rparr>)) (\<lambda>_. sql_return (Some b))
         | None \<Rightarrow> sql_bind (sql_read (\<lambda>t. case dead of
                 None \<Rightarrow> None | Some d \<Rightarrow> stale_sibling ctx d m x t)) (\<lambda>vr. case vr of
               Some v \<Rightarrow> takeover ctx x v
             | None \<Rightarrow> allocate ctx q c m x)))))"

section \<open>receive_coop\<close>

fun receive_coop_loop :: "int \<Rightarrow> int \<Rightarrow> int \<Rightarrow> event list \<Rightarrow> pg_message list sql" where
  "receive_coop_loop b max_return cnt [] = sql_return []"
| "receive_coop_loop b max_return cnt (ev # evs) =
     (if cnt = max_return then
        pg_raise_code (''pgque.receive_coop: batch exceeds max_return of '' @ str_of_int max_return) ''54000''
          ''Retry with a larger resource-safe max_return to receive the complete batch. Do not acknowledge after this error.''
      else sql_bind (receive_coop_loop b max_return (cnt + 1) evs) (\<lambda>ms.
             sql_return (\<lparr>pm_msg_id = ev_id ev, pm_batch_id = b, pm_event = ev\<rparr> # ms)))"

definition pg_receive_coop ::
  "pgctx \<Rightarrow> string \<Rightarrow> string \<Rightarrow> string \<Rightarrow> int \<Rightarrow> int option \<Rightarrow> pg_message list sql" where
  "pg_receive_coop ctx q c sub max_return dead =
     (if max_return < 1 then
        pg_raise (''pgque.receive_coop: max_return must be >= 1, got '' @ str_of_int max_return)
      else sql_bind (next_batch_coop ctx q c sub dead) (\<lambda>bo. case bo of
          None \<Rightarrow> sql_return []
        | Some b \<Rightarrow> sql_bind (get_batch_events b) (\<lambda>evs.
            sql_bind (receive_coop_loop b max_return 0 evs) (\<lambda>ms.
              if evs = [] then sql_bind (finish_batch ctx b) (\<lambda>_. sql_return ms)
              else sql_return ms))))"

section \<open>Removing a member\<close>

text \<open>
  With \<open>batch_handling = 1\<close> every event of the open batch is queued for retry or, at the
  retry limit, becomes a dead letter.
\<close>

fun settle_events :: "pgctx \<Rightarrow> int \<Rightarrow> int \<Rightarrow> event list \<Rightarrow> unit sql" where
  "settle_events ctx b limit [] = sql_return ()"
| "settle_events ctx b limit (e # es) =
     sql_bind (if limit \<le> (case ev_retry e of None \<Rightarrow> 0 | Some n \<Rightarrow> n)
       then event_dead ctx b e (Some ''subconsumer unregistered'')
       else event_retry ctx b (ev_id e) 60) (\<lambda>_. settle_events ctx b limit es)"

definition release_member :: "pgctx \<Rightarrow> string \<Rightarrow> string \<Rightarrow> string \<Rightarrow> int \<Rightarrow> int \<Rightarrow> sub_row \<Rightarrow> unit sql" where
  "release_member ctx q c sub handling limit x = (case sub_batch x of
      None \<Rightarrow> sql_return ()
    | Some b \<Rightarrow>
        if handling = 0 then pg_raise (''cannot unregister active cooperative subconsumer ''
          @ q @ ''/'' @ c @ ''/'' @ sub @ '' without batch_handling = 1'')
        else sql_bind (get_batch_events b) (\<lambda>evs.
          sql_bind (settle_events ctx b limit evs) (\<lambda>_.
          clear_member_cursor ctx (sub_queue x) (sub_consumer x))))"

text \<open>The member \<open>x\<close> is gone; its group is left to \<open>m\<close>.\<close>

definition remove_member :: "pgctx \<Rightarrow> sub_row \<Rightarrow> sub_row \<Rightarrow> int sql" where
  "remove_member ctx m x =
     sql_bind (delete_subs (on_row (sub_queue x) (sub_consumer x))) (\<lambda>_.
     sql_bind (drop_consumer (sub_consumer x)) (\<lambda>_.
     sql_bind (any_sub (\<lambda>y. sub_queue y = sub_queue m \<and> sub_id y = sub_id m
         \<and> sub_role y = Role_coop_member)) (\<lambda>members.
     sql_bind (if members then sql_return ()
       else set_sub (\<lambda>y. on_row (sub_queue m) (sub_consumer m) y \<and> sub_role y = Role_coop_main)
              (\<lambda>y. y\<lparr>sub_role := Role_normal, sub_active := pg_now ctx\<rparr>))
     (\<lambda>_. sql_return 1))))"

definition unregister_subconsumer :: "pgctx \<Rightarrow> string \<Rightarrow> string \<Rightarrow> string \<Rightarrow> int \<Rightarrow> int sql" where
  "unregister_subconsumer ctx q c sub handling = sql_bind (validate_coop_names q c sub) (\<lambda>_.
     if handling \<noteq> 0 \<and> handling \<noteq> 1 then
       pg_raise (''unsupported batch_handling value: '' @ str_of_int handling)
     else sql_bind (sql_read (coop_main q c)) (\<lambda>mr. case mr of
       None \<Rightarrow> sql_return 0
     | Some m \<Rightarrow> sql_bind (sql_read (coop_member m (member_name c sub))) (\<lambda>xr. case xr of
         None \<Rightarrow> sql_return 0
       | Some x \<Rightarrow>
         sql_bind (sql_read (\<lambda>t. case find_queue q t of None \<Rightarrow> 5
             | Some r \<Rightarrow> (case queue_max_retries r of None \<Rightarrow> 5 | Some n \<Rightarrow> n))) (\<lambda>limit.
         sql_bind (release_member ctx q c sub handling limit x) (\<lambda>_. remove_member ctx m x)))))"

definition pg_unsubscribe_subconsumer :: "pgctx \<Rightarrow> string \<Rightarrow> string \<Rightarrow> string \<Rightarrow> int \<Rightarrow> int sql" where
  "pg_unsubscribe_subconsumer ctx q c sub handling = unregister_subconsumer ctx q c sub handling"

section \<open>The statements of the client\<close>

definition call_receive_coop :: "pgctx \<Rightarrow> pyval list \<Rightarrow> pyval list list sql" where
  "call_receive_coop ctx ps = (case ps of
      [PyStr q, PyStr c, PyStr sub, PyInt n, dead] \<Rightarrow>
        (case dead of
           PyNone \<Rightarrow> sql_bind (pg_receive_coop ctx q c sub n None) (\<lambda>ms. sql_return (map message_row ms))
         | PyStr d \<Rightarrow> (case pg_interval_us ctx d of
               None \<Rightarrow> pg_raise (''invalid input syntax for type interval: '' @ d)
             | Some us \<Rightarrow> sql_bind (pg_receive_coop ctx q c sub n (Some us))
                 (\<lambda>ms. sql_return (map message_row ms)))
         | _ \<Rightarrow> ill_typed)
    | _ \<Rightarrow> ill_typed)"

definition call_subscribe_subconsumer :: "pgctx \<Rightarrow> pyval list \<Rightarrow> pyval list list sql" where
  "call_subscribe_subconsumer ctx ps = (case ps of
      [PyStr q, PyStr c, PyStr sub] \<Rightarrow> scalar PyInt (pg_subscribe_subconsumer ctx q c sub False)
    | _ \<Rightarrow> ill_typed)"

definition call_unsubscribe_subconsumer :: "pgctx \<Rightarrow> pyval list \<Rightarrow> pyval list list sql" where
  "call_unsubscribe_subconsumer ctx ps = (case ps of
      [PyStr q, PyStr c, PyStr sub, PyInt h] \<Rightarrow> scalar PyInt (pg_unsubscribe_subconsumer ctx q c sub h)
    | _ \<Rightarrow> ill_typed)"

definition call_touch_subconsumer :: "pgctx \<Rightarrow> pyval list \<Rightarrow> pyval list list sql" where
  "call_touch_subconsumer ctx ps = (case ps of
      [PyStr q, PyStr c, PyStr sub] \<Rightarrow> scalar PyInt (pg_touch_subconsumer ctx q c sub)
    | _ \<Rightarrow> ill_typed)"

definition coop_call :: "statements \<Rightarrow> statements" where
  "coop_call other ctx sql ps =
     (if sql = ''select * from pgque.receive_coop(%s, %s, %s, %s, %s::interval)'' then call_receive_coop ctx ps
      else if sql = ''select pgque.subscribe_subconsumer(%s, %s, %s)'' then call_subscribe_subconsumer ctx ps
      else if sql = ''select pgque.unsubscribe_subconsumer(%s, %s, %s, %s)'' then call_unsubscribe_subconsumer ctx ps
      else if sql = ''select pgque.touch_subconsumer(%s, %s, %s)'' then call_touch_subconsumer ctx ps
      else other ctx sql ps)"

lemma coop_call_simps [simp]:
  "coop_call other ctx ''select * from pgque.receive_coop(%s, %s, %s, %s, %s::interval)'' = call_receive_coop ctx"
  "coop_call other ctx ''select pgque.subscribe_subconsumer(%s, %s, %s)'' = call_subscribe_subconsumer ctx"
  "coop_call other ctx ''select pgque.unsubscribe_subconsumer(%s, %s, %s, %s)'' = call_unsubscribe_subconsumer ctx"
  "coop_call other ctx ''select pgque.touch_subconsumer(%s, %s, %s)'' = call_touch_subconsumer ctx"
  by (simp_all add: coop_call_def fun_eq_iff)

end
