(* ===== verification/Delivery.thy ===== *)
theory Delivery
  imports PgConn
begin

text \<open>
  The consumer of \<open>consumer.py\<close> on the SQL functions of \<open>pgque.sql\<close>: the interface
  \<open>batch_server\<close> interpreted on the connection of theory PgConn, and what a poll achieves
  in the database.
\<close>

section \<open>Client calls as SQL calls\<close>

definition client_message :: "pg_message \<Rightarrow> message" where
  "client_message m = (let e = pm_event m in
     \<lparr>msg_id = PyInt (pm_msg_id m), batch_id = PyInt (pm_batch_id m), msg_type = opt_text (ev_type e),
      payload = opt_text (ev_data e), retry_count = opt_num (ev_retry e),
      created_at = PyDatetime (ev_time e), extra1 = opt_text (ev_extra1 e),
      extra2 = opt_text (ev_extra2 e), extra3 = opt_text (ev_extra3 e),
      extra4 = opt_text (ev_extra4 e)\<rparr>)"

lemma message_of_message_row: "message_of_row (message_row m) = Inr (client_message m)"
  by (simp add: message_of_row_def message_row_def client_message_def Let_def)

lemma client_message_ids [simp]:
  "msg_id (client_message m) = PyInt (pm_msg_id m)" "batch_id (client_message m) = PyInt (pm_batch_id m)"
  "payload (client_message m) = opt_text (ev_data (pm_event m))"
  by (simp_all add: client_message_def Let_def)

lemma encode_opt_text [simp]: "encode_nack_payload (opt_text x) = Inr (opt_text x)"
  by (simp add: opt_text_def split: option.splits)

lemma pg_execute_ok:
  assumes "pg_execute other ctxs s sql ps = (s', Inr rows)"
  obtains n where "pg_call other (ctxs n) sql ps (pg_view s) = (pg_view s', Inr rows)"
    "\<not> (pc_in_tx s' \<and> pc_failed s')"
  using assms
  by (fastforce simp: pg_execute_def pg_block_def pg_begin_def pg_view_def
      split: if_splits prod.splits sum.splits)

lemma scalar_ok: "scalar f m t = (t', Inr rows) \<Longrightarrow> \<exists>x. m t = (t', Inr x) \<and> rows = [[f x]]"
  by (auto simp: scalar_def sql_bind_def sql_return_def split: prod.splits sum.splits)

lemma receive_ok:
  assumes "receive (pg_driver other ctxs rep) s q c n = (s', Inr ms)"
  obtains k pms where "pg_receive (ctxs k) q c n (pg_view s) = (pg_view s', Inr pms)"
    "ms = map client_message pms"
proof -
  from assms obtain rows where x:
      "pg_execute other ctxs s ''select * from pgque.receive(%s, %s, %s)'' [PyStr q, PyStr c, PyInt n] = (s', Inr rows)"
      "mapE message_of_row rows = Inr ms"
    by (auto simp: receive_def run_sql_def bindE_eq_Inr split: prod.splits sum.splits)
  from pg_execute_ok[OF x(1)] obtain k where
      "call_receive (ctxs k) [PyStr q, PyStr c, PyInt n] (pg_view s) = (pg_view s', Inr rows)" by auto
  then obtain pms where p: "pg_receive (ctxs k) q c n (pg_view s) = (pg_view s', Inr pms)"
      "rows = map message_row pms"
    by (auto simp: call_receive_def sql_bind_def sql_return_def split: prod.splits sum.splits)
  have "mapE message_of_row rows = Inr (map client_message pms)"
    unfolding p(2) by (induction pms) (simp_all add: message_of_message_row)
  with x(2) p that show thesis by simp
qed

lemma nack_ok:
  assumes "nack (pg_driver other ctxs rep) s (PyInt b) m ra reason = (s', Inr u)"
  obtains k mid secs r v where "msg_id m = PyInt mid"
    "pg_nack (ctxs k) b mid secs r (pg_view s) = (pg_view s', Inr v)"
proof -
  from assms obtain v rows where x:
      "pg_execute other ctxs s nack_sql (nack_params rep (PyInt b) m v ra reason) = (s', Inr rows)"
    by (auto simp: nack_def run_sql_def bindE_eq_Inr split: prod.splits sum.splits)
  from pg_execute_ok[OF x] obtain k where k:
      "call_nack (ctxs k) (nack_params rep (PyInt b) m v ra reason) (pg_view s) = (pg_view s', Inr rows)"
    by auto
  then obtain mid where "msg_id m = PyInt mid"
    by (cases "msg_id m") (auto simp: call_nack_def nack_params_def ill_typed_def pg_raise_def)
  moreover from k this obtain secs r where
      "scalar PyInt (pg_nack (ctxs k) b mid secs r) (pg_view s) = (pg_view s', Inr rows)"
    by (auto simp: call_nack_def nack_params_def ill_typed_def pg_raise_def opt_str_def
        split: option.splits)
  ultimately show thesis using that scalar_ok by blast
qed

lemma ack_ok:
  assumes "ack (pg_driver other ctxs rep) s (PyInt b) = (s', Inr v)"
  obtains k n where "pg_ack (ctxs k) b (pg_view s) = (pg_view s', Inr n)" "v = PyInt n"
    "\<not> (pc_in_tx s' \<and> pc_failed s')"
proof -
  from assms obtain rows where x:
      "pg_execute other ctxs s ''select pgque.ack(%s)'' [PyInt b] = (s', Inr rows)"
      "row_item (fetchone rows) 0 = Inr v"
    by (auto simp: ack_def call_scalar_def run_sql_def bindE_eq_Inr split: prod.splits sum.splits)
  from pg_execute_ok[OF x(1)] obtain k where
      "call_ack (ctxs k) [PyInt b] (pg_view s) = (pg_view s', Inr rows)"
      "\<not> (pc_in_tx s' \<and> pc_failed s')" by auto
  then show thesis using that x(2) scalar_ok
    by (fastforce simp: call_ack_def row_item_def fetchone_def)
qed

section \<open>Batches on the connection\<close>

definition on_batch :: "string \<Rightarrow> string \<Rightarrow> pgconn \<Rightarrow> pyval \<Rightarrow> message list \<Rightarrow> bool" where
  "on_batch q c s bid ms \<longleftrightarrow> (\<exists>b sub evs. bid = PyInt b \<and> subs_ok (pg_view s)
     \<and> find_sub q c (pg_view s) = Some sub \<and> find_batch b (pg_view s) = Some sub
     \<and> sub_role sub \<noteq> Role_coop_member \<and> batch_rows b (pg_view s) = Some evs
     \<and> distinct (map ev_id evs) \<and> ms = map (client_message \<circ> to_message b) evs)"

definition settled_message :: "string \<Rightarrow> string \<Rightarrow> pgconn \<Rightarrow> message \<Rightarrow> bool" where
  "settled_message q c s m \<longleftrightarrow> (\<exists>sub mid. find_sub q c (pg_view s) = Some sub
     \<and> msg_id m = PyInt mid \<and> settled_event sub mid (pg_view s))"

text \<open>
  The batch is over: its number is gone, the subscription has no batch, and the messages
  are the events between some earlier tick and the tick the subscription now stands on.
\<close>

definition batch_over :: "string \<Rightarrow> string \<Rightarrow> pgconn \<Rightarrow> pyval \<Rightarrow> message list \<Rightarrow> bool" where
  "batch_over q c s bid ms \<longleftrightarrow> (\<exists>b (sub :: sub_row) (prev :: tick) cur qr. bid = PyInt b \<and> subs_ok (pg_view s)
     \<and> find_sub q c (pg_view s) = Some sub \<and> sub_batch sub = None \<and> find_batch b (pg_view s) = None
     \<and> find_tick (sub_queue sub) (sub_last_tick sub) (pg_view s) = Some cur
     \<and> find (\<lambda>r. queue_id r = sub_queue sub) (t_queues (pg_view s)) = Some qr
     \<and> ms = map (client_message \<circ> to_message b)
          (batch_event_sql (tick_snapshot prev) (tick_snapshot cur) (sub_id sub) [queue_events qr]))"

definition batch_done :: "string \<Rightarrow> string \<Rightarrow> pgconn \<Rightarrow> pyval \<Rightarrow> message list \<Rightarrow> bool" where
  "batch_done q c s bid ms \<longleftrightarrow> \<not> (pc_in_tx s \<and> pc_failed s) \<and> batch_over q c s bid ms"

lemma next_batch_role:
  assumes "next_batch ctx q c t = (t', Inr (Some b))" "find_sub q c t = Some s"
  shows "sub_role s \<noteq> Role_coop_member"
  using assms by (auto simp: next_batch_def sql_defs split: if_splits)

lemma next_batch_role':
  assumes ok: "subs_ok t" and nb: "next_batch ctx q c t = (t', Inr (Some b))"
    and fs: "find_sub q c t' = Some s'"
  shows "sub_role s' \<noteq> Role_coop_member"
proof (cases rule: next_batch_cases[OF ok nb])
  case (1 s)
  with fs next_batch_role[OF nb] show ?thesis by simp
next
  case (2 s prev cur)
  show ?thesis
  proof (cases "sub_role s = Role_normal")
    case True
    have "find_sub q c t' = Some (stamp ctx b (tick_id cur) s)"
      by (rule find_sub_upd[OF 2(1)]) (use 2(6) True in simp_all)
    with fs True show ?thesis by auto
  next
    case False
    with 2(6) have "find_sub q c t' = find_sub q c t"
      by (simp add: find_sub_def find_queue_def find_consumer_def split: option.splits)
    with fs next_batch_role[OF nb] show ?thesis by simp
  qed
qed

lemma receive_on_batch:
  assumes inv: "subs_ok (pg_view s)"
    and r: "receive (pg_driver other ctxs rep) s q c n = (s', Inr (m # ms))"
    and d: "distinct (map msg_id (m # ms))"
  shows "on_batch q c s' (batch_id m) (m # ms)"
proof -
  from receive_ok[OF r] obtain k pms where p: "pg_receive (ctxs k) q c n (pg_view s) = (pg_view s', Inr pms)"
      "m # ms = map client_message pms" by blast
  then have "pms \<noteq> []" by auto
  from receive_cases[OF p(1) this] obtain b evs where b:
      "next_batch (ctxs k) q c (pg_view s) = (pg_view s', Inr (Some b))"
      "batch_rows b (pg_view s') = Some evs" "pms = map (to_message b) evs" by metis
  have ok': "subs_ok (pg_view s')" using next_batch_ok[OF inv b(1)] .
  from b(2) obtain sub where sub: "find_batch b (pg_view s') = Some sub"
    by (auto simp: batch_rows_def split: option.splits)
  note fs = next_batch_sub[OF inv b(1) sub]
  have ms: "m # ms = map (client_message \<circ> to_message b) evs" using p(2) b(3) by simp
  have "map msg_id (m # ms) = map PyInt (map ev_id evs)"
    unfolding ms by (simp add: to_message_def)
  with d have "distinct (map ev_id evs)" by (metis distinct_map)
  moreover have "batch_id m = PyInt b" using ms by (cases evs) (auto simp: to_message_def)
  ultimately show ?thesis
    unfolding on_batch_def
    by (intro exI[of _ b] exI[of _ sub] exI[of _ evs] conjI)
       (use ok' sub fs next_batch_role'[OF inv b(1) fs] b(2) ms in simp_all)
qed

lemma nack_settles:
  assumes o: "on_batch q c s bid ms" and x: "x \<in> set ms"
    and n: "nack (pg_driver other ctxs rep) s bid x ra reason = (s', Inr u)"
  shows "on_batch q c s' bid ms \<and> settled_message q c s' x
    \<and> (settled_message q c s y \<longrightarrow> settled_message q c s' y)"
proof -
  from o obtain b sub evs where b: "bid = PyInt b" "subs_ok (pg_view s)"
      "find_sub q c (pg_view s) = Some sub" "find_batch b (pg_view s) = Some sub"
      "sub_role sub \<noteq> Role_coop_member" "batch_rows b (pg_view s) = Some evs"
      "distinct (map ev_id evs)" "ms = map (client_message \<circ> to_message b) evs"
    unfolding on_batch_def by blast
  have "x \<in> (client_message \<circ> to_message b) ` set evs" using x b(8) by (metis list.set_map)
  then obtain e where e: "e \<in> set evs" "x = client_message (to_message b e)" by (metis comp_apply imageE)
  obtain k mid secs r v where
      k: "msg_id x = PyInt mid" "pg_nack (ctxs k) b mid secs r (pg_view s) = (pg_view s', Inr v)"
    by (rule nack_ok[OF n[unfolded b(1)]])
  then have "ev_id e = mid" using e(2) by (simp add: to_message_def)
  from nack_spec[OF k(2) b(4,6,7) e(1) this] have sp: "same_batches (pg_view s) (pg_view s')"
      "settled_event sub mid (pg_view s')" "set (t_retry (pg_view s)) \<subseteq> set (t_retry (pg_view s'))"
      "set (t_dead (pg_view s)) \<subseteq> set (t_dead (pg_view s'))" by blast+
  note same = same_batches_facts[OF sp(1)]
  have "settled_event sb i (pg_view s')" if "settled_event sb i (pg_view s)" for sb i
    using that sp(3,4) same(5) unfolding settled_event_def by auto
  then have "settled_message q c s y \<longrightarrow> settled_message q c s' y"
    unfolding settled_message_def same(3) by blast
  moreover have "on_batch q c s' bid ms"
    unfolding on_batch_def same(1,2,3,4)
    by (intro exI[of _ b] exI[of _ sub] exI[of _ evs] conjI) (fact b)+
  moreover have "settled_message q c s' x"
    unfolding settled_message_def same(3) using b(3) k(1) sp(2) by blast
  ultimately show ?thesis by blast
qed

lemma upd_key_batches:
  assumes "subs_ok t" "s \<in> set (t_subs t)" "\<And>x. sub_key (f x) = sub_key x" "\<And>x. sub_batch (f x) = None"
  shows "subs_ok (t\<lparr>t_subs := upd_key (sub_key s) f (t_subs t)\<rparr>)"
proof -
  have k: "distinct (map sub_key (t_subs t))" using assms(1) by (simp add: subs_ok_def)
  note set = upd_key_set[OF k assms(2) refl, of f]
  have "filter (\<lambda>x. sub_batch x \<noteq> None \<and> sub_key x \<noteq> sub_key s) (t_subs t) =
      filter (\<lambda>x. sub_key x \<noteq> sub_key s) (filter (\<lambda>x. sub_batch x \<noteq> None) (t_subs t))" by simp
  moreover have "distinct (map sub_batch (filter (\<lambda>x. sub_batch x \<noteq> None) (t_subs t)))"
    using assms(1) by (simp add: subs_ok_def)
  ultimately have "distinct (map sub_batch (filter (\<lambda>x. sub_batch x \<noteq> None) (upd_key (sub_key s) f (t_subs t))))"
    unfolding filter_upd_batch_None[OF assms(4)] by (simp add: distinct_map_filter del: filter_filter)
  then show ?thesis
    using assms by (auto simp: subs_ok_def upd_key_keys set list_all_iff split: option.splits)
qed

lemma ack_done:
  assumes o: "on_batch q c s bid ms" and a: "ack (pg_driver other ctxs rep) s bid = (s', Inr v)"
  shows "batch_done q c s' bid ms \<and> (settled_message q c s y \<longrightarrow> settled_message q c s' y)"
proof -
  let ?t = "pg_view s"
  from o obtain b sub evs where b: "bid = PyInt b" "subs_ok ?t"
      "find_sub q c ?t = Some sub" "find_batch b ?t = Some sub"
      "sub_role sub \<noteq> Role_coop_member" "batch_rows b ?t = Some evs"
      "ms = map (client_message \<circ> to_message b) evs"
    unfolding on_batch_def by blast
  obtain k n where
      k: "pg_ack (ctxs k) b ?t = (pg_view s', Inr n)" "\<not> (pc_in_tx s' \<and> pc_failed s')"
    by (rule ack_ok[OF a[unfolded b(1)]])
  then have f: "finish_batch (ctxs k) b ?t = (pg_view s', Inr n)"
    by (auto simp: pg_ack_def sql_defs split: option.splits)
  have role: "sub_role sub = Role_normal"
    using f b(4,5) by (cases "sub_role sub") (auto simp: finish_batch_def sql_defs)
  let ?f = "advance (ctxs k)"
  have t': "pg_view s' = ?t\<lparr>t_subs := upd_key (sub_key sub) ?f (t_subs ?t)\<rparr>"
    using finish_batch_spec[OF f b(2,4) role] by simp
  have key: "sub_key (?f x) = sub_key x" "sub_batch (?f x) = None" for x
    by (simp_all add: advance_def sub_key_def)
  have mem: "sub \<in> set (t_subs ?t)" using find_sub_mem[OF b(3)] .
  have fs: "find_sub q c (pg_view s') = Some (?f sub)"
    by (rule find_sub_upd[OF b(3)]) (use key t' in simp_all)
  have ok': "subs_ok (pg_view s')" unfolding t' by (rule upd_key_batches[OF b(2) mem key])
  have gone: "find_batch b (pg_view s') = None"
  proof -
    have "sub_batch x \<noteq> Some b" if "x \<in> set (upd_key (sub_key sub) ?f (t_subs ?t))" for x
    proof
      assume x: "sub_batch x = Some b"
      have "distinct (map sub_key (t_subs ?t))" using b(2) by (simp add: subs_ok_def)
      from upd_key_set[OF this mem refl, of ?f] that x key(2)[of sub]
      have "x \<in> set (t_subs ?t) - {sub}" by (metis insertE option.distinct(1))
      then show False
        using subs_ok_batch_unique[OF b(2) _ mem x] find_batch_iff[OF b(2)] b(4) by auto
    qed
    then show ?thesis unfolding t' by (auto simp: find_batch_def find_None_iff)
  qed
  from b(4,6) obtain prev cur qr where rows:
      "find_tick (sub_queue sub) (sub_last_tick sub) ?t = Some prev"
      "find_tick (sub_queue sub) (sub_next_tick sub) ?t = Some cur"
      "find (\<lambda>r. queue_id r = sub_queue sub) (t_queues ?t) = Some qr"
      "evs = batch_event_sql (tick_snapshot prev) (tick_snapshot cur) (sub_id sub) [queue_events qr]"
    by (auto simp: batch_rows_def split: option.splits)
  have ticks: "find_tick q' i (pg_view s') = find_tick q' i ?t" "t_queues (pg_view s') = t_queues ?t" for q' i
    unfolding t' by (simp_all add: find_tick_def split: option.splits)
  have "batch_over q c s' bid ms"
    unfolding batch_over_def
    using b(1) ok' fs gone rows(2,3) b(7)[unfolded rows(4)]
    by (intro exI[of _ b] exI[of _ "?f sub"] exI[of _ prev] exI[of _ cur] exI[of _ qr])
       (simp add: advance_def ticks)
  moreover have "settled_event (?f sub) i (pg_view s')" if "settled_event sub i ?t" for i
    using that role unfolding t' by (auto simp: settled_event_def dead_consumer_def advance_def)
  ultimately show ?thesis
    using k(2) b(3) fs unfolding batch_done_def settled_message_def by auto
qed

lemma commit_view:
  assumes "\<not> (pc_in_tx s \<and> pc_failed s)" "pg_commit s = (s', Inr u)"
  shows "pg_view s' = pg_view s" "\<not> pc_in_tx s'"
  using assms by (auto simp: pg_commit_def pg_view_def split: if_splits)

lemma enter_view: "pg_enter s = (s', Inr u) \<Longrightarrow> pg_view s' = pg_view s"
  by (auto simp: pg_enter_def pg_begin_def pg_view_def split: if_splits)

lemma batch_server_pg:
  "batch_server (pg_driver other ctxs rep) q c (\<lambda>s. subs_ok (pg_view s)) (on_batch q c)
     (settled_message q c) (batch_done q c) (batch_over q c)"
proof (unfold_locales, goal_cases)
  case 1
  then show ?case using enter_view by simp
next
  case 2
  then show ?case using receive_on_batch by blast
next
  case 3
  then show ?case using nack_settles by blast
next
  case 4
  then show ?case using nack_settles by blast
next
  case 5
  then show ?case using ack_done by blast
next
  case 6
  then show ?case using ack_done by blast
next
  case (7 s b ms s' u)
  then have "pg_view s' = pg_view s" using commit_view(1)[of s s' u] by (simp add: batch_done_def)
  with 7(1) show ?case by (simp add: batch_done_def batch_over_def)
next
  case (8 s b ms s' u y)
  then have "pg_view s' = pg_view s" using commit_view(1)[of s s' u] by (simp add: batch_done_def)
  with 8(3) show ?case by (simp add: settled_message_def)
qed

interpretation pgsrv: batch_server "pg_driver other ctxs rep" q c "\<lambda>s. subs_ok (pg_view s)"
  "on_batch q c" "settled_message q c" "batch_done q c" "batch_over q c"
  by (rule batch_server_pg)

section \<open>What a poll achieves\<close>


text \<open>
  Claim C25. Redelivery: a poll whose block raises (the receive failed, a handler raised an
  exit, or the ack failed) leaves every table of the database as it was before the poll.
\<close>

theorem poll_raise_keeps_tables:
  assumes "pg_enter s = (s1, Inr ())"
    and "poll_body (pg_driver other ctxs rep) c s1 w = (s2, w', Inl e)"
  shows "\<exists>s'. poll_once (pg_driver other ctxs rep) c s w = (s', w', Inl e) \<and> durable s' = durable s"
  using pgtx.poll_raise_durable[of other ctxs rep s s1 "()" c w s2 w' e] assms by simp


end
