(* ===== verification/SqlClaims.thy ===== *)
theory SqlClaims
  imports Delivery
begin

text \<open>
  Properties of the SQL functions and of the client on top of them: sending, nacking,
  ticking, the invariant of the subscription table under every modelled statement, and the
  Python exception each server error becomes.
\<close>

section \<open>Sending\<close>

definition seq_after :: "sq \<Rightarrow> nat \<Rightarrow> sq" where
  "seq_after s n = (if n = 0 then s else sq_set (sq_next s + int n - 1))"

lemma seq_after_Suc: "seq_after (sq_set (sq_next s)) n = seq_after s (Suc n)"
  by (simp add: seq_after_def sq_set_def sq_next_def)

lemma nextvals_eq:
  "nextvals q xs t = (t\<lparr>s_event := (s_event t)(q := seq_after (s_event t q) (length xs))\<rparr>,
     Inr (zip (map (\<lambda>k. sq_next (s_event t q) + int k) [0..<length xs]) xs))"
proof (induction xs arbitrary: t)
  case Nil
  have "t = t\<lparr>s_event := s_event t\<rparr>" by simp
  then show ?case by (simp add: sql_return_def seq_after_def)
next
  case (Cons x xs)
  have "map (\<lambda>k. sq_next (s_event t q) + int k) [0..<Suc (length xs)] =
      sq_next (s_event t q) # map (\<lambda>k. sq_next (s_event t q) + 1 + int k) [0..<length xs]"
    by (simp add: map_upt_Suc del: upt_Suc)
  then show ?case
    by (simp add: sql_bind_def nextval_event_def Cons.IH seq_after_Suc sql_return_def fun_upd_def
        del: upt_Suc cong: if_cong)
qed

text \<open>The reference: one \<open>send\<close> per payload.\<close>

fun send_each :: "pgctx \<Rightarrow> string \<Rightarrow> string \<Rightarrow> string list \<Rightarrow> int list sql" where
  "send_each ctx q ty [] = sql_return []"
| "send_each ctx q ty (p # ps) = sql_bind (pg_send ctx q ty p) (\<lambda>i.
     sql_bind (send_each ctx q ty ps) (\<lambda>r. sql_return (i # r)))"

definition grow :: "int \<Rightarrow> event list \<Rightarrow> nat \<Rightarrow> db \<Rightarrow> db" where
  "grow q es n t = t\<lparr>s_event := (s_event t)(q := seq_after (s_event t q) n), t_queues :=
     map (\<lambda>r. if queue_id r = q then r\<lparr>queue_events := queue_events r @ es\<rparr> else r) (t_queues t)\<rparr>"

definition bulk_events :: "pgctx \<Rightarrow> string \<Rightarrow> int \<Rightarrow> string list \<Rightarrow> event list" where
  "bulk_events ctx ty n ps = map (\<lambda>(k, p). new_event ctx (n + int k) (pg_now ctx) None None (Some ty)
     (Some p) None None None None) (zip [0..<length ps] ps)"

definition may_insert :: "pgctx \<Rightarrow> qrow \<Rightarrow> bool" where
  "may_insert ctx r \<longleftrightarrow> \<not> queue_disable_insert r \<or> pg_replica ctx"

lemma find_queue_grow:
  "find_queue q (grow i es n t) = map_option
     (\<lambda>r. if queue_id r = i then r\<lparr>queue_events := queue_events r @ es\<rparr> else r) (find_queue q t)"
proof -
  have "(\<lambda>r. queue_name (if queue_id r = i then r\<lparr>queue_events := queue_events r @ es\<rparr> else r) = q)
      = (\<lambda>r. queue_name r = q)" by auto
  then show ?thesis by (simp add: find_queue_def grow_def find_map)
qed

lemma pg_send_eq:
  assumes "find_queue q t = Some r" "may_insert ctx r"
  shows "pg_send ctx q ty p t = (grow (queue_id r) (bulk_events ctx ty (sq_next (s_event t (queue_id r))) [p]) (Suc 0) t,
    Inr (sq_next (s_event t (queue_id r))))"
  using assms by (auto simp: pg_send_def insert_event_def insert_event_raw_def sql_bind_def sql_read_def
      nextval_event_def add_events_def sql_update_def sql_return_def may_insert_def grow_def
      bulk_events_def seq_after_def)

lemma bulk_events_Cons: "bulk_events ctx ty n (p # ps) = bulk_events ctx ty n [p] @ bulk_events ctx ty (n + 1) ps"
proof -
  have "zip [0..<Suc (length ps)] (p # ps) = (0, p) # map (\<lambda>(k, x). (Suc k, x)) (zip [0..<length ps] ps)"
    by (simp add: upt_conv_Cons zip_map1[symmetric] map_Suc_upt[symmetric] del: upt_Suc)
  then show ?thesis by (simp add: bulk_events_def split_def del: upt_Suc) (simp add: add.assoc)
qed

lemma grow_grow:
  "0 < n \<Longrightarrow> grow i es' m (grow i es n t) = grow i (es @ es') (n + m) t"
  by (auto simp: grow_def seq_after_def sq_next_def sq_set_def fun_eq_iff)

lemma send_each_eq:
  assumes "find_queue q t = Some r" "may_insert ctx r"
  shows "send_each ctx q ty ps t = (grow (queue_id r) (bulk_events ctx ty (sq_next (s_event t (queue_id r))) ps)
      (length ps) t, Inr (map (\<lambda>k. sq_next (s_event t (queue_id r)) + int k) [0..<length ps]))"
  using assms
proof (induction ps arbitrary: t r)
  case Nil
  have "map (\<lambda>x. if queue_id x = queue_id r then x\<lparr>queue_events := queue_events x @ []\<rparr> else x) (t_queues t)
      = t_queues t" by (intro map_idI) simp
  then show ?case by (simp add: sql_return_def grow_def seq_after_def bulk_events_def)
next
  case (Cons p ps)
  let ?n = "sq_next (s_event t (queue_id r))"
  let ?t1 = "grow (queue_id r) (bulk_events ctx ty ?n [p]) (Suc 0) t"
  have f1: "find_queue q ?t1 = Some (r\<lparr>queue_events := queue_events r @ bulk_events ctx ty ?n [p]\<rparr>)"
    using Cons.prems by (simp add: find_queue_grow)
  have n1: "sq_next (s_event ?t1 (queue_id r)) = ?n + 1"
    by (simp add: grow_def seq_after_def)
  have ids: "map (\<lambda>k. ?n + int k) [0..<Suc (length ps)] = ?n # map (\<lambda>k. ?n + 1 + int k) [0..<length ps]"
    by (simp add: map_upt_Suc del: upt_Suc)
  have m1: "may_insert ctx (r\<lparr>queue_events := queue_events r @ bulk_events ctx ty ?n [p]\<rparr>)"
    using Cons.prems(2) by (simp add: may_insert_def)
  from Cons.IH[OF f1 m1] show ?case
    by (simp add: sql_bind_def pg_send_eq[OF Cons.prems] sql_return_def n1 grow_grow ids
        bulk_events_Cons[of ctx ty ?n p ps] del: upt_Suc)
qed

lemma bulk_eq:
  assumes "find_queue q t = Some r" "may_insert ctx r"
  shows "insert_event_bulk ctx q (Some ty) ps t =
     (grow (queue_id r) (bulk_events ctx ty (sq_next (s_event t (queue_id r))) ps)
      (length ps) t, Inr (map (\<lambda>k. sq_next (s_event t (queue_id r)) + int k) [0..<length ps]))"
proof -
  have "map (\<lambda>(i, data). new_event ctx i (pg_now ctx) None None (Some ty) (Some data) None None None None)
      (zip (map (\<lambda>k. n + int k) [0..<length ps]) ps) = bulk_events ctx ty n ps" for n
    by (simp add: bulk_events_def zip_map1 split_def)
  with assms show ?thesis
    by (auto simp: may_insert_def insert_event_bulk_def sql_bind_def sql_read_def nextvals_eq
        add_events_def sql_update_def sql_return_def grow_def)
qed

lemma send_batch_send_each:
  assumes "\<And>r. find_queue q t = Some r \<Longrightarrow> may_insert ctx r"
  shows "pg_send_batch ctx q ty ps t = send_each ctx q ty ps t"
proof (cases "find_queue q t")
  case None
  then show ?thesis
    by (cases ps) (simp_all add: pg_send_batch_def insert_event_bulk_def sql_bind_def sql_read_def
        pg_send_def insert_event_def insert_event_raw_def pg_raise_def)
next
  case (Some r)
  then show ?thesis
    using assms bulk_eq[OF Some] send_each_eq[OF Some]
    by (cases ps) (simp_all add: pg_send_batch_def del: send_each.simps(2))
qed

text \<open>
  Claim C34. The set-based \<open>send_batch\<close> is the loop of single sends: on a queue that accepts
  inserts (and on a missing one) it gives the same event ids in input order, the same rows,
  the same sequence value or the same error as sending the payloads one by one.
\<close>

theorem send_batch_is_loop_of_sends:
  assumes "\<And>r. find_queue q t = Some r \<Longrightarrow> may_insert ctx r"
  shows "pg_send_batch ctx q ty ps t = send_each ctx q ty ps t"
  by (rule send_batch_send_each[OF assms])

section \<open>Ticks\<close>

lemma max_tick_mem: "max_tick q P t = Some x \<Longrightarrow> x \<in> set (t_ticks t) \<and> tick_queue x = q \<and> P x"
proof -
  have fold: "foldl (\<lambda>a b. if tick_id a < tick_id b then b else a) r rs \<in> set (r # rs)" for r :: tick and rs
  proof (induction rs arbitrary: r)
    case (Cons b rs)
    show ?case using Cons[of r] Cons[of b] by auto
  qed simp
  assume "max_tick q P t = Some x"
  then obtain r rs where f: "filter (\<lambda>r. tick_queue r = q \<and> P r) (t_ticks t) = r # rs"
      "x = foldl (\<lambda>a b. if tick_id a < tick_id b then b else a) r rs"
    by (auto simp: max_tick_def split: list.splits)
  then have "x \<in> set (filter (\<lambda>r. tick_queue r = q \<and> P r) (t_ticks t))" by (simp only: fold)
  then show ?thesis by simp
qed

text \<open>
  \<open>force_next_tick\<close> does what it promises: whatever the load and the clock, the
  next call of the ticker on that queue inserts a tick with the caller's snapshot, provided
  no recorded tick lies ahead of the event sequence or of the caller's transaction.
\<close>

theorem force_next_tick_then_ticker:
  assumes "pg_force_next_tick q t = (t1, Inr x)" and "find_queue q t = Some r"
    and "0 \<le> queue_ticker_max_count r"
    and "\<forall>k\<in>set (t_ticks t). tick_queue k = queue_id r \<longrightarrow>
      tick_event_seq k \<le> last_value (s_event t (queue_id r)) \<and> snap_xmin (tick_snapshot k) \<le> pg_xid ctx"
  shows "\<exists>t2 i. pg_ticker ctx q t1 = (t2, Inr (Some i))
    \<and> t_ticks t2 = t_ticks t @ [\<lparr>tick_queue = queue_id r, tick_id = i, tick_time = pg_now ctx,
         tick_snapshot = pg_snapshot ctx, tick_event_seq = last_value (s_event t1 (queue_id r))\<rparr>]"
proof -
  let ?q = "queue_id r"
  from assms(1,2) have np: "\<not> queue_ticker_paused r" "\<not> queue_external_ticker r"
      and t1: "t1 = t\<lparr>s_event := (s_event t)(?q := sq_set (sq_next (s_event t ?q)
        + queue_ticker_max_count r * 2 + 1000))\<rparr>"
    by (auto simp: pg_force_next_tick_def pg_force_tick_def sql_defs nextval_event_def split: if_splits)
  have fq: "find_queue q t1 = Some r" using assms(2) t1 by (simp add: find_queue_def)
  have ahead: "last_value (s_event t ?q) + queue_ticker_max_count r * 2 + 1000 \<le> last_value (s_event t1 ?q)"
    by (simp add: t1 sq_set_def sq_next_def)
  have ticks: "t_ticks t1 = t_ticks t" by (simp add: t1)
  show ?thesis
  proof (cases "max_tick ?q (\<lambda>_. True) t1")
    case None
    with fq np ticks show ?thesis
      by (simp add: pg_ticker_def sql_defs nextval_tick_def)
  next
    case (Some st)
    have "tick_event_seq st \<le> last_value (s_event t ?q) \<and> snap_xmin (tick_snapshot st) \<le> pg_xid ctx"
      using max_tick_mem[OF Some] assms(4) ticks by auto
    with ahead assms(3) have "0 < last_value (s_event t1 ?q) - tick_event_seq st"
        "\<not> last_value (s_event t1 ?q) - tick_event_seq st < queue_ticker_max_count r"
        "\<not> pg_xid ctx < snap_xmin (tick_snapshot st)"
      by linarith+
    with fq np Some ticks show ?thesis
      by (simp add: pg_ticker_def sql_defs nextval_tick_def)
  qed
qed

section \<open>Nacks\<close>

text \<open>A nack of a message of an open batch is one of two statements.\<close>

lemma nack_branch:
  assumes "find_batch b t = Some s" and "slot_batch_name b t = None"
    and "find (\<lambda>r. queue_id r = sub_queue s) (t_queues t) = Some qr"
    and "batch_rows b t = Some evs" and "distinct (map ev_id evs)" and "e \<in> set evs"
  shows "pg_nack ctx b (ev_id e) secs reason t =
      (if (case queue_max_retries qr of None \<Rightarrow> 5 | Some n \<Rightarrow> n) \<le> (case ev_retry e of None \<Rightarrow> 0 | Some n \<Rightarrow> n)
       then sql_bind (event_dead ctx b e (Some (case reason of None \<Rightarrow> ''max retries exceeded'' | Some r \<Rightarrow> r)))
              (\<lambda>_. sql_return 1) t
       else sql_bind (event_retry ctx b (ev_id e) secs) (\<lambda>_. sql_return 1) t)"
proof -
  have "find (\<lambda>x. ev_id x = ev_id e) evs = Some e"
    using assms(5,6) distinct_keyD[OF assms(5)] by (intro find_unique) auto
  then show ?thesis
    using assms by (simp add: pg_nack_def nack_batch_event_def sql_bind_def sql_read_def get_batch_events_eq)
qed


end
