(* ===== verification/SqlErrors.thy ===== *)
theory SqlErrors
  imports SqlClaims
begin

text \<open>
  From the exceptions that the SQL functions raise to the exceptions that the client raises:
  the two sides agree on texts and SQLSTATE, and a failed call leaves the tables alone.
\<close>

definition usable :: "pgconn \<Rightarrow> bool" where
  "usable s \<longleftrightarrow> \<not> pc_closed s \<and> \<not> (pc_in_tx s \<and> pc_failed s)"

lemma pg_execute_error:
  assumes "usable s" and "pg_call other (ctxs (pc_txn s)) sql ps (pg_view s) = (t', Inl e)"
  obtains s' where "pg_execute other ctxs s sql ps = (s', Inl (PsycopgError e))" "durable s' = durable s"
proof -
  have "\<exists>s'. pg_execute other ctxs s sql ps = (s', Inl (PsycopgError e)) \<and> durable s' = durable s"
    using assms by (auto simp: usable_def pg_execute_def pg_block_def pg_begin_def pg_view_def durable_def)
  then show thesis using that by blast
qed

lemma scalar_error: "m t = (t', Inl e) \<Longrightarrow> scalar f m t = (t', Inl e)"
  by (simp add: scalar_def sql_bind_def)

lemma call_scalar_raises:
  assumes "usable s" and "pg_call other (ctxs (pc_txn s)) sql ps (pg_view s) = (t', Inl e)"
  shows "\<exists>s'. call_scalar (pg_driver other ctxs rep) s sql ps = (s', Inl (plain_wrap e)) \<and> durable s' = durable s"
proof -
  from pg_execute_error[where ctxs = ctxs, OF assms] obtain s' where
    "pg_execute other ctxs s sql ps = (s', Inl (PsycopgError e))" "durable s' = durable s" by metis
  then show ?thesis using call_scalar_error[of "pg_driver other ctxs rep" s sql ps s' e] by auto
qed

section \<open>Receive\<close>

lemma overflow_error_eq:
  "overflow_error n = \<lparr>pg_str = (''pgque.receive: batch exceeds max_return of '' @ str_of_int n) @ [CHR 0x0A]
      @ ''HINT:  '' @ ''Retry with a larger resource-safe max_return to receive the complete batch. Do not acknowledge after this error.'',
     pg_diagnostic = Some \<lparr>message_primary = Some (''pgque.receive: batch exceeds max_return of '' @ str_of_int n),
       message_hint = Some ''Retry with a larger resource-safe max_return to receive the complete batch. Do not acknowledge after this error.''\<rparr>,
     pg_sqlstate = Some ''54000'', pg_operational = False\<rparr>"
  by (simp only: overflow_error_def pg_raise_code_def snd_conv sum.case)

lemma overflow_error_is_overflow: "is_overflow (overflow_error n) (Some ''receive'') (Some n)"
  by (simp add: is_overflow_def overflow_error_eq error_primary_def overflow_text_def)

lemma pg_receive_batch:
  assumes "1 \<le> n" "CHR 0x23 \<notin> set c" "next_batch ctx q c t = (t1, Inr (Some b))"
    and "batch_rows b t1 = Some evs" "evs \<noteq> []"
  shows "pg_receive ctx q c n t =
    (t1, if int (length evs) \<le> n then Inr (map (to_message b) evs) else Inl (overflow_error n))"
  using assms by (simp add: pg_receive_def sql_bind_def get_batch_events_eq receive_loop_eq sql_return_def)

text \<open>
  Claim C27. All or nothing: when the next batch has more events than \<open>max_messages\<close>, the
  client's \<open>receive\<close> returns none of them but raises \<open>PgqueReceiveOverflowError\<close> with the
  limit that was configured, SQLSTATE 54000 and the server's hint, and the tables, the
  subscription's batch among them, are as before.
\<close>

theorem receive_overflow:
  assumes "usable s" "1 \<le> n" "CHR 0x23 \<notin> set c"
    and "next_batch (ctxs (pc_txn s)) q c (pg_view s) = (t1, Inr (Some b))"
    and "batch_rows b t1 = Some evs" "n < int (length evs)"
  shows "\<exists>s' x. receive (pg_driver other ctxs rep) s q c n = (s', Inl (PgqueReceiveOverflowError x))
    \<and> ovf_configured_limit x = n \<and> ovf_operation x = ''receive'' \<and> ovf_sqlstate x = Some ''54000''
    \<and> ovf_hint x \<noteq> None \<and> durable s' = durable s"
proof -
  have "pg_receive (ctxs (pc_txn s)) q c n (pg_view s) = (t1, Inl (overflow_error n))"
    using pg_receive_batch[OF assms(2-5)] assms(2,6) by (cases evs) auto
  then have "pg_call other (ctxs (pc_txn s)) ''select * from pgque.receive(%s, %s, %s)''
      [PyStr q, PyStr c, PyInt n] (pg_view s) = (t1, Inl (overflow_error n))"
    by (simp add: call_receive_def sql_bind_def)
  from pg_execute_error[where ctxs = ctxs, OF assms(1) this] obtain s' where x: "pg_execute other ctxs s
      ''select * from pgque.receive(%s, %s, %s)'' [PyStr q, PyStr c, PyInt n]
      = (s', Inl (PsycopgError (overflow_error n)))" "durable s' = durable s" by metis
  have w: "wrap_sql_error (overflow_error n) (Some ''receive'') (Some n) = PgqueReceiveOverflowError
      (overflow_init (pg_str (overflow_error n)) (Some ''54000'')
        (message_hint (the (pg_diagnostic (overflow_error n)))) n ''receive'')"
    using overflow_error_is_overflow by (simp add: wrap_sql_error_def overflow_error_eq)
  have "receive (pg_driver other ctxs rep) s q c n =
      (s', Inl (wrap_sql_error (overflow_error n) (Some ''receive'') (Some n)))"
    using x(1) by (simp add: receive_def run_sql_def del: pg_call_simps)
  with w x(2) show ?thesis by (auto simp: overflow_init_def overflow_error_eq)
qed

text \<open>
  Completeness of \<open>receive\<close>: with a limit that is large enough the client gets
  every event of the batch, in event order, as messages that carry the batch's number.
\<close>

theorem receive_complete_batch:
  assumes "usable s" "1 \<le> n" "CHR 0x23 \<notin> set c"
    and "next_batch (ctxs (pc_txn s)) q c (pg_view s) = (t1, Inr (Some b))"
    and "batch_rows b t1 = Some evs" "evs \<noteq> []" "int (length evs) \<le> n"
  shows "\<exists>s'. receive (pg_driver other ctxs rep) s q c n = (s', Inr (map (client_message \<circ> to_message b) evs))
    \<and> pg_view s' = t1 \<and> sorted (map ev_id evs)"
proof -
  let ?sql = "''select * from pgque.receive(%s, %s, %s)''"
  let ?rows = "map message_row (map (to_message b) evs)"
  have "pg_receive (ctxs (pc_txn s)) q c n (pg_view s) = (t1, Inr (map (to_message b) evs))"
    using pg_receive_batch[OF assms(2-6)] assms(7) by simp
  then have c: "pg_call other (ctxs (pc_txn s)) ?sql [PyStr q, PyStr c, PyInt n] (pg_view s) = (t1, Inr ?rows)"
    by (simp add: call_receive_def sql_bind_def sql_return_def)
  have "\<exists>s'. pg_execute other ctxs s ?sql [PyStr q, PyStr c, PyInt n] = (s', Inr ?rows) \<and> pg_view s' = t1"
    using assms(1) c
    by (auto simp: usable_def pg_execute_def pg_block_def pg_begin_def pg_view_def simp del: pg_call_simps)
  then obtain s' where x: "pg_execute other ctxs s ?sql [PyStr q, PyStr c, PyInt n] = (s', Inr ?rows)"
      "pg_view s' = t1" by blast
  have "mapE message_of_row ?rows = Inr (map (client_message \<circ> to_message b) evs)"
    by (induction evs) (simp_all add: message_of_message_row)
  then have "receive (pg_driver other ctxs rep) s q c n = (s', Inr (map (client_message \<circ> to_message b) evs))"
    using x(1) by (simp add: receive_def run_sql_def)
  moreover have "sorted (map ev_id evs)"
    using assms(5) by (auto simp: batch_rows_def batch_event_sql_def split: option.splits prod.splits)
  ultimately show ?thesis using x(2) by blast
qed

section \<open>Missing things\<close>

lemma lower_queue_not_found: "names_queue (str_lower (''queue not found: '' @ q))"
proof -
  have "str_lower (''queue not found: '' @ q) = ''queue not found'' @ ('': '' @ str_lower q)"
    by (simp add: str_lower_def lower_char_def)
  then show ?thesis unfolding names_queue_def contains_sublist by (simp only:) simp
qed

lemma contains_set: "contains p s \<Longrightarrow> set p \<subseteq> set s"
  by (auto simp: contains_sublist sublist_def)

lemma str_lower_id: "(\<And>c. c \<in> set s \<Longrightarrow> \<not> (65 \<le> (of_char c :: nat) \<and> of_char c \<le> (90 :: nat))) \<Longrightarrow> str_lower s = s"
  unfolding str_lower_def by (rule map_idI) (auto simp: lower_char_def Let_def)

lemma str_of_int_chars: "c \<in> set (str_of_int b) \<Longrightarrow> is_digit c \<or> c = CHR ''-''"
  by (auto simp: str_of_int_def dest: str_of_nat_digits split: if_splits)

lemma lower_str_of_int: "str_lower (str_of_int b) = str_of_int b"
  by (rule str_lower_id) (auto dest!: str_of_int_chars simp: is_digit_def Let_def)

lemma lower_batch_not_found:
  "names_batch (str_lower (''batch not found: '' @ str_of_int b))"
  "\<not> names_queue (str_lower (''batch not found: '' @ str_of_int b))"
  "\<not> names_consumer (str_lower (''batch not found: '' @ str_of_int b))"
proof -
  have l: "str_lower (''batch not found: '' @ str_of_int b) = ''batch not found'' @ ('': '' @ str_of_int b)"
    by (simp only: str_lower_append lower_str_of_int) (simp add: str_lower_def lower_char_def)
  have q: "CHR ''q'' \<notin> set (str_of_int b)" "CHR ''s'' \<notin> set (str_of_int b)"
    using str_of_int_chars[of "CHR ''q''" b] str_of_int_chars[of "CHR ''s''" b]
    by (auto simp: is_digit_def)
  show "names_batch (str_lower (''batch not found: '' @ str_of_int b))"
    unfolding l names_batch_def contains_sublist by simp
  show "\<not> names_queue (str_lower (''batch not found: '' @ str_of_int b))"
    unfolding l names_queue_def using q(1) by (auto dest!: contains_set)
  show "\<not> names_consumer (str_lower (''batch not found: '' @ str_of_int b))"
    unfolding l names_consumer_def using q(2) by (auto dest!: contains_set)
qed

text \<open>
  Sending to a queue that does not exist raises \<open>PgqueQueueNotFound\<close>, whatever
  the name, the type and the payload (valid JSON), and changes no table.
\<close>

theorem send_missing_queue:
  assumes "usable s" "find_queue q (pg_view s) = None"
    and "\<nexists>p ty. payload0 = PyEvent p ty"
    and "encode_payload payload0 = Inr (PyStr js)" "pg_jsonb_text (ctxs (pc_txn s)) js = Some u"
  shows "\<exists>s'. send (pg_driver other ctxs rep) s q payload0 ty
      = (s', Inl (PgqueQueueNotFound (''queue not found: '' @ q))) \<and> durable s' = durable s"
proof -
  let ?ctx = "ctxs (pc_txn s)"
  obtain e where e: "pg_raise (''queue not found: '' @ q) (pg_view s) = (pg_view s, Inl e :: pg_error + int)"
      "pg_str e = ''queue not found: '' @ q"
    by (simp add: pg_raise_def)
  have ie: "insert_event ?ctx q x y (pg_view s) = (pg_view s, Inl e)" for x y
    using assms(2) e(1) by (simp add: insert_event_def insert_event_raw_def sql_bind_def sql_read_def)
  have calls: "call_send ?ctx [PyStr q, PyStr js] (pg_view s) = (pg_view s, Inl e)"
      "call_send_typed ?ctx [PyStr q, PyStr ty, PyStr js] (pg_view s) = (pg_view s, Inl e)"
    using assms(5) ie
    by (simp_all add: call_send_def call_send_typed_def scalar_def sql_bind_def jsonb_cast_def
        sql_return_def pg_send_def)
  have w: "plain_wrap e = PgqueQueueNotFound (''queue not found: '' @ q)"
    using lower_queue_not_found[of q] by (simp add: plain_wrap_def wrap_sql_error_def wrap_no_operation e(2))
  have ev: "(case payload0 of PyEvent p t \<Rightarrow> (t, p) | _ \<Rightarrow> (ty, payload0)) = (ty, payload0)"
    using assms(3) by (cases payload0) auto
  show ?thesis
    using assms(4) calls w
      call_scalar_raises[OF assms(1), of other ctxs "''select pgque.send(%s, %s, %s::jsonb)''" "[PyStr q, PyStr ty, PyStr js]" "pg_view s" e rep]
      call_scalar_raises[OF assms(1), of other ctxs "''select pgque.send(%s, %s::jsonb)''" "[PyStr q, PyStr js]" "pg_view s" e rep]
    by (simp add: send_def ev)
qed

text \<open>
  Nacking a message of a batch that is not open (finished, taken over or never
  opened) raises \<open>PgqueBatchNotFound\<close> and changes no table.
\<close>

theorem nack_missing_batch:
  assumes "usable s" "find_batch b (pg_view s) = None"
    and "msg_id m = PyInt mid" "encode_nack_payload (payload m) = Inr v"
    and "pg_interval_secs (ctxs (pc_txn s)) (py_str rep ra @ '' seconds'') = Some secs"
  shows "\<exists>s'. nack (pg_driver other ctxs rep) s (PyInt b) m ra reason
      = (s', Inl (PgqueBatchNotFound (''batch not found: '' @ str_of_int b))) \<and> durable s' = durable s"
proof -
  let ?ctx = "ctxs (pc_txn s)" and ?ps = "nack_params rep (PyInt b) m v ra reason"
  obtain e where e: "pg_raise (''batch not found: '' @ str_of_int b) (pg_view s) = (pg_view s, Inl e :: pg_error + int)"
      "pg_str e = ''batch not found: '' @ str_of_int b"
    by (simp add: pg_raise_def)
  have "pg_nack ?ctx b mid secs r (pg_view s) = (pg_view s, Inl e)" for r
    using assms(2) e(1)
    by (simp add: pg_nack_def slot_batch_name_def nack_batch_event_def sql_bind_def sql_read_def)
  then have "call_nack ?ctx ?ps (pg_view s) = (pg_view s, Inl e)"
    using assms(3,5)
    by (simp add: call_nack_def nack_params_def opt_str_def scalar_def sql_bind_def split: option.splits)
  then have "pg_call other ?ctx nack_sql ?ps (pg_view s) = (pg_view s, Inl e)" by simp
  from pg_execute_error[where ctxs = ctxs, OF assms(1) this] obtain s' where
    "pg_execute other ctxs s nack_sql ?ps = (s', Inl (PsycopgError e))" "durable s' = durable s" by metis
  moreover have "plain_wrap e = PgqueBatchNotFound (''batch not found: '' @ str_of_int b)"
    using lower_batch_not_found[of b] by (simp add: plain_wrap_def wrap_sql_error_def wrap_no_operation e(2))
  ultimately show ?thesis using assms(4) by (simp add: nack_def run_sql_def)
qed

text \<open>
  A missing queue is not always \<open>PgqueQueueNotFound\<close>: \<open>subscribe\<close> and \<open>ticker\<close>
  on a queue that does not exist raise the base class \<open>PgqueError\<close>, because the texts of
  these two functions are none of those the client recognises.
\<close>

theorem missing_queue_base_error:
  assumes "usable s" "find_queue q (pg_view s) = None" "CHR 0x23 \<notin> set c"
  shows "\<exists>s1 s2. subscribe (pg_driver other ctxs rep) s q c = (s1, Inl (PgqueError ''Event queue not created yet''))
    \<and> ticker (pg_driver other ctxs rep) s q = (s2, Inl (PgqueError ''no such queue''))"
proof -
  let ?ctx = "ctxs (pc_txn s)"
  let ?e = "\<lambda>m. \<lparr>pg_str = m, pg_diagnostic = Some \<lparr>message_primary = Some m, message_hint = None\<rparr>,
     pg_sqlstate = Some ''P0001'', pg_operational = False\<rparr>"
  have s: "call_subscribe ?ctx [PyStr q, PyStr c] (pg_view s) = (pg_view s, Inl (?e ''Event queue not created yet''))"
    using assms(2,3) by (simp add: call_subscribe_def scalar_def pg_subscribe_def register_consumer_def sql_defs)
  have t: "call_ticker ?ctx [PyStr q] (pg_view s) = (pg_view s, Inl (?e ''no such queue''))"
    using assms(2) by (simp add: call_ticker_def scalar_def pg_ticker_def sql_defs)
  have w: "plain_wrap (?e ''Event queue not created yet'') = PgqueError ''Event queue not created yet''"
    "plain_wrap (?e ''no such queue'') = PgqueError ''no such queue''"
    by (simp_all add: plain_wrap_def wrap_sql_error_def wrap_no_operation names_queue_def
        names_consumer_def names_batch_def str_lower_def lower_char_def)
  show ?thesis
    using call_scalar_raises[OF assms(1), of other ctxs "''select pgque.subscribe(%s, %s)''" "[PyStr q, PyStr c]" "pg_view s" "?e ''Event queue not created yet''" rep]
      call_scalar_raises[OF assms(1), of other ctxs "''select pgque.ticker(%s)''" "[PyStr q]" "pg_view s" "?e ''no such queue''" rep]
      s t w
    by (auto simp: subscribe_def ticker_def)
qed

end
