(* ===== verification/SqlInvariant.thy ===== *)
theory SqlInvariant
  imports SqlErrors
begin

text \<open>
  The invariant of the tables under every statement of the client that is modelled: unique
  subscriptions, queues and consumers, every batch number active at most once and below its
  sequence, consumer ids below theirs, and no tick ahead of its queue's event sequence.
\<close>

definition db_ok :: "db \<Rightarrow> bool" where
  "db_ok t \<longleftrightarrow> subs_ok t
     \<and> list_all (\<lambda>co. co_id co < sq_next (s_consumer t)) (t_consumers t)
     \<and> list_all (\<lambda>k. tick_event_seq k \<le> last_value (s_event t (tick_queue k))) (t_ticks t)"

lemma db_okD: "db_ok t \<Longrightarrow> subs_ok t"
  by (simp add: db_ok_def)

text \<open>A change that the invariant does not see, and one that it keeps.\<close>

definition core_le :: "db \<Rightarrow> db \<Rightarrow> bool" where
  "core_le t t' \<longleftrightarrow> t_subs t' = t_subs t \<and> map queue_id (t_queues t') = map queue_id (t_queues t)
     \<and> t_consumers t' = t_consumers t \<and> t_ticks t' = t_ticks t \<and> s_batch t' = s_batch t
     \<and> s_consumer t' = s_consumer t \<and> (\<forall>q. last_value (s_event t q) \<le> last_value (s_event t' q))"

lemma core_le_ok: "db_ok t \<Longrightarrow> core_le t t' \<Longrightarrow> db_ok t'"
proof -
  assume a: "db_ok t" "core_le t t'"
  then have e: "t_subs t' = t_subs t" "map queue_id (t_queues t') = map queue_id (t_queues t)"
    "t_consumers t' = t_consumers t" "t_ticks t' = t_ticks t" "s_batch t' = s_batch t"
    "s_consumer t' = s_consumer t" and m: "last_value (s_event t q) \<le> last_value (s_event t' q)" for q
    by (simp_all add: core_le_def)
  have "tick_event_seq k \<le> last_value (s_event t' (tick_queue k))" if "k \<in> set (t_ticks t)" for k
    using a(1) that m[of "tick_queue k"] by (force simp: db_ok_def list_all_iff)
  with a(1) e show ?thesis by (simp add: db_ok_def subs_ok_def list_all_iff cong: option.case_cong)
qed

lemma core_le_refl [simp]: "core_le t t"
  by (simp add: core_le_def)

lemma core_le_trans: "core_le t u \<Longrightarrow> core_le u v \<Longrightarrow> core_le t v"
  unfolding core_le_def by (metis order_trans)

lemma same_batches_core: "same_batches t t' \<Longrightarrow> s_consumer t' = s_consumer t \<Longrightarrow> s_event t' = s_event t \<Longrightarrow> core_le t t'"
  by (simp add: same_batches_def core_le_def)

lemma last_value_sq: "last_value s \<le> last_value (sq_set (sq_next s))"
  by (simp add: sq_set_def sq_next_def)

lemma last_value_seq_after: "last_value s \<le> last_value (seq_after s n)"
  by (simp add: seq_after_def sq_set_def sq_next_def)

section \<open>Producing\<close>

lemma insert_event_core: "insert_event ctx q ty data t = (t', r) \<Longrightarrow> core_le t t'"
  by (auto simp: insert_event_def insert_event_raw_def sql_defs nextval_event_def add_events_def
      core_le_def last_value_sq comp_def Let_def if_distrib[of queue_id] split: option.splits if_splits)

lemma insert_event_bulk_core: "insert_event_bulk ctx q ty ps t = (t', r) \<Longrightarrow> core_le t t'"
  by (auto simp: insert_event_bulk_def sql_defs nextvals_eq add_events_def core_le_def
      last_value_seq_after comp_def if_distrib[of queue_id] split: option.splits if_splits)

section \<open>Consuming\<close>

lemma upd_key_ok:
  assumes "db_ok t" "find_batch b t = Some s" "\<And>x. sub_key (f x) = sub_key x" "\<And>x. sub_batch (f x) = None"
  shows "db_ok (t\<lparr>t_subs := upd_key (sub_key s) f (t_subs t)\<rparr>)"
proof -
  have "s \<in> set (t_subs t)" using assms(2) by (auto simp: find_batch_def dest: find_SomeD)
  from upd_key_batches[OF db_okD[OF assms(1)] this assms(3,4)] assms(1) show ?thesis
    by (simp add: db_ok_def)
qed

lemma finish_batch_ok:
  assumes "db_ok t" "finish_batch ctx b t = (t', r)"
  shows "db_ok t'"
proof (cases "find_batch b t")
  case None
  with assms show ?thesis by (simp add: finish_batch_def sql_defs)
next
  case (Some s)
  have mem: "s \<in> set (t_subs t)" using Some by (auto simp: find_batch_def dest: find_SomeD)
  have upd: "db_ok (fst (set_sub (\<lambda>x. sub_queue x = sub_queue s \<and> sub_consumer x = sub_consumer s) f t))"
    if "\<And>x. sub_key (f x) = sub_key x" "\<And>x. sub_batch (f x) = None" for f
    using upd_key_ok[OF assms(1) Some that]
      set_sub_key[OF db_okD[OF assms(1)] mem, of "\<lambda>x. sub_queue x = sub_queue s \<and> sub_consumer x = sub_consumer s" t f]
    by (auto simp: sub_key_def)
  show ?thesis
    using assms(2) Some assms(1) upd
    by (cases "sub_role s")
       (auto simp: finish_batch_def sql_bind_def sql_read_def sql_return_def pg_raise_def sub_key_def
         set_sub_def sql_update_def)
qed

lemma next_batch_state: "next_batch ctx q c t = (t', r) \<Longrightarrow> (\<exists>b. r = Inr (Some b)) \<or> t' = t"
  by (auto simp: next_batch_def sql_defs nextval_batch_def set_sub_def split: option.splits if_splits)

lemma next_batch_db_ok:
  assumes "db_ok t" "next_batch ctx q c t = (t', r)"
  shows "db_ok t'"
proof (cases "\<exists>b. r = Inr (Some b)")
  case True
  then obtain b where nb: "next_batch ctx q c t = (t', Inr (Some b))" using assms(2) by blast
  note ok = db_okD[OF assms(1)]
  have "subs_ok t'" using next_batch_ok[OF ok nb] .
  moreover have "t_consumers t' = t_consumers t \<and> s_consumer t' = s_consumer t
      \<and> t_ticks t' = t_ticks t \<and> s_event t' = s_event t"
    by (cases rule: next_batch_cases[OF ok nb]) simp_all
  ultimately show ?thesis using assms(1) by (simp add: db_ok_def)
next
  case False
  with next_batch_state[OF assms(2)] assms(1) show ?thesis by auto
qed

lemma pg_receive_ok:
  assumes "db_ok t" "pg_receive ctx q c n t = (t', r)"
  shows "db_ok t'"
proof -
  obtain t1 r1 where nb: "next_batch ctx q c t = (t1, r1)" by fastforce
  note ok1 = next_batch_db_ok[OF assms(1) nb]
  show ?thesis
  proof (cases "\<exists>b. r1 = Inr (Some b)")
    case False
    with assms nb ok1 show ?thesis
      by (auto simp: pg_receive_def sql_defs split: if_splits sum.splits option.splits)
  next
    case True
    then obtain b where r1: "r1 = Inr (Some b)" by blast
    obtain t2 r2 where fb: "finish_batch ctx b t1 = (t2, r2)" by fastforce
    note ok2 = finish_batch_ok[OF ok1 fb]
    show ?thesis
    proof (cases "batch_rows b t1")
      case None
      with assms nb r1 ok1 show ?thesis
        by (auto simp: pg_receive_def sql_bind_def get_batch_events_eq pg_raise_def split: if_splits)
    next
      case (Some evs)
      with assms nb r1 fb ok1 ok2 show ?thesis
        by (cases evs; cases r2)
           (auto simp: pg_receive_def sql_bind_def get_batch_events_eq receive_loop_eq sql_return_def
             pg_raise_def simp del: receive_loop.simps split: if_splits)
    qed
  qed
qed

lemma pg_ack_ok: "db_ok t \<Longrightarrow> pg_ack ctx b t = (t', r) \<Longrightarrow> db_ok t'"
  by (auto simp: pg_ack_def sql_bind_def sql_read_def pg_raise_def finish_batch_ok split: option.splits)

lemma event_retry_core: "event_retry ctx b i secs t = (t', r) \<Longrightarrow> core_le t t'"
  by (auto simp: event_retry_def sql_defs get_batch_events_eq core_le_def
      split: option.splits list.splits if_splits)

lemma event_dead_core: "event_dead ctx b e rs t = (t', r) \<Longrightarrow> core_le t t'"
  by (auto simp: event_dead_def sql_defs nextval_dead_def Let_def core_le_def
      split: option.splits if_splits)

lemma nack_core: "pg_nack ctx b i secs rs t = (t', r) \<Longrightarrow> core_le t t'"
proof -
  assume n: "pg_nack ctx b i secs rs t = (t', r)"
  obtain t1 r1 where er: "\<And>e. event_retry ctx b i secs t = (t1, r1)" by fastforce
  show ?thesis
    using n
    by (auto simp: pg_nack_def nack_batch_event_def sql_bind_def sql_read_def get_batch_events_eq
        pg_raise_def sql_return_def dest: event_retry_core event_dead_core
        split: option.splits if_splits prod.splits sum.splits)
qed

section \<open>Registration and ticks\<close>

definition registration :: "pgctx \<Rightarrow> qrow \<Rightarrow> int \<Rightarrow> int sql" where
  "registration ctx r cid =
     sql_bind (sql_read (\<lambda>t. find (\<lambda>s. sub_consumer s = cid \<and> sub_queue s = queue_id r) (t_subs t)))
       (\<lambda>sr. case sr of
           Some _ \<Rightarrow> sql_return 0
         | None \<Rightarrow>
           sql_bind (sql_read (max_tick (queue_id r) (\<lambda>_. True))) (\<lambda>tr. case tr of
               None \<Rightarrow> pg_raise ''No ticks for this queue.  Please run ticker on database.''
             | Some tk \<Rightarrow> sql_bind nextval_sub (\<lambda>sid. sql_bind
                 (sql_update (\<lambda>t. t\<lparr>t_subs := t_subs t @
                    [\<lparr>sub_id = sid, sub_queue = queue_id r, sub_consumer = cid,
                      sub_last_tick = Some (tick_id tk), sub_active = pg_now ctx,
                      sub_batch = None, sub_next_tick = None, sub_role = Role_normal\<rparr>]\<rparr>))
                 (\<lambda>_. sql_return 1))))"

definition with_consumer :: "string \<Rightarrow> db \<Rightarrow> db \<times> int" where
  "with_consumer c t = (case find_consumer c t of
      Some x \<Rightarrow> (t, co_id x)
    | None \<Rightarrow> (t\<lparr>s_consumer := sq_set (sq_next (s_consumer t)),
        t_consumers := t_consumers t @ [\<lparr>co_id = sq_next (s_consumer t), co_name = c\<rparr>]\<rparr>,
        sq_next (s_consumer t)))"

lemma register_consumer_eq:
  "find_queue q t = Some r \<Longrightarrow>
     register_consumer ctx q c t = (case with_consumer c t of (u, cid) \<Rightarrow> registration ctx r cid u)"
  by (simp add: register_consumer_def sql_bind_def sql_read_def with_consumer_def registration_def
      sql_return_def sql_update_def nextval_consumer_def split: option.splits)

lemma with_consumer_ok: "db_ok t \<Longrightarrow> with_consumer c t = (u, cid) \<Longrightarrow> db_ok u"
  by (fastforce simp: with_consumer_def db_ok_def subs_ok_def list_all_iff split: option.splits)

lemma append_sub_ok:
  assumes "db_ok u" "sub_batch s = None" "sub_key s \<notin> sub_key ` set (t_subs u)"
  shows "db_ok (u\<lparr>s_sub := x, t_subs := t_subs u @ [s]\<rparr>)"
  using assms by (simp add: db_ok_def subs_ok_def list_all_iff cong: option.case_cong)

lemma registration_ok: "db_ok u \<Longrightarrow> registration ctx r cid u = (t', x) \<Longrightarrow> db_ok t'"
  by (auto simp: registration_def sql_bind_def sql_read_def sql_return_def pg_raise_def sql_update_def
      nextval_sub_def find_None_iff sub_key_def intro!: append_sub_ok split: option.splits)

lemma subscribe_ok: "db_ok t \<Longrightarrow> pg_subscribe ctx q c t = (t', r) \<Longrightarrow> db_ok t'"
proof -
  assume a: "db_ok t" "pg_subscribe ctx q c t = (t', r)"
  show ?thesis
  proof (cases "find_queue q t")
    case None
    with a show ?thesis
      by (auto simp: pg_subscribe_def register_consumer_def sql_defs split: if_splits)
  next
    case (Some qr)
    obtain u cid where u: "with_consumer c t = (u, cid)" by fastforce
    note reg = registration_ok[OF with_consumer_ok[OF a(1) u], of ctx qr cid t' r]
    from a u register_consumer_eq[OF Some, of ctx c] reg
    show ?thesis by (auto simp: pg_subscribe_def pg_raise_def split: if_splits)
  qed
qed

lemma force_next_tick_core:
  assumes "pg_force_next_tick q t = (t', r)" "\<And>x. find_queue q t = Some x \<Longrightarrow> 0 \<le> queue_ticker_max_count x"
  shows "core_le t t'"
proof -
  have "last_value s \<le> sq_next s + n * 2 + 1000" if "0 \<le> n" for s n
    using that by (simp add: sq_next_def)
  with assms show ?thesis
    by (auto simp: pg_force_next_tick_def pg_force_tick_def sql_defs nextval_event_def core_le_def
        sq_set_def split: option.splits if_splits)
qed

lemma append_tick_ok:
  "db_ok t \<Longrightarrow> tick_event_seq k = last_value (s_event t (tick_queue k)) \<Longrightarrow>
     db_ok (t\<lparr>s_tick := x, t_ticks := t_ticks t @ [k]\<rparr>)"
  by (simp add: db_ok_def subs_ok_def list_all_iff cong: option.case_cong)

lemma ticker_ok: "db_ok t \<Longrightarrow> pg_ticker ctx q t = (t', r) \<Longrightarrow> db_ok t'"
  by (auto simp: pg_ticker_def sql_defs nextval_tick_def intro!: append_tick_ok
      split: option.splits if_splits)

lemma ticker_queues_ok: "db_ok t \<Longrightarrow> ticker_queues ctx qs n t = (t', r) \<Longrightarrow> db_ok t'"
proof (induction qs arbitrary: t n)
  case (Cons q qs)
  obtain t1 r1 where "pg_ticker ctx q t = (t1, r1)" by fastforce
  with Cons ticker_ok[OF Cons.prems(1) this] show ?case
    by (cases r1) (auto simp: sql_bind_def)
qed (simp add: sql_return_def)

lemma ticker_all_ok: "db_ok t \<Longrightarrow> pg_ticker_all ctx t = (t', r) \<Longrightarrow> db_ok t'"
  by (auto simp: pg_ticker_all_def sql_bind_def sql_read_def intro: ticker_queues_ok)

section \<open>Removal\<close>

text \<open>A statement that keeps the invariant, and the rules that compose such statements.\<close>

definition keeps :: "'a sql \<Rightarrow> bool" where
  "keeps m \<longleftrightarrow> (\<forall>t. db_ok t \<longrightarrow> db_ok (fst (m t)))"

named_theorems keeps_intros \<open>statements that keep the invariant\<close>

lemma keepsD: "keeps m \<Longrightarrow> db_ok t \<Longrightarrow> m t = (t', r) \<Longrightarrow> db_ok t'"
  by (metis keeps_def fst_conv)

lemma keeps_bind [keeps_intros]: "keeps m \<Longrightarrow> (\<And>x. keeps (f x)) \<Longrightarrow> keeps (sql_bind m f)"
  by (fastforce simp: keeps_def sql_bind_def split: prod.splits sum.splits)

lemma keeps_read [keeps_intros]: "keeps (sql_read f)" "keeps (sql_return x)" "keeps (pg_raise m)" "keeps (any_sub P)"
  by (simp_all add: keeps_def sql_read_def sql_return_def pg_raise_def any_sub_def)

lemma keeps_cases [keeps_intros]:
  "keeps m \<Longrightarrow> (\<And>x. keeps (f x)) \<Longrightarrow> keeps (case y of None \<Rightarrow> m | Some x \<Rightarrow> f x)"
  "keeps m \<Longrightarrow> keeps n \<Longrightarrow> keeps (if b then m else n)"
  by (auto split: option.splits)

lemma keeps_delete_subs [keeps_intros]: "keeps (delete_subs P)"
proof -
  have f: "distinct (map g (filter Q (filter R xs)))" if "distinct (map g (filter Q xs))" for g :: "sub_row \<Rightarrow> 'z" and Q R xs
  proof -
    have "filter Q (filter R xs) = filter R (filter Q xs)" by (simp add: conj_commute)
    then show ?thesis using that by (simp add: distinct_map_filter del: filter_filter)
  qed
  show ?thesis
    by (auto simp: keeps_def delete_subs_def sql_update_def db_ok_def subs_ok_def list_all_iff
        distinct_map_filter f simp del: filter_filter split: option.splits)
qed

lemma keeps_drop_consumer [keeps_intros]: "keeps (drop_consumer cid)"
  by (auto simp: keeps_def drop_consumer_def sql_update_def db_ok_def subs_ok_def list_all_iff
      distinct_map_filter cong: option.case_cong)

lemma keeps_retry [keeps_intros]: "keeps (sql_update (\<lambda>t. t\<lparr>t_retry := f t\<rparr>))"
  by (simp add: keeps_def sql_update_def db_ok_def subs_ok_def list_all_iff cong: option.case_cong)

lemma keeps_set_sub:
  assumes "\<And>x. sub_key (f x) = sub_key x" "\<And>x. sub_batch (f x) = sub_batch x" "\<And>x. sub_next_tick (f x) = sub_next_tick x"
  shows "keeps (set_sub P f)"
proof -
  let ?f = "\<lambda>x. if P x then f x else x"
  have f: "sub_key (?f x) = sub_key x" "sub_batch (?f x) = sub_batch x" "sub_next_tick (?f x) = sub_next_tick x" for x
    by (simp_all add: assms)
  have b: "map sub_batch (filter (\<lambda>s. sub_batch s \<noteq> None) (map ?f xs)) =
      map sub_batch (filter (\<lambda>s. sub_batch s \<noteq> None) xs)" for xs by (induction xs) (auto simp: assms)
  have k: "map sub_key (map ?f xs) = map sub_key xs" for xs by (simp add: assms)
  have l: "list_all (\<lambda>s. Q (sub_batch s) (sub_next_tick s)) (map ?f xs) = list_all (\<lambda>s. Q (sub_batch s) (sub_next_tick s)) xs" for Q xs
    by (induction xs) (simp_all add: f)
  have "db_ok (t\<lparr>t_subs := map ?f (t_subs t)\<rparr>) = db_ok t" for t :: db
  proof -
    let ?t = "t\<lparr>t_subs := map ?f (t_subs t)\<rparr>"
    have e: "t_subs ?t = map ?f (t_subs t)" "t_queues ?t = t_queues t" "t_consumers ?t = t_consumers t"
      "t_ticks ?t = t_ticks t" "s_batch ?t = s_batch t" "s_consumer ?t = s_consumer t" "s_event ?t = s_event t"
      by simp_all
    show ?thesis
      unfolding db_ok_def subs_ok_def e b k l[of "\<lambda>b n. case b of None \<Rightarrow> True | Some b \<Rightarrow> b < sq_next (s_batch t)"]
        l[of "\<lambda>b n. b \<noteq> None \<longrightarrow> n \<noteq> None"] ..
  qed
  then show ?thesis by (simp add: keeps_def set_sub_def sql_update_def)
qed

lemma keeps_unsubscribe: "keeps (pg_unsubscribe ctx q c)"
  unfolding pg_unsubscribe_def unregister_consumer_def unregister_member_def unregister_whole_def
  by (intro keeps_intros keeps_set_sub) (simp_all add: sub_key_def)

lemma unsubscribe_ok: "db_ok t \<Longrightarrow> pg_unsubscribe ctx q c t = (t', r) \<Longrightarrow> db_ok t'"
  by (rule keepsD[OF keeps_unsubscribe])

section \<open>Every statement\<close>

lemma jsonb_cast_state: "jsonb_cast ctx s t = (t', r) \<Longrightarrow> t' = t"
  by (auto simp: jsonb_cast_def pg_raise_def sql_return_def split: option.splits)

lemma jsonb_casts_state: "jsonb_casts ctx ss t = (t', r) \<Longrightarrow> t' = t"
proof (induction ss arbitrary: t t' r)
  case (Cons s ss)
  then show ?case
    by (fastforce simp: sql_bind_def sql_return_def dest: jsonb_cast_state split: prod.splits sum.splits)
qed (simp add: sql_return_def)

lemma scalar_state: "scalar f m t = (t', r) \<Longrightarrow> \<exists>x. m t = (t', x)"
  by (auto simp: scalar_def sql_bind_def sql_return_def split: prod.splits sum.splits)

lemma bind_state:
  "sql_bind m f t = (t', r) \<Longrightarrow> (\<And>t1 e. m t = (t1, Inl e) \<Longrightarrow> P t1) \<Longrightarrow>
     (\<And>t1 x t2 r2. m t = (t1, Inr x) \<Longrightarrow> f x t1 = (t2, r2) \<Longrightarrow> P t2) \<Longrightarrow> P t'"
  by (auto simp: sql_bind_def split: prod.splits sum.splits)

lemma call_send_ok:
  assumes "db_ok t"
  shows "call_send ctx ps t = (t', r) \<Longrightarrow> db_ok t'" "call_send_typed ctx ps t = (t', r) \<Longrightarrow> db_ok t'"
proof -
  have s: "db_ok t'" if "scalar PyInt (sql_bind (jsonb_cast ctx p) (pg_send ctx q ty)) t = (t', r)" for p q ty r t'
  proof -
    from scalar_state[OF that] obtain x where "sql_bind (jsonb_cast ctx p) (pg_send ctx q ty) t = (t', x)" ..
    then show ?thesis
      by (rule bind_state) (use assms in \<open>auto simp: pg_send_def dest!: jsonb_cast_state
        intro: core_le_ok insert_event_core\<close>)
  qed
  show "call_send ctx ps t = (t', r) \<Longrightarrow> db_ok t'" "call_send_typed ctx ps t = (t', r) \<Longrightarrow> db_ok t'"
    using assms s by (auto simp: call_send_def call_send_typed_def ill_typed_def pg_raise_def
        split: list.splits pyval.splits)
qed

lemma call_send_batch_ok:
  assumes "db_ok t" "call_send_batch ctx ps t = (t', r)"
  shows "db_ok t'"
proof -
  have s: "db_ok t'" if "scalar f (sql_bind (jsonb_casts ctx ts) (pg_send_batch ctx q ty)) t = (t', r)"
    for f ts q ty r t'
  proof -
    from scalar_state[OF that] obtain x where "sql_bind (jsonb_casts ctx ts) (pg_send_batch ctx q ty) t = (t', x)" ..
    then show ?thesis
      by (rule bind_state) (use assms(1) in \<open>auto simp: pg_send_batch_def sql_return_def dest!: jsonb_casts_state
        intro: core_le_ok insert_event_bulk_core split: if_splits\<close>)
  qed
  show ?thesis
    using assms s by (auto simp: call_send_batch_def ill_typed_def pg_raise_def
        split: list.splits pyval.splits option.splits)
qed

lemma call_receive_ok:
  assumes "db_ok t" "call_receive ctx ps t = (t', r)"
  shows "db_ok t'"
proof -
  have s: "db_ok t'" if "sql_bind (pg_receive ctx q c n) (\<lambda>ms. sql_return (map message_row ms)) t = (t', r)"
    for q c n r t'
    using that by (rule bind_state) (auto simp: sql_return_def dest: pg_receive_ok[OF assms(1)])
  show ?thesis
    using assms s by (auto simp: call_receive_def ill_typed_def pg_raise_def
        split: list.splits pyval.splits)
qed

lemma call_nack_ok:
  assumes "db_ok t" "call_nack ctx ps t = (t', r)"
  shows "db_ok t'"
proof -
  have s: "db_ok t'" if "scalar PyInt (pg_nack ctx b i secs rs) t = (t', r)" for b i secs rs r t'
    using scalar_state[OF that] nack_core core_le_ok[OF assms(1)] by blast
  show ?thesis
    using assms s by (auto simp: call_nack_def ill_typed_def pg_raise_def
        split: list.splits pyval.splits option.splits)
qed

lemma statement_keeps_db_ok:
  assumes "db_ok t" and "\<And>r. r \<in> set (t_queues t) \<Longrightarrow> 0 \<le> queue_ticker_max_count r"
    and "\<And>t' r. other ctx sql ps t = (t', r) \<Longrightarrow> db_ok t'"
    and "pg_call other ctx sql ps t = (t', r)"
  shows "db_ok t'"
proof -
  have f: "call_force_next_tick ps t = (t', r) \<Longrightarrow> db_ok t'"
    using assms(1,2) find_SomeD[of _ "t_queues t"]
    by (fastforce simp: call_force_next_tick_def ill_typed_def pg_raise_def find_queue_def
        intro: core_le_ok[OF assms(1)] dest!: scalar_state force_next_tick_core
        split: list.splits pyval.splits)
  have s: "call_subscribe ctx ps t = (t', r) \<Longrightarrow> db_ok t'" "call_ack ctx ps t = (t', r) \<Longrightarrow> db_ok t'"
    "call_ticker ctx ps t = (t', r) \<Longrightarrow> db_ok t'" "call_unsubscribe ctx ps t = (t', r) \<Longrightarrow> db_ok t'"
    "call_ticker_all ctx ps t = (t', r) \<Longrightarrow> db_ok t'"
    using assms(1) by (auto simp: call_subscribe_def call_ack_def call_ticker_def call_unsubscribe_def
        call_ticker_all_def ill_typed_def pg_raise_def dest!: scalar_state
        dest: subscribe_ok pg_ack_ok ticker_ok unsubscribe_ok ticker_all_ok split: list.splits pyval.splits)
  show ?thesis
    using assms(4) f s call_send_ok[OF assms(1)] call_send_batch_ok[OF assms(1)]
      call_receive_ok[OF assms(1)] call_nack_ok[OF assms(1)] assms(3)
    unfolding pg_call_def by (simp split: if_splits)
qed

end
