(* ===== verification/CoopGroups.thy ===== *)
theory CoopGroups
  imports Cooperative SqlInvariant
begin

text \<open>
  The groups of cooperative consumers in the subscription table: rows that share a \<open>sub_id\<close>.
  A group is one normal row, or one main row with members. Windows between ticks that
  members hold are disjoint and lie behind the position of the main row.
\<close>

section \<open>The invariant of the groups\<close>

definition row_ok :: "int \<Rightarrow> sub_row \<Rightarrow> bool" where
  "row_ok n x \<longleftrightarrow> sub_id x < n
     \<and> (sub_batch x \<noteq> None \<longrightarrow> (case (sub_last_tick x, sub_next_tick x) of
          (Some p, Some k) \<Rightarrow> p < k | _ \<Rightarrow> False))
     \<and> (sub_role x \<noteq> Role_coop_member \<longrightarrow> sub_last_tick x \<noteq> None)
     \<and> (sub_role x = Role_coop_main \<longrightarrow> sub_batch x = None)"

text \<open>The window that a row holds ends at or before the place where another begins.\<close>

definition ends_before :: "sub_row \<Rightarrow> sub_row \<Rightarrow> bool" where
  "ends_before x y \<longleftrightarrow> (case (sub_next_tick x, sub_last_tick y) of
      (Some k, Some p) \<Rightarrow> k \<le> p | _ \<Rightarrow> False)"

definition pair_ok :: "sub_row \<Rightarrow> sub_row \<Rightarrow> bool" where
  "pair_ok x y \<longleftrightarrow> sub_id x = sub_id y \<longrightarrow> sub_queue x = sub_queue y
     \<and> (sub_role x = Role_coop_member \<or> sub_role y = Role_coop_member)
     \<and> (sub_batch x \<noteq> None \<longrightarrow> sub_batch y \<noteq> None \<longrightarrow> ends_before x y \<or> ends_before y x)
     \<and> (sub_batch x \<noteq> None \<longrightarrow> sub_role y \<noteq> Role_coop_member \<longrightarrow> ends_before x y)
     \<and> (sub_batch y \<noteq> None \<longrightarrow> sub_role x \<noteq> Role_coop_member \<longrightarrow> ends_before y x)"

definition has_main :: "sub_row list \<Rightarrow> sub_row \<Rightarrow> bool" where
  "has_main S x \<longleftrightarrow> list_ex (\<lambda>m. sub_role m = Role_coop_main \<and> sub_id m = sub_id x) S"

definition groups :: "int \<Rightarrow> sub_row list \<Rightarrow> bool" where
  "groups n S \<longleftrightarrow> list_all (row_ok n) S
     \<and> list_all (\<lambda>x. list_all (\<lambda>y. sub_key x \<noteq> sub_key y \<longrightarrow> pair_ok x y) S) S
     \<and> list_all (\<lambda>x. sub_role x = Role_coop_member \<longrightarrow> has_main S x) S"

definition groups_ok :: "db \<Rightarrow> bool" where
  "groups_ok t \<longleftrightarrow> groups (sq_next (s_sub t)) (t_subs t)"

lemma pair_ok_sym: "pair_ok x y \<longleftrightarrow> pair_ok y x"
  by (auto simp: pair_ok_def)

lemma groups_row: "groups n S \<Longrightarrow> x \<in> set S \<Longrightarrow> row_ok n x"
  by (simp add: groups_def list_all_iff)

lemma groups_pair: "groups n S \<Longrightarrow> x \<in> set S \<Longrightarrow> y \<in> set S \<Longrightarrow> sub_key x \<noteq> sub_key y \<Longrightarrow> pair_ok x y"
  by (simp add: groups_def list_all_iff)

lemma groups_main: "groups n S \<Longrightarrow> x \<in> set S \<Longrightarrow> sub_role x = Role_coop_member \<Longrightarrow>
    \<exists>m\<in>set S. sub_role m = Role_coop_main \<and> sub_id m = sub_id x"
  by (auto simp: groups_def has_main_def list_all_iff list_ex_iff)

lemma groupsI:
  assumes "\<And>x. x \<in> set S \<Longrightarrow> row_ok n x"
    and "\<And>x y. x \<in> set S \<Longrightarrow> y \<in> set S \<Longrightarrow> sub_key x \<noteq> sub_key y \<Longrightarrow> pair_ok x y"
    and "\<And>x. x \<in> set S \<Longrightarrow> sub_role x = Role_coop_member \<Longrightarrow> \<exists>m\<in>set S. sub_role m = Role_coop_main \<and> sub_id m = sub_id x"
  shows "groups n S"
  using assms by (auto simp: groups_def has_main_def list_all_iff list_ex_iff)

lemma groups_alone:
  assumes "groups n S" "distinct (map sub_key S)" "x \<in> set S" "y \<in> set S" "sub_id x = sub_id y" "sub_role x = Role_normal"
  shows "x = y"
proof (rule ccontr)
  assume ne: "x \<noteq> y"
  have k: "sub_key a \<noteq> sub_key b" if "a \<in> set S" "b \<in> set S" "a \<noteq> b" for a b
    using distinct_keyD[OF assms(2)] that by blast
  have "sub_role y = Role_coop_member"
    using groups_pair[OF assms(1,3,4) k[OF assms(3,4) ne]] assms(5,6) by (simp add: pair_ok_def)
  then obtain m where m: "m \<in> set S" "sub_role m = Role_coop_main" "sub_id m = sub_id y"
    using groups_main[OF assms(1,4)] by blast
  then have "x \<noteq> m" using assms(6) by auto
  then show False
    using groups_pair[OF assms(1,3) m(1) k[OF assms(3) m(1)]] m assms(5,6) by (simp add: pair_ok_def)
qed

section \<open>Rewriting rows\<close>

definition same_row :: "sub_row \<Rightarrow> sub_row \<Rightarrow> bool" where
  "same_row x y \<longleftrightarrow> y = x\<lparr>sub_active := sub_active y\<rparr>"

lemma same_rowD:
  assumes "same_row x y"
  shows "sub_key y = sub_key x" "sub_id y = sub_id x" "sub_queue y = sub_queue x" "sub_batch y = sub_batch x"
    "sub_last_tick y = sub_last_tick x" "sub_next_tick y = sub_next_tick x" "sub_role y = sub_role x"
  using assms unfolding same_row_def by (cases x, cases y, simp add: sub_key_def)+

lemma groups_touch:
  assumes "groups n S" "\<And>x. same_row x (f x)"
  shows "groups n (map f S)"
proof -
  note f = same_rowD[OF assms(2)]
  have "row_ok n (f x) = row_ok n x" "ends_before (f x) (f y) = ends_before x y" for x y
    by (simp_all add: row_ok_def ends_before_def f)
  moreover from this have "pair_ok (f x) (f y) = pair_ok x y" for x y
    by (simp add: pair_ok_def f)
  ultimately show ?thesis
    using assms(1) by (simp add: groups_def has_main_def list.pred_map comp_def f list_all_iff list_ex_iff)
qed

lemma row_ok_mono: "row_ok n x \<Longrightarrow> n \<le> n' \<Longrightarrow> row_ok n' x"
  by (auto simp: row_ok_def)

lemma groups_mono: "groups n S \<Longrightarrow> n \<le> n' \<Longrightarrow> groups n' S"
  by (auto simp: groups_def list_all_iff intro: row_ok_mono)

lemma groups_new:
  assumes "groups n S" "sub_id r = n" "row_ok (n + 1) r" "sub_role r \<noteq> Role_coop_member"
  shows "groups (n + 1) (S @ [r])"
proof (rule groupsI)
  have old: "sub_id x < n" if "x \<in> set S" for x using groups_row[OF assms(1) that] by (simp add: row_ok_def)
  have "pair_ok x r" "pair_ok r x" if "x \<in> set S" for x using old[OF that] assms(2) by (auto simp: pair_ok_def)
  then show "pair_ok x y" if "x \<in> set (S @ [r])" "y \<in> set (S @ [r])" "sub_key x \<noteq> sub_key y" for x y
    using that groups_pair[OF assms(1)] by auto
  show "row_ok (n + 1) x" if "x \<in> set (S @ [r])" for x
    using that assms(3) row_ok_mono[OF groups_row[OF assms(1)], of x "n + 1"] by auto
  show "\<exists>m\<in>set (S @ [r]). sub_role m = Role_coop_main \<and> sub_id m = sub_id x"
    if "x \<in> set (S @ [r])" "sub_role x = Role_coop_member" for x
    using that assms(4) groups_main[OF assms(1), of x] by auto
qed

lemma groups_queue:
  assumes "groups n S" "x \<in> set S" "y \<in> set S" "sub_id x = sub_id y"
  shows "sub_queue x = sub_queue y"
proof (cases "sub_key x = sub_key y")
  case True
  then show ?thesis by (simp add: sub_key_def)
next
  case False
  then show ?thesis using groups_pair[OF assms(1-3)] assms(4) by (simp add: pair_ok_def)
qed

lemma groups_join:
  assumes "groups n S" "m \<in> set S" "sub_role m = Role_coop_main" "sub_id r = sub_id m" "sub_queue r = sub_queue m"
    and "sub_role r = Role_coop_member" "sub_batch r = None"
  shows "groups n (S @ [r])"
proof (rule groupsI)
  have "pair_ok r x" if "x \<in> set S" for x
    using groups_queue[OF assms(1) that assms(2)] assms(4-7) by (auto simp: pair_ok_def)
  then show "pair_ok x y" if "x \<in> set (S @ [r])" "y \<in> set (S @ [r])" "sub_key x \<noteq> sub_key y" for x y
    using that groups_pair[OF assms(1)] pair_ok_sym[of r] by auto
  have "sub_id m < n" using groups_row[OF assms(1,2)] by (simp add: row_ok_def)
  then show "row_ok n x" if "x \<in> set (S @ [r])" for x
    using that groups_row[OF assms(1)] assms(4-7) by (auto simp: row_ok_def)
  show "\<exists>m\<in>set (S @ [r]). sub_role m = Role_coop_main \<and> sub_id m = sub_id x"
    if "x \<in> set (S @ [r])" "sub_role x = Role_coop_member" for x
    using that assms(2-4) groups_main[OF assms(1), of x] by auto
qed

lemma groups_upd:
  assumes g: "groups n S" and d: "distinct (map sub_key S)" and s: "s \<in> set S"
    and f: "\<And>x. sub_key (f x) = sub_key x" "sub_id (f s) = sub_id s" "row_ok n (f s)"
    and p: "\<And>y. y \<in> set S \<Longrightarrow> sub_key y \<noteq> sub_key s \<Longrightarrow> pair_ok (f s) y"
    and r: "sub_role (f s) = sub_role s"
  shows "groups n (upd_key (sub_key s) f S)"
proof (rule groupsI)
  note set = upd_key_set[OF d s refl, of f]
  show "row_ok n x" if "x \<in> set (upd_key (sub_key s) f S)" for x
    using that f(3) groups_row[OF g] by (auto simp: set)
  show "pair_ok x y" if "x \<in> set (upd_key (sub_key s) f S)" "y \<in> set (upd_key (sub_key s) f S)" "sub_key x \<noteq> sub_key y" for x y
    using that p pair_ok_sym[of "f s"] groups_pair[OF g, of x y] f(1) by (auto simp: set)
  show "\<exists>m\<in>set (upd_key (sub_key s) f S). sub_role m = Role_coop_main \<and> sub_id m = sub_id x"
    if "x \<in> set (upd_key (sub_key s) f S)" "sub_role x = Role_coop_member" for x
  proof -
    note h = that
    obtain z where "z \<in> set S" "sub_role z = Role_coop_member" "sub_id z = sub_id x"
    proof (cases "x = f s")
      case True
      with that s f(2) r h(2) show thesis by auto
    next
      case False
      with that[of x] h show thesis by (auto simp: set)
    qed
    then obtain m where "m \<in> set S" "sub_role m = Role_coop_main" "sub_id m = sub_id x"
      using groups_main[OF g] by metis
    then show ?thesis using f(2) r by (cases "m = s") (auto simp: set)
  qed
qed

lemma groups_filter:
  assumes "groups n S" "\<And>x m. x \<in> set S \<Longrightarrow> m \<in> set S \<Longrightarrow> Q x \<Longrightarrow> sub_role x = Role_coop_member \<Longrightarrow>
      sub_role m = Role_coop_main \<Longrightarrow> sub_id m = sub_id x \<Longrightarrow> Q m"
  shows "groups n (filter Q S)"
proof (rule groupsI)
  show "\<exists>m\<in>set (filter Q S). sub_role m = Role_coop_main \<and> sub_id m = sub_id x"
    if "x \<in> set (filter Q S)" "sub_role x = Role_coop_member" for x
    using that groups_main[OF assms(1), of x] assms(2)[of x] by auto
qed (use groups_row[OF assms(1)] groups_pair[OF assms(1)] in auto)

text \<open>A main row without members becomes a normal row, and back.\<close>

lemma groups_set_role:
  assumes g: "groups n S" and P: "\<And>x. x \<in> set S \<Longrightarrow> P x \<Longrightarrow> sub_id x = i" "\<And>x. x \<in> set S \<Longrightarrow> sub_id x = i \<Longrightarrow> sub_role x \<noteq> Role_coop_member"
    and b: "\<And>x. x \<in> set S \<Longrightarrow> P x \<Longrightarrow> sub_batch x = None" and ro: "ro \<noteq> Role_coop_member"
  shows "groups n (map (\<lambda>x. if P x then x\<lparr>sub_role := ro, sub_active := a\<rparr> else x) S)"
proof -
  let ?f = "\<lambda>x. if P x then x\<lparr>sub_role := ro, sub_active := a\<rparr> else x"
  have f: "sub_key (?f x) = sub_key x" "sub_id (?f x) = sub_id x" "sub_queue (?f x) = sub_queue x"
    "sub_batch (?f x) = sub_batch x" "ends_before (?f x) (?f y) = ends_before x y" for x y
    by (simp_all add: sub_key_def ends_before_def cong: option.case_cong)
  have m: "sub_role (?f x) = Role_coop_member \<longleftrightarrow> sub_role x = Role_coop_member" if "x \<in> set S" for x
    using that P ro by auto
  have mf: "x \<in> set S \<Longrightarrow> P x \<Longrightarrow> sub_role x \<noteq> Role_coop_member" for x using P by auto
  have row: "row_ok n (?f x)" if "x \<in> set S" for x
    using groups_row[OF g that] b[OF that] mf[OF that] by (auto simp: row_ok_def)
  have pair: "pair_ok (?f x) (?f y)" if "x \<in> set S" "y \<in> set S" "sub_key x \<noteq> sub_key y" for x y
    using groups_pair[OF g that] unfolding pair_ok_def f m[OF that(1)] m[OF that(2)] by blast
  have main: "\<exists>k\<in>set S. sub_role (?f k) = Role_coop_main \<and> sub_id (?f k) = sub_id x"
    if "x \<in> set S" "sub_role x = Role_coop_member" for x
  proof -
    note h = that
    obtain k where k: "k \<in> set S" "sub_role k = Role_coop_main" "sub_id k = sub_id x"
      using groups_main[OF g h] by blast
    then have "\<not> P k" using P h by metis
    with k show ?thesis by (intro bexI[of _ k]) simp_all
  qed
  show ?thesis
  proof (rule groupsI)
    show "row_ok n x" if "x \<in> set (map ?f S)" for x
    proof -
      from that obtain u where "u \<in> set S" "x = ?f u" by auto
      then show ?thesis by (simp only: row)
    qed
    show "pair_ok x y" if "x \<in> set (map ?f S)" "y \<in> set (map ?f S)" "sub_key x \<noteq> sub_key y" for x y
    proof -
      from that(1,2) obtain u v where uv: "u \<in> set S" "x = ?f u" "v \<in> set S" "y = ?f v" by auto
      then have "sub_key u \<noteq> sub_key v" using that(3) f(1) by metis
      then show ?thesis using pair uv by blast
    qed
    show "\<exists>k\<in>set (map ?f S). sub_role k = Role_coop_main \<and> sub_id k = sub_id x"
      if "x \<in> set (map ?f S)" "sub_role x = Role_coop_member" for x
    proof -
      from that(1) obtain u where u: "u \<in> set S" "x = ?f u" by auto
      with that(2) m have "sub_role u = Role_coop_member" by blast
      from main[OF u(1) this] obtain k where k: "k \<in> set S" "sub_role (?f k) = Role_coop_main" "sub_id (?f k) = sub_id u"
        by blast
      moreover have "?f k \<in> set (map ?f S)" unfolding set_map by (rule image_eqI[OF refl k(1)])
      moreover have "sub_id x = sub_id u" unfolding u(2) by (rule f(2))
      ultimately show ?thesis by (intro bexI[of _ "?f k"]) (simp_all only:)
    qed
  qed
qed

section \<open>Statements that leave the subscriptions alone\<close>

definition frames :: "'a sql \<Rightarrow> bool" where
  "frames m \<longleftrightarrow> (\<forall>t. t_subs (fst (m t)) = t_subs t \<and> s_sub (fst (m t)) = s_sub t)"

named_theorems frames_intros \<open>statements that leave the subscriptions alone\<close>

lemma framesD: "frames m \<Longrightarrow> m t = (t', r) \<Longrightarrow> t_subs t' = t_subs t \<and> s_sub t' = s_sub t"
  by (metis frames_def fst_conv)

lemma frames_groups: "frames m \<Longrightarrow> m t = (t', r) \<Longrightarrow> groups_ok t' = groups_ok t"
  by (drule framesD) (auto simp: groups_ok_def)

lemma frames_bind [frames_intros]: "frames m \<Longrightarrow> (\<And>x. frames (f x)) \<Longrightarrow> frames (sql_bind m f)"
  by (auto simp: frames_def sql_bind_def split: prod.splits sum.splits) (metis fst_conv)+

lemma frames_read [frames_intros]:
  "frames (sql_read f)" "frames (sql_return x)" "frames (pg_raise m)" "frames (pg_raise_code m c h)"
  "frames (any_sub P)" "frames ill_typed" "frames (drop_consumer cid)" "frames (add_events i es)"
  "frames nextval_batch" "frames nextval_consumer" "frames nextval_dead" "frames (nextval_tick q)" "frames (nextval_event q)"
  by (simp_all add: frames_def sql_read_def sql_return_def pg_raise_def pg_raise_code_def any_sub_def
      ill_typed_def drop_consumer_def sql_update_def add_events_def nextval_batch_def nextval_consumer_def
      nextval_dead_def nextval_tick_def nextval_event_def)

lemma frames_update [frames_intros]:
  "(\<And>t. t_subs (f t) = t_subs t) \<Longrightarrow> (\<And>t. s_sub (f t) = s_sub t) \<Longrightarrow> frames (sql_update f)"
  by (simp add: frames_def sql_update_def)

lemma frames_cases [frames_intros]:
  "frames m \<Longrightarrow> (\<And>x. frames (f x)) \<Longrightarrow> frames (case y of None \<Rightarrow> m | Some x \<Rightarrow> f x)"
  "frames m \<Longrightarrow> frames n \<Longrightarrow> frames (if b then m else n)"
  "frames m \<Longrightarrow> (\<And>x xs. frames (g x xs)) \<Longrightarrow> frames (case l of [] \<Rightarrow> m | x # xs \<Rightarrow> g x xs)"
  by (auto split: option.splits list.splits)

lemma frames_scalar [frames_intros]: "frames m \<Longrightarrow> frames (scalar f m)"
  unfolding scalar_def by (intro frames_intros)

lemma frames_insert [frames_intros]: "frames (insert_event_raw ctx q i tm ow re ty da x1 x2 x3 x4)"
  unfolding insert_event_raw_def Let_def by (intro frames_intros)

lemma frames_jsonb [frames_intros]: "frames (jsonb_cast ctx s)" "frames (jsonb_casts ctx ss)"
proof -
  show c: "frames (jsonb_cast ctx s)" for s unfolding jsonb_cast_def by (intro frames_intros)
  show "frames (jsonb_casts ctx ss)" by (induction ss) (auto intro!: frames_intros c)
qed

lemma frames_loops [frames_intros]:
  "frames (nextvals q xs)" "frames (receive_loop b n k evs)" "frames (receive_coop_loop b n k evs)"
proof -
  show "frames (nextvals q xs)" by (induction xs) (auto intro!: frames_intros)
  show "frames (receive_loop b n k evs)" by (induction evs arbitrary: k) (auto intro!: frames_intros)
  show "frames (receive_coop_loop b n k evs)" by (induction evs arbitrary: k) (auto intro!: frames_intros)
qed

lemma frames_batch [frames_intros]: "frames (get_batch_events b)"
  unfolding get_batch_events_def by (intro frames_intros)

lemma frames_event [frames_intros]: "frames (event_retry ctx b i secs)" "frames (event_dead ctx b e rs)"
  by (auto simp: event_retry_def event_dead_def Let_def intro!: frames_intros)

lemma frames_settle [frames_intros]: "frames (settle_events ctx b limit es)"
  by (induction es) (auto intro!: frames_intros)

lemma frames_nack [frames_intros]: "frames (pg_nack ctx b i secs rs)"
  unfolding pg_nack_def nack_batch_event_def by (intro frames_intros)

lemma frames_ticker [frames_intros]: "frames (pg_ticker ctx q)" "frames (pg_force_next_tick q)"
  unfolding pg_ticker_def pg_force_next_tick_def pg_force_tick_def by (intro frames_intros; simp)+

lemma frames_ticker_queues [frames_intros]: "frames (ticker_queues ctx qs n)"
  by (induction qs arbitrary: n) (auto intro!: frames_intros)

lemma frames_move [frames_intros]: "frames (move_rows ctx rs n)"
  by (induction ctx rs n rule: move_rows.induct) (auto simp: Let_def intro!: frames_intros)

lemma frames_api [frames_intros]:
  "frames (pg_send ctx q ty p)" "frames (pg_send_batch ctx q ty ps)" "frames (pg_ticker_all ctx)"
  "frames (maint_retry_events ctx)" "frames (ensure_consumer c)" "frames (validate_coop_names q c sub)"
  unfolding pg_send_def insert_event_def pg_send_batch_def insert_event_bulk_def pg_ticker_all_def
    maint_retry_events_def ensure_consumer_def validate_coop_names_def
  by (intro frames_intros; simp)+

section \<open>Batches and registration of normal consumers\<close>

lemma groups_okI: "groups (sq_next (s_sub t)) (t_subs t) \<Longrightarrow> groups_ok t"
  by (simp add: groups_ok_def)

lemma subs_distinct: "subs_ok t \<Longrightarrow> distinct (map sub_key (t_subs t))"
  by (simp add: subs_ok_def)

text \<open>A normal row and what its windows may become.\<close>

lemma groups_normal:
  assumes "groups_ok t" "subs_ok t" "s \<in> set (t_subs t)" "sub_role s = Role_normal"
    and "\<And>x. sub_key (f x) = sub_key x" "sub_id (f s) = sub_id s" "sub_role (f s) = Role_normal"
    and "row_ok (sq_next (s_sub t)) (f s)"
  shows "groups (sq_next (s_sub t)) (upd_key (sub_key s) f (t_subs t))"
proof -
  have g: "groups (sq_next (s_sub t)) (t_subs t)" using assms(1) by (simp add: groups_ok_def)
  show ?thesis
  proof (rule groups_upd[OF g subs_distinct[OF assms(2)] assms(3)])
    show "pair_ok (f s) y" if "y \<in> set (t_subs t)" "sub_key y \<noteq> sub_key s" for y
      using groups_alone[OF g subs_distinct[OF assms(2)] assms(3) that(1) _ assms(4)] that(2) assms(6)
      by (auto simp: pair_ok_def)
  qed (use assms in auto)
qed

lemma next_batch_groups:
  assumes "groups_ok t" "subs_ok t" "next_batch ctx q c t = (t', r)"
  shows "groups_ok t'"
proof (cases "\<exists>b. r = Inr (Some b)")
  case True
  then obtain b where nb: "next_batch ctx q c t = (t', Inr (Some b))" using assms(3) by blast
  show ?thesis
  proof (cases rule: next_batch_cases[OF assms(2) nb])
    case (1 s)
    then show ?thesis using assms(1) by simp
  next
    case (2 s prev cur)
    have mem: "s \<in> set (t_subs t)" by (rule find_sub_mem[OF 2(1)])
    show ?thesis
    proof (cases "sub_role s = Role_normal")
      case True
      have "sub_last_tick s = Some (tick_id prev)" "tick_id prev < tick_id cur"
        using find_tick_mem[OF 2(4)] min_tick_mem[OF 2(5)] by simp_all
      then have "row_ok (sq_next (s_sub t)) (stamp ctx b (tick_id cur) s)"
        using groups_row[OF assms(1)[unfolded groups_ok_def] mem] True by (simp add: row_ok_def)
      from groups_normal[where f = "stamp ctx b (tick_id cur)", OF assms(1,2) mem True _ _ _ this] True 2(6) show ?thesis
        by (simp add: groups_ok_def)
    next
      case False
      with 2(6) assms(1) show ?thesis by (simp add: groups_ok_def)
    qed
  qed
next
  case False
  with next_batch_state[OF assms(3)] assms(1) show ?thesis by auto
qed

definition cleared :: "pgctx \<Rightarrow> sub_row \<Rightarrow> sub_row" where
  "cleared ctx x = x\<lparr>sub_active := pg_now ctx, sub_last_tick := None, sub_next_tick := None, sub_batch := None\<rparr>"

lemma cleared_simps [simp]:
  "sub_key (cleared ctx x) = sub_key x" "sub_batch (cleared ctx x) = None" "sub_role (cleared ctx x) = sub_role x"
  "sub_id (cleared ctx x) = sub_id x" "sub_queue (cleared ctx x) = sub_queue x"
  "sub_consumer (cleared ctx x) = sub_consumer x"
  "sub_last_tick (cleared ctx x) = None" "sub_next_tick (cleared ctx x) = None"
  by (simp_all add: cleared_def sub_key_def)

lemma advance_simps [simp]:
  "sub_key (advance ctx x) = sub_key x" "sub_batch (advance ctx x) = None" "sub_role (advance ctx x) = sub_role x"
  "sub_id (advance ctx x) = sub_id x" "sub_last_tick (advance ctx x) = sub_next_tick x"
  by (simp_all add: advance_def sub_key_def)

text \<open>A member that gives its window back constrains nobody.\<close>

lemma groups_clear:
  assumes "groups n S" "distinct (map sub_key S)" "s \<in> set S" "sub_role s = Role_coop_member"
  shows "groups n (upd_key (sub_key s) (cleared ctx) S)"
proof (rule groups_upd[OF assms(1-3)])
  show "row_ok n (cleared ctx s)" using groups_row[OF assms(1,3)] assms(4) by (simp add: row_ok_def)
  show "pair_ok (cleared ctx s) y" if "y \<in> set S" "sub_key y \<noteq> sub_key s" for y
    using groups_pair[OF assms(1,3) that(1)] that(2) assms(4) by (auto simp: pair_ok_def)
qed simp_all

lemma finish_batch_state:
  assumes "subs_ok t" "finish_batch ctx b t = (t', r)"
  obtains "t' = t"
  | s where "s \<in> set (t_subs t)" "sub_batch s = Some b" "sub_role s = Role_normal"
      "t' = t\<lparr>t_subs := upd_key (sub_key s) (advance ctx) (t_subs t)\<rparr>"
  | s where "s \<in> set (t_subs t)" "sub_batch s = Some b" "sub_role s = Role_coop_member"
      "t' = t\<lparr>t_subs := upd_key (sub_key s) (cleared ctx) (t_subs t)\<rparr>"
proof (cases "find_batch b t")
  case None
  with assms(2) that(1) show thesis by (simp add: finish_batch_def sql_defs)
next
  case (Some s)
  have s: "s \<in> set (t_subs t)" "sub_batch s = Some b" using Some find_batch_iff[OF assms(1)] by blast+
  have upd: "set_sub (\<lambda>x. sub_queue x = sub_queue s \<and> sub_consumer x = sub_consumer s) f t =
      (t\<lparr>t_subs := upd_key (sub_key s) f (t_subs t)\<rparr>, Inr ())" for f
    by (rule set_sub_key[OF assms(1) s(1)]) (auto simp: sub_key_def)
  have f: "(\<lambda>x. x\<lparr>sub_active := pg_now ctx, sub_last_tick := sub_next_tick x, sub_next_tick := None, sub_batch := None\<rparr>) = advance ctx"
    "(\<lambda>x. x\<lparr>sub_active := pg_now ctx, sub_last_tick := None, sub_next_tick := None, sub_batch := None\<rparr>) = cleared ctx"
    by (simp_all add: advance_def cleared_def fun_eq_iff)
  note fb = assms(2)[unfolded finish_batch_def sql_bind_def sql_read_def sql_return_def pg_raise_def Some f]
  show thesis
  proof (cases "sub_role s")
    case Role_normal
    with fb upd show thesis by (intro that(2)[OF s]) simp_all
  next
    case Role_coop_main
    with fb show thesis by (intro that(1)) simp
  next
    case Role_coop_member
    with fb upd show thesis by (intro that(3)[OF s]) simp_all
  qed
qed

lemma finish_batch_groups:
  assumes "groups_ok t" "subs_ok t" "finish_batch ctx b t = (t', r)"
  shows "groups_ok t'"
proof (cases rule: finish_batch_state[OF assms(2,3)])
  case 1
  then show ?thesis using assms(1) by simp
next
  case (2 s)
  have "row_ok (sq_next (s_sub t)) (advance ctx s)"
    using groups_row[OF assms(1)[unfolded groups_ok_def] 2(1)] 2(2,3) by (auto simp: row_ok_def split: option.splits)
  from groups_normal[where f = "advance ctx", OF assms(1,2) 2(1,3) _ _ _ this] 2(3,4) show ?thesis by (simp add: groups_ok_def)
next
  case (3 s)
  from groups_clear[OF assms(1)[unfolded groups_ok_def] subs_distinct[OF assms(2)] 3(1,3), of ctx] 3(4)
  show ?thesis by (simp add: groups_ok_def)
qed

lemma registration_groups:
  "groups_ok u \<Longrightarrow> registration ctx r cid u = (t', x) \<Longrightarrow> groups_ok t'"
  by (auto simp: registration_def sql_bind_def sql_read_def sql_return_def pg_raise_def sql_update_def
      nextval_sub_def groups_ok_def row_ok_def intro!: groups_new split: option.splits)

lemma subscribe_groups:
  assumes "groups_ok t" "pg_subscribe ctx q c t = (t', r)"
  shows "groups_ok t'"
proof (cases "find_queue q t")
  case None
  with assms show ?thesis by (auto simp: pg_subscribe_def register_consumer_def sql_defs split: if_splits)
next
  case (Some qr)
  obtain u cid where u: "with_consumer c t = (u, cid)" by fastforce
  then have "groups_ok u" using assms(1) by (auto simp: with_consumer_def groups_ok_def split: option.splits)
  from registration_groups[OF this, of ctx qr cid t' r] assms u register_consumer_eq[OF Some, of ctx c]
  show ?thesis by (auto simp: pg_subscribe_def pg_raise_def split: if_splits)
qed

section \<open>Leaving a group\<close>

lemma groups_leave:
  assumes "groups n S" "s \<in> set S" "sub_role s = Role_coop_member" "\<And>x. x \<in> set S \<Longrightarrow> Q x \<longleftrightarrow> x \<noteq> s"
  shows "groups n (filter Q S)"
  by (rule groups_filter[OF assms(1)]) (use assms in force)

lemma groups_demote:
  assumes "groups n S" "\<And>x. x \<in> set S \<Longrightarrow> sub_id x = i \<Longrightarrow> sub_role x \<noteq> Role_coop_member"
    and "\<And>x. x \<in> set S \<Longrightarrow> P x \<Longrightarrow> sub_id x = i \<and> sub_role x = Role_coop_main"
  shows "groups n (map (\<lambda>x. if P x then x\<lparr>sub_role := Role_normal, sub_active := a\<rparr> else x) S)"
  by (rule groups_set_role[OF assms(1) _ assms(2)])
     (use assms(3) groups_row[OF assms(1)] in \<open>auto simp: row_ok_def\<close>)

section \<open>Statements from precondition to postcondition\<close>

text \<open>
  From a database that satisfies \<open>P\<close> the statement returns in \<open>Q\<close> or raises in \<open>E\<close>.
\<close>

definition ensures :: "(db \<Rightarrow> bool) \<Rightarrow> (db \<Rightarrow> bool) \<Rightarrow> 'a sql \<Rightarrow> ('a \<Rightarrow> db \<Rightarrow> bool) \<Rightarrow> bool" where
  "ensures E P m Q \<longleftrightarrow> (\<forall>t. P t \<longrightarrow> (case m t of (t', Inl e) \<Rightarrow> E t' | (t', Inr x) \<Rightarrow> Q x t'))"

lemma ensuresD: "ensures E P m Q \<Longrightarrow> P t \<Longrightarrow> m t = (t', r) \<Longrightarrow> (case r of Inl e \<Rightarrow> E t' | Inr x \<Rightarrow> Q x t')"
  by (fastforce simp: ensures_def split: sum.splits)

lemma ensures_bind:
  "ensures E P m R \<Longrightarrow> (\<And>x. ensures E (R x) (f x) Q) \<Longrightarrow> ensures E P (sql_bind m f) Q"
  by (fastforce simp: ensures_def sql_bind_def split: prod.splits sum.splits)

lemma ensures_read:
  "(\<And>x. ensures E (\<lambda>t. P t \<and> f t = x) (g x) Q) \<Longrightarrow> ensures E P (sql_bind (sql_read f) g) Q"
  "(\<And>x. ensures E (\<lambda>t. P t \<and> (\<exists>y\<in>set (t_subs t). p y) = x) (h x) Q) \<Longrightarrow> ensures E P (sql_bind (any_sub p) h) Q"
  by (simp_all add: ensures_def sql_bind_def sql_read_def any_sub_def)

lemma ensures_return: "(\<And>t. P t \<Longrightarrow> Q x t) \<Longrightarrow> ensures E P (sql_return x) Q"
  by (simp add: ensures_def sql_return_def)

lemma ensures_raise:
  "(\<And>t. P t \<Longrightarrow> E t) \<Longrightarrow> ensures E P (pg_raise m) Q" "(\<And>t. P t \<Longrightarrow> E t) \<Longrightarrow> ensures E P (pg_raise_code m c h) Q"
  by (simp_all add: ensures_def pg_raise_def pg_raise_code_def)

lemma ensures_cases:
  "(y = None \<Longrightarrow> ensures E P m Q) \<Longrightarrow> (\<And>x. y = Some x \<Longrightarrow> ensures E P (f x) Q) \<Longrightarrow>
     ensures E P (case y of None \<Rightarrow> m | Some x \<Rightarrow> f x) Q"
  "(b \<Longrightarrow> ensures E P m Q) \<Longrightarrow> (\<not> b \<Longrightarrow> ensures E P n Q) \<Longrightarrow> ensures E P (if b then m else n) Q"
  by (auto split: option.splits)

lemma ensures_weaken: "ensures E P m Q \<Longrightarrow> (\<And>t. P' t \<Longrightarrow> P t) \<Longrightarrow> (\<And>x t. Q x t \<Longrightarrow> Q' x t) \<Longrightarrow> ensures E P' m Q'"
  by (fastforce simp: ensures_def split: prod.splits sum.splits)

lemma ensures_update: "(\<And>t. P t \<Longrightarrow> Q () (f t)) \<Longrightarrow> ensures E P (sql_update f) Q"
  by (simp add: ensures_def sql_update_def)

text \<open>The rows, and the number that the next subscription gets.\<close>

definition rows :: "int \<Rightarrow> sub_row list \<Rightarrow> db \<Rightarrow> bool" where
  "rows n S t \<longleftrightarrow> t_subs t = S \<and> sq_next (s_sub t) = n"

lemma rows_groups: "rows n S t \<Longrightarrow> groups_ok t \<longleftrightarrow> groups n S"
  by (simp add: rows_def groups_ok_def)

lemma ensures_rows:
  "ensures E (rows n (filter (\<lambda>x. \<not> p x) S)) f Q \<Longrightarrow> ensures E (rows n S) (sql_bind (delete_subs p) (\<lambda>_. f)) Q"
  "ensures E (rows n (map (\<lambda>x. if p x then g x else x) S)) f Q \<Longrightarrow> ensures E (rows n S) (sql_bind (set_sub p g) (\<lambda>_. f)) Q"
  "(\<And>b. b = (\<exists>y\<in>set S. p y) \<Longrightarrow> ensures E (rows n S) (h b) Q) \<Longrightarrow> ensures E (rows n S) (sql_bind (any_sub p) h) Q"
  by (simp_all add: ensures_def rows_def sql_bind_def delete_subs_def set_sub_def sql_update_def sql_read_def any_sub_def)

lemma ensures_frames:
  "frames m \<Longrightarrow> (\<And>t. rows n S t \<Longrightarrow> E t) \<Longrightarrow> (\<And>x. ensures E (rows n S) (f x) Q) \<Longrightarrow> ensures E (rows n S) (sql_bind m f) Q"
proof -
  assume a: "frames m" "\<And>t. rows n S t \<Longrightarrow> E t" "\<And>x. ensures E (rows n S) (f x) Q"
  have "case sql_bind m f t of (t', Inl e) \<Rightarrow> E t' | (t', Inr x) \<Rightarrow> Q x t'" if "rows n S t" for t
  proof -
    obtain t' r where m: "m t = (t', r)" by fastforce
    then have t': "rows n S t'" using framesD[OF a(1) m] that by (simp add: rows_def)
    show ?thesis using m a(2)[OF t'] a(3) t' by (cases r) (auto simp: sql_bind_def ensures_def)
  qed
  then show ?thesis by (simp add: ensures_def)
qed

lemma unregister_member_groups:
  assumes "groups n S" "groups n (filter (\<lambda>x. \<not> (sub_id x = sub_id s \<and> sub_consumer x = sub_consumer s)) S)"
  shows "ensures groups_ok (rows n S) (unregister_member ctx s) (\<lambda>_. groups_ok)"
proof -
  let ?S1 = "filter (\<lambda>x. \<not> (sub_id x = sub_id s \<and> sub_consumer x = sub_consumer s)) S"
  have tail: "ensures groups_ok (rows n ?S1) (sql_bind (if members then sql_return ()
      else set_sub (\<lambda>x. sub_id x = sub_id s \<and> sub_role x = Role_coop_main)
             (\<lambda>x. x\<lparr>sub_role := Role_normal, sub_active := pg_now ctx\<rparr>)) (\<lambda>_. sql_return 1)) (\<lambda>_. groups_ok)"
    if m: "members = (\<exists>y\<in>set ?S1. sub_id y = sub_id s \<and> sub_role y = Role_coop_member)" for members
  proof (cases members)
    case True
    have "ensures groups_ok (rows n ?S1) (sql_bind (sql_return ()) (\<lambda>_. sql_return 1)) (\<lambda>_. groups_ok)"
      by (rule ensures_bind[OF ensures_return ensures_return]) (assumption, simp only: rows_groups assms(2))
    with True show ?thesis by simp
  next
    case False
    then have "groups n (map (\<lambda>x. if sub_id x = sub_id s \<and> sub_role x = Role_coop_main
        then x\<lparr>sub_role := Role_normal, sub_active := pg_now ctx\<rparr> else x) ?S1)"
      using m by (intro groups_demote[OF assms(2), of "sub_id s"]) blast+
    then have "ensures groups_ok (rows n ?S1) (sql_bind (set_sub (\<lambda>x. sub_id x = sub_id s \<and> sub_role x = Role_coop_main)
        (\<lambda>x. x\<lparr>sub_role := Role_normal, sub_active := pg_now ctx\<rparr>)) (\<lambda>_. sql_return 1)) (\<lambda>_. groups_ok)"
      by (intro ensures_rows(2) ensures_return) (simp only: rows_groups)
    with False show ?thesis by simp
  qed
  show ?thesis
    unfolding unregister_member_def
    apply (rule ensures_rows(3), rule ensures_cases(2))
     apply (rule ensures_raise, simp add: rows_groups assms(1))
    apply (rule ensures_rows(1), rule ensures_frames, rule frames_intros, simp only: rows_groups assms(2))
    apply (rule ensures_rows(3), rule tail, assumption)
    done
qed

lemma unregister_whole_groups:
  assumes "groups n S"
  shows "ensures groups_ok (rows n S) (unregister_whole s cnt) (\<lambda>_. groups_ok)"
proof -
  have drop: "groups n (filter (\<lambda>x. sub_id x \<noteq> sub_id s) S)" by (rule groups_filter[OF assms]) simp
  show ?thesis
    unfolding unregister_whole_def
    apply (rule ensures_rows(3), rule ensures_cases(2))
     apply (rule ensures_raise, simp add: rows_groups assms)
    apply (rule ensures_rows(3), rule ensures_cases(2))
     apply (rule ensures_raise, simp add: rows_groups assms)
    apply (rule ensures_frames, rule frames_intros, simp, simp, simp add: rows_groups assms)
    apply (rule ensures_rows(1), rule ensures_frames, rule frames_intros, simp add: rows_groups drop)
    apply (rule ensures_return, simp add: rows_groups drop)
    done
qed

lemma unsubscribe_groups:
  assumes "groups_ok t" "subs_ok t" "pg_unsubscribe ctx q c t = (t', r)"
  shows "groups_ok t'"
proof (cases "find_sub q c t")
  case None
  with assms show ?thesis by (simp add: pg_unsubscribe_def unregister_consumer_def sql_defs)
next
  case (Some s)
  let ?S = "t_subs t" and ?n = "sq_next (s_sub t)"
  let ?S1 = "filter (\<lambda>x. \<not> (sub_id x = sub_id s \<and> sub_consumer x = sub_consumer s)) ?S"
  have g: "groups ?n ?S" using assms(1) by (simp add: groups_ok_def)
  have t: "rows ?n ?S t" by (simp add: rows_def)
  note d = subs_distinct[OF assms(2)] and mem = find_sub_mem[OF Some]
  have "x = s" if "x \<in> set ?S" "sub_id x = sub_id s" "sub_consumer x = sub_consumer s" for x
    using groups_queue[OF g that(1) mem that(2)] that(3) distinct_keyD[OF d that(1) mem] by (simp add: sub_key_def)
  then have leave: "groups ?n ?S1" if "sub_role s = Role_coop_member" by (intro groups_leave[OF g mem that]) auto
  let ?cnt = "int (length (filter (\<lambda>x. sub_id x = sub_id s) ?S))"
  have u: "pg_unsubscribe ctx q c t = (if 1 < ?cnt \<and> sub_role s = Role_coop_member
      then unregister_member ctx s else unregister_whole s ?cnt) t"
    by (simp add: pg_unsubscribe_def unregister_consumer_def sql_bind_def sql_read_def Some)
  show ?thesis
  proof (cases "1 < ?cnt \<and> sub_role s = Role_coop_member")
    case True
    with ensuresD[OF unregister_member_groups[OF g leave] t, of ctx t' r] u assms(3) show ?thesis
      by (auto split: sum.splits)
  next
    case False
    with ensuresD[OF unregister_whole_groups[OF g] t, of s ?cnt t' r] u assms(3) show ?thesis
      by (auto split: sum.splits)
  qed
qed

lemma pg_receive_groups:
  assumes "groups_ok t" "db_ok t" "pg_receive ctx q c n t = (t', r)"
  shows "groups_ok t'"
proof (cases "n < 1 \<or> CHR 0x23 \<in> set c")
  case True
  with assms show ?thesis by (auto simp: pg_receive_def pg_raise_def split: if_splits)
next
  case False
  obtain t1 r1 where nb: "next_batch ctx q c t = (t1, r1)" by fastforce
  note g1 = next_batch_groups[OF assms(1) db_okD[OF assms(2)] nb] and ok1 = db_okD[OF next_batch_db_ok[OF assms(2) nb]]
  have rest: "groups_ok (fst (sql_bind (get_batch_events b) (\<lambda>evs. sql_bind (receive_loop b n 0 evs)
      (\<lambda>ms. if evs = [] then sql_bind (finish_batch ctx b) (\<lambda>_. sql_return ms) else sql_return ms)) t1))" for b
  proof -
    have f: "groups_ok (fst (finish_batch ctx b t1))"
      by (rule finish_batch_groups[OF g1 ok1]) (rule prod.collapse[symmetric])
    show ?thesis
    proof (cases "batch_rows b t1")
      case None
      then show ?thesis using g1 by (simp add: sql_bind_def get_batch_events_eq pg_raise_def)
    next
      case (Some evs)
      then show ?thesis using g1 f False
        by (cases evs)
           (auto simp: sql_bind_def get_batch_events_eq receive_loop_eq sql_return_def
             simp del: receive_loop.simps split: prod.splits sum.splits)
    qed
  qed
  show ?thesis
  proof (cases r1)
    case (Inl e)
    with False nb assms(3) g1 show ?thesis by (simp add: pg_receive_def sql_bind_def)
  next
    case (Inr bo)
    show ?thesis
    proof (cases bo)
      case None
      with False nb Inr assms(3) g1 show ?thesis by (simp add: pg_receive_def sql_bind_def sql_return_def)
    next
      case (Some b)
      with False nb Inr assms(3) rest[of b] show ?thesis by (auto simp: pg_receive_def sql_bind_def)
    qed
  qed
qed

end
