(* ===== verification/CoopInvariant.thy ===== *)
theory CoopInvariant
  imports CoopGroups
begin

text \<open>The invariants of the tables and of the groups, under the cooperative functions.\<close>

definition coop_ok :: "db \<Rightarrow> bool" where
  "coop_ok t \<longleftrightarrow> db_ok t \<and> groups_ok t"

lemma coop_okD:
  assumes "coop_ok t"
  shows "db_ok t" "groups_ok t" "subs_ok t" "groups (sq_next (s_sub t)) (t_subs t)" "distinct (map sub_key (t_subs t))"
  using assms by (simp_all add: coop_ok_def groups_ok_def db_okD subs_distinct)

lemma same_row_active [simp]: "same_row x (x\<lparr>sub_active := a\<rparr>)"
  by (simp add: same_row_def)

lemma coop_touch:
  assumes "coop_ok t"
  shows "coop_ok (fst (set_sub P (\<lambda>x. x\<lparr>sub_active := a\<rparr>) t))"
proof -
  have "db_ok (fst (set_sub P (\<lambda>x. x\<lparr>sub_active := a\<rparr>) t))"
    using keeps_set_sub[of "\<lambda>x. x\<lparr>sub_active := a\<rparr>" P] coop_okD(1)[OF assms] by (simp add: keeps_def sub_key_def)
  moreover have "groups (sq_next (s_sub t)) (map (\<lambda>x. if P x then x\<lparr>sub_active := a\<rparr> else x) (t_subs t))"
    by (rule groups_touch[OF coop_okD(4)[OF assms]]) (simp add: same_row_def)
  ultimately show ?thesis by (simp add: coop_ok_def groups_ok_def set_sub_def sql_update_def)
qed

lemma ensure_consumer_eq: "ensure_consumer c t = (fst (with_consumer c t), Inr (snd (with_consumer c t)))"
  by (simp add: ensure_consumer_def with_consumer_def sql_defs nextval_consumer_def split: option.splits)

lemma with_consumer_coop: "coop_ok t \<Longrightarrow> coop_ok (fst (with_consumer c t))"
  using with_consumer_ok[of t c "fst (with_consumer c t)" "snd (with_consumer c t)"]
  by (auto simp: coop_ok_def groups_ok_def with_consumer_def split: option.splits)

lemma sub_of_mem: "sub_of qid cid t = Some s \<Longrightarrow> s \<in> set (t_subs t) \<and> sub_queue s = qid \<and> sub_consumer s = cid"
  by (auto simp: sub_of_def on_row_def dest: find_SomeD)

lemma sub_of_None: "sub_of qid cid t = None \<Longrightarrow> x \<in> set (t_subs t) \<Longrightarrow> sub_key x \<noteq> (qid, cid)"
  by (auto simp: sub_of_def on_row_def find_None_iff sub_key_def)

lemma sub_key_on_row: "on_row (sub_queue s) (sub_consumer s) x \<longleftrightarrow> sub_key x = sub_key s"
  by (auto simp: on_row_def sub_key_def)

lemma set_sub_row:
  "subs_ok t \<Longrightarrow> s \<in> set (t_subs t) \<Longrightarrow> t_subs u = t_subs t \<Longrightarrow>
     set_sub (on_row (sub_queue s) (sub_consumer s)) f u = (u\<lparr>t_subs := upd_key (sub_key s) f (t_subs t)\<rparr>, Inr ())"
  by (rule set_sub_key) (simp_all add: sub_key_on_row)

section \<open>Registration\<close>

lemma convert_ok:
  fixes a :: int
  assumes ok: "coop_ok t" and s: "sub_of qid cid t = Some m" and m: "sub_role m = Role_normal" "sub_batch m = None"
  defines "t' \<equiv> fst (set_sub (on_row qid cid) (\<lambda>x. x\<lparr>sub_role := Role_coop_main, sub_active := a\<rparr>) t)"
  shows "coop_ok t' \<and> m\<lparr>sub_role := Role_coop_main, sub_active := a\<rparr> \<in> set (t_subs t')"
proof -
  let ?f = "\<lambda>x. x\<lparr>sub_role := Role_coop_main, sub_active := a\<rparr>"
  let ?S = "map (\<lambda>x. if on_row qid cid x then ?f x else x) (t_subs t)"
  note mem = sub_of_mem[OF s]
  have t': "t' = t\<lparr>t_subs := ?S\<rparr>" by (simp add: t'_def set_sub_def sql_update_def)
  have one: "x = m" if "x \<in> set (t_subs t)" "on_row qid cid x" for x
    using distinct_keyD[OF coop_okD(5)[OF ok] that(1) conjunct1[OF mem]] mem that(2) by (simp add: on_row_def sub_key_def)
  have "keeps (set_sub (on_row qid cid) ?f)" by (rule keeps_set_sub) (simp_all add: sub_key_def)
  then have "db_ok t'" using coop_okD(1)[OF ok] unfolding keeps_def t'_def by blast
  moreover have "groups (sq_next (s_sub t)) ?S"
  proof (rule groups_set_role[OF coop_okD(4)[OF ok], of _ "sub_id m"])
    show "sub_role x \<noteq> Role_coop_member" if "x \<in> set (t_subs t)" "sub_id x = sub_id m" for x
      using groups_alone[OF coop_okD(4,5)[OF ok] conjunct1[OF mem] that(1) that(2)[symmetric] m(1)] m(1) by simp
    show "sub_id x = sub_id m" "sub_batch x = None" if "x \<in> set (t_subs t)" "on_row qid cid x" for x
      using one[OF that] m by simp_all
  qed simp
  moreover have "?f m \<in> set ?S"
  proof -
    have "(if on_row qid cid m then ?f m else m) \<in> set ?S" unfolding set_map by (rule imageI) (use mem in simp)
    moreover have "on_row qid cid m" using mem by (simp add: on_row_def)
    ultimately show ?thesis by (simp only: if_True)
  qed
  moreover have "t_subs t' = ?S" "s_sub t' = s_sub t" unfolding t' by simp_all
  ultimately show ?thesis unfolding coop_ok_def groups_ok_def by (simp only: simp_thms)
qed

lemma ensure_main_ok:
  assumes ok: "coop_ok t" and em: "ensure_main ctx q c qid cid convert t = (t', r)"
  shows "coop_ok t' \<and> (\<forall>m k. r = Inr (m, k) \<longrightarrow> m \<in> set (t_subs t') \<and> sub_role m = Role_coop_main \<and> sub_queue m = qid)"
proof (cases "sub_of qid cid t")
  case None
  show ?thesis
  proof (cases "max_tick qid (\<lambda>_. True) t")
    case None
    with \<open>sub_of qid cid t = None\<close> em ok show ?thesis
      by (auto simp: ensure_main_def sql_bind_def sql_read_def pg_raise_def)
  next
    case (Some k)
    let ?row = "\<lparr>sub_id = sq_next (s_sub t), sub_queue = qid, sub_consumer = cid, sub_last_tick = Some (tick_id k),
        sub_active = pg_now ctx, sub_batch = None, sub_next_tick = None, sub_role = Role_coop_main\<rparr>"
    let ?t = "t\<lparr>s_sub := sq_set (sq_next (s_sub t)), t_subs := t_subs t @ [?row]\<rparr>"
    have e: "t' = ?t" "r = Inr (?row, 1)"
      using em None Some by (auto simp: ensure_main_def sql_defs Let_def insert_sub_def nextval_sub_def)
    have "db_ok ?t"
      by (rule append_sub_ok[OF coop_okD(1)[OF ok]]) (use sub_of_None[OF None] in \<open>auto simp: sub_key_def\<close>)
    moreover have "groups_ok ?t"
      using groups_new[OF coop_okD(4)[OF ok], of ?row] by (simp add: groups_ok_def row_ok_def)
    ultimately show ?thesis by (simp add: e coop_ok_def)
  qed
next
  case (Some m)
  note mem = sub_of_mem[OF Some]
  show ?thesis
  proof (cases "sub_role m = Role_normal \<and> convert \<and> sub_batch m = None")
    case False
    with em Some have "t' = t \<and> ((\<exists>e. r = Inl e) \<or> r = Inr (m, 0) \<and> sub_role m = Role_coop_main)"
      by (cases "sub_role m") (auto simp: ensure_main_def sql_defs split: if_splits)
    with ok mem show ?thesis by auto
  next
    case True
    with em Some have "t' = fst (set_sub (on_row qid cid) (\<lambda>x. x\<lparr>sub_role := Role_coop_main, sub_active := pg_now ctx\<rparr>) t)"
      "r = Inr (m\<lparr>sub_role := Role_coop_main, sub_active := pg_now ctx\<rparr>, 0)"
      by (simp_all add: ensure_main_def sql_bind_def sql_read_def sql_return_def set_sub_def sql_update_def)
    with convert_ok[OF ok Some, of "pg_now ctx"] True mem show ?thesis by simp
  qed
qed

lemma insert_member_ok:
  assumes ok: "coop_ok t" and m: "m \<in> set (t_subs t)" "sub_role m = Role_coop_main"
    and r: "sub_of (sub_queue r) (sub_consumer r) t = None" "sub_id r = sub_id m" "sub_queue r = sub_queue m"
      "sub_role r = Role_coop_member" "sub_batch r = None"
  shows "coop_ok (t\<lparr>t_subs := t_subs t @ [r]\<rparr>)"
proof -
  have "sub_key r \<notin> sub_key ` set (t_subs t)"
    using sub_of_None[OF r(1)] unfolding sub_key_def[of r] by (metis imageE)
  from append_sub_ok[OF coop_okD(1)[OF ok] r(5) this, of "s_sub t"]
  have "db_ok (t\<lparr>t_subs := t_subs t @ [r]\<rparr>)" by simp
  moreover have "groups (sq_next (s_sub t)) (t_subs t @ [r])"
    by (rule groups_join[OF coop_okD(4)[OF ok] m]) (use r in auto)
  ultimately show ?thesis by (simp add: coop_ok_def groups_ok_def)
qed

lemma register_member_ok:
  assumes ok: "coop_ok t" and m: "m \<in> set (t_subs t)" "sub_role m = Role_coop_main"
    and rm: "register_member ctx q name m k t = (t', r)"
  shows "coop_ok t'"
proof -
  obtain u cid where u: "with_consumer name t = (u, cid)" by fastforce
  have uok: "coop_ok u" using with_consumer_coop[OF ok, of name] u by simp
  have us: "t_subs u = t_subs t" using u by (auto simp: with_consumer_def split: option.splits)
  show ?thesis
  proof (cases "sub_of (sub_queue m) cid u")
    case None
    with insert_member_ok[OF uok, of m "\<lparr>sub_id = sub_id m, sub_queue = sub_queue m, sub_consumer = cid,
           sub_last_tick = None, sub_active = pg_now ctx, sub_batch = None, sub_next_tick = None,
           sub_role = Role_coop_member\<rparr>"] rm u us m
    show ?thesis
      by (auto simp: register_member_def sql_bind_def sql_read_def sql_return_def ensure_consumer_eq insert_sub_def sql_update_def)
  next
    case (Some x)
    with coop_touch[OF uok, of "on_row (sub_queue m) cid" "pg_now ctx"] rm u uok show ?thesis
      by (auto simp: register_member_def sql_bind_def sql_read_def sql_return_def pg_raise_def ensure_consumer_eq set_sub_def sql_update_def
          split: if_splits)
  qed
qed

lemma register_subconsumer_ok:
  assumes ok: "coop_ok t" and rs: "register_subconsumer ctx q c sub convert t = (t', r)"
  shows "coop_ok t'"
proof (cases "\<exists>e. snd (validate_coop_names q c sub t) = Inl e \<or> find_queue q t = None")
  case True
  with rs ok show ?thesis
    by (auto simp: register_subconsumer_def validate_coop_names_def sql_defs split: if_splits)
next
  case False
  then obtain qr where qr: "find_queue q t = Some qr" by auto
  have v: "validate_coop_names q c sub t = (t, Inr ())"
    using False by (auto simp: validate_coop_names_def sql_defs split: if_splits)
  obtain u cid where u: "with_consumer c t = (u, cid)" by fastforce
  have uok: "coop_ok u" using with_consumer_coop[OF ok, of c] u by simp
  obtain t2 r2 where em: "ensure_main ctx q c (queue_id qr) cid convert u = (t2, r2)" by fastforce
  note em_ok = ensure_main_ok[OF uok em]
  show ?thesis
  proof (cases r2)
    case (Inl e)
    with rs v qr u em em_ok show ?thesis
      by (simp add: register_subconsumer_def sql_bind_def sql_read_def ensure_consumer_eq)
  next
    case (Inr mk)
    obtain m k where mk: "mk = (m, k)" by fastforce
    with rs v qr u em Inr have "register_member ctx q (member_name c sub) m k t2 = (t', r)"
      by (simp add: register_subconsumer_def sql_bind_def sql_read_def ensure_consumer_eq)
    with register_member_ok[of t2 m] em_ok Inr mk show ?thesis by blast
  qed
qed

section \<open>Windows\<close>

definition held :: "pgctx \<Rightarrow> int option \<Rightarrow> int option \<Rightarrow> int \<Rightarrow> sub_row \<Rightarrow> sub_row" where
  "held ctx p k b x = x\<lparr>sub_active := pg_now ctx, sub_last_tick := p, sub_next_tick := k, sub_batch := Some b\<rparr>"

definition moved :: "pgctx \<Rightarrow> int \<Rightarrow> sub_row \<Rightarrow> sub_row" where
  "moved ctx k x = x\<lparr>sub_active := pg_now ctx, sub_last_tick := Some k, sub_next_tick := None, sub_batch := None\<rparr>"

lemma held_simps [simp]:
  "sub_key (held ctx p k b x) = sub_key x" "sub_id (held ctx p k b x) = sub_id x"
  "sub_queue (held ctx p k b x) = sub_queue x" "sub_consumer (held ctx p k b x) = sub_consumer x"
  "sub_last_tick (held ctx p k b x) = p" "sub_next_tick (held ctx p k b x) = k"
  "sub_batch (held ctx p k b x) = Some b" "sub_role (held ctx p k b x) = sub_role x"
  by (simp_all add: held_def sub_key_def)

lemma moved_simps [simp]:
  "sub_key (moved ctx k x) = sub_key x" "sub_id (moved ctx k x) = sub_id x"
  "sub_queue (moved ctx k x) = sub_queue x" "sub_consumer (moved ctx k x) = sub_consumer x"
  "sub_last_tick (moved ctx k x) = Some k" "sub_next_tick (moved ctx k x) = None"
  "sub_batch (moved ctx k x) = None" "sub_role (moved ctx k x) = sub_role x"
  by (simp_all add: moved_def sub_key_def)

lemma give_window_eq:
  "subs_ok t \<Longrightarrow> x \<in> set (t_subs t) \<Longrightarrow> t_subs u = t_subs t \<Longrightarrow>
     give_window ctx x p k b u = (u\<lparr>t_subs := upd_key (sub_key x) (held ctx p k b) (t_subs t)\<rparr>, Inr ())"
  using set_sub_row[of t x u "held ctx p k b"] by (simp add: give_window_def held_def[abs_def])

lemma clear_eq:
  "subs_ok t \<Longrightarrow> x \<in> set (t_subs t) \<Longrightarrow> t_subs u = t_subs t \<Longrightarrow>
     clear_member_cursor ctx (sub_queue x) (sub_consumer x) u =
       (u\<lparr>t_subs := upd_key (sub_key x) (cleared ctx) (t_subs t)\<rparr>, Inr ())"
  using set_sub_row[of t x u "cleared ctx"] by (simp add: clear_member_cursor_def cleared_def[abs_def])

lemma upd_key_other:
  "distinct (map sub_key S) \<Longrightarrow> x \<in> set S \<Longrightarrow> y \<in> set S \<Longrightarrow> y \<noteq> x \<Longrightarrow> y \<in> set (upd_key (sub_key x) f S)"
  using upd_key_set[of S x "sub_key x" f] by simp

lemma upd_key_commute:
  assumes "k \<noteq> l" "\<And>x. sub_key (f x) = sub_key x" "\<And>x. sub_key (g x) = sub_key x"
  shows "upd_key k f (upd_key l g S) = upd_key l g (upd_key k f S)"
  using assms by (simp add: upd_key_def)

lemma takeover_state:
  assumes ok: "subs_ok t" and x: "x \<in> set (t_subs t)" and v: "v \<in> set (t_subs t)" "v \<noteq> x" "sub_next_tick v \<noteq> None"
  defines "b \<equiv> sq_next (s_batch t)"
  shows "takeover ctx x v t = (t\<lparr>s_batch := sq_set b, t_subs := upd_key (sub_key v) (cleared ctx)
      (upd_key (sub_key x) (held ctx (sub_last_tick v) (sub_next_tick v) b) (t_subs t))\<rparr>, Inr (Some b))"
proof -
  let ?u = "t\<lparr>s_batch := sq_set b, t_subs := upd_key (sub_key x) (held ctx (sub_last_tick v) (sub_next_tick v) b) (t_subs t)\<rparr>"
  have "subs_ok ?u" by (rule subs_ok_open[OF ok x]) (use v(3) in \<open>simp_all add: b_def\<close>)
  moreover have "v \<in> set (t_subs ?u)" using upd_key_other[OF subs_distinct[OF ok] x v(1,2)] by simp
  ultimately show ?thesis
    using give_window_eq[OF ok x, of "t\<lparr>s_batch := sq_set b\<rparr>"] clear_eq[of ?u v ?u]
    by (simp add: takeover_def sql_bind_def nextval_batch_def sql_return_def b_def)
qed

lemma batch_windows: "groups n S \<Longrightarrow> x \<in> set S \<Longrightarrow> sub_batch x \<noteq> None \<Longrightarrow>
    \<exists>p k. sub_last_tick x = Some p \<and> sub_next_tick x = Some k \<and> p < k"
  by (drule (1) groups_row) (auto simp: row_ok_def split: option.splits)

lemma takeover_ok:
  assumes ok: "coop_ok t" and x: "x \<in> set (t_subs t)" "sub_role x = Role_coop_member"
    and v: "v \<in> set (t_subs t)" "v \<noteq> x" "sub_role v = Role_coop_member" "sub_id v = sub_id x" "sub_batch v \<noteq> None"
    and r: "takeover ctx x v t = (t', r)"
  shows "coop_ok t'"
proof -
  let ?S = "t_subs t" and ?n = "sq_next (s_sub t)"
  note g = coop_okD(4)[OF ok] and d = coop_okD(5)[OF ok]
  obtain p k where w: "sub_last_tick v = Some p" "sub_next_tick v = Some k" "p < k" using batch_windows[OF g v(1,5)] by blast
  define b where "b = sq_next (s_batch t)"
  let ?f = "held ctx (Some p) (Some k) b"
  have keys: "sub_key x \<noteq> sub_key v" using distinct_keyD[OF d x(1) v(1)] v(2) by blast
  have t': "t' = t\<lparr>s_batch := sq_set b, t_subs := upd_key (sub_key v) (cleared ctx) (upd_key (sub_key x) ?f ?S)\<rparr>"
    using r takeover_state[OF coop_okD(3)[OF ok] x(1) v(1,2), of ctx] w by (simp add: b_def)
  let ?t1 = "t\<lparr>s_batch := sq_set b, t_subs := upd_key (sub_key x) ?f ?S\<rparr>"
  have "subs_ok ?t1" by (rule subs_ok_open[OF coop_okD(3)[OF ok] x(1)]) (simp_all add: b_def)
  then have ok1: "db_ok ?t1" using coop_okD(1)[OF ok] by (simp add: db_ok_def)
  have "v \<in> set (t_subs ?t1)" using upd_key_other[OF d x(1) v(1,2)] by simp
  moreover from this obtain c where "find_batch c ?t1 = Some v"
    using find_batch_iff[OF db_okD[OF ok1]] v(5) by blast
  ultimately have "db_ok t'" using upd_key_ok[OF ok1, of c v "cleared ctx"] by (simp add: t')
  moreover have "groups ?n (upd_key (sub_key x) ?f (upd_key (sub_key v) (cleared ctx) ?S))"
  proof (rule groups_upd[OF groups_clear[OF g d v(1,3)]])
    note S1 = upd_key_set[OF d v(1) refl, of "cleared ctx"]
    show "distinct (map sub_key (upd_key (sub_key v) (cleared ctx) ?S))" using d by (simp add: upd_key_keys)
    show "x \<in> set (upd_key (sub_key v) (cleared ctx) ?S)" using x(1) v(2) S1 by auto
    show "row_ok ?n (?f x)" using groups_row[OF g x(1)] w(3) x(2) by (simp add: row_ok_def)
    show "pair_ok (?f x) y" if "y \<in> set (upd_key (sub_key v) (cleared ctx) ?S)" "sub_key y \<noteq> sub_key x" for y
    proof (cases "y = cleared ctx v")
      case True
      then show ?thesis using groups_queue[OF g x(1) v(1)] v(3,4) by (simp add: pair_ok_def)
    next
      case False
      with that(1) S1 have "y \<in> set ?S" "sub_key v \<noteq> sub_key y" using distinct_keyD[OF d v(1)] by auto
      from groups_pair[OF g v(1) this] groups_queue[OF g x(1) v(1)] show ?thesis
        using w v x by (auto simp: pair_ok_def ends_before_def)
    qed
  qed simp_all
  ultimately show ?thesis
    using upd_key_commute[of "sub_key v" "sub_key x" "cleared ctx" ?f ?S] keys by (simp add: t' coop_ok_def groups_ok_def)
qed

lemma allocate_state:
  assumes ok: "subs_ok t" and m: "m \<in> set (t_subs t)" and x: "x \<in> set (t_subs t)" "x \<noteq> m"
    and r: "allocate ctx q c m x t = (t', r)"
  obtains "t' = t" "\<forall>b. r \<noteq> Inr (Some b)"
  | pos prev cur where "sub_batch m = None" "sub_last_tick m = Some pos"
      "find_tick (sub_queue m) (Some pos) t = Some prev"
      "min_tick (sub_queue m) (\<lambda>k. pos < tick_id k) t = Some cur"
      "t' = t\<lparr>s_batch := sq_set (sq_next (s_batch t)), t_subs :=
        upd_key (sub_key x) (held ctx (Some pos) (Some (tick_id cur)) (sq_next (s_batch t)))
          (upd_key (sub_key m) (moved ctx (tick_id cur)) (t_subs t))\<rparr>"
      "r = Inr (Some (sq_next (s_batch t)))"
proof (cases "sub_batch m = None \<and> (\<exists>pos prev cur. sub_last_tick m = Some pos
    \<and> find_tick (sub_queue m) (Some pos) t = Some prev
    \<and> min_tick (sub_queue m) (\<lambda>k. pos < tick_id k) t = Some cur)")
  case False
  with r that(1) show thesis
    by (auto simp: allocate_def sql_bind_def sql_read_def sql_return_def pg_raise_def split: option.splits)
next
  case True
  then obtain pos prev cur where w: "sub_batch m = None" "sub_last_tick m = Some pos"
    "find_tick (sub_queue m) (Some pos) t = Some prev" "min_tick (sub_queue m) (\<lambda>k. pos < tick_id k) t = Some cur"
    by blast
  let ?b = "sq_next (s_batch t)"
  let ?u = "t\<lparr>t_subs := upd_key (sub_key m) (moved ctx (tick_id cur)) (t_subs t)\<rparr>"
  have "subs_ok ?u" by (rule upd_key_batches[OF ok m]) simp_all
  moreover have "x \<in> set (t_subs ?u)" using upd_key_other[OF subs_distinct[OF ok] m x] by simp
  ultimately have give: "give_window ctx x (Some pos) (Some (tick_id cur)) ?b (?u\<lparr>s_batch := sq_set ?b\<rparr>) =
      (t\<lparr>s_batch := sq_set ?b, t_subs := upd_key (sub_key x) (held ctx (Some pos) (Some (tick_id cur)) ?b) (t_subs ?u)\<rparr>, Inr ())"
    using give_window_eq[of ?u x "?u\<lparr>s_batch := sq_set ?b\<rparr>" ctx "Some pos" "Some (tick_id cur)" ?b] by simp
  have move: "set_sub (on_row (sub_queue m) (sub_consumer m)) (\<lambda>y. y\<lparr>sub_active := pg_now ctx,
        sub_last_tick := Some (tick_id cur), sub_next_tick := None, sub_batch := None\<rparr>) (t\<lparr>s_batch := sq_set ?b\<rparr>) =
      (?u\<lparr>s_batch := sq_set ?b\<rparr>, Inr ())"
    using set_sub_row[OF ok m, of "t\<lparr>s_batch := sq_set ?b\<rparr>" "moved ctx (tick_id cur)"] by (simp add: moved_def[abs_def])
  show thesis
    using r w move give
    by (intro that(2)[OF w]) (auto simp: allocate_def sql_bind_def sql_read_def sql_return_def nextval_batch_def)
qed

lemma allocate_ok:
  assumes ok: "coop_ok t" and m: "m \<in> set (t_subs t)" "sub_role m = Role_coop_main"
    and x: "x \<in> set (t_subs t)" "sub_role x = Role_coop_member" "sub_id x = sub_id m"
    and r: "allocate ctx q c m x t = (t', r)"
  shows "coop_ok t'"
proof -
  let ?S = "t_subs t" and ?n = "sq_next (s_sub t)" and ?b = "sq_next (s_batch t)"
  note g = coop_okD(4)[OF ok] and d = coop_okD(5)[OF ok]
  have xm: "x \<noteq> m" using m(2) x(2) by auto
  show ?thesis
  proof (cases rule: allocate_state[OF coop_okD(3)[OF ok] m(1) x(1) xm r])
    case 1
    then show ?thesis using ok by simp
  next
    case (2 pos prev cur)
    let ?k = "tick_id cur"
    have lt: "pos < ?k" using min_tick_mem[OF 2(4)] by simp
    let ?S1 = "upd_key (sub_key m) (moved ctx ?k) ?S"
    note S1 = upd_key_set[OF d m(1) refl, of "moved ctx ?k"]
    have g1: "groups ?n ?S1"
    proof (rule groups_upd[OF g d m(1)])
      show "row_ok ?n (moved ctx ?k m)" using groups_row[OF g m(1)] by (simp add: row_ok_def)
      show "pair_ok (moved ctx ?k m) y" if "y \<in> set ?S" "sub_key y \<noteq> sub_key m" for y
        using groups_pair[OF g m(1) that(1)] that(2) 2(1,2) m(2) lt
        by (auto simp: pair_ok_def ends_before_def split: option.splits)
    qed simp_all
    have d1: "distinct (map sub_key ?S1)" using d by (simp add: upd_key_keys)
    have x1: "x \<in> set ?S1" using upd_key_other[OF d m(1) x(1) xm] .
    have "groups ?n (upd_key (sub_key x) (held ctx (Some pos) (Some ?k) ?b) ?S1)"
    proof (rule groups_upd[OF g1 d1 x1])
      show "row_ok ?n (held ctx (Some pos) (Some ?k) ?b x)"
        using groups_row[OF g x(1)] x(2) lt by (simp add: row_ok_def)
      show "pair_ok (held ctx (Some pos) (Some ?k) ?b x) y" if "y \<in> set ?S1" "sub_key y \<noteq> sub_key x" for y
      proof (cases "y = moved ctx ?k m")
        case True
        then show ?thesis using groups_queue[OF g x(1) m(1)] x m(2) by (simp add: pair_ok_def ends_before_def)
      next
        case False
        with that(1) S1 have y: "y \<in> set ?S" "sub_key m \<noteq> sub_key y" using distinct_keyD[OF d m(1)] by auto
        from groups_pair[OF g m(1) y] groups_queue[OF g x(1) m(1)] show ?thesis
          using x m 2(2) by (auto simp: pair_ok_def ends_before_def)
      qed
    qed simp_all
    moreover have "db_ok t'"
    proof -
      have u: "subs_ok (t\<lparr>t_subs := ?S1\<rparr>)" by (rule upd_key_batches[OF coop_okD(3)[OF ok] m(1)]) simp_all
      have "subs_ok t'"
        using subs_ok_open[OF u, of x ?b "held ctx (Some pos) (Some ?k) ?b"] x1 by (simp add: 2(5))
      then show ?thesis using coop_okD(1)[OF ok] by (simp add: db_ok_def 2(5))
    qed
    ultimately show ?thesis by (simp add: coop_ok_def groups_ok_def 2(5))
  qed
qed

section \<open>The next batch\<close>

lemma coop_main_mem: "coop_main q c t = Some m \<Longrightarrow> m \<in> set (t_subs t) \<and> sub_role m = Role_coop_main"
  by (auto simp: coop_main_def dest: find_SomeD split: option.splits)

lemma coop_member_mem: "coop_member m name t = Some x \<Longrightarrow>
    x \<in> set (t_subs t) \<and> sub_role x = Role_coop_member \<and> sub_id x = sub_id m \<and> sub_queue x = sub_queue m"
  by (auto simp: coop_member_def on_row_def dest: find_SomeD split: option.splits)

lemma stale_sibling_mem:
  assumes "stale_sibling ctx dead m x t = Some v"
  shows "v \<in> set (t_subs t) \<and> sub_role v = Role_coop_member \<and> sub_id v = sub_id m \<and> sub_queue v = sub_queue m
    \<and> sub_consumer v \<noteq> sub_consumer x \<and> sub_batch v \<noteq> None \<and> sub_active v < pg_now ctx - dead"
proof -
  let ?P = "\<lambda>v. sub_queue v = sub_queue m \<and> sub_id v = sub_id m \<and> sub_role v = Role_coop_member
      \<and> sub_consumer v \<noteq> sub_consumer x \<and> sub_batch v \<noteq> None \<and> sub_active v < pg_now ctx - dead"
  obtain vs where "sort_key sub_active (sort_key sub_consumer (filter ?P (t_subs t))) = v # vs"
    using assms by (auto simp: stale_sibling_def split: list.splits)
  then have "v \<in> set (sort_key sub_active (sort_key sub_consumer (filter ?P (t_subs t))))" by simp
  then show ?thesis by simp
qed

text \<open>What \<open>next_batch\<close> does once the rows of the group exist.\<close>

definition member_batch :: "pgctx \<Rightarrow> string \<Rightarrow> string \<Rightarrow> int option \<Rightarrow> sub_row \<Rightarrow> sub_row \<Rightarrow> int option sql" where
  "member_batch ctx q c dead m x = (case sub_batch x of
      Some b \<Rightarrow> sql_bind (set_sub (on_row (sub_queue x) (sub_consumer x))
          (\<lambda>y. y\<lparr>sub_active := pg_now ctx\<rparr>)) (\<lambda>_. sql_return (Some b))
    | None \<Rightarrow> sql_bind (sql_read (\<lambda>t. case dead of
            None \<Rightarrow> None | Some d \<Rightarrow> stale_sibling ctx d m x t)) (\<lambda>vr. case vr of
          Some v \<Rightarrow> takeover ctx x v
        | None \<Rightarrow> allocate ctx q c m x))"

lemma next_batch_coop_eq:
  "next_batch_coop ctx q c sub dead t = (case register_subconsumer ctx q c sub False t of
      (u, Inl e) \<Rightarrow> (u, Inl e)
    | (u, Inr _) \<Rightarrow> (case coop_main q c u of
        None \<Rightarrow> pg_raise (''cooperative main consumer not found: '' @ q @ ''/'' @ c) u
      | Some m \<Rightarrow> (case coop_member m (member_name c sub) u of
          None \<Rightarrow> pg_raise (''cooperative subconsumer not found: '' @ q @ ''/'' @ c @ ''/'' @ sub) u
        | Some x \<Rightarrow> member_batch ctx q c dead m x u)))"
  by (simp add: next_batch_coop_def member_batch_def sql_bind_def sql_read_def split: prod.splits sum.splits option.splits)

lemma member_batch_ok:
  assumes ok: "coop_ok t" and m: "coop_main q c t = Some m" and x: "coop_member m name t = Some x"
    and r: "member_batch ctx q c dead m x t = (t', r)"
  shows "coop_ok t'"
proof -
  note mm = coop_main_mem[OF m] and xm = coop_member_mem[OF x]
  show ?thesis
  proof (cases "sub_batch x")
    case (Some b)
    with r coop_touch[OF ok, of "on_row (sub_queue x) (sub_consumer x)" "pg_now ctx"] show ?thesis
      by (auto simp: member_batch_def sql_bind_def sql_return_def set_sub_def sql_update_def)
  next
    case None
    show ?thesis
    proof (cases "case dead of None \<Rightarrow> None | Some d \<Rightarrow> stale_sibling ctx d m x t")
      case N: None
      with None r have "allocate ctx q c m x t = (t', r)" by (simp add: member_batch_def sql_bind_def sql_read_def)
      with allocate_ok[OF ok] mm xm show ?thesis by blast
    next
      case (Some v)
      with None r have tk: "takeover ctx x v t = (t', r)" by (simp add: member_batch_def sql_bind_def sql_read_def)
      obtain d where "stale_sibling ctx d m x t = Some v" using Some by (cases dead) auto
      note vm = stale_sibling_mem[OF this]
      have "v \<noteq> x" using vm by auto
      with takeover_ok[OF ok _ _ _ _ _ _ _ tk] vm xm show ?thesis by simp
    qed
  qed
qed

lemma next_batch_coop_ok:
  assumes ok: "coop_ok t" and r: "next_batch_coop ctx q c sub dead t = (t', r)"
  shows "coop_ok t'"
proof -
  obtain u ru where u: "register_subconsumer ctx q c sub False t = (u, ru)" by fastforce
  note uok = register_subconsumer_ok[OF ok u]
  show ?thesis
    using r u uok member_batch_ok[OF uok]
    by (auto simp: next_batch_coop_eq pg_raise_def split: sum.splits option.splits)
qed

lemma finish_batch_coop: "coop_ok t \<Longrightarrow> finish_batch ctx b t = (t', r) \<Longrightarrow> coop_ok t'"
  using finish_batch_ok finish_batch_groups by (auto simp: coop_ok_def db_okD)

definition coop_overflow :: "int \<Rightarrow> pg_error" where
  "coop_overflow n = (case snd ((pg_raise_code (''pgque.receive_coop: batch exceeds max_return of '' @ str_of_int n)
     ''54000'' ''Retry with a larger resource-safe max_return to receive the complete batch. Do not acknowledge after this error.''
     :: unit sql) undefined) of Inl e \<Rightarrow> e | Inr _ \<Rightarrow> undefined)"

lemma receive_coop_loop_eq:
  "0 \<le> cnt \<Longrightarrow> cnt \<le> n \<Longrightarrow> receive_coop_loop b n cnt evs t =
     (if cnt + int (length evs) \<le> n then (t, Inr (map (to_message b) evs)) else (t, Inl (coop_overflow n)))"
proof (induction evs arbitrary: cnt)
  case Nil
  then show ?case by (simp add: sql_defs)
next
  case (Cons ev evs)
  show ?case
  proof (cases "cnt = n")
    case True
    then show ?thesis by (simp add: coop_overflow_def pg_raise_code_def)
  next
    case False
    then show ?thesis using Cons.IH[of "cnt + 1"] Cons.prems
      by (auto simp: sql_bind_def sql_return_def to_message_def)
  qed
qed

lemma pg_receive_coop_ok:
  assumes ok: "coop_ok t" and r: "pg_receive_coop ctx q c sub n dead t = (t', r)"
  shows "coop_ok t'"
proof (cases "n < 1")
  case True
  with ok r show ?thesis by (simp add: pg_receive_coop_def pg_raise_def)
next
  case False
  obtain u ru where nb: "next_batch_coop ctx q c sub dead t = (u, ru)" by fastforce
  note uok = next_batch_coop_ok[OF ok nb]
  have fin: "coop_ok (fst (finish_batch ctx b u))" for b
    by (rule finish_batch_coop[OF uok]) (rule prod.collapse[symmetric])
  show ?thesis
  proof (cases "\<exists>b. ru = Inr (Some b)")
    case F: False
    with False nb r uok show ?thesis
      by (auto simp: pg_receive_coop_def sql_bind_def sql_return_def split: sum.splits option.splits)
  next
    case True
    then obtain b where b: "ru = Inr (Some b)" by blast
    show ?thesis
    proof (cases "batch_rows b u")
      case None
      with False nb r uok b show ?thesis by (simp add: pg_receive_coop_def sql_bind_def get_batch_events_eq pg_raise_def)
    next
      case (Some evs)
      with False nb r uok b fin[of b] show ?thesis
        by (cases evs)
           (auto simp: pg_receive_coop_def sql_bind_def get_batch_events_eq receive_coop_loop_eq sql_return_def
             simp del: receive_coop_loop.simps split: prod.splits sum.splits if_splits)
    qed
  qed
qed

section \<open>Removal\<close>

lemma keeps_core: "(\<And>t t' r. m t = (t', r) \<Longrightarrow> core_le t t') \<Longrightarrow> keeps m"
  unfolding keeps_def by (metis core_le_ok prod.collapse)

lemma keeps_settle: "keeps (settle_events ctx b limit es)"
proof (induction es)
  case (Cons e es)
  have "keeps (event_dead ctx b e rs)" "keeps (event_retry ctx b i secs)" for rs i secs
    by (rule keeps_core, rule event_dead_core, assumption) (rule keeps_core, rule event_retry_core, assumption)
  with Cons show ?case by (auto intro!: keeps_intros)
qed (simp add: keeps_intros)

lemma coop_frames: "frames m \<Longrightarrow> keeps m \<Longrightarrow> coop_ok t \<Longrightarrow> m t = (t', r) \<Longrightarrow> coop_ok t'"
  using frames_groups keepsD by (auto simp: coop_ok_def)

lemma clear_ok:
  assumes "coop_ok t" "x \<in> set (t_subs t)" "sub_role x = Role_coop_member"
  shows "coop_ok (t\<lparr>t_subs := upd_key (sub_key x) (cleared ctx) (t_subs t)\<rparr>)"
proof -
  have "subs_ok (t\<lparr>t_subs := upd_key (sub_key x) (cleared ctx) (t_subs t)\<rparr>)"
    by (rule upd_key_batches[OF coop_okD(3)[OF assms(1)] assms(2)]) simp_all
  with coop_okD[OF assms(1)] groups_clear[of _ "t_subs t" x ctx] assms(2,3) show ?thesis
    by (simp add: coop_ok_def groups_ok_def db_ok_def)
qed

lemma remove_member_ok:
  assumes ok: "coop_ok t" and m: "m \<in> set (t_subs t)" "sub_role m = Role_coop_main"
    and x: "x' \<in> set (t_subs t)" "sub_key x' = sub_key x" "sub_role x' = Role_coop_member" "sub_id x' = sub_id m"
    and r: "remove_member ctx m x t = (t', r)"
  shows "coop_ok t'"
proof -
  let ?n = "sq_next (s_sub t)" and ?p = "on_row (sub_queue x) (sub_consumer x)"
  let ?S1 = "filter (\<lambda>y. \<not> ?p y) (t_subs t)"
  note g = coop_okD(4)[OF ok] and d = coop_okD(5)[OF ok]
  have p: "?p y \<longleftrightarrow> y = x'" if "y \<in> set (t_subs t)" for y
    using distinct_keyD[OF d that x(1)] x(2) by (auto simp: sub_key_on_row)
  have g1: "groups ?n ?S1" by (rule groups_leave[OF g x(1,3)]) (simp add: p)
  let ?D = "\<lambda>y. on_row (sub_queue m) (sub_consumer m) y \<and> sub_role y = Role_coop_main"
  let ?f = "\<lambda>y. y\<lparr>sub_role := Role_normal, sub_active := pg_now ctx\<rparr>"
  have dm: "groups ?n (map (\<lambda>y. if ?D y then ?f y else y) ?S1)"
    if "\<not> (\<exists>y\<in>set ?S1. sub_queue y = sub_queue m \<and> sub_id y = sub_id m \<and> sub_role y = Role_coop_member)"
  proof (rule groups_demote[OF g1, of "sub_id m"])
    show "sub_role y \<noteq> Role_coop_member" if "y \<in> set ?S1" "sub_id y = sub_id m" for y
      using that \<open>\<not> _\<close> groups_queue[OF g _ m(1), of y] by auto
    show "sub_id y = sub_id m \<and> sub_role y = Role_coop_main" if "y \<in> set ?S1" "?D y" for y
      using that distinct_keyD[OF d _ m(1), of y] by (auto simp: sub_key_on_row)
  qed
  have tail: "ensures groups_ok (rows ?n ?S1) (sql_bind (if members then sql_return () else set_sub ?D ?f)
      (\<lambda>_. sql_return 1)) (\<lambda>_. groups_ok)"
    if "members = (\<exists>y\<in>set ?S1. sub_queue y = sub_queue m \<and> sub_id y = sub_id m \<and> sub_role y = Role_coop_member)" for members
  proof (cases members)
    case True
    have "ensures groups_ok (rows ?n ?S1) (sql_bind (sql_return ()) (\<lambda>_. sql_return 1)) (\<lambda>_. groups_ok)"
      by (rule ensures_bind[OF ensures_return ensures_return]) (assumption, simp only: rows_groups g1)
    with True show ?thesis by simp
  next
    case False
    then have "groups ?n (map (\<lambda>y. if ?D y then ?f y else y) ?S1)" using that dm by blast
    then have "ensures groups_ok (rows ?n ?S1) (sql_bind (set_sub ?D ?f) (\<lambda>_. sql_return 1)) (\<lambda>_. groups_ok)"
      by (intro ensures_rows(2) ensures_return) (simp only: rows_groups)
    with False show ?thesis by simp
  qed
  have "ensures groups_ok (rows ?n (t_subs t)) (remove_member ctx m x) (\<lambda>_. groups_ok)"
    unfolding remove_member_def
    apply (rule ensures_rows(1), rule ensures_frames, rule frames_intros, simp only: rows_groups g1)
    apply (rule ensures_rows(3), rule tail, assumption)
    done
  then have "groups_ok t'" using r by (auto dest: ensuresD[where t = t] simp: rows_def split: sum.splits)
  moreover have "keeps (remove_member ctx m x)"
    unfolding remove_member_def by (intro keeps_intros keeps_set_sub) (simp_all add: sub_key_def)
  ultimately show ?thesis using keepsD r coop_okD(1)[OF ok] by (auto simp: coop_ok_def)
qed

lemma release_member_ok:
  assumes ok: "coop_ok t" and x: "x \<in> set (t_subs t)" "sub_role x = Role_coop_member"
    and r: "release_member ctx q c sub h limit x t = (t', r)"
  shows "coop_ok t' \<and> (r = Inr () \<longrightarrow> t_subs t' = t_subs t \<or> t_subs t' = upd_key (sub_key x) (cleared ctx) (t_subs t))"
proof (cases "sub_batch x = None \<or> h = 0")
  case True
  with r ok show ?thesis
    by (auto simp: release_member_def sql_return_def pg_raise_def split: option.splits)
next
  case False
  then obtain b where b: "sub_batch x = Some b" by auto
  show ?thesis
  proof (cases "batch_rows b t")
    case None
    with r ok b False show ?thesis by (auto simp: release_member_def sql_bind_def get_batch_events_eq pg_raise_def)
  next
    case (Some evs)
    obtain u ru where u: "settle_events ctx b limit evs t = (u, ru)" by fastforce
    have uok: "coop_ok u" and us: "t_subs u = t_subs t"
      using coop_frames[OF frames_settle keeps_settle ok u] framesD[OF frames_settle u] by blast+
    with clear_ok[OF uok, of x ctx] clear_eq[OF coop_okD(3)[OF uok], of x u ctx] x r b False Some u show ?thesis
      by (cases ru) (auto simp: release_member_def sql_bind_def get_batch_events_eq)
  qed
qed

lemma bind_read: "sql_bind (sql_read f) g t = g (f t) t"
  by (simp add: sql_bind_def sql_read_def)

lemma unregister_subconsumer_eq:
  "unregister_subconsumer ctx q c sub h t = (case validate_coop_names q c sub t of
      (u, Inl e) \<Rightarrow> (u, Inl e)
    | (u, Inr _) \<Rightarrow>
      if h \<noteq> 0 \<and> h \<noteq> 1 then pg_raise (''unsupported batch_handling value: '' @ str_of_int h) u
      else (case coop_main q c u of None \<Rightarrow> (u, Inr 0)
        | Some m \<Rightarrow> (case coop_member m (member_name c sub) u of None \<Rightarrow> (u, Inr 0)
          | Some x \<Rightarrow> sql_bind (release_member ctx q c sub h (case find_queue q u of None \<Rightarrow> 5
                | Some r \<Rightarrow> (case queue_max_retries r of None \<Rightarrow> 5 | Some n \<Rightarrow> n)) x)
              (\<lambda>_. remove_member ctx m x) u)))"
  unfolding unregister_subconsumer_def
  by (subst sql_bind_def) (simp add: bind_read sql_return_def if_distribR cong: option.case_cong split: prod.splits sum.splits option.splits)

lemma validate_state: "fst (validate_coop_names q c sub t) = t"
  by (simp add: validate_coop_names_def sql_defs)

lemma unregister_subconsumer_ok:
  assumes ok: "coop_ok t" and r: "unregister_subconsumer ctx q c sub h t = (t', r)"
  shows "coop_ok t'"
proof -
  have v: "validate_coop_names q c sub t = (t, snd (validate_coop_names q c sub t))"
    using validate_state[of q c sub t] by (metis prod.collapse)
  show ?thesis
  proof (cases "snd (validate_coop_names q c sub t) = Inr () \<and> (h = 0 \<or> h = 1) \<and> (\<exists>m x. coop_main q c t = Some m
      \<and> coop_member m (member_name c sub) t = Some x)")
    case False
    with r v ok show ?thesis
      by (auto simp: unregister_subconsumer_eq pg_raise_def split: sum.splits option.splits if_splits prod.splits)
  next
    case True
    then obtain m x where m: "coop_main q c t = Some m" and x: "coop_member m (member_name c sub) t = Some x" by blast
    note mm = coop_main_mem[OF m] and xm = coop_member_mem[OF x]
    let ?l = "case find_queue q t of None \<Rightarrow> 5 | Some r \<Rightarrow> (case queue_max_retries r of None \<Rightarrow> 5 | Some n \<Rightarrow> n)"
    obtain u ru where u: "release_member ctx q c sub h ?l x t = (u, ru)" by fastforce
    note uok = release_member_ok[OF ok conjunct1[OF xm] conjunct1[OF conjunct2[OF xm]] u]
    have e: "unregister_subconsumer ctx q c sub h t = sql_bind (release_member ctx q c sub h ?l x) (\<lambda>_. remove_member ctx m x) t"
      using True v m x by (auto simp: unregister_subconsumer_eq split: prod.splits)
    show ?thesis
    proof (cases ru)
      case (Inl e)
      with e r u uok show ?thesis by (simp add: sql_bind_def)
    next
      case (Inr z)
      with e r u have rm: "remove_member ctx m x u = (t', r)" by (simp add: sql_bind_def)
      have us: "t_subs u = t_subs t \<or> t_subs u = upd_key (sub_key x) (cleared ctx) (t_subs t)" using uok Inr by simp
      have "m \<noteq> x" using mm xm by auto
      then have mu: "m \<in> set (t_subs u)"
        using us mm upd_key_other[OF coop_okD(5)[OF ok] conjunct1[OF xm]] by auto
      have "x \<in> set (t_subs u) \<or> cleared ctx x \<in> set (t_subs u)"
        using us xm upd_key_set[OF coop_okD(5)[OF ok] conjunct1[OF xm] refl, of "cleared ctx"] by auto
      then show ?thesis
        using remove_member_ok[OF conjunct1[OF uok] mu _ _ _ _ _ rm] mm xm by (metis cleared_simps(1,3,4))
    qed
  qed
qed

lemma touch_subconsumer_ok:
  "coop_ok t \<Longrightarrow> pg_touch_subconsumer ctx q c sub t = (t', r) \<Longrightarrow> coop_ok t'"
  using coop_touch[of t "member_row q (member_name c sub) t" "pg_clock ctx"]
  by (auto simp: pg_touch_subconsumer_def sql_bind_def sql_read_def sql_return_def set_sub_def sql_update_def
      validate_coop_names_def pg_raise_def split: if_splits)

end
