(* ===== verification/Sessions.thy ===== *)
theory Sessions
  imports CoopInvariant
begin

text \<open>
  Any number of clients on one database: the states that their statements and the
  maintenance job reach, in any order, each statement in a transaction of its own that
  commits or, when it raises, is rolled back but for the sequences.
\<close>

section \<open>What no statement undoes\<close>

definition counts_ok :: "db \<Rightarrow> bool" where
  "counts_ok t \<longleftrightarrow> list_all (\<lambda>r. 0 \<le> queue_ticker_max_count r) (t_queues t)"

definition grown :: "db \<Rightarrow> db \<Rightarrow> bool" where
  "grown t t' \<longleftrightarrow> map (queue_events_update (\<lambda>_. [])) (t_queues t') = map (queue_events_update (\<lambda>_. [])) (t_queues t)
     \<and> sq_next (s_batch t) \<le> sq_next (s_batch t') \<and> sq_next (s_consumer t) \<le> sq_next (s_consumer t')
     \<and> sq_next (s_sub t) \<le> sq_next (s_sub t') \<and> (\<forall>q. last_value (s_event t q) \<le> last_value (s_event t' q))"

lemma grown_refl [simp]: "grown t t"
  by (simp add: grown_def)

lemma grown_trans: "grown t u \<Longrightarrow> grown u v \<Longrightarrow> grown t v"
  unfolding grown_def by (metis order_trans)

lemma grown_counts: "grown t t' \<Longrightarrow> counts_ok t \<Longrightarrow> counts_ok t'"
proof -
  assume "grown t t'" and c: "counts_ok t"
  then have m: "map (queue_events_update (\<lambda>_. [])) (t_queues t') = map (queue_events_update (\<lambda>_. [])) (t_queues t)"
    by (simp add: grown_def)
  have "map queue_ticker_max_count (t_queues t') = map queue_ticker_max_count (t_queues t)"
    using arg_cong[OF m, of "map queue_ticker_max_count"] by (simp add: comp_def)
  moreover have "counts_ok u \<longleftrightarrow> list_all (\<lambda>n. 0 \<le> n) (map queue_ticker_max_count (t_queues u))" for u
    by (simp add: counts_ok_def list_all_iff)
  ultimately show ?thesis using c by simp
qed

definition grows :: "'a sql \<Rightarrow> bool" where
  "grows m \<longleftrightarrow> (\<forall>t. counts_ok t \<longrightarrow> grown t (fst (m t)))"

named_theorems grows_intros \<open>statements whose sequences only grow\<close>

lemma growsD: "grows m \<Longrightarrow> counts_ok t \<Longrightarrow> m t = (t', r) \<Longrightarrow> grown t t'"
  by (metis grows_def fst_conv)

lemma grows_bind [grows_intros]: "grows m \<Longrightarrow> (\<And>x. grows (f x)) \<Longrightarrow> grows (sql_bind m f)"
  unfolding grows_def sql_bind_def
  by (auto split: prod.splits sum.splits) (metis fst_conv grown_counts grown_trans)+

lemma grows_read [grows_intros]:
  "grows (sql_read f)" "grows (sql_return x)" "grows (pg_raise m)" "grows (pg_raise_code m c h)"
  "grows (any_sub P)" "grows ill_typed"
  by (simp_all add: grows_def sql_read_def sql_return_def pg_raise_def pg_raise_code_def any_sub_def ill_typed_def)

lemma grows_cases [grows_intros]:
  "grows m \<Longrightarrow> (\<And>x. grows (f x)) \<Longrightarrow> grows (case y of None \<Rightarrow> m | Some x \<Rightarrow> f x)"
  "grows m \<Longrightarrow> grows n \<Longrightarrow> grows (if b then m else n)"
  "grows m \<Longrightarrow> (\<And>x xs. grows (g x xs)) \<Longrightarrow> grows (case l of [] \<Rightarrow> m | x # xs \<Rightarrow> g x xs)"
  "grows m1 \<Longrightarrow> grows m2 \<Longrightarrow> grows m3 \<Longrightarrow>
     grows (case ro of Role_normal \<Rightarrow> m1 | Role_coop_main \<Rightarrow> m2 | Role_coop_member \<Rightarrow> m3)"
  by (auto split: option.splits list.splits sub_role.splits)

lemma sq_next_mono: "sq_next s \<le> sq_next (sq_set (sq_next s))"
  by (simp add: sq_next_def sq_set_def)

lemma grows_nextval [grows_intros]:
  "grows nextval_batch" "grows nextval_consumer" "grows nextval_sub" "grows nextval_dead"
  "grows (nextval_tick q)" "grows (nextval_event q)"
  by (simp_all add: grows_def grown_def nextval_batch_def nextval_consumer_def nextval_sub_def
      nextval_dead_def nextval_tick_def nextval_event_def last_value_sq)

lemma grows_set_sub [grows_intros]: "grows (set_sub P f)" "grows (delete_subs P)" "grows (drop_consumer c)"
  by (simp_all add: grows_def grown_def set_sub_def delete_subs_def drop_consumer_def sql_update_def)

lemma grows_update [grows_intros]:
  "grows (sql_update (\<lambda>t. t\<lparr>t_consumers := f1 t\<rparr>))" "grows (sql_update (\<lambda>t. t\<lparr>t_subs := f2 t\<rparr>))"
  "grows (sql_update (\<lambda>t. t\<lparr>t_retry := f3 t\<rparr>))" "grows (sql_update (\<lambda>t. t\<lparr>t_ticks := f4 t\<rparr>))"
  "grows (sql_update (\<lambda>t. if b t then t else t\<lparr>t_dead := f5 t\<rparr>))"
  by (simp_all add: grows_def grown_def sql_update_def)

lemma grows_add_events [grows_intros]: "grows (add_events q es)"
  by (auto simp: grows_def grown_def add_events_def sql_update_def)

lemma grows_insert [grows_intros]: "grows (insert_event_raw ctx q i tm ow re ty da x1 x2 x3 x4)"
  unfolding insert_event_raw_def Let_def by (intro grows_intros)

lemma grows_nextvals [grows_intros]: "grows (nextvals q xs)"
  by (induction xs) (auto intro!: grows_intros)

lemma grows_receive_loop [grows_intros]: "grows (receive_loop b n k evs)"
  by (induction evs arbitrary: k) (auto intro!: grows_intros)

lemma grows_batches [grows_intros]:
  "grows (next_batch ctx q c)" "grows (get_batch_events b)" "grows (finish_batch ctx b)"
  unfolding next_batch_def get_batch_events_def finish_batch_def by (intro grows_intros)+

lemma grows_jsonb [grows_intros]: "grows (jsonb_cast ctx s)" "grows (jsonb_casts ctx ss)"
proof -
  show c: "grows (jsonb_cast ctx s)" for s unfolding jsonb_cast_def by (intro grows_intros)
  show "grows (jsonb_casts ctx ss)" by (induction ss) (auto intro!: grows_intros c)
qed

lemma grows_nack [grows_intros]: "grows (pg_nack ctx b i secs rs)"
  unfolding pg_nack_def nack_batch_event_def event_dead_def event_retry_def Let_def by (intro grows_intros)

lemma grows_ticker [grows_intros]: "grows (pg_ticker ctx q)"
  unfolding pg_ticker_def by (intro grows_intros)

lemma grows_ticker_queues [grows_intros]: "grows (ticker_queues ctx qs n)"
  by (induction qs arbitrary: n) (auto intro!: grows_intros)

lemma grows_force_next_tick [grows_intros]: "grows (pg_force_next_tick q)"
proof -
  have "grown t t'" if "counts_ok t" "pg_force_next_tick q t = (t', r)" for t t' r
  proof -
    have "last_value s \<le> sq_next s + n * 2 + 1000" if "0 \<le> n" for s n
      using that by (simp add: sq_next_def)
    moreover have "0 \<le> queue_ticker_max_count x" if "find_queue q t = Some x" for x
      using \<open>counts_ok t\<close> that by (auto simp: counts_ok_def list_all_iff find_queue_def dest!: find_SomeD)
    ultimately show ?thesis using that(2)
      by (auto simp: pg_force_next_tick_def pg_force_tick_def sql_defs nextval_event_def grown_def
          sq_set_def split: option.splits if_splits)
  qed
  then show ?thesis unfolding grows_def by (metis prod.collapse)
qed

lemma grows_scalar [grows_intros]: "grows m \<Longrightarrow> grows (scalar f m)"
  unfolding scalar_def by (intro grows_intros)

lemma grows_move [grows_intros]: "grows (move_rows ctx rs n)"
  by (induction ctx rs n rule: move_rows.induct) (auto simp: Let_def intro!: grows_intros)

lemma grows_api [grows_intros]:
  "grows (pg_send ctx q ty p)" "grows (pg_send_batch ctx q ty ps)" "grows (pg_subscribe ctx q c)"
  "grows (pg_unsubscribe ctx q c)" "grows (pg_receive ctx q c n)" "grows (pg_ack ctx b)"
  "grows (pg_ticker_all ctx)" "grows (maint_retry_events ctx)"
  unfolding pg_send_def insert_event_def pg_send_batch_def insert_event_bulk_def pg_subscribe_def
    register_consumer_def pg_unsubscribe_def unregister_consumer_def unregister_member_def unregister_whole_def pg_receive_def pg_ack_def
    pg_ticker_all_def maint_retry_events_def
  by (intro grows_intros)+

lemma grows_calls [grows_intros]:
  "grows (call_send ctx ps)" "grows (call_send_typed ctx ps)" "grows (call_send_batch ctx ps)"
  "grows (call_subscribe ctx ps)" "grows (call_receive ctx ps)" "grows (call_ack ctx ps)"
  "grows (call_force_next_tick ps)" "grows (call_ticker ctx ps)" "grows (call_nack ctx ps)"
  "grows (call_unsubscribe ctx ps)" "grows (call_ticker_all ctx ps)"
  by (auto simp: call_send_def call_send_typed_def call_send_batch_def call_subscribe_def
      call_receive_def call_ack_def call_force_next_tick_def call_ticker_def
      call_nack_def call_unsubscribe_def call_ticker_all_def
      intro!: grows_intros split: list.splits pyval.splits option.splits)

lemma grows_coop_calls [grows_intros]:
  "grows (receive_coop_loop b n k evs)" "grows (settle_events ctx b limit es)"
proof -
  show "grows (receive_coop_loop b n k evs)" by (induction evs arbitrary: k) (auto intro!: grows_intros)
  show "grows (settle_events ctx b limit es)"
    by (induction es) (auto simp: event_dead_def event_retry_def Let_def intro!: grows_intros)
qed

lemma grows_coop [grows_intros]:
  "grows (validate_coop_names q c sub)" "grows (ensure_consumer c)" "grows (insert_sub r)"
  "grows (clear_member_cursor ctx i j)" "grows (give_window ctx x p k b)"
  unfolding validate_coop_names_def ensure_consumer_def insert_sub_def clear_member_cursor_def give_window_def
  by (intro grows_intros)+

lemma grows_register_subconsumer [grows_intros]: "grows (register_subconsumer ctx q c sub convert)"
proof -
  have "grows (ensure_main ctx q c i j convert)" for i j
    unfolding ensure_main_def Let_def by (intro grows_intros)
  moreover have "grows (register_member ctx q name m k)" for name m k
    unfolding register_member_def by (intro grows_intros)
  ultimately show ?thesis
    unfolding register_subconsumer_def by (intro grows_intros) (auto split: prod.splits intro!: grows_intros)
qed

lemma grows_next_batch_coop [grows_intros]: "grows (next_batch_coop ctx q c sub dead)"
  unfolding next_batch_coop_def takeover_def allocate_def by (intro grows_intros)

lemma grows_coop_api [grows_intros]:
  "grows (pg_receive_coop ctx q c sub n dead)" "grows (pg_subscribe_subconsumer ctx q c sub convert)"
  "grows (pg_unsubscribe_subconsumer ctx q c sub h)" "grows (pg_touch_subconsumer ctx q c sub)"
  unfolding pg_receive_coop_def pg_subscribe_subconsumer_def pg_unsubscribe_subconsumer_def
    unregister_subconsumer_def release_member_def remove_member_def pg_touch_subconsumer_def
  by (intro grows_intros)+

lemma grows_coop_call:
  "(\<And>s. grows (other ctx s ps)) \<Longrightarrow> grows (coop_call other ctx sql ps)"
  by (auto simp: coop_call_def call_receive_coop_def call_subscribe_subconsumer_def
      call_unsubscribe_subconsumer_def call_touch_subconsumer_def
      intro!: grows_intros split: list.splits pyval.splits option.splits)

lemma grows_pg_call: "(\<And>s. grows (other ctx s ps)) \<Longrightarrow> grows (pg_call other ctx sql ps)"
  by (simp add: pg_call_def grows_intros)

section \<open>Runs\<close>

text \<open>
  A step is a statement of a client (\<open>statement\<close> when it returns; whatever it leaves when it
  raises inside a block is a \<open>refused\<close> step) or the maintenance job; \<open>undone\<close> is the end of
  a block or statement that does not commit: of everything since its begin only the sequence
  values stay.
\<close>

definition client_statements :: statements where
  "client_statements = pg_call (coop_call (\<lambda>_ _ _. ill_typed))"

inductive server_run :: "db \<Rightarrow> db \<Rightarrow> bool" where
  start: "server_run a a"
| statement: "server_run a t \<Longrightarrow> client_statements ctx sql ps t = (t', r) \<Longrightarrow> server_run a t'"
| maintenance: "server_run a t \<Longrightarrow> maint_retry_events ctx t = (t', r) \<Longrightarrow> server_run a t'"
| undone: "server_run a t \<Longrightarrow> server_run t u \<Longrightarrow> server_run a (keep_sequences t u)"

lemma grown_keep_sequences: "grown t u \<Longrightarrow> grown t (keep_sequences t u)"
  by (simp add: grown_def keep_sequences_def)

lemma grows_statement: "grows (client_statements ctx sql ps)"
  unfolding client_statements_def by (intro grows_pg_call grows_coop_call) (simp add: grows_read)

lemma run_grown: "server_run a t \<Longrightarrow> counts_ok a \<Longrightarrow> grown a t"
proof (induction rule: server_run.induct)
  case (statement a t ctx sql ps t' r)
  from grown_trans[OF statement.IH growsD[OF grows_statement grown_counts[OF statement.IH] statement.hyps(2)]]
  show ?case using statement.prems by blast
next
  case (maintenance a t ctx t' r)
  from grown_trans[OF maintenance.IH growsD[OF grows_api(8) grown_counts[OF maintenance.IH] maintenance.hyps(2)]]
  show ?case using maintenance.prems by blast
next
  case (undone a t u)
  then show ?case by (metis grown_counts grown_keep_sequences grown_trans)
qed simp

lemma keep_sequences_ok: "coop_ok t \<Longrightarrow> grown t u \<Longrightarrow> coop_ok (keep_sequences t u)"
proof -
  assume a: "coop_ok t" "grown t u"
  note db = coop_okD(1)[OF a(1)]
  have e: "last_value (s_event t q) \<le> last_value (s_event u q)" for q
    using a(2) by (simp add: grown_def)
  have "list_all (\<lambda>co. co_id co < sq_next (s_consumer u)) (t_consumers t)"
    using a(2) db by (force simp: db_ok_def grown_def list_all_iff)
  moreover have "list_all (\<lambda>k. tick_event_seq k \<le> last_value (s_event u (tick_queue k))) (t_ticks t)"
    using db e order_trans by (fastforce simp: db_ok_def list_all_iff)
  moreover have "list_all (\<lambda>s. case sub_batch s of None \<Rightarrow> True | Some b \<Rightarrow> b < sq_next (s_batch u)) (t_subs t)"
    using a(2) db by (force simp: db_ok_def subs_ok_def grown_def list_all_iff split: option.splits)
  moreover have "groups (sq_next (s_sub u)) (t_subs t)"
    using groups_mono[OF coop_okD(4)[OF a(1)]] a(2) by (simp add: grown_def)
  ultimately show ?thesis
    using db by (simp add: coop_ok_def groups_ok_def db_ok_def subs_ok_def keep_sequences_def cong: option.case_cong)
qed

lemma keeps_maintenance: "keeps (maint_retry_events ctx)"
proof -
  have i: "keeps (insert_event_raw ctx q i tm ow re ty da x1 x2 x3 x4)" for ctx q i tm ow re ty da x1 x2 x3 x4
    using core_le_ok
    by (fastforce simp: keeps_def insert_event_raw_def sql_defs nextval_event_def add_events_def
      core_le_def last_value_sq comp_def Let_def if_distrib[of queue_id] split: option.splits if_splits)
  have "keeps (move_rows ctx rs n)" for rs n
    by (induction ctx rs n rule: move_rows.induct) (auto simp: Let_def intro!: keeps_intros i)
  then show ?thesis unfolding maint_retry_events_def by (intro keeps_intros)
qed

section \<open>Every statement keeps the invariants\<close>

lemma scalar_coop: "scalar f m t = (t', r) \<Longrightarrow> (\<And>t' r. m t = (t', r) \<Longrightarrow> coop_ok t') \<Longrightarrow> coop_ok t'"
  using scalar_state by blast

lemma coop_call_ok:
  assumes ok: "coop_ok t" and o: "\<And>t' r. other ctx sql ps t = (t', r) \<Longrightarrow> coop_ok t'"
    and c: "coop_call other ctx sql ps t = (t', r)"
  shows "coop_ok t'"
proof -
  have rc: "coop_ok t'" if "sql_bind (pg_receive_coop ctx q c sub n dead) (\<lambda>ms. sql_return (map message_row ms)) t = (t', r)"
    for q c sub n dead t' r
    using that by (rule bind_state) (auto simp: sql_return_def dest: pg_receive_coop_ok[OF ok])
  have "call_receive_coop ctx ps t = (t', r) \<Longrightarrow> coop_ok t'"
    using ok rc by (auto simp: call_receive_coop_def ill_typed_def pg_raise_def split: list.splits pyval.splits option.splits)
  moreover have "call_subscribe_subconsumer ctx ps t = (t', r) \<Longrightarrow> coop_ok t'"
    "call_unsubscribe_subconsumer ctx ps t = (t', r) \<Longrightarrow> coop_ok t'"
    "call_touch_subconsumer ctx ps t = (t', r) \<Longrightarrow> coop_ok t'"
    using ok by (auto simp: call_subscribe_subconsumer_def call_unsubscribe_subconsumer_def call_touch_subconsumer_def
        pg_subscribe_subconsumer_def pg_unsubscribe_subconsumer_def ill_typed_def pg_raise_def
        dest: register_subconsumer_ok unregister_subconsumer_ok touch_subconsumer_ok
        elim!: scalar_coop split: list.splits pyval.splits)
  ultimately show ?thesis using c o by (simp add: coop_call_def split: if_splits)
qed

lemma pg_ack_groups: "groups_ok t \<Longrightarrow> subs_ok t \<Longrightarrow> pg_ack ctx b t = (t', r) \<Longrightarrow> groups_ok t'"
  by (auto simp: pg_ack_def sql_bind_def sql_read_def pg_raise_def finish_batch_groups split: option.splits)

lemma frames_calls:
  "frames (call_send ctx ps)" "frames (call_send_typed ctx ps)" "frames (call_send_batch ctx ps)"
  "frames (call_force_next_tick ps)" "frames (call_ticker ctx ps)" "frames (call_nack ctx ps)" "frames (call_ticker_all ctx ps)"
  by (auto simp: call_send_def call_send_typed_def call_send_batch_def call_force_next_tick_def call_ticker_def
      call_nack_def call_ticker_all_def intro!: frames_intros split: list.splits pyval.splits option.splits)

lemma pg_call_groups:
  assumes ok: "coop_ok t" and o: "\<And>t' r. other ctx sql ps t = (t', r) \<Longrightarrow> groups_ok t'"
    and c: "pg_call other ctx sql ps t = (t', r)"
  shows "groups_ok t'"
proof -
  note [dest] = frames_groups[OF frames_calls(1)] frames_groups[OF frames_calls(2)] frames_groups[OF frames_calls(3)]
    frames_groups[OF frames_calls(4)] frames_groups[OF frames_calls(5)] frames_groups[OF frames_calls(6)] frames_groups[OF frames_calls(7)]
  note gok = coop_okD(2)[OF ok] and sok = coop_okD(3)[OF ok]
  have "call_receive ctx ps t = (t', r) \<Longrightarrow> groups_ok t'"
  proof -
    have s: "groups_ok t'" if "sql_bind (pg_receive ctx q c n) (\<lambda>ms. sql_return (map message_row ms)) t = (t', r)"
      for q c n r t'
      using that by (rule bind_state) (auto simp: sql_return_def dest: pg_receive_groups[OF gok coop_okD(1)[OF ok]])
    show "call_receive ctx ps t = (t', r) \<Longrightarrow> groups_ok t'"
      using gok s by (auto simp: call_receive_def ill_typed_def pg_raise_def split: list.splits pyval.splits)
  qed
  moreover have "call_subscribe ctx ps t = (t', r) \<Longrightarrow> groups_ok t'" "call_ack ctx ps t = (t', r) \<Longrightarrow> groups_ok t'"
    "call_unsubscribe ctx ps t = (t', r) \<Longrightarrow> groups_ok t'"
    using gok sok by (auto simp: call_subscribe_def call_ack_def call_unsubscribe_def ill_typed_def pg_raise_def
        dest!: scalar_state dest: subscribe_groups pg_ack_groups unsubscribe_groups split: list.splits pyval.splits)
  ultimately show ?thesis using c o gok by (auto simp: pg_call_def split: if_splits)
qed

lemma statement_keeps_coop_ok:
  assumes ok: "coop_ok t" and c: "counts_ok t" and s: "client_statements ctx sql ps t = (t', r)"
  shows "coop_ok t'"
proof -
  have o: "coop_ok t'" if "coop_call (\<lambda>_ _ _. ill_typed) ctx sql ps t = (t', r)" for t' r
    by (rule coop_call_ok[OF ok _ that]) (use ok in \<open>simp add: ill_typed_def pg_raise_def\<close>)
  have "0 \<le> queue_ticker_max_count x" if "x \<in> set (t_queues t)" for x
    using c that by (simp add: counts_ok_def list_all_iff)
  with s o statement_keeps_db_ok[OF coop_okD(1)[OF ok], of "coop_call (\<lambda>_ _ _. ill_typed)" ctx sql ps t' r]
    pg_call_groups[OF ok, of "coop_call (\<lambda>_ _ _. ill_typed)" ctx sql ps t' r]
  show ?thesis unfolding client_statements_def coop_ok_def by blast
qed

lemma maintenance_coop: "coop_ok t \<Longrightarrow> maint_retry_events ctx t = (t', r) \<Longrightarrow> coop_ok t'"
  using coop_frames[OF frames_api(4) keeps_maintenance] .

lemma run_coop_ok: "server_run a t \<Longrightarrow> coop_ok a \<Longrightarrow> counts_ok a \<Longrightarrow> coop_ok t"
proof (induction rule: server_run.induct)
  case (statement a t ctx sql ps t' r)
  show ?case
    by (rule statement_keeps_coop_ok[OF statement.IH[OF statement.prems]
        grown_counts[OF run_grown[OF statement.hyps(1) statement.prems(2)] statement.prems(2)] statement.hyps(2)])
next
  case (maintenance a t ctx t' r)
  show ?case by (rule maintenance_coop[OF maintenance.IH[OF maintenance.prems] maintenance.hyps(2)])
next
  case (undone a t u)
  show ?case
    by (rule keep_sequences_ok[OF undone.IH(1)[OF undone.prems]
        run_grown[OF undone.hyps(2) grown_counts[OF run_grown[OF undone.hyps(1) undone.prems(2)] undone.prems(2)]]])
qed

text \<open>
  Claim C2. However the clients (with their cooperative calls) and the maintenance job
  interleave, and whatever is rolled back, a database that satisfies the invariants keeps them,
  its batch sequence never goes back, and no two subscriptions ever hold the same batch.
\<close>

theorem reachable_tables_ok:
  assumes "server_run a t" "db_ok a" "groups_ok a" "counts_ok a"
  shows "db_ok t \<and> groups_ok t \<and> sq_next (s_batch a) \<le> sq_next (s_batch t)
    \<and> (\<forall>x\<in>set (t_subs t). \<forall>y\<in>set (t_subs t). sub_batch x \<noteq> None \<and> sub_batch x = sub_batch y \<longrightarrow> x = y)"
proof -
  have ok: "coop_ok t" using run_coop_ok[OF assms(1) _ assms(4)] assms(2,3) by (simp add: coop_ok_def)
  have "x = y" if "x \<in> set (t_subs t)" "y \<in> set (t_subs t)" "sub_batch x \<noteq> None" "sub_batch x = sub_batch y" for x y
    using subs_ok_batch_unique[OF coop_okD(3)[OF ok] that(1,2)] that(3,4) by fastforce
  moreover have "sq_next (s_batch a) \<le> sq_next (s_batch t)"
    using run_grown[OF assms(1,4)] by (simp add: grown_def)
  ultimately show ?thesis using ok unfolding coop_ok_def by blast
qed

end
