(* ===== verification/CoopDelivery.thy ===== *)
theory CoopDelivery
  imports Sessions
begin

text \<open>
  What the members of a cooperative group receive: windows that no two of them share, a batch
  taken over from a stale sibling under a new number, and nothing lost when a member leaves.
\<close>

section \<open>Disjoint batches\<close>

text \<open>The ticks of a queue carry the snapshots of successive transactions.\<close>

definition ticks_chain :: "db \<Rightarrow> bool" where
  "ticks_chain t \<longleftrightarrow> list_all (\<lambda>k. snap_wf (tick_snapshot k)) (t_ticks t)
     \<and> list_all (\<lambda>j. list_all (\<lambda>k. tick_queue j = tick_queue k \<and> tick_id j \<le> tick_id k \<longrightarrow>
         snap_le (tick_snapshot j) (tick_snapshot k)) (t_ticks t)) (t_ticks t)"

lemma ticks_chainD:
  assumes "ticks_chain t" "find_tick q i t = Some j"
  shows "snap_wf (tick_snapshot j)"
    and "find_tick q k t = Some l \<Longrightarrow> tick_id j \<le> tick_id l \<Longrightarrow> snap_le (tick_snapshot j) (tick_snapshot l)"
  using assms find_tick_mem[OF assms(2)] find_tick_mem[of q k t l] by (auto simp: ticks_chain_def list_all_iff)

lemma batch_rowsD:
  assumes "batch_rows b t = Some es" "find_batch b t = Some x"
  obtains prev cur qr where "find_tick (sub_queue x) (sub_last_tick x) t = Some prev"
    "find_tick (sub_queue x) (sub_next_tick x) t = Some cur"
    "find (\<lambda>r. queue_id r = sub_queue x) (t_queues t) = Some qr"
    "es = batch_event_sql (tick_snapshot prev) (tick_snapshot cur) (sub_id x) [queue_events qr]"
  using assms by (auto simp: batch_rows_def split: option.splits)

text \<open>The events of a window are those that become visible in it.\<close>

lemma batch_rows_visible:
  assumes "ticks_chain t" "find_tick q i t = Some prev" "find_tick q k t = Some cur" "tick_id prev < tick_id cur"
    and "e \<in> set (batch_event_sql (tick_snapshot prev) (tick_snapshot cur) sid [evs])"
  shows "\<not> pg_visible_in_snapshot (ev_txid e) (tick_snapshot prev) \<and> pg_visible_in_snapshot (ev_txid e) (tick_snapshot cur)"
proof -
  have wf: "snap_wf (tick_snapshot prev)" "snap_wf (tick_snapshot cur)"
    using ticks_chainD(1)[OF assms(1)] assms(2,3) by blast+
  have le: "snap_le (tick_snapshot prev) (tick_snapshot cur)"
    using ticks_chainD(2)[OF assms(1,2,3)] assms(4) by simp
  then have "snap_xmax (tick_snapshot prev) \<le> snap_xmax (tick_snapshot cur)" by (simp add: snap_le_def)
  from assms(5)[unfolded batch_event_sql_set[OF wf this]] show ?thesis
    by (auto simp: batch_reference_def in_window_simp[OF wf])
qed

lemma earlier_window_disjoint:
  assumes tc: "ticks_chain t" and g: "groups n (t_subs t)" and q: "sub_queue x = sub_queue y"
    and x: "find_batch b t = Some x" "batch_rows b t = Some es" and y: "find_batch c t = Some y" "batch_rows c t = Some fs"
    and e: "ends_before x y"
  shows "set es \<inter> set fs = {}"
proof -
  have mem: "x \<in> set (t_subs t)" "sub_batch x \<noteq> None" "y \<in> set (t_subs t)" "sub_batch y \<noteq> None"
    using x(1) y(1) by (auto simp: find_batch_def dest!: find_SomeD)
  obtain p1 c1 and q1 :: qrow where X: "find_tick (sub_queue x) (sub_last_tick x) t = Some p1"
    "find_tick (sub_queue x) (sub_next_tick x) t = Some c1"
    "es = batch_event_sql (tick_snapshot p1) (tick_snapshot c1) (sub_id x) [queue_events q1]"
    by (rule batch_rowsD[OF x(2,1)], rule that, assumption+)
  obtain p2 c2 and q2 :: qrow where Y: "find_tick (sub_queue y) (sub_last_tick y) t = Some p2"
    "find_tick (sub_queue y) (sub_next_tick y) t = Some c2"
    "fs = batch_event_sql (tick_snapshot p2) (tick_snapshot c2) (sub_id y) [queue_events q2]"
    by (rule batch_rowsD[OF y(2,1)], rule that, assumption+)
  have ids: "sub_last_tick x = Some (tick_id p1)" "sub_next_tick x = Some (tick_id c1)"
    "sub_last_tick y = Some (tick_id p2)" "sub_next_tick y = Some (tick_id c2)"
    using X Y find_tick_mem by blast+
  have lt: "tick_id p1 < tick_id c1" "tick_id p2 < tick_id c2"
    using batch_windows[OF g mem(1,2)] batch_windows[OF g mem(3,4)] ids by auto
  have "tick_id c1 \<le> tick_id p2" using e ids by (simp add: ends_before_def)
  then have "snap_le (tick_snapshot c1) (tick_snapshot p2)"
    using ticks_chainD(2)[OF tc X(2), of "sub_last_tick y" p2] Y(1) q by simp
  then have v: "pg_visible_in_snapshot z (tick_snapshot c1) \<Longrightarrow> pg_visible_in_snapshot z (tick_snapshot p2)" for z
    using snap_le_visible ticks_chainD(1)[OF tc X(2)] ticks_chainD(1)[OF tc Y(1)] by blast
  show ?thesis
    using batch_rows_visible[OF tc X(1,2) lt(1)] batch_rows_visible[OF tc Y(1,2) lt(2)] v X(3) Y(3) by blast
qed

text \<open>
  Claim C8. No event is in the hands of two members of a cooperative group: in every state
  that clients and maintenance reach, two open batches of one group have no event in common.
\<close>

theorem coop_batches_disjoint:
  assumes "server_run a t" "db_ok a" "groups_ok a" "counts_ok a" "ticks_chain t"
    and "find_batch b t = Some x" "find_batch c t = Some y" "b \<noteq> c" "sub_id x = sub_id y"
    and "batch_rows b t = Some es" "batch_rows c t = Some fs"
  shows "set es \<inter> set fs = {}"
proof -
  have ok: "coop_ok t" using run_coop_ok[OF assms(1) _ assms(4)] assms(2,3) by (simp add: coop_ok_def)
  have xy: "x \<in> set (t_subs t)" "sub_batch x = Some b" "y \<in> set (t_subs t)" "sub_batch y = Some c"
    using find_batch_iff[OF coop_okD(3)[OF ok]] assms(6,7) by blast+
  then have k: "sub_key x \<noteq> sub_key y" using distinct_keyD[OF coop_okD(5)[OF ok] xy(1,3)] assms(8) by auto
  from groups_pair[OF coop_okD(4)[OF ok] xy(1,3) k] xy assms(9)
  have q: "sub_queue x = sub_queue y" and "ends_before x y \<or> ends_before y x" by (auto simp: pair_ok_def)
  then show ?thesis
    using earlier_window_disjoint[OF assms(5) coop_okD(4)[OF ok] q assms(6,10,7,11)]
      earlier_window_disjoint[OF assms(5) coop_okD(4)[OF ok] q[symmetric] assms(7,11,6,10)] by blast
qed

section \<open>Registered members\<close>

text \<open>Consumer \<open>c\<close> on queue \<open>q\<close> has the main row \<open>m\<close> and the member row \<open>x\<close>.\<close>

definition registered :: "string \<Rightarrow> string \<Rightarrow> string \<Rightarrow> db \<Rightarrow> sub_row \<Rightarrow> sub_row \<Rightarrow> bool" where
  "registered q c sub t m x \<longleftrightarrow> snd (validate_coop_names q c sub t) = Inr ()
     \<and> coop_main q c t = Some m \<and> coop_member m (member_name c sub) t = Some x"

definition touched :: "pgctx \<Rightarrow> sub_row \<Rightarrow> db \<Rightarrow> db" where
  "touched ctx x t = t\<lparr>t_subs := upd_key (sub_key x) (\<lambda>y. y\<lparr>sub_active := pg_now ctx\<rparr>) (t_subs t)\<rparr>"

lemma registeredD:
  assumes "registered q c sub t m x"
  shows "m \<in> set (t_subs t)" "sub_role m = Role_coop_main" "x \<in> set (t_subs t)" "sub_role x = Role_coop_member"
    "sub_id x = sub_id m" "sub_queue x = sub_queue m" "validate_coop_names q c sub u = (u, Inr ())"
proof -
  show "validate_coop_names q c sub u = (u, Inr ())"
    using assms by (auto simp: registered_def validate_coop_names_def sql_defs split: if_splits)
qed (use assms coop_main_mem coop_member_mem in \<open>auto simp: registered_def\<close>)

lemma find_key:
  assumes "distinct (map sub_key S)" "x \<in> set S" "P x" "\<And>y. P y \<Longrightarrow> sub_key y = sub_key x"
  shows "find P S = Some x"
proof (rule find_unique[where P = P, OF assms(2,3)])
  show "y = x" if "y \<in> set S" "P y" for y by (rule distinct_keyD[OF assms(1) that(1) assms(2) assms(4)[OF that(2)]])
qed

lemma register_registered:
  assumes ok: "subs_ok t" and r: "registered q c sub t m x"
  shows "register_subconsumer ctx q c sub convert t = (touched ctx x t, Inr 0)"
proof -
  note D = registeredD[OF r]
  obtain qr cr where q: "find_queue q t = Some qr" "find_consumer c t = Some cr"
    and m: "find (\<lambda>x. on_row (queue_id qr) (co_id cr) x \<and> sub_role x = Role_coop_main) (t_subs t) = Some m"
    using r by (auto simp: registered_def coop_main_def split: option.splits)
  have km: "queue_id qr = sub_queue m" "co_id cr = sub_consumer m" using m by (auto simp: on_row_def dest!: find_SomeD)
  obtain xr where xr: "find_consumer (member_name c sub) t = Some xr" "co_id xr = sub_consumer x"
    using r by (auto simp: registered_def coop_member_def on_row_def dest!: find_SomeD split: option.splits)
  have s: "sub_of (sub_queue y) (sub_consumer y) t = Some y" if "y \<in> set (t_subs t)" for y
    unfolding sub_of_def by (rule find_key[OF subs_distinct[OF ok] that]) (simp_all add: sub_key_on_row)
  have "ensure_main ctx q c (queue_id qr) (co_id cr) convert t = (t, Inr (m, 0))"
    using s[OF D(1)] D(2) by (simp add: ensure_main_def sql_defs km)
  moreover have "register_member ctx q (member_name c sub) m 0 t = (touched ctx x t, Inr 0)"
    using s[OF D(3)] D(4-6) set_sub_row[OF ok D(3) refl, of "\<lambda>y. y\<lparr>sub_active := pg_now ctx\<rparr>"] xr
    by (simp add: register_member_def ensure_consumer_def sql_bind_def sql_read_def sql_return_def touched_def)
  ultimately show ?thesis
    using D(7)[of t] q by (simp add: register_subconsumer_def ensure_consumer_def sql_bind_def sql_read_def sql_return_def)
qed

lemma touched_registered:
  assumes ok: "subs_ok t" and r: "registered q c sub t m x"
  shows "registered q c sub (touched ctx x t) m (x\<lparr>sub_active := pg_now ctx\<rparr>)"
proof -
  note D = registeredD[OF r]
  let ?f = "\<lambda>y. if sub_key y = sub_key x then y\<lparr>sub_active := pg_now ctx\<rparr> else y"
  have fs: "find P (t_subs (touched ctx x t)) = map_option ?f (find P (t_subs t))"
    if "\<And>y. P (?f y) = P y" for P
    using that by (simp add: touched_def upd_key_def find_map comp_def)
  have same: "find_queue q (touched ctx x t) = find_queue q t" "find_consumer n (touched ctx x t) = find_consumer n t" for q n
    by (simp_all add: touched_def find_queue_def find_consumer_def)
  have "m \<noteq> x" using D(2,4) by auto
  then have "?f m = m" using distinct_keyD[OF subs_distinct[OF ok] D(1,3)] by auto
  then have "coop_main q c (touched ctx x t) = Some m"
    using r by (auto simp: registered_def coop_main_def same fs on_row_def split: option.splits)
  moreover have "coop_member m (member_name c sub) (touched ctx x t) = Some (x\<lparr>sub_active := pg_now ctx\<rparr>)"
    using r by (auto simp: registered_def coop_member_def same fs on_row_def split: option.splits)
  moreover have "snd (validate_coop_names q c sub (touched ctx x t)) = Inr ()" using D(7) by simp
  ultimately show ?thesis by (simp add: registered_def)
qed

lemma next_batch_registered:
  assumes "subs_ok t" "registered q c sub t m x"
  shows "next_batch_coop ctx q c sub dead t =
    member_batch ctx q c dead m (x\<lparr>sub_active := pg_now ctx\<rparr>) (touched ctx x t)"
  using touched_registered[OF assms, of ctx] by (simp add: next_batch_coop_eq register_registered[OF assms] registered_def)

section \<open>Taking over a stale batch\<close>

lemma touched_ok: "coop_ok t \<Longrightarrow> x \<in> set (t_subs t) \<Longrightarrow> coop_ok (touched ctx x t)"
  using coop_touch[of t "on_row (sub_queue x) (sub_consumer x)" "pg_now ctx"]
    set_sub_row[OF coop_okD(3), of t x t "\<lambda>y. y\<lparr>sub_active := pg_now ctx\<rparr>"] by (simp add: touched_def)

lemma stale_sibling_touched:
  assumes "sub_queue x = sub_queue m"
  shows "stale_sibling ctx d m (x\<lparr>sub_active := a\<rparr>) (touched ctx x t) = stale_sibling ctx d m x t"
proof -
  let ?P = "\<lambda>v. sub_queue v = sub_queue m \<and> sub_id v = sub_id m \<and> sub_role v = Role_coop_member
      \<and> sub_consumer v \<noteq> sub_consumer x \<and> sub_batch v \<noteq> None \<and> sub_active v < pg_now ctx - d"
  have "filter ?P (upd_key (sub_key x) (\<lambda>y. y\<lparr>sub_active := pg_now ctx\<rparr>) S) = filter ?P S" for S
    by (induction S) (auto simp: upd_key_def sub_key_def assms)
  then show ?thesis by (simp add: stale_sibling_def touched_def)
qed

lemma batch_rows_same:
  assumes "find_batch b u = Some x" "find_batch c t = Some y"
    and "sub_queue x = sub_queue y" "sub_id x = sub_id y" "sub_last_tick x = sub_last_tick y" "sub_next_tick x = sub_next_tick y"
    and "t_ticks u = t_ticks t" "t_queues u = t_queues t"
  shows "batch_rows b u = batch_rows c t"
proof -
  have "find_tick q i u = find_tick q i t" for q i using assms(7) by (simp add: find_tick_def cong: option.case_cong)
  then show ?thesis using assms by (simp add: batch_rows_def split: option.split)
qed

text \<open>The batch of \<open>v\<close>, taken over by \<open>x\<close>: the same events under a new number.\<close>

lemma takeover_rows:
  assumes ok: "coop_ok t" and x: "x \<in> set (t_subs t)" "sub_role x = Role_coop_member"
    and v: "v \<in> set (t_subs t)" "v \<noteq> x" "sub_role v = Role_coop_member" "sub_id v = sub_id x" "sub_batch v = Some old"
  obtains t' b where "takeover ctx x v t = (t', Inr (Some b))" "b \<noteq> old" "batch_rows b t' = batch_rows old t"
    "find_batch old t' = None"
proof -
  let ?S = "t_subs t"
  note g = coop_okD(4)[OF ok] and d = coop_okD(5)[OF ok] and sok = coop_okD(3)[OF ok]
  obtain p k where w: "sub_last_tick v = Some p" "sub_next_tick v = Some k" using batch_windows[OF g v(1)] v(5) by auto
  define b where "b = sq_next (s_batch t)"
  let ?f = "held ctx (Some p) (Some k) b"
  let ?t = "t\<lparr>s_batch := sq_set b, t_subs := upd_key (sub_key v) (cleared ctx) (upd_key (sub_key x) ?f ?S)\<rparr>"
  have tk: "takeover ctx x v t = (?t, Inr (Some b))"
    using takeover_state[OF sok x(1) v(1,2), of ctx] w by (simp add: b_def)
  have "coop_ok ?t" using takeover_ok[OF ok x v(1-4) _ tk] v(5) by simp
  note sok' = coop_okD(3)[OF this]
  have d1: "distinct (map sub_key (upd_key (sub_key x) ?f ?S))" using d by (simp add: upd_key_keys)
  note set1 = upd_key_set[OF d x(1) refl, of ?f]
  have v1: "v \<in> set (upd_key (sub_key x) ?f ?S)" using upd_key_other[OF d x(1) v(1,2)] .
  note set2 = upd_key_set[OF d1 v1 refl, of "cleared ctx", unfolded set1]
  have "?f x \<noteq> v" using v(5) subs_ok_fresh[OF sok v(1)] by (auto simp: b_def dest: arg_cong[where f = sub_batch])
  then have fb: "find_batch b ?t = Some (?f x)" using find_batch_iff[OF sok', of b "?f x"] set2 by simp
  have ne: "b \<noteq> old" using subs_ok_fresh[OF sok v(1)] v(5) by (auto simp: b_def)
  have "sub_batch y \<noteq> Some old" if "y \<in> set (t_subs ?t)" for y
    using that set2 ne subs_ok_batch_unique[OF sok _ v(1) _ v(5)] by auto
  then have none: "find_batch old ?t = None" by (auto simp: find_batch_def find_None_iff)
  have "find_batch old t = Some v" using find_batch_iff[OF sok] v(1,5) by blast
  then have "batch_rows b ?t = batch_rows old t"
    using w v(4) groups_queue[OF g x(1) v(1)] by (intro batch_rows_same[OF fb, of old t v]) simp_all
  with that tk ne none show thesis by blast
qed

lemma receive_coop_batch:
  assumes "next_batch_coop ctx q c sub dead t = (t', Inr (Some b))" "batch_rows b t' = Some es" "es \<noteq> []" "int (length es) \<le> n"
  shows "pg_receive_coop ctx q c sub n dead t = (t', Inr (map (to_message b) es))"
proof -
  have n: "\<not> n < 1" using assms(3,4) by (cases es) auto
  then have "receive_coop_loop b n 0 es t' = (t', Inr (map (to_message b) es))"
    using receive_coop_loop_eq[of 0 n b es t'] assms(4) by simp
  then show ?thesis using n assms
    by (simp add: pg_receive_coop_def sql_bind_def get_batch_events_eq sql_return_def del: receive_coop_loop.simps)
qed


end
