(* ===== verification/CoopRefinement.thy ===== *)
theory CoopRefinement
  imports CoopDelivery
begin

text \<open>
  What a cooperative group is for its members: a position in the queue and a window per
  member. The SQL functions implement three abstract steps on it: resume, take over and take
  the next window.
\<close>

section \<open>The abstract group\<close>

record coop_group =
  g_pos :: "int option"
  g_windows :: "int \<Rightarrow> (int \<times> int) option"

text \<open>
  Member \<open>cid\<close> asks for a window. \<open>stale\<close> names the sibling to take over from and \<open>next\<close> the
  tick that follows a position.
\<close>

definition group_receive :: "(int \<Rightarrow> int option) \<Rightarrow> int option \<Rightarrow> int \<Rightarrow> coop_group
    \<Rightarrow> coop_group \<times> (int \<times> int) option" where
  "group_receive next stale cid g = (case g_windows g cid of
      Some w \<Rightarrow> (g, Some w)
    | None \<Rightarrow> (case stale of
        Some v \<Rightarrow> (g\<lparr>g_windows := (g_windows g)(cid := g_windows g v, v := None)\<rparr>, g_windows g v)
      | None \<Rightarrow> (case g_pos g of
          None \<Rightarrow> (g, None)
        | Some p \<Rightarrow> (case next p of
            None \<Rightarrow> (g, None)
          | Some k \<Rightarrow> (g\<lparr>g_pos := Some k, g_windows := (g_windows g)(cid \<mapsto> (p, k))\<rparr>, Some (p, k))))))"

definition group_finish :: "int \<Rightarrow> coop_group \<Rightarrow> coop_group" where
  "group_finish cid g = g\<lparr>g_windows := (g_windows g)(cid := None)\<rparr>"

section \<open>The group in the tables\<close>

definition row_window :: "sub_row \<Rightarrow> (int \<times> int) option" where
  "row_window r = (case (sub_batch r, sub_last_tick r, sub_next_tick r) of
      (Some _, Some p, Some k) \<Rightarrow> Some (p, k) | _ \<Rightarrow> None)"

definition main_in :: "int \<Rightarrow> int \<Rightarrow> sub_row \<Rightarrow> bool" where
  "main_in qid sid r \<longleftrightarrow> sub_queue r = qid \<and> sub_id r = sid \<and> sub_role r = Role_coop_main"

definition member_in :: "int \<Rightarrow> int \<Rightarrow> int \<Rightarrow> sub_row \<Rightarrow> bool" where
  "member_in qid sid cid r \<longleftrightarrow> sub_queue r = qid \<and> sub_consumer r = cid \<and> sub_id r = sid \<and> sub_role r = Role_coop_member"

definition rows_group :: "int \<Rightarrow> int \<Rightarrow> sub_row list \<Rightarrow> coop_group" where
  "rows_group qid sid S =
     \<lparr>g_pos = Option.bind (find (main_in qid sid) S) sub_last_tick,
      g_windows = (\<lambda>cid. Option.bind (find (member_in qid sid cid) S) row_window)\<rparr>"

definition abs_group :: "sub_row \<Rightarrow> db \<Rightarrow> coop_group" where
  "abs_group m t = rows_group (sub_queue m) (sub_id m) (t_subs t)"

definition batch_window :: "int \<Rightarrow> db \<Rightarrow> (int \<times> int) option" where
  "batch_window b t = Option.bind (find_batch b t) row_window"

lemma find_upd_key:
  "(\<And>y. P (if sub_key y = k then f y else y) = P y) \<Longrightarrow>
     find P (upd_key k f S) = map_option (\<lambda>y. if sub_key y = k then f y else y) (find P S)"
  by (simp add: upd_key_def find_map comp_def)

lemma member_found:
  assumes "distinct (map sub_key S)" "x \<in> set S" "member_in qid sid cid x"
  shows "find (member_in qid sid cid) S = Some x"
  by (rule find_key[where P = "member_in qid sid cid", OF assms]) (use assms(3) in \<open>auto simp: member_in_def sub_key_def\<close>)

lemma main_found:
  assumes "groups n S" "distinct (map sub_key S)" "m \<in> set S" "main_in qid sid m"
  shows "find (main_in qid sid) S = Some m"
proof (rule find_unique[where P = "main_in qid sid", OF assms(3,4)])
  fix y assume y: "y \<in> set S" "main_in qid sid y"
  have "sub_key y = sub_key m"
    using groups_pair[OF assms(1) y(1) assms(3)] y(2) assms(4) by (auto simp: pair_ok_def main_in_def)
  then show "y = m" by (rule distinct_keyD[OF assms(2) y(1) assms(3)])
qed

text \<open>A change of the row of a member, and of the main row.\<close>

lemma group_upd_member:
  assumes d: "distinct (map sub_key S)" and x: "x \<in> set S" "member_in qid sid cid x"
    and f: "\<And>y. sub_key (f y) = sub_key y" "\<And>y. sub_id (f y) = sub_id y" "\<And>y. sub_role (f y) = sub_role y"
  shows "rows_group qid sid (upd_key (sub_key x) f S) =
    (rows_group qid sid S)\<lparr>g_windows := (g_windows (rows_group qid sid S))(cid := row_window (f x))\<rparr>"
proof -
  have ff: "sub_queue (f y) = sub_queue y" "sub_consumer (f y) = sub_consumer y" for y
    using f(1)[of y] by (simp_all add: sub_key_def)
  have main: "find (main_in qid sid) (upd_key (sub_key x) f S) = find (main_in qid sid) S"
  proof -
    have "(if sub_key y = sub_key x then f y else y) = y" if "find (main_in qid sid) S = Some y" for y
      using that x distinct_keyD[OF d _ x(1), of y] by (auto simp: main_in_def member_in_def dest!: find_SomeD)
    then show ?thesis
      by (subst find_upd_key) (auto simp: main_in_def f ff map_option_case split: option.splits)
  qed
  have mem: "find (member_in qid sid j) (upd_key (sub_key x) f S) =
      (if j = cid then Some (f x) else find (member_in qid sid j) S)" for j
  proof -
    have e: "find (member_in qid sid j) (upd_key (sub_key x) f S) =
        map_option (\<lambda>y. if sub_key y = sub_key x then f y else y) (find (member_in qid sid j) S)"
      by (rule find_upd_key) (auto simp: member_in_def f ff)
    show ?thesis
    proof (cases "j = cid")
      case True
      then show ?thesis using e member_found[OF d x] by simp
    next
      case False
      then have "sub_key y \<noteq> sub_key x" if "find (member_in qid sid j) S = Some y" for y
        using that x(2) by (auto simp: member_in_def sub_key_def dest!: find_SomeD)
      with False e show ?thesis by (cases "find (member_in qid sid j) S") simp_all
    qed
  qed
  show ?thesis by (simp add: rows_group_def main mem fun_eq_iff)
qed

lemma group_upd_main:
  assumes g: "groups n S" and d: "distinct (map sub_key S)" and m: "m \<in> set S" "main_in qid sid m"
    and f: "\<And>y. sub_key (f y) = sub_key y" "\<And>y. sub_id (f y) = sub_id y" "\<And>y. sub_role (f y) = sub_role y"
  shows "rows_group qid sid (upd_key (sub_key m) f S) = (rows_group qid sid S)\<lparr>g_pos := sub_last_tick (f m)\<rparr>"
proof -
  have ff: "sub_queue (f y) = sub_queue y" "sub_consumer (f y) = sub_consumer y" for y
    using f(1)[of y] by (simp_all add: sub_key_def)
  have main: "find (main_in qid sid) (upd_key (sub_key m) f S) = Some (f m)"
    using main_found[OF g d m] by (subst find_upd_key) (auto simp: main_in_def f ff)
  have mem: "find (member_in qid sid j) (upd_key (sub_key m) f S) = find (member_in qid sid j) S" for j
  proof -
    have "sub_key y \<noteq> sub_key m" if "find (member_in qid sid j) S = Some y" for y
      using that m distinct_keyD[OF d _ m(1), of y] by (auto simp: main_in_def member_in_def dest!: find_SomeD)
    moreover have "find (member_in qid sid j) (upd_key (sub_key m) f S) =
        map_option (\<lambda>y. if sub_key y = sub_key m then f y else y) (find (member_in qid sid j) S)"
      by (rule find_upd_key) (auto simp: member_in_def f ff)
    ultimately show ?thesis by (cases "find (member_in qid sid j) S") simp_all
  qed
  show ?thesis by (simp add: rows_group_def main mem)
qed

section \<open>The functions implement the steps\<close>

definition next_tick :: "int \<Rightarrow> db \<Rightarrow> int \<Rightarrow> int option" where
  "next_tick qid t p = map_option tick_id (min_tick qid (\<lambda>k. p < tick_id k) t)"

definition stale_member :: "pgctx \<Rightarrow> int option \<Rightarrow> sub_row \<Rightarrow> sub_row \<Rightarrow> db \<Rightarrow> int option" where
  "stale_member ctx dead m x t = (case dead of None \<Rightarrow> None
     | Some d \<Rightarrow> map_option sub_consumer (stale_sibling ctx d m x t))"

lemma rows_group_member:
  assumes "distinct (map sub_key S)" "x \<in> set S" "member_in qid sid cid x"
  shows "g_windows (rows_group qid sid S) cid = row_window x"
  using member_found[OF assms] by (simp add: rows_group_def)

lemma rows_group_pos:
  assumes "groups n S" "distinct (map sub_key S)" "m \<in> set S" "main_in qid sid m"
  shows "g_pos (rows_group qid sid S) = sub_last_tick m"
  using main_found[OF assms] by (simp add: rows_group_def)

lemma group_touched:
  assumes "coop_ok t" "x \<in> set (t_subs t)" "sub_role x = Role_coop_member" "sub_id x = sub_id m" "sub_queue x = sub_queue m"
  shows "abs_group m (touched ctx x t) = abs_group m t"
proof -
  have x: "member_in (sub_queue m) (sub_id m) (sub_consumer x) x" using assms by (simp add: member_in_def)
  note d = coop_okD(5)[OF assms(1)]
  have "row_window (x\<lparr>sub_active := a\<rparr>) = row_window x" for a by (simp add: row_window_def)
  then show ?thesis
    using group_upd_member[OF d assms(2) x, of "\<lambda>y. y\<lparr>sub_active := pg_now ctx\<rparr>"] rows_group_member[OF d assms(2) x]
    by (simp add: abs_group_def touched_def sub_key_def fun_upd_idem)
qed

lemma member_row_window:
  "coop_ok t \<Longrightarrow> x \<in> set (t_subs t) \<Longrightarrow> sub_batch x = Some b \<Longrightarrow> batch_window b t = row_window x \<and> row_window x \<noteq> None"
  using find_batch_iff[of t b x] batch_windows[of "sq_next (s_sub t)" "t_subs t" x] coop_okD[of t]
  by (auto simp: batch_window_def row_window_def)

lemma resume_refines:
  assumes ok: "coop_ok t" and r: "member_in (sub_queue m) (sub_id m) cid x" "x \<in> set (t_subs t)" "sub_batch x = Some b"
    and mb: "member_batch ctx q c dead m x t = (t', r)"
  shows "r = Inr (Some b) \<and> group_receive next stale cid (abs_group m t) = (abs_group m t', batch_window b t')"
proof -
  have t': "t' = touched ctx x t" "r = Inr (Some b)"
    using mb r(3) set_sub_row[OF coop_okD(3)[OF ok] r(2) refl, of "\<lambda>y. y\<lparr>sub_active := pg_now ctx\<rparr>"]
    by (auto simp: member_batch_def sql_bind_def sql_return_def touched_def)
  let ?x = "x\<lparr>sub_active := pg_now ctx\<rparr>"
  have x': "?x \<in> set (t_subs t')"
    using upd_key_set[OF coop_okD(5)[OF ok] r(2) refl, of "\<lambda>y. y\<lparr>sub_active := pg_now ctx\<rparr>"] by (simp add: t' touched_def)
  have ok': "coop_ok t'" unfolding t' by (rule touched_ok[OF ok r(2)])
  have w: "batch_window b t' = row_window x" "row_window x \<noteq> None"
    using member_row_window[OF ok' x'] member_row_window[OF ok r(2,3)] r(3) by (simp_all add: row_window_def)
  have "abs_group m t' = abs_group m t"
    unfolding t' by (rule group_touched[OF ok r(2)]) (use r(1) in \<open>simp_all add: member_in_def\<close>)
  moreover have "g_windows (abs_group m t) cid = row_window x"
    unfolding abs_group_def by (rule rows_group_member[OF coop_okD(5)[OF ok] r(2,1)])
  ultimately show ?thesis using w t' by (auto simp: group_receive_def)
qed

lemma takeover_refines:
  assumes ok: "coop_ok t" and x: "member_in (sub_queue m) (sub_id m) cid x" "x \<in> set (t_subs t)" "sub_batch x = None"
    and v: "member_in (sub_queue m) (sub_id m) (sub_consumer v) v" "v \<in> set (t_subs t)" "sub_batch v \<noteq> None" "v \<noteq> x"
    and tk: "takeover ctx x v t = (t', r)"
  shows "\<exists>b. r = Inr (Some b) \<and> group_receive next (Some (sub_consumer v)) cid (abs_group m t) = (abs_group m t', batch_window b t')"
proof -
  note d = coop_okD(5)[OF ok] and sok = coop_okD(3)[OF ok]
  obtain p k where w: "sub_last_tick v = Some p" "sub_next_tick v = Some k" using batch_windows[OF coop_okD(4)[OF ok] v(2)] v(3) by auto
  define b where "b = sq_next (s_batch t)"
  let ?S1 = "upd_key (sub_key x) (held ctx (Some p) (Some k) b) (t_subs t)"
  let ?S2 = "upd_key (sub_key v) (cleared ctx) ?S1"
  have t': "t' = t\<lparr>s_batch := sq_set b, t_subs := ?S2\<rparr>" "r = Inr (Some b)"
    using tk takeover_state[OF sok x(2) v(2,4), of ctx] w by (simp_all add: b_def)
  have ok': "coop_ok t'"
    by (rule takeover_ok[OF ok x(2) _ v(2,4) _ _ v(3) tk]) (use x(1) v(1) in \<open>simp_all add: member_in_def\<close>)
  have d1: "distinct (map sub_key ?S1)" using d by (simp add: upd_key_keys)
  have v1: "v \<in> set ?S1" using upd_key_other[OF d x(2) v(2,4)] .
  have "held ctx (Some p) (Some k) b x \<noteq> v"
    using v(3) subs_ok_fresh[OF sok v(2)] by (auto simp: b_def dest: arg_cong[where f = sub_batch])
  then have h: "held ctx (Some p) (Some k) b x \<in> set ?S2"
    using upd_key_set[OF d1 v1 refl, of "cleared ctx"] upd_key_set[OF d x(2) refl, of "held ctx (Some p) (Some k) b"] by simp
  have bw: "batch_window b t' = Some (p, k)"
    using member_row_window[OF ok', of "held ctx (Some p) (Some k) b x" b] h by (simp add: t' row_window_def)
  have ne: "cid \<noteq> sub_consumer v"
    using distinct_keyD[OF d x(2) v(2)] v(4) x(1) v(1) by (auto simp: member_in_def sub_key_def)
  have a: "abs_group m t' = (abs_group m t)\<lparr>g_windows := (g_windows (abs_group m t))(cid := Some (p, k), sub_consumer v := None)\<rparr>"
    using group_upd_member[OF d1 v1 v(1), of "cleared ctx"] group_upd_member[OF d x(2,1), of "held ctx (Some p) (Some k) b"]
    by (simp add: abs_group_def t' row_window_def)
  have "g_windows (abs_group m t) cid = None"
    unfolding abs_group_def using rows_group_member[OF d x(2,1)] x(3) by (simp add: row_window_def)
  moreover have "g_windows (abs_group m t) (sub_consumer v) = Some (p, k)"
    unfolding abs_group_def using rows_group_member[OF d v(2,1)] v(3) w by (auto simp: row_window_def)
  ultimately show ?thesis using a bw t' by (simp add: group_receive_def)
qed

lemma allocate_refines:
  assumes ok: "coop_ok t" and x: "member_in (sub_queue m) (sub_id m) cid x" "x \<in> set (t_subs t)" "sub_batch x = None"
    and m: "m \<in> set (t_subs t)" "sub_role m = Role_coop_main"
    and al: "allocate ctx q c m x t = (t', Inr bo)"
  shows "group_receive (next_tick (sub_queue m) t) None cid (abs_group m t) =
    (abs_group m t', case bo of None \<Rightarrow> None | Some b \<Rightarrow> batch_window b t')"
proof -
  note d = coop_okD(5)[OF ok] and g = coop_okD(4)[OF ok]
  have mi: "main_in (sub_queue m) (sub_id m) m" using m by (simp add: main_in_def)
  have xm: "x \<noteq> m" using m(2) x(1) by (auto simp: member_in_def)
  have none: "g_windows (abs_group m t) cid = None"
    unfolding abs_group_def using rows_group_member[OF d x(2,1)] x(3) by (simp add: row_window_def)
  have pos: "g_pos (abs_group m t) = sub_last_tick m"
    unfolding abs_group_def by (rule rows_group_pos[OF g d m(1) mi])
  show ?thesis
  proof (cases rule: allocate_state[OF coop_okD(3)[OF ok] m(1) x(2) xm al])
    case 1
    then have bo: "bo = None" by (cases bo) auto
    with al obtain p where "sub_last_tick m = Some p" "next_tick (sub_queue m) t p = None"
      by (auto simp: allocate_def sql_bind_def sql_read_def sql_return_def pg_raise_def next_tick_def nextval_batch_def
          set_sub_def sql_update_def give_window_def split: option.splits)
    with 1 bo none pos show ?thesis by (simp add: group_receive_def)
  next
    case (2 p prev cur)
    let ?b = "sq_next (s_batch t)" and ?k = "tick_id cur"
    let ?S1 = "upd_key (sub_key m) (moved ctx ?k) (t_subs t)"
    have d1: "distinct (map sub_key ?S1)" using d by (simp add: upd_key_keys)
    have x1: "x \<in> set ?S1" using upd_key_other[OF d m(1) x(2) xm] .
    have ok': "coop_ok t'"
      by (rule allocate_ok[OF ok m x(2) _ _ al]) (use x(1) in \<open>simp_all add: member_in_def\<close>)
    have "held ctx (Some p) (Some ?k) ?b x \<in> set (t_subs t')"
      using upd_key_set[OF d1 x1 refl, of "held ctx (Some p) (Some ?k) ?b"] by (simp add: 2(5))
    then have bw: "batch_window ?b t' = Some (p, ?k)"
      using member_row_window[OF ok'] by (fastforce simp: row_window_def)
    have "abs_group m t' = (abs_group m t)\<lparr>g_pos := Some ?k, g_windows := (g_windows (abs_group m t))(cid \<mapsto> (p, ?k))\<rparr>"
      using group_upd_member[OF d1 x1 x(1), of "held ctx (Some p) (Some ?k) ?b"] group_upd_main[OF g d m(1) mi, of "moved ctx ?k"]
      by (simp add: abs_group_def 2(5) row_window_def)
    with 2 none pos bw show ?thesis by (simp add: group_receive_def next_tick_def)
  qed
qed

text \<open>
  Claim C10. The cooperative functions refine a group of workers with one position and a window each:
  whenever \<open>next_batch\<close> returns for a registered member, its effect on the group and the
  window of the batch it returns are those of the abstract step (resume the own window, else
  take over the stale sibling's, else take the window up to the next tick and move on), and
  finishing the batch gives the window back and changes nothing else.
\<close>

theorem coop_group_refines:
  assumes "db_ok t" "groups_ok t" "registered q c sub t m x"
  shows "(case next_batch_coop ctx q c sub dead t of
       (t', Inl e) \<Rightarrow> True
     | (t', Inr bo) \<Rightarrow> group_receive (next_tick (sub_queue m) t) (stale_member ctx dead m x t) (sub_consumer x) (abs_group m t) =
         (abs_group m t', case bo of None \<Rightarrow> None | Some b \<Rightarrow> batch_window b t'))
     \<and> (case sub_batch x of None \<Rightarrow> True | Some b \<Rightarrow>
          abs_group m (fst (finish_batch ctx b t)) = group_finish (sub_consumer x) (abs_group m t))"
proof
  have ok: "coop_ok t" using assms(1,2) by (simp add: coop_ok_def)
  note D = registeredD[OF assms(3)] and sok = coop_okD(3)[OF ok]
  let ?x = "x\<lparr>sub_active := pg_now ctx\<rparr>" and ?u = "touched ctx x t"
  have uok: "coop_ok ?u" by (rule touched_ok[OF ok D(3)])
  have au: "abs_group m ?u = abs_group m t" by (rule group_touched[OF ok D(3-6)])
  have xm: "coop_main q c ?u = Some m" "coop_member m (member_name c sub) ?u = Some ?x"
    using touched_registered[OF sok assms(3), of ctx] by (simp_all add: registered_def)
  have x: "member_in (sub_queue m) (sub_id m) (sub_consumer x) ?x" "?x \<in> set (t_subs ?u)"
    using coop_member_mem[OF xm(2)] D by (simp_all add: member_in_def)
  have m: "m \<in> set (t_subs ?u)" "sub_role m = Role_coop_main" using coop_main_mem[OF xm(1)] by simp_all
  have nt: "next_tick i ?u = next_tick i t" for i
    by (rule ext) (simp add: next_tick_def min_tick_def touched_def cong: list.case_cong)
  note nb = next_batch_registered[OF sok assms(3), of ctx dead]
  show "case next_batch_coop ctx q c sub dead t of (t', Inl e) \<Rightarrow> True
     | (t', Inr bo) \<Rightarrow> group_receive (next_tick (sub_queue m) t) (stale_member ctx dead m x t) (sub_consumer x) (abs_group m t) =
         (abs_group m t', case bo of None \<Rightarrow> None | Some b \<Rightarrow> batch_window b t')"
  proof -
    obtain t' r where mb: "member_batch ctx q c dead m ?x ?u = (t', r)" by fastforce
    show ?thesis
    proof (cases "sub_batch x")
      case (Some b)
      then have "sub_batch ?x = Some b" by simp
      from resume_refines[OF uok x this mb] nb mb au show ?thesis by simp
    next
      case None
      then have xn: "sub_batch ?x = None" by simp
      show ?thesis
      proof (cases "case dead of None \<Rightarrow> None | Some d \<Rightarrow> stale_sibling ctx d m ?x ?u")
        case (Some v)
        then obtain dd where st: "dead = Some dd" "stale_sibling ctx dd m ?x ?u = Some v" by (cases dead) auto
        note vm = stale_sibling_mem[OF st(2)]
        have tk: "takeover ctx ?x v ?u = (t', r)" using mb xn Some by (simp add: member_batch_def sql_bind_def sql_read_def)
        have v: "member_in (sub_queue m) (sub_id m) (sub_consumer v) v" "v \<noteq> ?x" using vm by (auto simp: member_in_def)
        have "stale_member ctx dead m x t = Some (sub_consumer v)"
          using st stale_sibling_touched[OF D(6), of ctx dd "pg_now ctx" t] by (simp add: stale_member_def)
        with takeover_refines[OF uok x xn v(1) conjunct1[OF vm] _ v(2) tk, of "next_tick (sub_queue m) t"] vm nb mb au
        show ?thesis by auto
      next
        case N: None
        have al: "allocate ctx q c m ?x ?u = (t', r)" using mb xn N by (simp add: member_batch_def sql_bind_def sql_read_def)
        have "stale_member ctx dead m x t = None"
          using N stale_sibling_touched[OF D(6), of ctx _ "pg_now ctx" t] by (auto simp: stale_member_def split: option.splits)
        with allocate_refines[OF uok x xn m, of ctx q c t'] al nb mb au nt show ?thesis by (cases r) auto
      qed
    qed
  qed
  show "case sub_batch x of None \<Rightarrow> True | Some b \<Rightarrow>
      abs_group m (fst (finish_batch ctx b t)) = group_finish (sub_consumer x) (abs_group m t)"
  proof (cases "sub_batch x")
    case (Some b)
    then have fb: "find_batch b t = Some x" using find_batch_iff[OF sok] D(3) by blast
    have xi: "member_in (sub_queue m) (sub_id m) (sub_consumer x) x" using D by (simp add: member_in_def)
    have "finish_batch ctx b t = (t\<lparr>t_subs := upd_key (sub_key x) (cleared ctx) (t_subs t)\<rparr>, Inr 1)"
      using fb D(4) clear_eq[OF sok D(3) refl, of ctx]
      by (simp add: finish_batch_def sql_bind_def sql_read_def sql_return_def clear_member_cursor_def on_row_def[abs_def])
    with Some group_upd_member[OF coop_okD(5)[OF ok] D(3) xi, of "cleared ctx"] show ?thesis
      by (simp add: abs_group_def group_finish_def row_window_def)
  qed simp
qed

end
