(* ===== verification/CoopLeave.thy ===== *)
theory CoopLeave
  imports CoopRefinement
begin

text \<open>A member leaves its group with a batch in hand: every event of the batch is kept.\<close>

section \<open>Settling the events of a batch\<close>

definition tables_grow :: "db \<Rightarrow> db \<Rightarrow> bool" where
  "tables_grow t t' \<longleftrightarrow> same_batches t t' \<and> set (t_retry t) \<subseteq> set (t_retry t') \<and> set (t_dead t) \<subseteq> set (t_dead t')"

lemma same_batches_trans: "same_batches t u \<Longrightarrow> same_batches u v \<Longrightarrow> same_batches t v"
  by (simp add: same_batches_def)

lemma settled_mono: "settled_event s i t \<Longrightarrow> tables_grow t u \<Longrightarrow> settled_event s i u"
  using same_batches_facts(5)[of t u s] by (auto simp: settled_event_def tables_grow_def)

lemma settle_event:
  assumes "find_batch b t = Some s" "batch_rows b t = Some evs" "distinct (map ev_id evs)" "e \<in> set evs"
  obtains t' v where "(if limit \<le> (case ev_retry e of None \<Rightarrow> 0 | Some n \<Rightarrow> n)
      then event_dead ctx b e (Some ''subconsumer unregistered'') else event_retry ctx b (ev_id e) 60) t = (t', Inr v)"
    "tables_grow t t'" "settled_event s (ev_id e) t'"
proof (cases "limit \<le> (case ev_retry e of None \<Rightarrow> 0 | Some n \<Rightarrow> n)")
  case True
  let ?m = "event_dead ctx b e (Some ''subconsumer unregistered'')"
  have "snd (?m t) = Inr 1"
    using assms(1) by (simp add: event_dead_def sql_bind_def sql_read_def sql_return_def sql_update_def nextval_dead_def)
  then have m: "?m t = (fst (?m t), Inr 1)" by (metis prod.collapse)
  from that[OF _ _ ] event_dead_spec[OF m assms(1)] m True show thesis by (auto simp: tables_grow_def)
next
  case False
  let ?m = "event_retry ctx b (ev_id e) 60"
  have f: "filter (\<lambda>x. ev_id x = ev_id e) evs = [e]" using filter_single[OF assms(3,4)] .
  let ?dup = "\<exists>r\<in>set (t_retry t). ev_owner (rq_event r) = Some (sub_id s) \<and> ev_id (rq_event r) = ev_id e"
  obtain v where "snd (?m t) = Inr v"
    using assms(1,2) f
    by (cases ?dup) (simp_all add: event_retry_def sql_bind_def get_batch_events_eq sql_read_def sql_return_def sql_update_def)
  then have m: "?m t = (fst (?m t), Inr v)" by (metis prod.collapse)
  from event_retry_spec[OF m assms(1-4) refl] m False show thesis
    by (intro that[of "fst (?m t)" v]) (simp_all add: tables_grow_def)
qed

lemma settle_events_spec:
  assumes "find_batch b t = Some s" "batch_rows b t = Some evs" "distinct (map ev_id evs)" "set es \<subseteq> set evs"
  shows "\<exists>t'. settle_events ctx b limit es t = (t', Inr ()) \<and> tables_grow t t' \<and> (\<forall>e\<in>set es. settled_event s (ev_id e) t')"
  using assms
proof (induction es arbitrary: t)
  case Nil
  then show ?case by (simp add: sql_return_def tables_grow_def same_batches_def)
next
  case (Cons e es)
  have "e \<in> set evs" using Cons.prems(4) by simp
  then obtain u v where u: "(if limit \<le> (case ev_retry e of None \<Rightarrow> 0 | Some n \<Rightarrow> n)
      then event_dead ctx b e (Some ''subconsumer unregistered'') else event_retry ctx b (ev_id e) 60) t = (u, Inr v)"
    "tables_grow t u" "settled_event s (ev_id e) u"
    by (rule settle_event[OF Cons.prems(1-3)])
  have "find_batch b u = Some s" "batch_rows b u = Some evs"
    using same_batches_facts[of t u] u(2) Cons.prems(1,2) by (simp_all add: tables_grow_def)
  from Cons.IH[OF this Cons.prems(3)] Cons.prems(4) obtain w where
    w: "settle_events ctx b limit es u = (w, Inr ())" "tables_grow u w" "\<forall>e\<in>set es. settled_event s (ev_id e) w" by auto
  have "settle_events ctx b limit (e # es) t = (w, Inr ())" using u(1) w(1) by (simp add: sql_bind_def)
  moreover have "tables_grow t w" using u(2) w(2) same_batches_trans by (auto simp: tables_grow_def)
  ultimately show ?case using settled_mono[OF u(3) w(2)] w(3) by auto
qed

section \<open>The member is removed\<close>

text \<open>Of the tables besides the subscriptions, only dead letters of the removed consumer go.\<close>

lemma remove_member_tables:
  "\<exists>t'. remove_member ctx m x t = (t', Inr 1) \<and> t_retry t' = t_retry t
     \<and> {r \<in> set (t_dead t). dl_consumer_id r \<noteq> sub_consumer x} \<subseteq> set (t_dead t')
     \<and> sub_of (sub_queue x) (sub_consumer x) t' = None"
proof -
  let ?S1 = "filter (\<lambda>y. \<not> on_row (sub_queue x) (sub_consumer x) y) (t_subs t)"
  let ?f = "\<lambda>y. if on_row (sub_queue m) (sub_consumer m) y \<and> sub_role y = Role_coop_main
      then y\<lparr>sub_role := Role_normal, sub_active := pg_now ctx\<rparr> else y"
  obtain u where u: "drop_consumer (sub_consumer x) (t\<lparr>t_subs := ?S1\<rparr>) = (u, Inr ())" "t_subs u = ?S1" "t_retry u = t_retry t"
    "{r \<in> set (t_dead t). dl_consumer_id r \<noteq> sub_consumer x} \<subseteq> set (t_dead u)"
    by (auto simp: drop_consumer_def sql_update_def)
  have none: "find (on_row (sub_queue x) (sub_consumer x)) ?S1 = None" by (simp add: find_None_iff)
  have "find (on_row (sub_queue x) (sub_consumer x)) (map ?f ?S1) = None" by (auto simp: find_None_iff on_row_def)
  with none u show ?thesis
    by (auto simp: remove_member_def sql_bind_def delete_subs_def sql_update_def any_sub_def sql_read_def
        set_sub_def sql_return_def sub_of_def)
qed

lemma dead_of_main:
  assumes "coop_ok t" "m \<in> set (t_subs t)" "sub_role m = Role_coop_main" "sub_role x = Role_coop_member"
    and "sub_id x = sub_id m" "sub_queue x = sub_queue m"
  shows "dead_consumer x t = sub_consumer m"
proof -
  have "(\<lambda>r. sub_id r = sub_id x \<and> sub_queue r = sub_queue x \<and> sub_role r = Role_coop_main) = main_in (sub_queue m) (sub_id m)"
    using assms(5,6) by (auto simp: main_in_def)
  moreover have "find (main_in (sub_queue m) (sub_id m)) (t_subs t) = Some m"
    by (rule main_found[OF coop_okD(4,5)[OF assms(1)] assms(2)]) (use assms(3) in \<open>simp add: main_in_def\<close>)
  ultimately show ?thesis using assms(4) by (simp add: dead_consumer_def)
qed

text \<open>
  Claim C11. A worker that is removed with \<open>batch_handling = 1\<close> loses no message: every event of its
  open batch is queued for retry by the group or is a dead letter of the main consumer, also
  when the worker's consumer row goes and takes its own dead letters with it.
\<close>

theorem unsubscribe_settles_batch:
  assumes "db_ok t" "groups_ok t" "registered q c sub t m x" "sub_batch x = Some b"
    and "batch_rows b t = Some es" "distinct (map ev_id es)"
  shows "\<exists>t'. pg_unsubscribe_subconsumer ctx q c sub 1 t = (t', Inr 1)
    \<and> sub_of (sub_queue x) (sub_consumer x) t' = None \<and> (\<forall>e\<in>set es. settled_event m (ev_id e) t')"
proof -
  have ok: "coop_ok t" using assms(1,2) by (simp add: coop_ok_def)
  note D = registeredD[OF assms(3)] and sok = coop_okD(3)[OF ok]
  let ?l = "case find_queue q t of None \<Rightarrow> 5 | Some r \<Rightarrow> (case queue_max_retries r of None \<Rightarrow> 5 | Some n \<Rightarrow> n)"
  have fb: "find_batch b t = Some x" using find_batch_iff[OF sok] D(3) assms(4) by blast
  obtain u where u: "settle_events ctx b ?l es t = (u, Inr ())" "tables_grow t u" "\<forall>e\<in>set es. settled_event x (ev_id e) u"
    using settle_events_spec[OF fb assms(5,6) order_refl] by blast
  have uok: "coop_ok u" using coop_frames[OF frames_settle keeps_settle ok u(1)] .
  have us: "t_subs u = t_subs t" using u(2) by (simp add: tables_grow_def same_batches_def)
  let ?w = "u\<lparr>t_subs := upd_key (sub_key x) (cleared ctx) (t_subs u)\<rparr>"
  have rel: "release_member ctx q c sub 1 ?l x t = (?w, Inr ())"
    using assms(4,5) u(1) clear_eq[OF coop_okD(3)[OF uok], of x u ctx] D(3) us
    by (simp add: release_member_def sql_bind_def get_batch_events_eq)
  obtain t' where t': "remove_member ctx m x ?w = (t', Inr 1)" "t_retry t' = t_retry u"
    "{r \<in> set (t_dead u). dl_consumer_id r \<noteq> sub_consumer x} \<subseteq> set (t_dead t')" "sub_of (sub_queue x) (sub_consumer x) t' = None"
    using remove_member_tables[of ctx m x ?w] by auto
  have "pg_unsubscribe_subconsumer ctx q c sub 1 t = (t', Inr 1)"
    using assms(3) D(7)[of t] rel t'(1) by (simp add: pg_unsubscribe_subconsumer_def unregister_subconsumer_eq registered_def sql_bind_def)
  moreover have "settled_event m (ev_id e) t'" if "e \<in> set es" for e
  proof -
    have "dead_consumer x u = sub_consumer m" using dead_of_main[OF uok, of m x] D us by simp
    moreover have "sub_consumer m \<noteq> sub_consumer x"
      using distinct_keyD[OF coop_okD(5)[OF ok] D(1,3)] D(2,4,6) by (auto simp: sub_key_def)
    ultimately show ?thesis
      using u(3) that t'(2,3) D(2,5,6) by (fastforce simp: settled_event_def dead_consumer_def)
  qed
  ultimately show ?thesis using t'(4) by blast
qed

section \<open>A main row without members\<close>

text \<open>
  The legacy \<open>receive\<close> lets a main consumer without members pass its guard, but does not
  stamp its row: the batch it opens cannot be found.
\<close>

theorem memberless_main_receive:
  assumes "find_sub q c t = Some s" "sub_role s = Role_coop_main" "subs_ok t" "1 \<le> n" "CHR 0x23 \<notin> set c"
    and "\<forall>x\<in>set (t_subs t). \<not> (sub_queue x = sub_queue s \<and> sub_id x = sub_id s \<and> sub_role x = Role_coop_member)"
    and "find_tick (sub_queue s) (sub_last_tick s) t = Some prev" "sub_batch s = None"
    and "min_tick (sub_queue s) (\<lambda>k. tick_id prev < tick_id k) t = Some cur"
  shows "\<exists>t'. pg_receive ctx q c n t = pg_raise ''batch not found'' t' \<and> t_subs t' = t_subs t"
proof -
  let ?b = "sq_next (s_batch t)"
  let ?P = "\<lambda>x. sub_queue x = sub_queue s \<and> sub_consumer x = sub_consumer s \<and> sub_role x = Role_normal"
  note mem = find_sub_mem[OF assms(1)]
  have "map (\<lambda>x. if ?P x then x\<lparr>sub_batch := Some ?b, sub_next_tick := Some (tick_id cur), sub_active := pg_now ctx\<rparr> else x) (t_subs t) = t_subs t"
  proof (rule map_idI)
    fix x assume "x \<in> set (t_subs t)"
    then have "\<not> ?P x" using subs_ok_key[OF assms(3) _ mem, of x] assms(2) by (auto simp: sub_key_def)
    then show "(if ?P x then x\<lparr>sub_batch := Some ?b, sub_next_tick := Some (tick_id cur), sub_active := pg_now ctx\<rparr> else x) = x"
      by (rule if_not_P)
  qed
  then have "next_batch ctx q c t = (t\<lparr>s_batch := sq_set ?b\<rparr>, Inr (Some ?b))"
    using assms by (auto simp: next_batch_def sql_defs nextval_batch_def set_sub_def)
  moreover have "batch_rows ?b (t\<lparr>s_batch := sq_set ?b\<rparr>) = None"
    using subs_ok_fresh[OF assms(3)] by (auto simp: batch_rows_def find_batch_def find_None_iff split: option.splits dest!: find_SomeD)
  ultimately show ?thesis using assms(4,5)
    by (auto simp: pg_receive_def sql_bind_def get_batch_events_eq pg_raise_def)
qed

end
