(* ===== verification/Scenario.thy ===== *)
theory Scenario
  imports SqlErrors
begin

text \<open>
  A small concrete deployment on which the theorems are instantiated: a queue with two
  events between two ticks, one subscription, and the connection, driver and consumer over it.
\<close>

definition sc_snap :: "int \<Rightarrow> snapshot" where
  "sc_snap n = \<lparr>snap_xmin = n, snap_xmax = n, snap_xip = []\<rparr>"

definition sc_event :: "int \<Rightarrow> int \<Rightarrow> event" where
  "sc_event i x = \<lparr>ev_id = i, ev_time = 0, ev_owner = None, ev_retry = None, ev_type = Some ''t'',
     ev_data = Some ''1'', ev_extra1 = None, ev_extra2 = None, ev_extra3 = None, ev_extra4 = None, ev_txid = x\<rparr>"

definition sc_queue :: "string \<Rightarrow> qrow" where
  "sc_queue q = \<lparr>queue_id = 1, queue_name = q, queue_external_ticker = False, queue_disable_insert = False,
     queue_ticker_paused = False, queue_ticker_max_count = 500, queue_ticker_max_lag = 3000000,
     queue_ticker_idle_period = 60000000, queue_rotation_period = 7200000000,
     queue_max_retries = None, queue_extra_maint = None, queue_events = [sc_event 1 12, sc_event 2 15]\<rparr>"

definition sc_sub :: sub_row where
  "sc_sub = \<lparr>sub_id = 1, sub_queue = 1, sub_consumer = 1, sub_last_tick = Some 1, sub_active = 0,
     sub_batch = None, sub_next_tick = None, sub_role = Role_normal\<rparr>"

definition sc_tick :: "int \<Rightarrow> int \<Rightarrow> int \<Rightarrow> tick" where
  "sc_tick i n e = \<lparr>tick_queue = 1, tick_id = i, tick_time = 0, tick_snapshot = sc_snap n, tick_event_seq = e\<rparr>"

definition sc_db :: "string \<Rightarrow> db" where
  "sc_db q = \<lparr>t_queues = [sc_queue q], t_ticks = [sc_tick 1 10 0, sc_tick 2 20 2],
     t_consumers = [\<lparr>co_id = 1, co_name = ''c''\<rparr>], t_subs = [sc_sub], t_retry = [], t_dead = [],
     t_parts = [], t_slots = [], t_idem = [],
     s_batch = sq_set 0, s_event = (\<lambda>_. sq_set 2), s_tick = (\<lambda>_. sq_set 2), s_consumer = sq_set 1,
     s_sub = sq_set 1, s_dead = sq_set 0, s_queue = sq_set 1\<rparr>"

definition sc_ctx :: "nat \<Rightarrow> pgctx" where
  "sc_ctx n = \<lparr>pg_now = 1000000 * int n, pg_clock = 1000000 * int n, pg_xid = 100 + int n, pg_snapshot = sc_snap (100 + int n),
     pg_replica = False, pg_jsonb_text = Some, pg_interval_secs = (\<lambda>_. Some 60),
     pg_interval_us = (\<lambda>_. Some 60000000), pg_interval_out = (\<lambda>_. ''00:00:00''),
     pg_hash_text = (\<lambda>s. int (length s) - 3)\<rparr>"

definition sc_driver :: "pgconn driver" where
  "sc_driver = pg_driver (\<lambda>_ _ _. ill_typed) sc_ctx (\<lambda>_. [])"

definition sc_conn :: pgconn where
  "sc_conn = \<lparr>pc_committed = sc_db ''q'', pc_work = sc_db ''q'', pc_in_tx = False, pc_failed = False,
     pc_closed = False, pc_autocommit = True, pc_txn = 0\<rparr>"

definition sc_consumer :: "unit consumer" where
  "sc_consumer = \<lparr>c_dsn = [], c_queue = ''q'', c_name = ''c'', c_poll_interval = 1,
     c_max_messages = 100, c_retry_after = PyInt 60, c_policy = ''nack'', c_subconsumer = None,
     c_dead_interval = None, c_handlers = Map.empty, c_default_handler = None\<rparr>"

text \<open>The same connection inside a block, and the state after \<open>next_batch\<close>.\<close>

definition sc_block :: pgconn where
  "sc_block = sc_conn\<lparr>pc_in_tx := True\<rparr>"

definition sc_opened :: db where
  "sc_opened = fst (next_batch (sc_ctx 0) ''q'' ''c'' (sc_db ''q''))"

definition sc_events :: "event list" where
  "sc_events = [sc_event 1 12, sc_event 2 15]"

lemma sc_view [simp]: "pg_view sc_conn = sc_db ''q''" "pg_view sc_block = sc_db ''q''" "pc_txn sc_conn = 0" "pc_txn sc_block = 0"
  by (simp_all add: pg_view_def sc_conn_def sc_block_def)

lemma sc_next_batch: "next_batch (sc_ctx 0) ''q'' ''c'' (sc_db ''q'') = (sc_opened, Inr (Some 1))"
proof -
  have "snd (next_batch (sc_ctx 0) ''q'' ''c'' (sc_db ''q'')) = Inr (Some 1)" by code_simp
  then show ?thesis by (simp add: sc_opened_def prod_eq_iff)
qed

lemma sc_batch_rows: "batch_rows 1 sc_opened = Some sc_events"
  by code_simp

lemma sc_poll: "snd (snd (poll_once sc_driver sc_consumer sc_conn ())) = Inr True"
  by code_simp

lemma sc_usable: "usable sc_conn" "usable sc_block"
  by (simp_all add: usable_def sc_conn_def sc_block_def)

end
