(* ===== verification/CoopWitnesses.thy ===== *)
theory CoopWitnesses
  imports CoopLeave Scenario
begin

text \<open>The theorems on cooperative groups, on a group of two workers of which one holds a batch.\<close>

definition sc_row :: "int \<Rightarrow> sub_role \<Rightarrow> int option \<Rightarrow> int option \<Rightarrow> int option \<Rightarrow> sub_row" where
  "sc_row c ro p k b = \<lparr>sub_id = 1, sub_queue = 1, sub_consumer = c, sub_last_tick = p, sub_active = 0,
     sub_batch = b, sub_next_tick = k, sub_role = ro\<rparr>"

definition sc_main :: sub_row where "sc_main = sc_row 1 Role_coop_main (Some 2) None None"
definition sc_a :: sub_row where "sc_a = sc_row 2 Role_coop_member (Some 1) (Some 2) (Some 1)"
definition sc_b :: sub_row where "sc_b = sc_row 3 Role_coop_member None None None"

definition sc_group :: db where
  "sc_group = (sc_db ''q'')\<lparr>t_ticks := [sc_tick 1 10 0, sc_tick 2 14 1, sc_tick 3 20 2],
     t_consumers := [\<lparr>co_id = 1, co_name = ''g''\<rparr>, \<lparr>co_id = 2, co_name = ''g.a''\<rparr>, \<lparr>co_id = 3, co_name = ''g.b''\<rparr>],
     s_consumer := sq_set 3, s_batch := sq_set 1, t_subs := [sc_main, sc_a, sc_b]\<rparr>"

lemma sc_group_ok: "db_ok sc_group" "groups_ok sc_group" "counts_ok sc_group"
  by code_simp+

lemma sc_registered: "registered ''q'' ''g'' ''a'' sc_group sc_main sc_a" "registered ''q'' ''g'' ''b'' sc_group sc_main sc_b"
  by code_simp+

text \<open>After the second worker has received.\<close>

definition sc_group2 :: db where
  "sc_group2 = fst (client_statements (sc_ctx 1) ''select * from pgque.receive_coop(%s, %s, %s, %s, %s::interval)''
     [PyStr ''q'', PyStr ''g'', PyStr ''b'', PyInt 100, PyNone] sc_group)"

theorem coop_batches_disjoint_witness:
  "\<exists>es fs. batch_rows 1 sc_group2 = Some es \<and> batch_rows 2 sc_group2 = Some fs \<and> es \<noteq> [] \<and> fs \<noteq> [] \<and> set es \<inter> set fs = {}"
proof -
  have "server_run sc_group sc_group2"
    unfolding sc_group2_def by (rule server_run.statement[OF server_run.start prod.collapse[symmetric]])
  moreover have "ticks_chain sc_group2" by code_simp
  moreover have "map_option sub_id (find_batch 1 sc_group2) = Some 1" "map_option sub_id (find_batch 2 sc_group2) = Some 1" by code_simp+
  then obtain x y where "find_batch 1 sc_group2 = Some x" "find_batch 2 sc_group2 = Some y" "sub_id x = sub_id y" by auto
  moreover have r: "batch_rows 1 sc_group2 = Some [sc_event 1 12]" "batch_rows 2 sc_group2 = Some [sc_event 2 15]" by code_simp+
  ultimately have "set [sc_event 1 12] \<inter> set [sc_event 2 15] = {}"
    using coop_batches_disjoint[OF _ sc_group_ok] by fastforce
  with r show ?thesis by blast
qed


theorem coop_group_refines_witness:
  "group_receive (next_tick 1 sc_group) None 3 (abs_group sc_main sc_group) =
     (abs_group sc_main (fst (next_batch_coop (sc_ctx 1) ''q'' ''g'' ''b'' None sc_group)), Some (2, 3))"
proof -
  have n: "snd (next_batch_coop (sc_ctx 1) ''q'' ''g'' ''b'' None sc_group) = Inr (Some 2)"
    "batch_window 2 (fst (next_batch_coop (sc_ctx 1) ''q'' ''g'' ''b'' None sc_group)) = Some (2, 3)" by code_simp+
  then have "next_batch_coop (sc_ctx 1) ''q'' ''g'' ''b'' None sc_group =
      (fst (next_batch_coop (sc_ctx 1) ''q'' ''g'' ''b'' None sc_group), Inr (Some 2))" by (metis prod.collapse)
  from coop_group_refines[OF sc_group_ok(1,2) sc_registered(2), of "sc_ctx 1" None] this n(2) show ?thesis
    by (auto simp: stale_member_def sc_main_def sc_b_def sc_row_def split: prod.splits)
qed

theorem unsubscribe_settles_batch_witness:
  "\<exists>t'. pg_unsubscribe_subconsumer (sc_ctx 5) ''q'' ''g'' ''a'' 1 sc_group = (t', Inr 1)
    \<and> sub_of 1 2 t' = None \<and> settled_event sc_main 1 t'"
proof -
  have "batch_rows 1 sc_group = Some [sc_event 1 12]" by code_simp
  from unsubscribe_settles_batch[OF sc_group_ok(1,2) sc_registered(1) _ this, of "sc_ctx 5"] show ?thesis
    by (auto simp: sc_a_def sc_row_def sc_event_def)
qed

end
