(* ===== verification/Rotation.thy ===== *)
theory Rotation
  imports ServerFacts
begin

text \<open>
  The rotation of a queue's event tables, from \<open>devel/sql/pgque.sql\<close>. The events of a queue
  are in a ring of tables: inserts go to the current one, \<open>maint_rotate_tables_step1\<close> empties
  the next one and makes it current when every subscription is past the previous one, and
  \<open>maint_rotate_tables_step2\<close>, in a later transaction, records when the switch was visible
  to everybody. \<open>batch_event_tables\<close> decides from the two transaction ids whether a batch reads
  the previous table, the current one or both.

  Transactions run concurrently: the steps are those of the statements that touch the tables,
  and an uncommitted switch is seen by nobody but the transaction that made it. The ghost
  \<open>w_all\<close> is the one table that theory Server has in the place of the ring.
\<close>

section \<open>The functions\<close>

text \<open>The columns of \<open>pgque.queue\<close> that rotation uses.\<close>

record rot_row =
  cur_table :: nat
  rotation_period :: "int option"
  switch_step1 :: int
  switch_step2 :: "int option"
  switch_time :: int

definition prev_table :: "nat \<Rightarrow> nat \<Rightarrow> nat" where
  "prev_table n i = (if i = 0 then n - 1 else i - 1)"

definition next_table :: "nat \<Rightarrow> nat \<Rightarrow> nat" where
  "next_table n i = (if i + 1 = n then 0 else i + 1)"

definition batch_event_tables :: "nat \<Rightarrow> rot_row \<Rightarrow> snapshot \<Rightarrow> snapshot \<Rightarrow> nat list" where
  "batch_event_tables n r prv cur =
     (let tx_min = snap_xmin prv; tx_max = snap_xmax cur;
          (use_prev, use_next) =
            (if tx_max < switch_step1 r then (True, False)
             else if (case switch_step2 r of None \<Rightarrow> False | Some s \<Rightarrow> s < tx_min) then (False, True)
             else (True, True))
      in (if use_prev then [prev_table n (cur_table r)] else [])
         @ (if use_next then [cur_table r] else []))"

text \<open>What the transaction of a switch leaves for its commit.\<close>

record change =
  ch_xid :: int
  ch_row :: rot_row
  ch_truncated :: "nat option"
  ch_gone :: "int list"

definition lowest_tick :: "sub_row list \<Rightarrow> int option" where
  "lowest_tick subs = (case List.map_filter sub_last_tick subs of
      [] \<Rightarrow> None
    | l # ls \<Rightarrow> Some (foldl min l ls))"

definition find_tick_id :: "int \<Rightarrow> tick list \<Rightarrow> tick option" where
  "find_tick_id i ks = find (\<lambda>k. tick_id k = i) ks"

definition rotated :: "int \<Rightarrow> int \<Rightarrow> nat \<Rightarrow> rot_row \<Rightarrow> int \<Rightarrow> tick list \<Rightarrow> change" where
  "rotated xid now n r step2 ks =
     (let nr = next_table n (cur_table r) in
      \<lparr>ch_xid = xid,
       ch_row = r\<lparr>cur_table := nr, switch_time := now, switch_step1 := xid, switch_step2 := None\<rparr>,
       ch_truncated = Some nr,
       ch_gone = map tick_id (filter (\<lambda>k. snap_xmin (tick_snapshot k) < step2) ks)\<rparr>)"

definition rotate_step1 ::
  "int \<Rightarrow> int \<Rightarrow> bool \<Rightarrow> string \<Rightarrow> nat \<Rightarrow> rot_row \<Rightarrow> tick list \<Rightarrow> sub_row list \<Rightarrow> string + change option" where
  "rotate_step1 xid now lockable q n r ks subs =
     (let rotate = (\<lambda>step2. Inr (if lockable then Some (rotated xid now n r step2 ks) else None)) in
      case (rotation_period r, switch_step2 r) of
        (Some period, Some step2) \<Rightarrow>
          if \<not> switch_time r + period < now then Inr None
          else if xid < switch_step1 r then
            Inl (''queue '' @ q @ '' maint failure: step1='' @ str_of_int (switch_step1 r)
              @ '', current='' @ str_of_int xid)
          else (case lowest_tick subs of
              None \<Rightarrow> rotate step2
            | Some l \<Rightarrow> (case find_tick_id l ks of
                None \<Rightarrow> Inl (''queue '' @ q @ '' maint failure: tick '' @ str_of_int l @ '' not found'')
              | Some k \<Rightarrow> if snap_xmin (tick_snapshot k) \<le> step2 then Inr None else rotate step2))
      | _ \<Rightarrow> Inr None)"

definition rotate_step2 :: "int \<Rightarrow> rot_row \<Rightarrow> change option" where
  "rotate_step2 xid r = (case switch_step2 r of
      None \<Rightarrow> Some \<lparr>ch_xid = xid, ch_row = r\<lparr>switch_step2 := Some xid\<rparr>, ch_truncated = None, ch_gone = []\<rparr>
    | Some _ \<Rightarrow> None)"

section \<open>Concurrent transactions\<close>

record world =
  w_row :: rot_row
  w_tables :: "event list list"
  w_ticks :: "tick list"
  w_subs :: "sub_row list"
  w_change :: "change option"
  w_next :: int
  w_done :: int
  w_running :: "int list"
  w_all :: "event list"
  w_floor :: int

text \<open>The snapshot that PostgreSQL takes: one past the highest completed id, and who runs below it.\<close>

definition now_snapshot :: "world \<Rightarrow> snapshot" where
  "now_snapshot w =
     (let xip = sort (filter (\<lambda>x. x \<le> w_done w) (w_running w)) in
      \<lparr>snap_xmin = (case xip of [] \<Rightarrow> w_done w + 1 | x # _ \<Rightarrow> x),
       snap_xmax = w_done w + 1, snap_xip = xip\<rparr>)"

definition put_event :: "nat \<Rightarrow> event \<Rightarrow> event list list \<Rightarrow> event list list" where
  "put_event i e tbls = tbls[i := tbls ! i @ [e]]"

text \<open>Positions move forward to existing ticks, and a window starts at the position of its row.\<close>

definition forward :: "tick list \<Rightarrow> sub_row list \<Rightarrow> sub_row list \<Rightarrow> bool" where
  "forward ks old new \<longleftrightarrow> list_all (\<lambda>y.
     (case sub_last_tick y of
        None \<Rightarrow> sub_next_tick y = None
      | Some l \<Rightarrow> list_ex (\<lambda>k. tick_id k = l) ks
          \<and> list_ex (\<lambda>x. case sub_last_tick x of None \<Rightarrow> False | Some l0 \<Rightarrow> l0 \<le> l) old
          \<and> (case sub_next_tick y of None \<Rightarrow> True | Some n \<Rightarrow> l < n \<and> list_ex (\<lambda>k. tick_id k = n) ks))) new"

text \<open>
  The commit of a switch or of its mark. The ghost \<open>w_floor\<close> is the mark that the switch
  overwrites: what the ring has left behind is older.
\<close>

definition commit_change :: "change \<Rightarrow> world \<Rightarrow> world" where
  "commit_change c w = (case ch_truncated c of
      None \<Rightarrow> w\<lparr>w_row := ch_row c, w_change := None\<rparr>
    | Some nr \<Rightarrow> w\<lparr>w_row := ch_row c, w_change := None, w_tables := (w_tables w)[nr := []],
        w_ticks := filter (\<lambda>k. tick_id k \<notin> set (ch_gone c)) (w_ticks w),
        w_floor := (case switch_step2 (w_row w) of None \<Rightarrow> w_floor w | Some s \<Rightarrow> s)\<rparr>)"

definition end_xact :: "int \<Rightarrow> world \<Rightarrow> world" where
  "end_xact x w = w\<lparr>w_running := filter (\<lambda>y. y \<noteq> x) (w_running w), w_done := max (w_done w) x\<rparr>"

definition own_change :: "int \<Rightarrow> world \<Rightarrow> change option" where
  "own_change x w = (case w_change w of None \<Rightarrow> None | Some c \<Rightarrow> if ch_xid c = x then Some c else None)"

definition commit_xact :: "int \<Rightarrow> world \<Rightarrow> world" where
  "commit_xact x w = end_xact x (case own_change x w of None \<Rightarrow> w | Some c \<Rightarrow> commit_change c w)"

definition abort_xact :: "int \<Rightarrow> world \<Rightarrow> world" where
  "abort_xact x w = end_xact x (w\<lparr>w_tables := map (filter (\<lambda>e. ev_txid e \<noteq> x)) (w_tables w),
     w_all := filter (\<lambda>e. ev_txid e \<noteq> x) (w_all w),
     w_change := (if own_change x w = None then w_change w else None)\<rparr>)"

text \<open>
  A first subscription starts at a tick that no transaction older than the switches precedes:
  with no subscription, \<open>maint_rotate_tables_step1\<close> does not look for such transactions.
\<close>

definition open_floor :: "world \<Rightarrow> int" where
  "open_floor w = (case w_change w of None \<Rightarrow> w_floor w
     | Some c \<Rightarrow> (case (ch_truncated c, switch_step2 (w_row w)) of
          (Some _, Some s) \<Rightarrow> s | _ \<Rightarrow> w_floor w))"

inductive rot_step :: "world \<Rightarrow> world \<Rightarrow> bool" where
  assign_xid: "rot_step w (w\<lparr>w_next := w_next w + 1, w_running := w_next w # w_running w\<rparr>)"
| insert_event: "ev_txid e \<in> set (w_running w) \<Longrightarrow> own_change (ev_txid e) w = None \<Longrightarrow>
    rot_step w (w\<lparr>w_tables := put_event (cur_table (w_row w)) e (w_tables w), w_all := w_all w @ [e]\<rparr>)"
| take_tick: "tick_snapshot k = now_snapshot w \<Longrightarrow> list_all (\<lambda>j. tick_id j < tick_id k) (w_ticks w) \<Longrightarrow>
    rot_step w (w\<lparr>w_ticks := w_ticks w @ [k]\<rparr>)"
| subscribe: "w_ticks w \<noteq> [] \<Longrightarrow> sub_last_tick x = Some (tick_id (last (w_ticks w))) \<Longrightarrow> sub_next_tick x = None \<Longrightarrow>
    list_ex (\<lambda>y. sub_last_tick y \<noteq> None) (w_subs w)
      \<or> open_floor w \<le> snap_xmin (tick_snapshot (last (w_ticks w))) \<Longrightarrow>
    rot_step w (w\<lparr>w_subs := w_subs w @ [x]\<rparr>)"
| move_subs: "forward (w_ticks w) (w_subs w) subs \<Longrightarrow> rot_step w (w\<lparr>w_subs := subs\<rparr>)"
| switch: "x \<in> set (w_running w) \<Longrightarrow> w_change w = None \<Longrightarrow>
    rotate_step1 x now lockable q (length (w_tables w)) (w_row w) (w_ticks w) (w_subs w) = Inr (Some c) \<Longrightarrow>
    rot_step w (w\<lparr>w_change := Some c\<rparr>)"
| mark: "w_change w = None \<Longrightarrow> rotate_step2 (w_next w) (w_row w) = Some c \<Longrightarrow>
    rot_step w (w\<lparr>w_next := w_next w + 1, w_running := w_next w # w_running w, w_change := Some c\<rparr>)"
| commit: "x \<in> set (w_running w) \<Longrightarrow> rot_step w (commit_xact x w)"
| abort: "x \<in> set (w_running w) \<Longrightarrow> rot_step w (abort_xact x w)"

text \<open>
  A queue as \<open>create_queue\<close> leaves it, once its transaction \<open>xid\<close> has committed: empty tables and
  one tick, with the snapshot of that transaction; other transactions may be running.
\<close>

definition new_world :: "nat \<Rightarrow> int option \<Rightarrow> int \<Rightarrow> int \<Rightarrow> tick \<Rightarrow> int list \<Rightarrow> int \<Rightarrow> int \<Rightarrow> world" where
  "new_world n period xid now k running next_xid last_done = \<lparr>
     w_row = \<lparr>cur_table = 0, rotation_period = period, switch_step1 = xid, switch_step2 = Some xid, switch_time = now\<rparr>,
     w_tables = replicate n [],
     w_ticks = [k],
     w_subs = [], w_change = None,
     w_next = next_xid, w_done = last_done, w_running = running, w_all = [], w_floor = 0\<rparr>"

inductive rot_reachable :: "world \<Rightarrow> bool" where
  start: "2 \<le> n \<Longrightarrow> 0 \<le> xid \<Longrightarrow> xid \<le> last_done \<Longrightarrow> last_done < next_xid \<Longrightarrow> snap_wf (tick_snapshot k) \<Longrightarrow>
    snap_xmax (tick_snapshot k) \<le> last_done + 1 \<Longrightarrow>
    distinct running \<Longrightarrow> list_all (\<lambda>x. x < next_xid \<and> \<not> pg_visible_in_snapshot x (tick_snapshot k)) running \<Longrightarrow>
    rot_reachable (new_world n period xid now k running next_xid last_done)"
| step: "rot_reachable w \<Longrightarrow> rot_step w u \<Longrightarrow> rot_reachable u"

end
