(* ===== verification/RotationInvariant.thy ===== *)
theory RotationInvariant
  imports Rotation
begin

text \<open>
  The invariant of a rotating queue: every event that a subscription has still to get is in the
  current or the previous table, and the ticks of its window are kept. Every step keeps it,
  whatever transactions run at the same time.
\<close>

section \<open>The invariant\<close>

definition xids_ok :: "world \<Rightarrow> bool" where
  "xids_ok w \<longleftrightarrow> w_done w < w_next w \<and> distinct (w_running w) \<and> (\<forall>x\<in>set (w_running w). x < w_next w)"

definition ticks_ok :: "world \<Rightarrow> bool" where
  "ticks_ok w \<longleftrightarrow> sorted_wrt (<) (map tick_id (w_ticks w))
     \<and> sorted_wrt snap_le (map tick_snapshot (w_ticks w))
     \<and> (\<forall>k\<in>set (w_ticks w). snap_wf (tick_snapshot k) \<and> snap_xmax (tick_snapshot k) \<le> w_done w + 1
          \<and> (\<forall>x\<in>set (w_running w). \<not> pg_visible_in_snapshot x (tick_snapshot k)))"

definition cur_events :: "world \<Rightarrow> event list" where
  "cur_events w = w_tables w ! cur_table (w_row w)"

definition prev_events :: "world \<Rightarrow> event list" where
  "prev_events w = w_tables w ! prev_table (length (w_tables w)) (cur_table (w_row w))"

definition ring_shape :: "world \<Rightarrow> bool" where
  "ring_shape w \<longleftrightarrow> 2 \<le> length (w_tables w) \<and> cur_table (w_row w) < length (w_tables w)"

text \<open>What is in the current table was inserted after the switch, so no earlier tick sees it.\<close>

definition cur_fresh :: "world \<Rightarrow> bool" where
  "cur_fresh w \<longleftrightarrow> switch_step1 (w_row w) \<le> w_done w
     \<and> (\<forall>e\<in>set (cur_events w). \<forall>k\<in>set (w_ticks w). snap_xmax (tick_snapshot k) \<le> switch_step1 (w_row w)
          \<longrightarrow> \<not> pg_visible_in_snapshot (ev_txid e) (tick_snapshot k))"

text \<open>What is in the previous table is older than the mark of the switch.\<close>

definition prev_old :: "world \<Rightarrow> bool" where
  "prev_old w \<longleftrightarrow> (\<forall>e\<in>set (prev_events w). ev_txid e < w_next w)
     \<and> (\<forall>s. switch_step2 (w_row w) = Some s \<longrightarrow> (\<forall>e\<in>set (prev_events w). ev_txid e < s))"

definition marks_ok :: "world \<Rightarrow> bool" where
  "marks_ok w \<longleftrightarrow> w_floor w < w_next w
     \<and> (\<forall>s. switch_step2 (w_row w) = Some s \<longrightarrow> w_floor w \<le> s \<and> s < w_next w)"

text \<open>Every event is in one of the two tables, or older than the floor.\<close>

definition covered :: "world \<Rightarrow> bool" where
  "covered w \<longleftrightarrow> (\<forall>e\<in>set (cur_events w). ev_txid e < w_next w)
     \<and> (\<exists>old. mset (w_all w) = mset old + mset (prev_events w) + mset (cur_events w)
          \<and> (\<forall>e\<in>set old. ev_txid e < w_floor w))"

definition above :: "int \<Rightarrow> tick list \<Rightarrow> sub_row \<Rightarrow> bool" where
  "above s ks x \<longleftrightarrow> (case sub_last_tick x of
      None \<Rightarrow> sub_next_tick x = None
    | Some l \<Rightarrow> (\<exists>k\<in>set ks. tick_id k = l \<and> s \<le> snap_xmin (tick_snapshot k))
        \<and> (case sub_next_tick x of None \<Rightarrow> True | Some n \<Rightarrow> l < n \<and> (\<exists>k\<in>set ks. tick_id k = n)))"

definition holders_ok :: "world \<Rightarrow> bool" where
  "holders_ok w \<longleftrightarrow> (\<forall>x\<in>set (w_subs w). above (max (w_floor w) (open_floor w)) (w_ticks w) x)"

definition mark_ok :: "world \<Rightarrow> change \<Rightarrow> bool" where
  "mark_ok w c \<longleftrightarrow> ch_row c = (w_row w)\<lparr>switch_step2 := Some (ch_xid c)\<rparr> \<and> w_floor w \<le> ch_xid c
     \<and> (\<forall>e\<in>set (prev_events w). ev_txid e < ch_xid c)"

definition switch_ok :: "world \<Rightarrow> change \<Rightarrow> nat \<Rightarrow> bool" where
  "switch_ok w c nr \<longleftrightarrow> nr = next_table (length (w_tables w)) (cur_table (w_row w))
     \<and> (\<exists>s now. switch_step2 (w_row w) = Some s
         \<and> ch_row c = (w_row w)\<lparr>cur_table := nr, switch_time := now, switch_step1 := ch_xid c, switch_step2 := None\<rparr>
         \<and> (\<forall>i\<in>set (ch_gone c). \<exists>k\<in>set (w_ticks w). tick_id k = i \<and> snap_xmin (tick_snapshot k) < s))"

definition change_ok :: "world \<Rightarrow> bool" where
  "change_ok w \<longleftrightarrow> (case w_change w of None \<Rightarrow> True | Some c \<Rightarrow> ch_xid c \<in> set (w_running w)
     \<and> (case ch_truncated c of None \<Rightarrow> mark_ok w c | Some nr \<Rightarrow> switch_ok w c nr))"

definition rot_ok :: "world \<Rightarrow> bool" where
  "rot_ok w \<longleftrightarrow> xids_ok w \<and> ticks_ok w \<and> ring_shape w \<and> cur_fresh w \<and> prev_old w \<and> marks_ok w
     \<and> covered w \<and> holders_ok w \<and> change_ok w"

lemma rot_okI:
  "xids_ok w \<Longrightarrow> ticks_ok w \<Longrightarrow> ring_shape w \<Longrightarrow> cur_fresh w \<Longrightarrow> prev_old w \<Longrightarrow> marks_ok w \<Longrightarrow> covered w \<Longrightarrow>
    holders_ok w \<Longrightarrow> change_ok w \<Longrightarrow> rot_ok w"
  by (simp add: rot_ok_def)

lemma rot_okD:
  assumes "rot_ok w"
  shows "xids_ok w" "ticks_ok w" "ring_shape w" "cur_fresh w" "prev_old w" "marks_ok w" "covered w"
    "holders_ok w" "change_ok w"
  using assms by (simp_all add: rot_ok_def)

lemmas table_defs = cur_events_def prev_events_def ring_shape_def

lemma new_world_ok:
  assumes "2 \<le> n" "0 \<le> xid" "xid \<le> last_done" "last_done < next_xid" "snap_wf (tick_snapshot k)" "snap_xmax (tick_snapshot k) \<le> last_done + 1"
    "distinct running" "list_all (\<lambda>x. x < next_xid \<and> \<not> pg_visible_in_snapshot x (tick_snapshot k)) running"
  shows "rot_ok (new_world n period xid now k running next_xid last_done)"
  using assms by (auto simp: rot_ok_def new_world_def xids_ok_def ticks_ok_def table_defs cur_fresh_def prev_old_def
      marks_ok_def covered_def holders_ok_def change_ok_def prev_table_def list_all_iff)

subsection \<open>Snapshots and ticks\<close>

lemma now_visible: "pg_visible_in_snapshot x (now_snapshot w) \<Longrightarrow> x \<le> w_done w \<and> x \<notin> set (w_running w)"
proof -
  assume v: "pg_visible_in_snapshot x (now_snapshot w)"
  let ?xip = "sort (filter (\<lambda>x. x \<le> w_done w) (w_running w))"
  have "x \<notin> set ?xip \<and> x \<le> w_done w"
  proof (cases "?xip")
    case Nil
    with v show ?thesis by (auto simp: now_snapshot_def pg_visible_in_snapshot_def split: if_splits)
  next
    case (Cons y ys)
    have s: "sorted (y # ys)" using sorted_sort[of "filter (\<lambda>x. x \<le> w_done w) (w_running w)"] Cons by simp
    have "y \<in> set ?xip" using Cons by simp
    then have "y \<le> w_done w" by auto
    with v s Cons show ?thesis by (auto simp: now_snapshot_def pg_visible_in_snapshot_def split: if_splits)
  qed
  then show ?thesis by auto
qed

lemma visible_xmax: "snap_wf k \<Longrightarrow> pg_visible_in_snapshot x k \<Longrightarrow> x < snap_xmax k"
  by (auto simp: pg_visible_in_snapshot_def snap_wf_def split: if_splits)

lemma running_xip:
  "snap_wf k \<Longrightarrow> \<not> pg_visible_in_snapshot x k \<Longrightarrow> x < snap_xmax k \<Longrightarrow> snap_xmin k \<le> x \<and> x \<in> set (snap_xip k)"
  by (auto simp: pg_visible_in_snapshot_def split: if_splits)

lemma now_wf:
  assumes "distinct (w_running w)" shows "snap_wf (now_snapshot w)"
proof -
  let ?xip = "sort (filter (\<lambda>x. x \<le> w_done w) (w_running w))"
  have s: "sorted_wrt (<) ?xip" using assms by (simp add: strict_sorted_iff)
  have le: "\<forall>x\<in>set ?xip. x \<le> w_done w" by simp
  show ?thesis
  proof (cases ?xip)
    case Nil
    then show ?thesis by (simp add: now_snapshot_def snap_wf_def)
  next
    case (Cons y ys)
    have "sorted_wrt (<) (y # ys)" "\<forall>x\<in>set (y # ys). x \<le> w_done w" using s le unfolding Cons by blast+
    then show ?thesis unfolding now_snapshot_def snap_wf_def Cons Let_def by (auto intro: less_imp_le)
  qed
qed

lemma now_xmin: "x \<in> set (w_running w) \<or> w_done w < x \<Longrightarrow> snap_xmin (now_snapshot w) \<le> x"
proof -
  assume x: "x \<in> set (w_running w) \<or> w_done w < x"
  let ?xip = "sort (filter (\<lambda>x. x \<le> w_done w) (w_running w))"
  show ?thesis
  proof (cases ?xip)
    case Nil
    then have "filter (\<lambda>x. x \<le> w_done w) (w_running w) = []"
      by (metis set_sort set_empty)
    with x Nil show ?thesis by (force simp: now_snapshot_def filter_empty_conv)
  next
    case (Cons y ys)
    have "sorted (y # ys)" using sorted_sort[of "filter (\<lambda>x. x \<le> w_done w) (w_running w)"] Cons by simp
    moreover have m: "set (y # ys) = set (filter (\<lambda>x. x \<le> w_done w) (w_running w))" using Cons by (metis set_sort)
    moreover have "y \<le> w_done w" using m by auto
    ultimately have "y \<le> x" using x by (cases "x \<le> w_done w") (auto simp: set_eq_iff)
    with Cons show ?thesis by (simp add: now_snapshot_def)
  qed
qed

lemma now_later:
  assumes "snap_wf k" "snap_xmax k \<le> w_done w + 1" "\<forall>x\<in>set (w_running w). \<not> pg_visible_in_snapshot x k"
  shows "snap_le k (now_snapshot w)"
proof -
  let ?n = "now_snapshot w"
  have "x \<in> set (snap_xip k) \<and> snap_xmin k \<le> x" if "x \<in> set (snap_xip ?n)" "x < snap_xmax k" for x
    using that assms running_xip[of k x] by (simp add: now_snapshot_def Let_def)
  moreover have "snap_xmin k \<le> snap_xmin ?n"
  proof (cases "snap_xip ?n")
    case Nil
    then show ?thesis using assms by (simp add: now_snapshot_def snap_wf_def Let_def)
  next
    case (Cons y ys)
    then have y: "y \<in> set (snap_xip ?n)" "snap_xmin ?n = y" by (simp_all add: now_snapshot_def Let_def)
    show ?thesis
    proof (cases "y < snap_xmax k")
      case True
      have "y \<in> set (w_running w)" using y(1) by (simp add: now_snapshot_def Let_def)
      with assms running_xip[of k y] True y(2) show ?thesis by blast
    qed (use assms(1) y(2) in \<open>simp add: snap_wf_def\<close>)
  qed
  ultimately show ?thesis using assms(2) by (auto simp: snap_le_def) (simp_all add: now_snapshot_def Let_def)
qed

lemma sorted_two:
  assumes "sorted_wrt (<) (map f xs)" "sorted_wrt R (map g xs)" "\<And>x. R x x" "a \<in> set xs" "b \<in> set xs"
    "(f a :: int) \<le> f b"
  shows "R (g a) (g b)"
  using assms
proof (induction xs)
  case (Cons y ys)
  from Cons.prems have y: "\<forall>z\<in>set ys. f y < f z \<and> R (g y) (g z)" by (simp add: sorted_wrt_map)
  show ?case
  proof (cases "a = y")
    case True
    with y Cons.prems show ?thesis by auto
  next
    case False
    then have "a \<in> set ys" using Cons.prems by simp
    moreover have "b \<in> set ys" using y Cons.prems(5,6) calculation by force
    ultimately show ?thesis using Cons by (simp add: sorted_wrt_map)
  qed
qed simp

lemma tick_mono:
  "ticks_ok w \<Longrightarrow> j \<in> set (w_ticks w) \<Longrightarrow> k \<in> set (w_ticks w) \<Longrightarrow> tick_id j \<le> tick_id k \<Longrightarrow>
    snap_le (tick_snapshot j) (tick_snapshot k)"
  unfolding ticks_ok_def by (erule conjE, rule sorted_two[where R = snap_le and f = tick_id and g = tick_snapshot]) (auto simp: snap_le_refl)

lemma tick_inj:
  assumes "ticks_ok w" "j \<in> set (w_ticks w)" "k \<in> set (w_ticks w)" "tick_id j = tick_id k"
  shows "j = k"
proof -
  have "distinct (map tick_id (w_ticks w))" using assms(1) by (simp add: ticks_ok_def strict_sorted_iff)
  with assms(2-4) show ?thesis by (auto simp: distinct_map dest: inj_onD)
qed


subsection \<open>The steps\<close>

lemma frame_tables:
  assumes "w_tables u = w_tables w" "w_row u = w_row w" "w_all u = w_all w" "w_floor u = w_floor w"
    "w_next w \<le> w_next u"
  shows "cur_events u = cur_events w" "prev_events u = prev_events w"
    "ring_shape w \<Longrightarrow> ring_shape u" "prev_old w \<Longrightarrow> prev_old u" "marks_ok w \<Longrightarrow> marks_ok u" "covered w \<Longrightarrow> covered u"
  using assms by (fastforce simp: table_defs prev_old_def marks_ok_def covered_def)+

lemma frame_fresh:
  assumes "w_tables u = w_tables w" "w_row u = w_row w" "w_done w \<le> w_done u" "set (w_ticks u) \<subseteq> set (w_ticks w)"
  shows "cur_fresh w \<Longrightarrow> cur_fresh u"
  using assms by (fastforce simp: table_defs cur_fresh_def)

lemma above_mono: "above s ks x \<Longrightarrow> set ks \<subseteq> set ls \<Longrightarrow> r \<le> s \<Longrightarrow> above r ls x"
  by (fastforce simp: above_def split: option.splits)

lemma frame_holders:
  assumes "w_subs u = w_subs w" "w_row u = w_row w" "w_floor u = w_floor w" "w_change u = w_change w"
    "set (w_ticks w) \<subseteq> set (w_ticks u)"
  shows "holders_ok w \<Longrightarrow> holders_ok u"
proof -
  have "open_floor u = open_floor w" unfolding open_floor_def assms ..
  then show "holders_ok w \<Longrightarrow> holders_ok u" using assms by (auto simp: holders_ok_def intro: above_mono)
qed

lemma frame_change:
  assumes "w_change u = w_change w" "w_row u = w_row w" "length (w_tables u) = length (w_tables w)"
    "prev_events u = prev_events w" "w_floor u = w_floor w"
    "set (w_running w) \<subseteq> set (w_running u)" "set (w_ticks w) \<subseteq> set (w_ticks u)"
  shows "change_ok w \<Longrightarrow> change_ok u"
proof -
  have "mark_ok w c \<Longrightarrow> mark_ok u c" for c using assms by (simp add: mark_ok_def)
  moreover have "switch_ok w c nr \<Longrightarrow> switch_ok u c nr" for c nr
    using assms unfolding switch_ok_def by (metis subsetD)
  ultimately show "change_ok w \<Longrightarrow> change_ok u" using assms by (auto simp: change_ok_def split: option.splits)
qed

lemma assign_ok:
  assumes ok: "rot_ok w"
  shows "rot_ok (w\<lparr>w_next := w_next w + 1, w_running := w_next w # w_running w\<rparr>)" (is "rot_ok ?u")
proof (rule rot_okI)
  note w = rot_okD[OF ok]
  show "xids_ok ?u" using w(1) by (auto simp: xids_ok_def)
  have "\<forall>k\<in>set (w_ticks w). \<not> pg_visible_in_snapshot (w_next w) (tick_snapshot k)"
    using w(1,2) visible_xmax by (fastforce simp: ticks_ok_def xids_ok_def)
  then show "ticks_ok ?u" using w(2) by (simp add: ticks_ok_def)
  show "cur_fresh ?u" by (rule frame_fresh[OF _ _ _ _ w(4)]) simp_all
  show "ring_shape ?u" "prev_old ?u" "marks_ok ?u" "covered ?u"
    using frame_tables[of ?u w] w(3,5,6,7) by simp_all
  show "holders_ok ?u" by (rule frame_holders[OF _ _ _ _ _ w(8)]) simp_all
  show "change_ok ?u" by (rule frame_change[OF _ _ _ _ _ _ _ w(9)]) (auto simp: prev_events_def)
qed

lemma prev_table: "2 \<le> n \<Longrightarrow> i < n \<Longrightarrow> prev_table n i < n \<and> prev_table n i \<noteq> i"
  by (auto simp: prev_table_def)

lemma next_prev_table:
  "2 \<le> n \<Longrightarrow> i < n \<Longrightarrow> next_table n i < n \<and> next_table n i \<noteq> i \<and> prev_table n (next_table n i) = i"
  by (auto simp: prev_table_def next_table_def)

lemma length_put_event [simp]: "length (put_event i e tbls) = length tbls"
  by (simp add: put_event_def)

lemma insert_ok:
  assumes ok: "rot_ok w" and e: "ev_txid e \<in> set (w_running w)"
  shows "rot_ok (w\<lparr>w_tables := put_event (cur_table (w_row w)) e (w_tables w), w_all := w_all w @ [e]\<rparr>)"
    (is "rot_ok ?u")
proof (rule rot_okI)
  note w = rot_okD[OF ok]
  have p: "prev_table (length (w_tables w)) (cur_table (w_row w)) \<noteq> cur_table (w_row w)"
    using w(3) prev_table by (simp add: ring_shape_def)
  have ev: "cur_events ?u = cur_events w @ [e]" "prev_events ?u = prev_events w"
    using w(3) p by (simp_all add: table_defs put_event_def)
  have lt: "ev_txid e < w_next w" using w(1) e by (simp add: xids_ok_def)
  have nv: "\<forall>k\<in>set (w_ticks w). \<not> pg_visible_in_snapshot (ev_txid e) (tick_snapshot k)"
    using w(2) e by (simp add: ticks_ok_def)
  show "xids_ok ?u" "ticks_ok ?u" "marks_ok ?u" using w(1,2,6) by (simp_all add: xids_ok_def ticks_ok_def marks_ok_def)
  show "ring_shape ?u" using w(3) by (simp add: ring_shape_def)
  show "cur_fresh ?u" using w(4) nv by (auto simp: cur_fresh_def ev)
  show "prev_old ?u" using w(5) by (simp add: prev_old_def ev)
  show "covered ?u" using w(7) lt by (auto simp: covered_def ev)
  show "holders_ok ?u" by (rule frame_holders[OF _ _ _ _ _ w(8)]) simp_all
  show "change_ok ?u" by (rule frame_change[OF _ _ _ _ _ _ _ w(9)]) (simp_all add: ev)
qed

lemma tick_ok:
  assumes ok: "rot_ok w" and t: "tick_snapshot k = now_snapshot w" and i: "list_all (\<lambda>j. tick_id j < tick_id k) (w_ticks w)"
  shows "rot_ok (w\<lparr>w_ticks := w_ticks w @ [k]\<rparr>)" (is "rot_ok ?u")
proof (rule rot_okI)
  note w = rot_okD[OF ok]
  show "xids_ok ?u" using w(1) by (simp add: xids_ok_def)
  have later: "\<forall>k\<in>set (w_ticks w). snap_le (tick_snapshot k) (now_snapshot w)"
    using w(2) by (auto simp: ticks_ok_def intro: now_later)
  have wf: "snap_wf (now_snapshot w)" using w(1) by (auto simp: xids_ok_def intro: now_wf)
  have xm: "snap_xmax (now_snapshot w) = w_done w + 1" by (simp add: now_snapshot_def Let_def)
  show "ticks_ok ?u"
    using w(2) i later wf xm now_visible[of _ w] by (auto simp: ticks_ok_def t sorted_wrt_append list_all_iff)
  show "ring_shape ?u" "prev_old ?u" "marks_ok ?u" "covered ?u"
    using frame_tables[of ?u w] w(3,5,6,7) by simp_all
  show "cur_fresh ?u" using w(4) xm by (auto simp: cur_fresh_def table_defs t)
  show "holders_ok ?u" by (rule frame_holders[OF _ _ _ _ _ w(8)]) auto
  show "change_ok ?u" by (rule frame_change[OF _ _ _ _ _ _ _ w(9)]) (auto simp: prev_events_def)
qed


lemma first_position_ok:
  assumes ok: "rot_ok w" and ne: "w_ticks w \<noteq> []" and x: "sub_last_tick x = Some (tick_id (last (w_ticks w)))" "sub_next_tick x = None"
    and fl: "list_ex (\<lambda>y. sub_last_tick y \<noteq> None) (w_subs w) \<or> open_floor w \<le> snap_xmin (tick_snapshot (last (w_ticks w)))"
  shows "rot_ok (w\<lparr>w_subs := w_subs w @ [x]\<rparr>)" (is "rot_ok ?u")
proof (rule rot_okI)
  note w = rot_okD[OF ok]
  let ?k = "last (w_ticks w)" and ?s = "max (w_floor w) (open_floor w)"
  show "xids_ok ?u" "ticks_ok ?u" using w(1,2) by (simp_all add: xids_ok_def ticks_ok_def)
  show "ring_shape ?u" "prev_old ?u" "marks_ok ?u" "covered ?u"
    using frame_tables[of ?u w] w(3,5,6,7) by simp_all
  show "cur_fresh ?u" by (rule frame_fresh[OF _ _ _ _ w(4)]) simp_all
  show "change_ok ?u" by (rule frame_change[OF _ _ _ _ _ _ _ w(9)]) (auto simp: prev_events_def)
  have k: "?k \<in> set (w_ticks w)" using ne by simp
  have fo: "w_floor w \<le> open_floor w"
    using w(6) by (auto simp: open_floor_def marks_ok_def split: option.splits)
  have "?s \<le> snap_xmin (tick_snapshot ?k)"
    using fl
  proof
    assume "list_ex (\<lambda>y. sub_last_tick y \<noteq> None) (w_subs w)"
    then obtain y l where "y \<in> set (w_subs w)" "sub_last_tick y = Some l" by (auto simp: list_ex_iff)
    with w(8) obtain j where j: "j \<in> set (w_ticks w)" "?s \<le> snap_xmin (tick_snapshot j)"
      by (fastforce simp: holders_ok_def above_def)
    have "tick_id j \<le> tick_id ?k"
      using w(2) j(1) ne by (cases "w_ticks w" rule: rev_cases) (auto simp: ticks_ok_def sorted_wrt_append)
    from tick_mono[OF w(2) j(1) k this] j(2) show ?thesis by (simp add: snap_le_def)
  qed (use fo in simp)
  with k x have "above ?s (w_ticks w) x" by (auto simp: above_def)
  moreover have "open_floor ?u = open_floor w" by (simp add: open_floor_def cong: option.case_cong)
  ultimately show "holders_ok ?u" using w(8) by (simp add: holders_ok_def)
qed

lemma move_ok:
  assumes ok: "rot_ok w" and f: "forward (w_ticks w) (w_subs w) subs"
  shows "rot_ok (w\<lparr>w_subs := subs\<rparr>)" (is "rot_ok ?u")
proof (rule rot_okI)
  note w = rot_okD[OF ok]
  let ?s = "max (w_floor w) (open_floor w)"
  show "xids_ok ?u" "ticks_ok ?u" using w(1,2) by (simp_all add: xids_ok_def ticks_ok_def)
  show "ring_shape ?u" "prev_old ?u" "marks_ok ?u" "covered ?u"
    using frame_tables[of ?u w] w(3,5,6,7) by simp_all
  show "cur_fresh ?u" by (rule frame_fresh[OF _ _ _ _ w(4)]) simp_all
  show "change_ok ?u" by (rule frame_change[OF _ _ _ _ _ _ _ w(9)]) (auto simp: prev_events_def)
  have "above ?s (w_ticks w) y" if y: "y \<in> set subs" for y
  proof (cases "sub_last_tick y")
    case None
    with f y show ?thesis by (auto simp: forward_def list_all_iff above_def)
  next
    case (Some l)
    with f y obtain k x l0 where k: "k \<in> set (w_ticks w)" "tick_id k = l" and x: "x \<in> set (w_subs w)"
        "sub_last_tick x = Some l0" "l0 \<le> l"
      and n: "case sub_next_tick y of None \<Rightarrow> True | Some n \<Rightarrow> l < n \<and> (\<exists>k\<in>set (w_ticks w). tick_id k = n)"
      by (force simp: forward_def list_all_iff list_ex_iff split: option.splits)
    from w(8) x(1,2) obtain j where j: "j \<in> set (w_ticks w)" "tick_id j = l0" "?s \<le> snap_xmin (tick_snapshot j)"
      by (fastforce simp: holders_ok_def above_def)
    from tick_mono[OF w(2) j(1) k(1)] j k(2) x(3) have "?s \<le> snap_xmin (tick_snapshot k)" by (simp add: snap_le_def)
    with k n Some show ?thesis by (auto simp: above_def)
  qed
  moreover have "open_floor ?u = open_floor w" by (simp add: open_floor_def cong: option.case_cong)
  ultimately show "holders_ok ?u" by (simp add: holders_ok_def)
qed

lemma lowest_tickD:
  assumes "lowest_tick subs = r"
  shows "r = None \<Longrightarrow> x \<in> set subs \<Longrightarrow> sub_last_tick x = None"
    and "r = Some l \<Longrightarrow> x \<in> set subs \<Longrightarrow> sub_last_tick x = Some n \<Longrightarrow> l \<le> n"
proof -
  have fm: "foldl min (a :: int) as \<le> b" if "b \<in> set (a # as)" for a b as
    using that
  proof (induction as arbitrary: a b)
    case (Cons y ys)
    have "foldl min (min a y) ys \<le> min a y" by (rule Cons.IH) simp
    with Cons show ?case by fastforce
  qed simp
  have mem: "n \<in> set (List.map_filter sub_last_tick subs)" if "x \<in> set subs" "sub_last_tick x = Some n" for n
    using that by (induction subs) (auto simp: List.map_filter_simps split: option.splits)
  show "r = None \<Longrightarrow> x \<in> set subs \<Longrightarrow> sub_last_tick x = None"
    using assms mem by (cases "sub_last_tick x") (auto simp: lowest_tick_def split: list.splits)
  show "r = Some l \<Longrightarrow> x \<in> set subs \<Longrightarrow> sub_last_tick x = Some n \<Longrightarrow> l \<le> n"
    using assms mem fm by (fastforce simp: lowest_tick_def split: list.splits)
qed


text \<open>A switch happens only when every subscription is past the mark of the previous switch.\<close>

lemma rotate_step1D:
  assumes "rotate_step1 x now lockable q n r ks subs = Inr (Some c)"
  obtains s where "switch_step2 r = Some s" "c = rotated x now n r s ks"
    "\<And>y l. y \<in> set subs \<Longrightarrow> sub_last_tick y = Some l \<Longrightarrow>
       \<exists>k\<in>set ks. tick_id k \<le> l \<and> s < snap_xmin (tick_snapshot k)"
proof -
  from assms obtain s where s: "switch_step2 r = Some s" "c = rotated x now n r s ks"
    and low: "lowest_tick subs = None \<or> (\<exists>l k. lowest_tick subs = Some l \<and> find_tick_id l ks = Some k
        \<and> s < snap_xmin (tick_snapshot k))"
    by (auto simp: rotate_step1_def Let_def not_le split: option.splits if_splits)
  have "\<exists>k\<in>set ks. tick_id k \<le> l \<and> s < snap_xmin (tick_snapshot k)"
    if "y \<in> set subs" "sub_last_tick y = Some l" for y l
    using low
  proof
    assume "lowest_tick subs = None"
    with lowest_tickD(1)[OF this] that show ?thesis by simp
  next
    assume "\<exists>l k. lowest_tick subs = Some l \<and> find_tick_id l ks = Some k \<and> s < snap_xmin (tick_snapshot k)"
    then obtain l0 k where "lowest_tick subs = Some l0" "find_tick_id l0 ks = Some k" "s < snap_xmin (tick_snapshot k)"
      by blast
    with lowest_tickD(2)[OF this(1) refl that] show ?thesis
      by (auto simp: find_tick_id_def dest!: find_SomeD)
  qed
  with that s show thesis by blast
qed

lemma switch_step_ok:
  assumes ok: "rot_ok w" and x: "x \<in> set (w_running w)" "w_change w = None"
    "rotate_step1 x now lockable q (length (w_tables w)) (w_row w) (w_ticks w) (w_subs w) = Inr (Some c)"
  shows "rot_ok (w\<lparr>w_change := Some c\<rparr>)" (is "rot_ok ?u")
proof (rule rot_okI)
  note w = rot_okD[OF ok]
  from rotate_step1D[OF x(3)] obtain s where s: "switch_step2 (w_row w) = Some s"
    "c = rotated x now (length (w_tables w)) (w_row w) s (w_ticks w)"
    and past: "\<And>y l. y \<in> set (w_subs w) \<Longrightarrow> sub_last_tick y = Some l \<Longrightarrow>
       \<exists>k\<in>set (w_ticks w). tick_id k \<le> l \<and> s < snap_xmin (tick_snapshot k)" by blast
  show "xids_ok ?u" "ticks_ok ?u" using w(1,2) by (simp_all add: xids_ok_def ticks_ok_def)
  show "ring_shape ?u" "prev_old ?u" "marks_ok ?u" "covered ?u"
    using frame_tables[of ?u w] w(3,5,6,7) by simp_all
  show "cur_fresh ?u" by (rule frame_fresh[OF _ _ _ _ w(4)]) simp_all
  show "change_ok ?u" using s x(1) by (auto simp: change_ok_def switch_ok_def rotated_def Let_def)
  have fl: "w_floor w \<le> s" using w(6) s(1) by (simp add: marks_ok_def)
  have op: "open_floor ?u = s" using s by (simp add: open_floor_def rotated_def Let_def)
  have "above s (w_ticks w) y" if y: "y \<in> set (w_subs w)" for y
  proof -
    from w(8) y have a: "above (max (w_floor w) (open_floor w)) (w_ticks w) y" by (simp add: holders_ok_def)
    show ?thesis
    proof (cases "sub_last_tick y")
      case (Some l)
      with a obtain j where j: "j \<in> set (w_ticks w)" "tick_id j = l" by (auto simp: above_def)
      from past[OF y Some] obtain k where k: "k \<in> set (w_ticks w)" "tick_id k \<le> l" "s < snap_xmin (tick_snapshot k)" by blast
      from tick_mono[OF w(2) k(1) j(1)] j(2) k have "s \<le> snap_xmin (tick_snapshot j)" by (simp add: snap_le_def)
      with a j Some show ?thesis by (auto simp: above_def)
    qed (use a in \<open>simp add: above_def\<close>)
  qed
  then show "holders_ok ?u" using fl by (simp add: holders_ok_def op)
qed

lemma mark_step_ok:
  assumes ok: "rot_ok w" and x: "w_change w = None" "rotate_step2 (w_next w) (w_row w) = Some c"
  shows "rot_ok (w\<lparr>w_next := w_next w + 1, w_running := w_next w # w_running w, w_change := Some c\<rparr>)" (is "rot_ok ?u")
proof (rule rot_okI)
  let ?v = "w\<lparr>w_next := w_next w + 1, w_running := w_next w # w_running w\<rparr>"
  note w = rot_okD[OF assign_ok[OF ok]] and w0 = rot_okD[OF ok]
  have c: "switch_step2 (w_row w) = None" "ch_xid c = w_next w" "ch_truncated c = None"
    "ch_row c = (w_row w)\<lparr>switch_step2 := Some (w_next w)\<rparr>"
    using x(2) by (auto simp: rotate_step2_def split: option.splits)
  show "xids_ok ?u" "ticks_ok ?u" using w(1,2) by (simp_all add: xids_ok_def ticks_ok_def)
  show "ring_shape ?u" "prev_old ?u" "marks_ok ?u" "covered ?u"
    using frame_tables[of ?u ?v] w(3,5,6,7) by simp_all
  show "cur_fresh ?u" by (rule frame_fresh[OF _ _ _ _ w(4)]) simp_all
  have "open_floor ?u = open_floor w" using c x(1) by (simp add: open_floor_def)
  then show "holders_ok ?u" using w0(8) by (simp add: holders_ok_def)
  have "prev_events ?u = prev_events w" by (simp add: prev_events_def)
  then show "change_ok ?u" using w0(5,6) c by (auto simp: change_ok_def mark_ok_def prev_old_def marks_ok_def)
qed

lemma own_change_Some: "own_change x w = Some c \<longleftrightarrow> w_change w = Some c \<and> ch_xid c = x"
  by (auto simp: own_change_def split: option.splits if_splits)

lemma end_ok:
  assumes ok: "rot_ok w" and x: "x \<in> set (w_running w)" "own_change x w = None"
  shows "rot_ok (end_xact x w)" (is "rot_ok ?u")
proof (rule rot_okI)
  note w = rot_okD[OF ok]
  show "xids_ok ?u" using w(1) x(1) by (auto simp: xids_ok_def end_xact_def)
  show "ticks_ok ?u" using w(2) by (auto simp: ticks_ok_def end_xact_def)
  show "ring_shape ?u" "prev_old ?u" "marks_ok ?u" "covered ?u"
    using frame_tables[of ?u w] w(3,5,6,7) by (simp_all add: end_xact_def)
  show "cur_fresh ?u" by (rule frame_fresh[OF _ _ _ _ w(4)]) (simp_all add: end_xact_def)
  show "holders_ok ?u" by (rule frame_holders[OF _ _ _ _ _ w(8)]) (simp_all add: end_xact_def)
  have "mark_ok w c \<Longrightarrow> mark_ok ?u c" "switch_ok w c nr \<Longrightarrow> switch_ok ?u c nr" for c nr
    by (auto simp: mark_ok_def switch_ok_def prev_events_def end_xact_def)
  then show "change_ok ?u" using w(9) x(2)
    by (auto simp: change_ok_def end_xact_def own_change_def split: option.splits if_splits)
qed


lemma commit_mark_ok:
  assumes ok: "rot_ok w" and c: "w_change w = Some c" "ch_truncated c = None"
  shows "rot_ok (end_xact (ch_xid c) (commit_change c w))" (is "rot_ok ?u")
proof (rule rot_okI)
  note w = rot_okD[OF ok]
  from w(9) c have m: "ch_xid c \<in> set (w_running w)" "ch_row c = (w_row w)\<lparr>switch_step2 := Some (ch_xid c)\<rparr>"
    "w_floor w \<le> ch_xid c" "\<forall>e\<in>set (prev_events w). ev_txid e < ch_xid c"
    by (auto simp: change_ok_def mark_ok_def)
  have u: "commit_change c w = w\<lparr>w_row := (w_row w)\<lparr>switch_step2 := Some (ch_xid c)\<rparr>, w_change := None\<rparr>"
    using c m(2) by (simp add: commit_change_def)
  have lt: "ch_xid c < w_next w" using w(1) m(1) by (simp add: xids_ok_def)
  have ev: "cur_events ?u = cur_events w" "prev_events ?u = prev_events w"
    by (simp_all add: u end_xact_def table_defs)
  show "xids_ok ?u" using w(1) m(1) by (auto simp: xids_ok_def u end_xact_def)
  show "ticks_ok ?u" using w(2) by (auto simp: ticks_ok_def u end_xact_def)
  show "ring_shape ?u" using w(3) by (simp add: ring_shape_def u end_xact_def)
  show "cur_fresh ?u" using w(4) unfolding cur_fresh_def ev by (auto simp: u end_xact_def)
  show "prev_old ?u" using w(5) m(4) unfolding prev_old_def ev by (auto simp: u end_xact_def)
  show "marks_ok ?u" using w(6) m(3) lt by (simp add: marks_ok_def u end_xact_def)
  show "covered ?u" using w(7) unfolding covered_def ev by (simp add: u end_xact_def)
  have "open_floor ?u = w_floor w" by (simp add: u open_floor_def end_xact_def)
  then show "holders_ok ?u" using w(8) by (auto simp: holders_ok_def u end_xact_def intro: above_mono)
  show "change_ok ?u" by (simp add: change_ok_def u end_xact_def)
qed

lemma sorted_wrt_map_filter: "sorted_wrt R (map f xs) \<Longrightarrow> sorted_wrt R (map f (filter P xs))"
  by (induction xs) auto

lemma commit_switch_ok:
  assumes ok: "rot_ok w" and c: "w_change w = Some c" "ch_truncated c = Some nr"
  shows "rot_ok (end_xact (ch_xid c) (commit_change c w))" (is "rot_ok ?u")
proof (rule rot_okI)
  note w = rot_okD[OF ok]
  from w(9) c obtain s now where m: "ch_xid c \<in> set (w_running w)"
    "nr = next_table (length (w_tables w)) (cur_table (w_row w))" "switch_step2 (w_row w) = Some s"
    "ch_row c = (w_row w)\<lparr>cur_table := nr, switch_time := now, switch_step1 := ch_xid c, switch_step2 := None\<rparr>"
    "\<forall>i\<in>set (ch_gone c). \<exists>k\<in>set (w_ticks w). tick_id k = i \<and> snap_xmin (tick_snapshot k) < s"
    by (auto simp: change_ok_def switch_ok_def)
  let ?ks = "filter (\<lambda>k. tick_id k \<notin> set (ch_gone c)) (w_ticks w)"
  have u: "commit_change c w = w\<lparr>w_row := ch_row c, w_change := None, w_tables := (w_tables w)[nr := []],
        w_ticks := ?ks, w_floor := s\<rparr>"
    using c m(3) by (simp add: commit_change_def)
  have n: "2 \<le> length (w_tables w)" "cur_table (w_row w) < length (w_tables w)" using w(3) by (simp_all add: ring_shape_def)
  note nr = next_prev_table[OF n, folded m(2)]
  have ev: "cur_events ?u = []" "prev_events ?u = cur_events w"
    using nr by (simp_all add: u end_xact_def table_defs m(4))
  have fl: "w_floor w \<le> s" "s < w_next w" using w(6) m(3) by (simp_all add: marks_ok_def)
  show "xids_ok ?u" using w(1) m(1) by (auto simp: xids_ok_def u end_xact_def)
  show "ticks_ok ?u" using w(2) by (auto simp: ticks_ok_def u end_xact_def sorted_wrt_map_filter)
  show "ring_shape ?u" using n nr by (simp add: ring_shape_def u end_xact_def m(4))
  show "cur_fresh ?u" unfolding cur_fresh_def ev by (simp add: u end_xact_def m(4))
  have cur: "\<forall>e\<in>set (cur_events w). ev_txid e < w_next w" using w(7) by (simp add: covered_def)
  then show "prev_old ?u" unfolding prev_old_def ev by (simp add: u end_xact_def m(4))
  show "marks_ok ?u" using fl by (simp add: marks_ok_def u end_xact_def m(4))
  show "covered ?u"
  proof -
    from w(7) obtain old where o: "mset (w_all w) = mset old + mset (prev_events w) + mset (cur_events w)"
      "\<forall>e\<in>set old. ev_txid e < w_floor w" by (auto simp: covered_def)
    have "\<forall>e\<in>set (prev_events w). ev_txid e < s" using w(5) m(3) by (simp add: prev_old_def)
    with o fl have "mset (w_all w) = mset (old @ prev_events w) + mset (cur_events w) + mset []"
      "\<forall>e\<in>set (old @ prev_events w). ev_txid e < s" by auto
    then show ?thesis unfolding covered_def ev by (auto simp: u end_xact_def intro!: exI[of _ "old @ prev_events w"])
  qed
  have op: "open_floor w = s" using c m(3) by (simp add: open_floor_def)
  have "above s ?ks x" if x: "x \<in> set (w_subs w)" for x
  proof (cases "sub_last_tick x")
    case None
    with w(8) x show ?thesis by (auto simp: holders_ok_def above_def)
  next
    case (Some l)
    from w(8) x fl op have a: "above s (w_ticks w) x" by (simp add: holders_ok_def max_def)
    with Some obtain k where k: "k \<in> set (w_ticks w)" "tick_id k = l" "s \<le> snap_xmin (tick_snapshot k)"
      by (auto simp: above_def)
    have kept: "j \<in> set ?ks" if j: "j \<in> set (w_ticks w)" "l \<le> tick_id j" for j
    proof -
      from tick_mono[OF w(2) k(1) j(1)] j(2) k have "s \<le> snap_xmin (tick_snapshot j)" by (simp add: snap_le_def)
      then have "tick_id j \<notin> set (ch_gone c)" using m(5) tick_inj[OF w(2) _ j(1)] by force
      with j show ?thesis by simp
    qed
    from a Some have nx: "case sub_next_tick x of None \<Rightarrow> True | Some n \<Rightarrow> l < n \<and> (\<exists>k\<in>set (w_ticks w). tick_id k = n)"
      by (simp add: above_def)
    have "\<exists>j\<in>set ?ks. tick_id j = l \<and> s \<le> snap_xmin (tick_snapshot j)" using kept[OF k(1)] k by auto
    moreover have "case sub_next_tick x of None \<Rightarrow> True | Some n \<Rightarrow> l < n \<and> (\<exists>k\<in>set ?ks. tick_id k = n)"
    proof (cases "sub_next_tick x")
      case (Some n)
      with nx obtain j where "l < n" "j \<in> set (w_ticks w)" "tick_id j = n" by auto
      with kept[of j] Some show ?thesis by auto
    qed simp
    ultimately show ?thesis using Some by (simp add: above_def)
  qed
  moreover have "open_floor ?u = s" by (simp add: u open_floor_def end_xact_def)
  ultimately show "holders_ok ?u" by (simp add: holders_ok_def u end_xact_def)
  show "change_ok ?u" by (simp add: change_ok_def u end_xact_def)
qed

lemma commit_ok:
  assumes "rot_ok w" "x \<in> set (w_running w)" shows "rot_ok (commit_xact x w)"
proof (cases "own_change x w")
  case None
  with end_ok[OF assms] show ?thesis by (simp add: commit_xact_def)
next
  case (Some c)
  then have c: "w_change w = Some c" "ch_xid c = x" by (simp_all add: own_change_Some)
  then show ?thesis
    using commit_mark_ok[OF assms(1) c(1)] commit_switch_ok[OF assms(1) c(1)] Some
    by (cases "ch_truncated c") (simp_all add: commit_xact_def)
qed

text \<open>An abort takes the events of its transaction out of the tables.\<close>

lemma undo_ok:
  assumes ok: "rot_ok w"
  shows "rot_ok (w\<lparr>w_tables := map (filter (\<lambda>e. ev_txid e \<noteq> x)) (w_tables w),
     w_all := filter (\<lambda>e. ev_txid e \<noteq> x) (w_all w)\<rparr>)" (is "rot_ok ?u")
proof (rule rot_okI)
  note w = rot_okD[OF ok]
  let ?f = "filter (\<lambda>e. ev_txid e \<noteq> x)"
  have "prev_table (length (w_tables w)) (cur_table (w_row w)) < length (w_tables w)"
    using w(3) prev_table by (simp add: ring_shape_def)
  then have ev: "cur_events ?u = ?f (cur_events w)" "prev_events ?u = ?f (prev_events w)"
    using w(3) by (simp_all add: table_defs)
  show "xids_ok ?u" "ticks_ok ?u" "marks_ok ?u" using w(1,2,6) by (simp_all add: xids_ok_def ticks_ok_def marks_ok_def)
  show "ring_shape ?u" using w(3) by (simp add: ring_shape_def)
  show "cur_fresh ?u" using w(4) unfolding cur_fresh_def ev by auto
  show "prev_old ?u" using w(5) unfolding prev_old_def ev by simp
  show "covered ?u"
  proof -
    from w(7) obtain old where o: "mset (w_all w) = mset old + mset (prev_events w) + mset (cur_events w)"
      "\<forall>e\<in>set old. ev_txid e < w_floor w" by (auto simp: covered_def)
    then have "mset (?f (w_all w)) = mset (?f old) + mset (?f (prev_events w)) + mset (?f (cur_events w))" by simp
    with o w(7) show ?thesis unfolding covered_def ev by (auto intro!: exI[of _ "?f old"])
  qed
  show "holders_ok ?u" by (rule frame_holders[OF _ _ _ _ _ w(8)]) simp_all
  have "mark_ok w c \<Longrightarrow> mark_ok ?u c" "switch_ok w c nr \<Longrightarrow> switch_ok ?u c nr" for c nr
    using ev by (auto simp: mark_ok_def switch_ok_def)
  then show "change_ok ?u" using w(9) by (auto simp: change_ok_def split: option.splits)
qed

lemma drop_change_ok:
  assumes ok: "rot_ok w"
  shows "rot_ok (w\<lparr>w_change := None\<rparr>)" (is "rot_ok ?u")
proof (rule rot_okI)
  note w = rot_okD[OF ok]
  show "xids_ok ?u" "ticks_ok ?u" "change_ok ?u" using w(1,2) by (simp_all add: xids_ok_def ticks_ok_def change_ok_def)
  show "ring_shape ?u" "prev_old ?u" "marks_ok ?u" "covered ?u"
    using frame_tables[of ?u w] w(3,5,6,7) by simp_all
  show "cur_fresh ?u" by (rule frame_fresh[OF _ _ _ _ w(4)]) simp_all
  have "open_floor ?u = w_floor w" by (simp add: open_floor_def)
  then show "holders_ok ?u" using w(8) by (auto simp: holders_ok_def intro: above_mono)
qed

lemma abort_ok: 
  assumes "rot_ok w" "x \<in> set (w_running w)" shows "rot_ok (abort_xact x w)"
proof -
  let ?v = "w\<lparr>w_tables := map (filter (\<lambda>e. ev_txid e \<noteq> x)) (w_tables w), w_all := filter (\<lambda>e. ev_txid e \<noteq> x) (w_all w)\<rparr>"
  let ?u = "?v\<lparr>w_change := (if own_change x w = None then w_change w else None)\<rparr>"
  have "rot_ok ?u"
  proof (cases "own_change x w")
    case None
    then have "?u = ?v" by simp
    with undo_ok[OF assms(1)] show ?thesis by simp
  next
    case (Some c)
    then show ?thesis using drop_change_ok[OF undo_ok[OF assms(1), of x]] by simp
  qed
  moreover have "own_change x ?u = None" by (auto simp: own_change_def split: option.splits if_splits)
  ultimately have "rot_ok (end_xact x ?u)" using assms(2) by (intro end_ok) simp_all
  then show ?thesis by (simp add: abort_xact_def)
qed

lemma rot_step_ok: "rot_step w u \<Longrightarrow> rot_ok w \<Longrightarrow> rot_ok u"
  by (induction rule: rot_step.induct)
    (simp_all add: assign_ok insert_ok tick_ok first_position_ok move_ok switch_step_ok mark_step_ok commit_ok abort_ok)

lemma reachable_ok: "rot_reachable w \<Longrightarrow> rot_ok w"
  by (induction rule: rot_reachable.induct) (auto intro: new_world_ok rot_step_ok)

end
