(* ===== verification/RotationClaims.thy ===== *)
theory RotationClaims
  imports RotationInvariant
begin

text \<open>
  What rotation promises: the ring of tables implements the one table of theory Server, and the
  tables are switched exactly when no subscription needs the previous one.
\<close>

section \<open>The ring implements one table\<close>

text \<open>The rows of the open batch of \<open>x\<close>, read from the tables that \<open>batch_event_tables\<close> names.\<close>

definition ring_batch :: "world \<Rightarrow> sub_row \<Rightarrow> event list option" where
  "ring_batch w x = (case (sub_last_tick x, sub_next_tick x) of
      (Some l, Some n) \<Rightarrow> (case (find_tick_id l (w_ticks w), find_tick_id n (w_ticks w)) of
         (Some prv, Some cur) \<Rightarrow>
           Some (batch_event_sql (tick_snapshot prv) (tick_snapshot cur) (sub_id x)
             (map ((!) (w_tables w))
                (batch_event_tables (length (w_tables w)) (w_row w) (tick_snapshot prv) (tick_snapshot cur))))
       | _ \<Rightarrow> None)
    | _ \<Rightarrow> None)"

text \<open>The rows of queue \<open>q\<close> in the tables of theory Server.\<close>

definition shows_world :: "int \<Rightarrow> world \<Rightarrow> db \<Rightarrow> bool" where
  "shows_world q w t \<longleftrightarrow> filter (\<lambda>k. tick_queue k = q) (t_ticks t) = w_ticks w
     \<and> filter (\<lambda>x. sub_queue x = q) (t_subs t) = w_subs w
     \<and> (case find (\<lambda>r. queue_id r = q) (t_queues t) of None \<Rightarrow> False | Some r \<Rightarrow> queue_events r = w_all w)"

lemma shows_tick: "shows_world q w t \<Longrightarrow> find_tick q (Some i) t = find_tick_id i (w_ticks w)"
proof -
  have f: "find (\<lambda>r. tick_queue r = q \<and> tick_id r = i) ks = find (\<lambda>r. tick_id r = i) (filter (\<lambda>k. tick_queue k = q) ks)" for ks
    by (induction ks) auto
  show "shows_world q w t \<Longrightarrow> find_tick q (Some i) t = find_tick_id i (w_ticks w)"
    unfolding shows_world_def find_tick_def find_tick_id_def option.case f by simp
qed

lemma find_tick_id_mem:
  assumes "ticks_ok w" "k \<in> set (w_ticks w)" shows "find_tick_id (tick_id k) (w_ticks w) = Some k"
proof (cases "find_tick_id (tick_id k) (w_ticks w)")
  case None
  with assms(2) show ?thesis by (auto simp: find_tick_id_def find_None_iff)
next
  case (Some j)
  then have "j \<in> set (w_ticks w)" "tick_id j = tick_id k" by (auto simp: find_tick_id_def dest!: find_SomeD)
  with tick_inj[OF assms(1) this(1) assms(2)] Some show ?thesis by simp
qed

text \<open>The window of a subscription is in the tables that its batch reads.\<close>

lemma window_in_ring:
  assumes ok: "rot_ok w" and j: "prv \<in> set (w_ticks w)" "cur \<in> set (w_ticks w)"
    and fl: "w_floor w \<le> snap_xmin (tick_snapshot prv)"
    and P: "\<And>e. P e \<Longrightarrow> in_window (tick_snapshot prv) (tick_snapshot cur) (ev_txid e)"
  shows "mset (filter P (concat (map ((!) (w_tables w))
      (batch_event_tables (length (w_tables w)) (w_row w) (tick_snapshot prv) (tick_snapshot cur)))))
    = mset (filter P (w_all w))"
proof -
  note w = rot_okD[OF ok]
  from w(7) obtain old where o: "mset (w_all w) = mset old + mset (prev_events w) + mset (cur_events w)"
    "\<forall>e\<in>set old. ev_txid e < w_floor w" by (auto simp: covered_def)
  have vis: "P e \<Longrightarrow> \<not> pg_visible_in_snapshot (ev_txid e) (tick_snapshot prv) \<and> pg_visible_in_snapshot (ev_txid e) (tick_snapshot cur)" for e
    using P by (simp add: in_window_def)
  have ge: "snap_xmin (tick_snapshot prv) \<le> ev_txid e" if "P e" for e
    using vis[OF that] by (auto simp: pg_visible_in_snapshot_def split: if_splits)
  have none: "filter P old = []" using o(2) fl ge by (force simp: filter_empty_conv)
  have "mset (filter P (w_all w)) = filter_mset P (mset (w_all w))" by simp
  also have "\<dots> = mset (filter P (prev_events w)) + mset (filter P (cur_events w))" using o(1) none by (simp del: mset_filter add: mset_filter[symmetric])
  finally have all: "mset (filter P (w_all w)) = mset (filter P (prev_events w)) + mset (filter P (cur_events w))" .
  have c: "snap_xmax (tick_snapshot cur) < switch_step1 (w_row w) \<Longrightarrow> \<forall>e\<in>set (cur_events w). \<not> P e"
    using w(4) j(2) vis by (force simp: cur_fresh_def)
  have p: "switch_step2 (w_row w) = Some s \<Longrightarrow> s < snap_xmin (tick_snapshot prv) \<Longrightarrow> \<forall>e\<in>set (prev_events w). \<not> P e" for s
    using w(5) ge by (force simp: prev_old_def)
  show ?thesis
    unfolding all batch_event_tables_def Let_def using c p
    by (auto simp: cur_events_def prev_events_def split: option.splits)
qed


section \<open>When the tables are switched\<close>

lemma lowest_mem:
  assumes "lowest_tick subs = Some l" shows "\<exists>y\<in>set subs. sub_last_tick y = Some l"
proof -
  have "foldl min (a :: int) as \<in> set (a # as)" for a as by (rule foldl_pick) (simp add: min_def)
  with assms have "l \<in> set (List.map_filter sub_last_tick subs)"
    by (auto simp: lowest_tick_def simp del: list.set split: list.splits)
  then show ?thesis by (induction subs) (auto simp: List.map_filter_simps split: option.splits)
qed

text \<open>
  The tables of a queue are switched exactly when it is time, the mark of the last switch is
  known and the snapshots of all subscriptions are past it: one subscription that lags keeps its
  tables, and nothing else does.
\<close>

theorem rotation_waits_for_slowest:
  assumes w: "rot_reachable w"
  shows "(\<exists>c. rotate_step1 x now lockable q (length (w_tables w)) (w_row w) (w_ticks w) (w_subs w) = Inr (Some c)) \<longleftrightarrow>
    lockable \<and> (\<exists>p s. rotation_period (w_row w) = Some p \<and> switch_step2 (w_row w) = Some s
      \<and> switch_time (w_row w) + p < now \<and> switch_step1 (w_row w) \<le> x
      \<and> list_all (\<lambda>y. list_all (\<lambda>k. sub_last_tick y = Some (tick_id k) \<longrightarrow> s < snap_xmin (tick_snapshot k)) (w_ticks w)) (w_subs w))"
    (is "?L \<longleftrightarrow> ?R")
proof
  note o = rot_okD[OF reachable_ok[OF w]]
  {
    assume ?L
    then obtain c where c: "rotate_step1 x now lockable q (length (w_tables w)) (w_row w) (w_ticks w) (w_subs w) = Inr (Some c)" ..
    from rotate_step1D[OF this] obtain s where s: "switch_step2 (w_row w) = Some s"
      and past: "\<And>y l. y \<in> set (w_subs w) \<Longrightarrow> sub_last_tick y = Some l \<Longrightarrow>
        \<exists>k\<in>set (w_ticks w). tick_id k \<le> l \<and> s < snap_xmin (tick_snapshot k)" by blast
    have "s < snap_xmin (tick_snapshot k)" if "y \<in> set (w_subs w)" "k \<in> set (w_ticks w)" "sub_last_tick y = Some (tick_id k)" for y k
    proof -
      from past[OF that(1,3)] obtain j where j: "j \<in> set (w_ticks w)" "tick_id j \<le> tick_id k" "s < snap_xmin (tick_snapshot j)" by blast
      from tick_mono[OF o(2) j(1) that(2) j(2)] j(3) show ?thesis by (simp add: snap_le_def)
    qed
    with c s show ?R by (auto simp: rotate_step1_def Let_def list_all_iff split: option.splits if_splits)
  }
  {
    assume r: ?R
    then obtain p s where s: "rotation_period (w_row w) = Some p" "switch_step2 (w_row w) = Some s" "lockable"
      "switch_time (w_row w) + p < now" "switch_step1 (w_row w) \<le> x"
      and past: "\<And>y k. y \<in> set (w_subs w) \<Longrightarrow> k \<in> set (w_ticks w) \<Longrightarrow> sub_last_tick y = Some (tick_id k) \<Longrightarrow> s < snap_xmin (tick_snapshot k)"
      by (auto simp: list_all_iff)
    show ?L
    proof (cases "lowest_tick (w_subs w)")
      case (Some l)
      from lowest_mem[OF this] obtain y where y: "y \<in> set (w_subs w)" "sub_last_tick y = Some l" by blast
      with o(8) obtain k where k: "k \<in> set (w_ticks w)" "tick_id k = l" by (fastforce simp: holders_ok_def above_def)
      have "find_tick_id l (w_ticks w) = Some k" using find_tick_id_mem[OF o(2) k(1)] k(2) by simp
      moreover have "s < snap_xmin (tick_snapshot k)" using past[OF y(1) k(1)] y(2) k(2) by simp
      ultimately show ?thesis using s Some by (simp add: rotate_step1_def)
    qed (use s in \<open>simp add: rotate_step1_def\<close>)
  }
qed

end
