(* ===== verification/RotationWitnesses.thy ===== *)
theory RotationWitnesses
  imports RotationClaims Scenario
begin

text \<open>
  The theorems on rotation, on a queue whose tables are switched while a transaction has inserted
  one event before the switch and inserts another one after it.
\<close>

definition rw_begin :: "world \<Rightarrow> world" where
  "rw_begin w = w\<lparr>w_next := w_next w + 1, w_running := w_next w # w_running w\<rparr>"

definition rw_insert :: "event \<Rightarrow> world \<Rightarrow> world" where
  "rw_insert e w = w\<lparr>w_tables := put_event (cur_table (w_row w)) e (w_tables w), w_all := w_all w @ [e]\<rparr>"

definition rw_tick :: "tick \<Rightarrow> world \<Rightarrow> world" where
  "rw_tick k w = w\<lparr>w_ticks := w_ticks w @ [k]\<rparr>"

definition rw_switch :: "change \<Rightarrow> world \<Rightarrow> world" where
  "rw_switch c w = w\<lparr>w_change := Some c\<rparr>"

definition rw_move :: "sub_row list \<Rightarrow> world \<Rightarrow> world" where
  "rw_move subs w = w\<lparr>w_subs := subs\<rparr>"

lemma rw_steps:
  "rot_reachable w \<Longrightarrow> rot_reachable (rw_begin w)"
  "rot_reachable w \<Longrightarrow> ev_txid e \<in> set (w_running w) \<Longrightarrow> own_change (ev_txid e) w = None \<Longrightarrow> rot_reachable (rw_insert e w)"
  "rot_reachable w \<Longrightarrow> tick_snapshot k = now_snapshot w \<Longrightarrow> list_all (\<lambda>j. tick_id j < tick_id k) (w_ticks w) \<Longrightarrow>
    rot_reachable (rw_tick k w)"
  "rot_reachable w \<Longrightarrow> x \<in> set (w_running w) \<Longrightarrow> rot_reachable (commit_xact x w)"
  "rot_reachable w \<Longrightarrow> forward (w_ticks w) (w_subs w) subs \<Longrightarrow> rot_reachable (rw_move subs w)"
  unfolding rw_begin_def rw_insert_def rw_tick_def rw_move_def
  by (blast intro: rot_reachable.step rot_step.intros)+

definition rw_start :: world where
  "rw_start = new_world 3 (Some 10) 5 0 (sc_tick 1 6 0) [] 6 5"

definition rw_sub :: sub_row where
  "rw_sub = sc_sub\<lparr>sub_last_tick := Some 2, sub_next_tick := Some 3, sub_batch := Some 1\<rparr>"

text \<open>Transaction 6 inserts; a tick; 7 inserts before 8 has switched the tables, and after.\<close>

definition rw_filled :: world where
  "rw_filled = rw_move [sc_sub\<lparr>sub_last_tick := Some 2\<rparr>] (rw_begin (rw_insert (sc_event 2 7) (rw_begin (rw_tick (sc_tick 2 7 1)
     (commit_xact 6 (rw_insert (sc_event 1 6) (rw_begin (rw_move [sc_sub] rw_start))))))))"

definition rw_switched :: world where
  "rw_switched = rw_move [rw_sub] (rw_tick (sc_tick 3 9 3) (commit_xact 7 (rw_insert (sc_event 3 7) (commit_xact 8
     (rw_switch (rotated 8 20 3 (w_row rw_filled) 5 (w_ticks rw_filled)) rw_filled)))))"

lemma rw_filled_reachable: "rot_reachable rw_filled"
proof -
  have s: "rot_reachable rw_start" unfolding rw_start_def
    by (rule rot_reachable.start) (simp_all add: sc_tick_def sc_snap_def snap_wf_def)
  have "rot_reachable (rw_start\<lparr>w_subs := w_subs rw_start @ [sc_sub]\<rparr>)"
    by (rule rot_reachable.step[OF s], rule rot_step.subscribe) code_simp+
  then have b: "rot_reachable (rw_move [sc_sub] rw_start)" by (simp add: rw_move_def rw_start_def new_world_def)
  show ?thesis unfolding rw_filled_def by (intro rw_steps b) code_simp+
qed

lemma rw_switched_reachable: "rot_reachable rw_switched"
proof -
  let ?c = "rotated 8 20 3 (w_row rw_filled) 5 (w_ticks rw_filled)"
  have "rotate_step1 8 20 True ''q'' (length (w_tables rw_filled)) (w_row rw_filled) (w_ticks rw_filled) (w_subs rw_filled)
      = Inr (Some ?c)"
    by code_simp
  note c = this
  have "8 \<in> set (w_running rw_filled)" "w_change rw_filled = None" by code_simp+
  from rot_reachable.step[OF rw_filled_reachable rot_step.switch[OF this c]]
  have b: "rot_reachable (rw_switch ?c rw_filled)" unfolding rw_switch_def .
  show ?thesis unfolding rw_switched_def by (intro rw_steps b) code_simp+
qed

definition rw_db :: db where
  "rw_db = (sc_db ''q'')\<lparr>t_queues := [(sc_queue ''q'')\<lparr>queue_events := [sc_event 1 6, sc_event 2 7, sc_event 3 7]\<rparr>],
     t_ticks := [sc_tick 1 6 0, sc_tick 2 7 1, sc_tick 3 9 3], t_subs := [rw_sub]\<rparr>"


theorem rotation_waits_for_slowest_witness:
  "(\<exists>c. rotate_step1 8 20 True ''q'' 3 (w_row rw_filled) (w_ticks rw_filled) (w_subs rw_filled) = Inr (Some c))
    \<and> \<not> (\<exists>c. rotate_step1 9 20 True ''q'' 3 (w_row rw_switched) (w_ticks rw_switched) (w_subs rw_switched) = Inr (Some c))"
proof -
  have n: "length (w_tables rw_filled) = 3" "length (w_tables rw_switched) = 3" by code_simp+
  have "rotation_period (w_row rw_filled) = Some 10" "switch_step2 (w_row rw_filled) = Some 5"
    "switch_time (w_row rw_filled) + 10 < 20" "switch_step1 (w_row rw_filled) \<le> 8" by code_simp+
  moreover have "list_all (\<lambda>y. list_all (\<lambda>k. sub_last_tick y = Some (tick_id k) \<longrightarrow> 5 < snap_xmin (tick_snapshot k))
    (w_ticks rw_filled)) (w_subs rw_filled)" by code_simp
  moreover have "switch_step2 (w_row rw_switched) = None" by code_simp
  ultimately show ?thesis
    using rotation_waits_for_slowest[OF rw_filled_reachable, of 8 20 True "''q''"]
      rotation_waits_for_slowest[OF rw_switched_reachable, of 9 20 True "''q''"] unfolding n by fastforce
qed

section \<open>The first subscription after a switch\<close>

text \<open>
  Why a first subscription needs the floor: with no subscription, the tables are switched twice
  while transaction 6 is running, and its event is in neither of the two tables that a batch
  reads. A subscription that registers now does not see transaction 6 in its tick, so the event is due
  to it once 6 commits; it does not come.
\<close>

definition rl_switch :: "int \<Rightarrow> int \<Rightarrow> world \<Rightarrow> world" where
  "rl_switch x now w = (case rotate_step1 x now True ''q'' (length (w_tables w)) (w_row w) (w_ticks w) (w_subs w) of
      Inr (Some c) \<Rightarrow> commit_xact x (rw_switch c w)
    | _ \<Rightarrow> w)"

definition rl_mark :: "world \<Rightarrow> world" where
  "rl_mark w = (case rotate_step2 (w_next w) (w_row w) of
      Some c \<Rightarrow> commit_xact (w_next w) (w\<lparr>w_next := w_next w + 1, w_running := w_next w # w_running w, w_change := Some c\<rparr>)
    | None \<Rightarrow> w)"

definition rl_before :: world where
  "rl_before = rw_tick (sc_tick 2 0 1\<lparr>tick_snapshot := \<lparr>snap_xmin = 6, snap_xmax = 10, snap_xip = [6]\<rparr>\<rparr>)
     (rl_switch 9 40 (rw_begin (rl_mark (rl_switch 7 20 (rw_begin (rw_insert (sc_event 1 6) (rw_begin rw_start)))))))"

definition rl_after :: world where
  "rl_after = rw_tick (sc_tick 3 10 1) (commit_xact 6 (rl_before\<lparr>w_subs := [rw_sub]\<rparr>))"

lemma rl_reach:
  "rot_reachable w \<Longrightarrow> x \<in> set (w_running w) \<Longrightarrow> w_change w = None \<Longrightarrow> rot_reachable (rl_switch x now w)"
  "rot_reachable w \<Longrightarrow> w_change w = None \<Longrightarrow> rot_reachable (rl_mark w)"
proof -
  show "rot_reachable w \<Longrightarrow> x \<in> set (w_running w) \<Longrightarrow> w_change w = None \<Longrightarrow> rot_reachable (rl_switch x now w)"
    unfolding rl_switch_def rw_switch_def
    by (auto split: sum.splits option.splits intro!: rot_reachable.step[OF _ rot_step.commit] elim!: rot_reachable.step[OF _ rot_step.switch])
  show "rot_reachable w \<Longrightarrow> w_change w = None \<Longrightarrow> rot_reachable (rl_mark w)"
    unfolding rl_mark_def
    by (auto split: option.splits intro!: rot_reachable.step[OF _ rot_step.commit] elim!: rot_reachable.step[OF _ rot_step.mark])
qed

lemma unguarded_registration_loses_event:
  "rot_reachable rl_before" "w_subs rl_before = []" "open_floor rl_before = 8"
  "snap_xmin (tick_snapshot (last (w_ticks rl_before))) = 6"
  "w_all rl_after = [sc_event 1 6]" "ring_batch rl_after rw_sub = Some []"
  "batch_event_sql (tick_snapshot (w_ticks rl_after ! 0)) (tick_snapshot (w_ticks rl_after ! 1)) 1 [w_all rl_after] = [sc_event 1 6]"
proof -
  have s: "rot_reachable rw_start" unfolding rw_start_def
    by (rule rot_reachable.start) (simp_all add: sc_tick_def sc_snap_def snap_wf_def)
  show "rot_reachable rl_before" unfolding rl_before_def by (intro rw_steps rl_reach s) code_simp+
qed code_simp+

end
