(* ===== verification/Pipeline.thy ===== *)
theory Pipeline
  imports SqlErrors
begin

text \<open>
  From the producer to the consumer and back: what a tick delivers of what was sent, that a
  batch stays the same until it is acked, and that a nacked message returns.
\<close>

section \<open>Opening a batch\<close>

text \<open>The subscription \<open>s\<close> of consumer \<open>c\<close> on queue \<open>r\<close> stands on tick \<open>tk\<close>.\<close>

definition standing :: "string \<Rightarrow> string \<Rightarrow> db \<Rightarrow> qrow \<Rightarrow> sub_row \<Rightarrow> tick \<Rightarrow> bool" where
  "standing q c t r s tk \<longleftrightarrow> subs_ok t \<and> find_queue q t = Some r \<and> find_sub q c t = Some s
     \<and> sub_role s = Role_normal \<and> find_tick (sub_queue s) (sub_last_tick s) t = Some tk"

lemma find_sub_queue: "find_sub q c t = Some s \<Longrightarrow> find_queue q t = Some r \<Longrightarrow> sub_queue s = queue_id r"
  by (auto simp: find_sub_def dest: find_SomeD split: option.splits)

lemma find_queue_by_id:
  "subs_ok t \<Longrightarrow> find_queue q t = Some r \<Longrightarrow> find (\<lambda>x. queue_id x = queue_id r) (t_queues t) = Some r"
  by (rule find_unique) (auto simp: find_queue_def subs_ok_def dest: find_SomeD distinct_keyD)

lemma open_batch:
  assumes st: "standing q c t r s tk" and "sub_batch s = None"
    and "min_tick (queue_id r) (\<lambda>k. tick_id tk < tick_id k) t = Some cur"
    and "find_tick (queue_id r) (Some (tick_id cur)) t = Some cur"
  defines "b \<equiv> sq_next (s_batch t)"
  obtains t' where "next_batch ctx q c t = (t', Inr (Some b))"
    "batch_rows b t' = Some (batch_event_sql (tick_snapshot tk) (tick_snapshot cur) (sub_id s) [queue_events r])"
proof -
  note st = st[unfolded standing_def]
  have sq: "sub_queue s = queue_id r" using find_sub_queue st by blast
  obtain t' where nb: "next_batch ctx q c t = (t', Inr (Some b))"
    using st assms(2,3) sq
    by (auto simp: next_batch_def sql_defs nextval_batch_def set_sub_def b_def)
  have ok: "subs_ok t" using st by simp
  from nb show thesis
  proof (cases rule: next_batch_cases[OF ok nb])
    case (1 x)
    then show ?thesis using st assms(2) by auto
  next
    case (2 x prev k)
    have x: "x = s" "prev = tk" "k = cur" using 2 st sq assms(3) by auto
    let ?s = "stamp ctx b (tick_id cur) s"
    have t': "t' = t\<lparr>s_batch := sq_set b, t_subs := upd_key (sub_key s) (stamp ctx b (tick_id cur)) (t_subs t)\<rparr>"
      using 2(6) x st by simp
    have "find_sub q c t' = Some ?s"
      by (rule find_sub_upd[where t = t]) (use st t' in simp_all)
    then have fb: "find_batch b t' = Some ?s"
      using find_batch_iff[OF next_batch_ok[OF ok nb], of b] find_sub_mem[of q c t'] by simp
    have f: "find_tick i k t' = find_tick i k t" "t_queues t' = t_queues t" for i k
      using t' by (simp_all add: find_tick_def split: option.split)
    have "batch_rows b t' = Some (batch_event_sql (tick_snapshot tk) (tick_snapshot cur) (sub_id s) [queue_events r])"
      using st assms(4) sq find_queue_by_id[OF ok, of q r]
      by (simp add: batch_rows_def fb f)
    with nb that show ?thesis by blast
  qed
qed

section \<open>A message that was sent is received\<close>

lemma ticker_adds:
  assumes "pg_ticker ctx q t = (t', Inr (Some i))" "find_queue q t = Some r"
  shows "i = sq_next (s_tick t (queue_id r))
    \<and> t' = t\<lparr>s_tick := (s_tick t)(queue_id r := sq_set i), t_ticks := t_ticks t @
        [\<lparr>tick_queue = queue_id r, tick_id = i, tick_time = pg_now ctx, tick_snapshot = pg_snapshot ctx,
          tick_event_seq = last_value (s_event t (queue_id r))\<rparr>]\<rparr>"
  using assms by (auto simp: pg_ticker_def sql_defs nextval_tick_def split: option.splits if_splits)

lemma min_tick_new:
  assumes "\<forall>k\<in>set (t_ticks t). tick_queue k = q \<longrightarrow> \<not> P k" "tick_queue new = q" "P new"
  shows "min_tick q P (t\<lparr>t_ticks := t_ticks t @ [new]\<rparr>) = Some new"
proof -
  have "filter (\<lambda>k. tick_queue k = q \<and> P k) (t_ticks t) = []" using assms(1) by (simp add: filter_empty_conv)
  then show ?thesis using assms(2,3) by (simp add: min_tick_def)
qed

lemma find_tick_append:
  "find_tick q i t = Some k \<Longrightarrow> find_tick q i (t\<lparr>t_ticks := t_ticks t @ ks\<rparr>) = Some k"
  by (auto simp: find_tick_def find_append split: option.splits)

lemma find_tick_new:
  assumes "\<forall>k\<in>set (t_ticks t). tick_queue k = q \<longrightarrow> tick_id k \<noteq> i" "tick_queue new = q" "tick_id new = i"
  shows "find_tick q (Some i) (t\<lparr>t_ticks := t_ticks t @ [new]\<rparr>) = Some new"
proof -
  have "find (\<lambda>r. tick_queue r = q \<and> tick_id r = i) (t_ticks t) = None"
    using assms(1) by (auto simp: find_None_iff)
  then show ?thesis using assms(2,3) by (simp add: find_tick_def find_append)
qed

lemma find_tick_cong: "t_ticks t = t_ticks u \<Longrightarrow> find_tick q i t = find_tick q i u"
  by (simp add: find_tick_def cong: option.case_cong)

text \<open>A change that no lookup of a subscription sees.\<close>

lemma standing_same:
  assumes "standing q c t r s tk" "t_subs t' = t_subs t" "t_consumers t' = t_consumers t" "s_batch t' = s_batch t"
    and "t_ticks t' = t_ticks t @ ks" "map queue_id (t_queues t') = map queue_id (t_queues t)"
    and "find_queue q t' = Some r'" "queue_id r' = queue_id r"
  shows "standing q c t' r' s tk"
proof -
  note st = assms(1)[unfolded standing_def]
  have "find_tick (sub_queue s) (sub_last_tick s) t' = Some tk"
    using st find_tick_append[of "sub_queue s" "sub_last_tick s" t tk ks]
      find_tick_cong[of t' "t\<lparr>t_ticks := t_ticks t @ ks\<rparr>"] assms(5) by simp
  moreover have "find_sub q c t' = Some s"
    using st assms(2,3,7,8) by (simp add: find_sub_def find_consumer_def split: option.splits)
  moreover have "subs_ok t'"
    using st assms by (simp add: subs_ok_def cong: option.case_cong)
  ultimately show ?thesis using st assms(7) by (simp add: standing_def)
qed

lemma force_next_tick_state:
  "pg_force_next_tick q t = (t', Inr x) \<Longrightarrow> \<exists>f. t' = t\<lparr>s_event := f\<rparr>"
  by (auto simp: pg_force_next_tick_def pg_force_tick_def sql_defs nextval_event_def split: option.splits if_splits)

lemma find_queue_seq [simp]: "find_queue q (t\<lparr>s_event := f\<rparr>) = find_queue q t"
    "find_queue q (t\<lparr>s_tick := g, t_ticks := ks\<rparr>) = find_queue q t"
  by (simp_all add: find_queue_def)

text \<open>No tick of the queue lies after the one that the subscription stands on.\<close>

definition caught_up :: "string \<Rightarrow> string \<Rightarrow> db \<Rightarrow> qrow \<Rightarrow> sub_row \<Rightarrow> tick \<Rightarrow> bool" where
  "caught_up q c t r s tk \<longleftrightarrow> standing q c t r s tk \<and> sub_batch s = None
     \<and> (\<forall>k\<in>set (t_ticks t). tick_queue k = queue_id r \<longrightarrow> tick_id k \<le> tick_id tk)
     \<and> tick_id tk < sq_next (s_tick t (queue_id r))"

text \<open>The transaction \<open>x\<close> committed between two snapshots.\<close>

definition between :: "snapshot \<Rightarrow> snapshot \<Rightarrow> int \<Rightarrow> bool" where
  "between prv cur x \<longleftrightarrow> snap_wf prv \<and> snap_wf cur \<and> snap_xmax prv \<le> snap_xmax cur
     \<and> \<not> pg_visible_in_snapshot x prv \<and> pg_visible_in_snapshot x cur"

text \<open>
  What the next batch holds once a caught-up subscription's queue has got an event and a tick.
\<close>

lemma sent_then_batch:
  assumes up: "caught_up q c t r s tk" and snap: "between (tick_snapshot tk) (pg_snapshot ctx3) (pg_xid ctx)"
    and send: "pg_send ctx q ty u t = (t1, Inr i)"
    and tick: "pg_force_next_tick q t1 = (t2, Inr x)" "pg_ticker ctx3 q t2 = (t3, Inr (Some k))"
  obtains b t4 evs where "next_batch ctx4 q c t3 = (t4, Inr (Some b))" "batch_rows b t4 = Some evs"
    "new_event ctx i (pg_now ctx) None None (Some ty) (Some u) None None None None \<in> set evs"
proof -
  have st: "standing q c t r s tk" and sb: "sub_batch s = None"
    and latest: "\<forall>k\<in>set (t_ticks t). tick_queue k = queue_id r \<longrightarrow> tick_id k \<le> tick_id tk"
      "tick_id tk < sq_next (s_tick t (queue_id r))"
    using up by (simp_all add: caught_up_def)
  have fq: "find_queue q t = Some r" using st by (simp add: standing_def)
  have mi: "may_insert ctx r"
    using send fq by (auto simp: pg_send_def insert_event_def insert_event_raw_def sql_defs nextval_event_def
        may_insert_def split: if_splits)
  let ?e = "new_event ctx i (pg_now ctx) None None (Some ty) (Some u) None None None None"
  let ?r = "r\<lparr>queue_events := queue_events r @ [?e]\<rparr>"
  have t1: "t1 = grow (queue_id r) [?e] (Suc 0) t"
    using send pg_send_eq[OF fq mi, of ty u] by (auto simp: bulk_events_def)
  have f1: "find_queue q t1 = Some ?r" using fq by (simp add: t1 find_queue_grow)
  obtain f where t2: "t2 = t1\<lparr>s_event := f\<rparr>" using force_next_tick_state[OF tick(1)] by blast
  have f2: "find_queue q t2 = Some ?r" using f1 by (simp add: t2)
  let ?new = "\<lparr>tick_queue = queue_id r, tick_id = k, tick_time = pg_now ctx3, tick_snapshot = pg_snapshot ctx3,
      tick_event_seq = last_value (s_event t2 (queue_id r))\<rparr>"
  have t3: "k = sq_next (s_tick t (queue_id r))"
    "t3 = t2\<lparr>s_tick := (s_tick t2)(queue_id r := sq_set k), t_ticks := t_ticks t @ [?new]\<rparr>"
    using ticker_adds[OF tick(2) f2] by (simp_all add: t2 t1 grow_def)
  have lt: "tick_id tk < k" using latest(2) t3(1) by simp
  have f3: "find_queue q t3 = Some ?r" using f2 by (simp add: t3(2))
  have st3: "standing q c t3 ?r s tk"
    by (rule standing_same[OF st _ _ _ _ _ f3, where ks = "[?new]"])
       (simp_all add: t3(2) t2 t1 grow_def comp_def if_distrib[of queue_id])
  have old: "\<forall>k\<in>set (t_ticks t). tick_queue k = queue_id r \<longrightarrow> \<not> tick_id tk < tick_id k" using latest(1) by auto
  have m: "min_tick (queue_id ?r) (\<lambda>k. tick_id tk < tick_id k) t3 = Some ?new"
    using min_tick_new[OF old, of ?new] lt by (simp add: t3(2) min_tick_def)
  have fresh: "\<forall>x\<in>set (t_ticks t). tick_queue x = queue_id r \<longrightarrow> tick_id x \<noteq> k" using latest(1) lt by auto
  have ft: "find_tick (queue_id ?r) (Some (tick_id ?new)) t3 = Some ?new"
    using find_tick_new[OF fresh, of ?new] by (simp add: t3(2) find_tick_def)
  obtain t4 where "next_batch ctx4 q c t3 = (t4, Inr (Some (sq_next (s_batch t3))))"
    "batch_rows (sq_next (s_batch t3)) t4 = Some (batch_event_sql (tick_snapshot tk) (tick_snapshot ?new) (sub_id s) [queue_events ?r])"
    using open_batch[OF st3 sb m ft] by blast
  moreover have "?e \<in> set (batch_event_sql (tick_snapshot tk) (tick_snapshot ?new) (sub_id s) [queue_events ?r])"
    using snap by (simp add: between_def batch_event_sql_set batch_reference_def in_window_simp retry_expr_def new_event_def)
  ultimately show thesis using that by blast
qed

section \<open>The client's calls, each in its own transaction\<close>

definition idle :: "pgconn \<Rightarrow> bool" where
  "idle s \<longleftrightarrow> pc_autocommit s \<and> \<not> pc_in_tx s \<and> \<not> pc_closed s"

text \<open>An autocommit connection after a statement that left \<open>t\<close>.\<close>

definition after :: "pgconn \<Rightarrow> db \<Rightarrow> pgconn" where
  "after s t = s\<lparr>pc_committed := t, pc_txn := Suc (pc_txn s)\<rparr>"

lemma after_simps [simp]:
  "idle (after s t) = idle s" "pc_committed (after s t) = t" "pc_txn (after s t) = Suc (pc_txn s)"
  by (simp_all add: after_def idle_def)

lemma execute_idle:
  "idle s \<Longrightarrow> pg_execute other ctxs s sql ps = (case pg_call other (ctxs (pc_txn s)) sql ps (pc_committed s) of
      (t, Inl e) \<Rightarrow> (after s (keep_sequences (pc_committed s) t), Inl (PsycopgError e))
    | (t, Inr rows) \<Rightarrow> (after s t, Inr rows))"
  by (simp add: pg_execute_def idle_def after_def split: prod.splits sum.splits)

lemma call_scalar_idle:
  assumes "idle s" "call_scalar (pg_driver other ctxs rep) s sql ps = (s', Inr v)"
  obtains t rows where "pg_call other (ctxs (pc_txn s)) sql ps (pc_committed s) = (t, Inr rows)"
    "s' = after s t" "row_item (fetchone rows) 0 = Inr v"
  using assms by (auto simp: call_scalar_def run_sql_def execute_idle bindE_eq_Inr split: prod.splits sum.splits)

lemma scalar_call:
  assumes "idle s" "call_scalar (pg_driver other ctxs rep) s sql ps = (s', Inr v)"
    and "pg_call other (ctxs (pc_txn s)) sql ps = scalar f m"
  obtains t x where "m (pc_committed s) = (t, Inr x)" "s' = after s t" "v = f x"
  using assms(1,2)
proof (rule call_scalar_idle)
  fix t rows assume a: "pg_call other (ctxs (pc_txn s)) sql ps (pc_committed s) = (t, Inr rows)"
    "s' = after s t" "row_item (fetchone rows) 0 = Inr v"
  then show thesis using scalar_ok[of f m "pc_committed s" t rows] assms(3) that
    by (auto simp: row_item_def fetchone_def)
qed

lemma send_idle:
  assumes "idle s" "send (pg_driver other ctxs rep) s q payload0 ty = (s', Inr v)" "\<nexists>p t. payload0 = PyEvent p t"
  obtains j u i t where "encode_payload payload0 = Inr (PyStr j)" "pg_jsonb_text (ctxs (pc_txn s)) j = Some u"
    "pg_send (ctxs (pc_txn s)) q (if ty = [] then ''default'' else ty) u (pc_committed s) = (t, Inr i)"
    "s' = after s t" "v = PyInt i"
proof -
  let ?ctx = "ctxs (pc_txn s)" and ?ty = "if ty = [] then ''default'' else ty"
  let ?sql = "if ty \<noteq> [] \<and> ty \<noteq> ''default'' then ''select pgque.send(%s, %s, %s::jsonb)'' else ''select pgque.send(%s, %s::jsonb)''"
  let ?ps = "\<lambda>p. if ty \<noteq> [] \<and> ty \<noteq> ''default'' then [PyStr q, PyStr ty, p] else [PyStr q, p]"
  have one: "(case payload0 of PyEvent p t \<Rightarrow> (t, p) | _ \<Rightarrow> (ty, payload0)) = (ty, payload0)"
    using assms(3) by (cases payload0) auto
  from assms(2) obtain p where p: "encode_payload payload0 = Inr p"
    "call_scalar (pg_driver other ctxs rep) s ?sql (?ps p) = (s', Inr v)"
    by (auto simp: send_def one Let_def simp del: encode_payload.simps split: sum.splits if_splits)
  from call_scalar_idle[OF assms(1) p(2)] obtain t rows where
    c: "pg_call other ?ctx ?sql (?ps p) (pc_committed s) = (t, Inr rows)" "s' = after s t" "row_item (fetchone rows) 0 = Inr v" .
  obtain j where j: "p = PyStr j"
    using c(1) by (cases p) (auto simp: call_send_def call_send_typed_def ill_typed_def pg_raise_def split: if_splits)
  have "pg_call other ?ctx ?sql (?ps p) = scalar PyInt (sql_bind (jsonb_cast ?ctx j) (pg_send ?ctx q ?ty))"
    by (auto simp: j call_send_def call_send_typed_def)
  with c(1) obtain i where i: "sql_bind (jsonb_cast ?ctx j) (pg_send ?ctx q ?ty) (pc_committed s) = (t, Inr i)" "rows = [[PyInt i]]"
    using scalar_ok by metis
  then obtain u where u: "pg_jsonb_text ?ctx j = Some u" "pg_send ?ctx q ?ty u (pc_committed s) = (t, Inr i)"
    by (auto simp: jsonb_cast_def sql_bind_def sql_return_def pg_raise_def split: option.splits)
  have "v = PyInt i" using c(3) i(2) by (simp add: row_item_def fetchone_def)
  with that p(1) j u c(2) show thesis by blast
qed

lemma receive_idle:
  assumes "idle s" "pg_receive (ctxs (pc_txn s)) q c n (pc_committed s) = (t, Inr pms)"
  shows "receive (pg_driver other ctxs rep) s q c n = (after s t, Inr (map client_message pms))"
proof -
  have "mapE message_of_row (map message_row pms) = Inr (map client_message pms)"
    by (induction pms) (simp_all add: message_of_message_row)
  then show ?thesis
    using assms by (simp add: receive_def run_sql_def execute_idle call_receive_def sql_bind_def sql_return_def)
qed

lemma receive_idle_overflow:
  assumes "idle s" "pg_receive (ctxs (pc_txn s)) q c n (pc_committed s) = (t, Inl (overflow_error n))"
  shows "\<exists>x. receive (pg_driver other ctxs rep) s q c n =
    (after s (keep_sequences (pc_committed s) t), Inl (PgqueReceiveOverflowError x))"
  using assms overflow_error_is_overflow
  by (simp add: receive_def run_sql_def execute_idle call_receive_def sql_bind_def wrap_sql_error_def)

text \<open>
  Claim C5. What is sent is received: a message that \<open>send\<close> accepted is in the batch that the
  next \<open>receive\<close> gets, with the id that \<open>send\<close> returned, its type and its payload, when the
  subscription was caught up, the ticker was forced and ran in between, and its snapshot sees
  the sending transaction. The only other outcome is a batch above \<open>max_messages\<close>, which
  raises \<open>PgqueReceiveOverflowError\<close>.
\<close>

theorem sent_message_received:
  fixes s0 :: pgconn
  defines "t \<equiv> pc_committed s0" and "n0 \<equiv> pc_txn s0"
  assumes "idle s0" and "caught_up q c t r sub tk"
    and "between (tick_snapshot tk) (pg_snapshot (ctxs (n0 + 2))) (pg_xid (ctxs n0))"
    and "send (pg_driver other ctxs rep) s0 q payload0 ty = (s1, Inr i)" "\<nexists>p t. payload0 = PyEvent p t"
    and "force_next_tick (pg_driver other ctxs rep) s1 q = (s2, Inr x)"
    and "ticker (pg_driver other ctxs rep) s2 q = (s3, Inr (PyInt k))"
    and "1 \<le> mx" "CHR 0x23 \<notin> set c"
  shows "case snd (receive (pg_driver other ctxs rep) s3 q c mx) of
      Inl e \<Rightarrow> \<exists>x. e = PgqueReceiveOverflowError x
    | Inr ms \<Rightarrow> \<exists>m\<in>set ms. msg_id m = i \<and> msg_type m = PyStr (if ty = [] then ''default'' else ty)
        \<and> retry_count m = PyNone
        \<and> (\<exists>j u. encode_payload payload0 = Inr (PyStr j) \<and> pg_jsonb_text (ctxs n0) j = Some u \<and> payload m = PyStr u)"
proof -
  let ?d = "pg_driver other ctxs rep" and ?ty = "if ty = [] then ''default'' else ty"
  obtain j u v t1 where send: "encode_payload payload0 = Inr (PyStr j)" "pg_jsonb_text (ctxs n0) j = Some u"
    "pg_send (ctxs n0) q ?ty u t = (t1, Inr v)" "s1 = after s0 t1" "i = PyInt v"
    unfolding t_def n0_def by (rule send_idle[OF assms(3,6,7)]) blast
  have "idle s1" using assms(3) send(4) by simp
  obtain t2 y where force: "pg_force_next_tick q t1 = (t2, Inr y)" "s2 = after s1 t2"
  proof (rule scalar_call[OF \<open>idle s1\<close> assms(8)[unfolded force_next_tick_def]])
    show "pg_call other (ctxs (pc_txn s1)) ''select pgque.force_next_tick(%s)'' [PyStr q] = scalar opt_num (pg_force_next_tick q)"
      by (simp add: call_force_next_tick_def)
  qed (use that send(4) in simp)
  have "idle s2" using \<open>idle s1\<close> force(2) by simp
  obtain t3 z where tick: "pg_ticker (ctxs (n0 + 2)) q t2 = (t3, Inr z)" "s3 = after s2 t3" "PyInt k = opt_num z"
  proof (rule scalar_call[OF \<open>idle s2\<close> assms(9)[unfolded ticker_def]])
    show "pg_call other (ctxs (pc_txn s2)) ''select pgque.ticker(%s)'' [PyStr q] = scalar opt_num (pg_ticker (ctxs (n0 + 2)) q)"
      by (simp add: call_ticker_def force(2) send(4) n0_def)
  qed (use that force(2) in simp)
  have z: "z = Some k" using tick(3) by (cases z) (simp_all add: opt_num_def)
  have s3: "idle s3" "pc_committed s3 = t3" using \<open>idle s2\<close> tick(2) by simp_all
  let ?e = "new_event (ctxs n0) v (pg_now (ctxs n0)) None None (Some ?ty) (Some u) None None None None"
  obtain b t4 evs where nb: "next_batch (ctxs (pc_txn s3)) q c t3 = (t4, Inr (Some b))"
    "batch_rows b t4 = Some evs" "?e \<in> set evs"
    by (rule sent_then_batch[OF assms(4,5) send(3) force(1) tick(1)[unfolded z]])
  have "evs \<noteq> []" using nb(3) by auto
  note r = pg_receive_batch[OF assms(10,11) nb(1,2) this]
  show ?thesis
  proof (cases "int (length evs) \<le> mx")
    case True
    with r have "receive ?d s3 q c mx = (after s3 t4, Inr (map client_message (map (to_message b) evs)))"
      by (intro receive_idle s3(1)) (simp add: s3)
    moreover have "client_message (to_message b ?e) \<in> set (map client_message (map (to_message b) evs))"
      using nb(3) by auto
    ultimately show ?thesis using send
      by (auto intro!: bexI[of _ "client_message (to_message b ?e)"]
          simp: client_message_def to_message_def new_event_def opt_text_def opt_num_def)
  next
    case False
    with r receive_idle_overflow[OF s3(1), of ctxs q c mx t4 other rep] show ?thesis by (auto simp: s3)
  qed
qed

section \<open>Until the ack, the same batch\<close>

text \<open>A concurrent insert: events of a transaction that no recorded tick sees.\<close>

lemma batch_part_unseen:
  assumes "snap_wf prv" "snap_wf cur" "snap_xmax prv \<le> snap_xmax cur"
    and "\<forall>e\<in>set es. \<not> pg_visible_in_snapshot (ev_txid e) cur"
  shows "batch_event_sql prv cur sub [tbl @ es] = batch_event_sql prv cur sub [tbl]"
proof -
  obtain st arr where lo: "load_older (snap_xmax prv) (older_ids prv cur) = (st, arr)" by fastforce
  have "set arr \<subseteq> set (older_ids prv cur)"
  proof -
    have "load_older n xs = (m, ys) \<Longrightarrow> set ys \<subseteq> set xs" for n m xs ys
      by (induction n xs arbitrary: m ys rule: load_older.induct) (auto split: if_splits prod.splits)
    with lo show ?thesis by blast
  qed
  moreover have "pg_visible_in_snapshot x cur" if "x \<in> set (older_ids prv cur)" for x
    using that assms(1-3) by (auto simp: older_ids_def snap_wf_def pg_visible_in_snapshot_def)
  ultimately have "filter (\<lambda>e. ev_txid e \<in> set arr \<and> retry_expr sub e) es = []"
    using assms(4) by (auto simp: filter_empty_conv)
  moreover have "filter (\<lambda>e. st \<le> ev_txid e \<and> ev_txid e \<le> snap_xmax cur \<and> pg_visible_in_snapshot (ev_txid e) cur
      \<and> \<not> pg_visible_in_snapshot (ev_txid e) prv \<and> retry_expr sub e) es = []"
    using assms(4) by (auto simp: filter_empty_conv)
  ultimately show ?thesis by (simp add: batch_event_sql_def lo batch_part_def)
qed

text \<open>The recorded snapshots are those of successive transactions.\<close>

definition ticks_ok :: "db \<Rightarrow> bool" where
  "ticks_ok t \<longleftrightarrow> list_all (\<lambda>k. snap_wf (tick_snapshot k)) (t_ticks t)
     \<and> list_all (\<lambda>j. list_all (\<lambda>k. tick_queue j = tick_queue k \<and> tick_id j < tick_id k \<longrightarrow>
         snap_xmax (tick_snapshot j) \<le> snap_xmax (tick_snapshot k)) (t_ticks t)) (t_ticks t)"

definition unseen :: "db \<Rightarrow> int \<Rightarrow> bool" where
  "unseen t x \<longleftrightarrow> list_all (\<lambda>k. \<not> pg_visible_in_snapshot x (tick_snapshot k)) (t_ticks t)"

lemma grow_nothing: "grow i [] 0 t = t"
proof -
  have "map (\<lambda>x. if queue_id x = i then x\<lparr>queue_events := queue_events x @ []\<rparr> else x) (t_queues t) = t_queues t"
    by (intro map_idI) simp
  then show ?thesis by (simp add: grow_def seq_after_def)
qed

lemma find_sub_grow: "find_sub q c (grow i es k t) = find_sub q c t"
proof -
  have "find_consumer c (grow i es k t) = find_consumer c t" "t_subs (grow i es k t) = t_subs t"
    by (simp_all add: find_consumer_def grow_def)
  then show ?thesis
    by (cases "find_queue q t") (simp_all add: find_sub_def find_queue_grow split: option.splits)
qed

lemma send_batch_state:
  assumes "pg_send_batch ctx q ty ps t = (t', Inr ids)"
  obtains i es k where "t' = grow i es k t" "\<forall>e\<in>set es. ev_txid e = pg_xid ctx"
proof (cases "ps = []")
  case True
  with assms that[of 0 "[]" 0] show thesis by (simp add: pg_send_batch_def sql_return_def grow_nothing)
next
  case False
  with assms obtain r where r: "find_queue q t = Some r" "may_insert ctx r"
    by (auto simp: pg_send_batch_def insert_event_bulk_def sql_defs may_insert_def split: option.splits if_splits)
  let ?es = "bulk_events ctx ty (sq_next (s_event t (queue_id r))) ps"
  have "t' = grow (queue_id r) ?es (length ps) t" using assms False bulk_eq[OF r, of ty ps] by (simp add: pg_send_batch_def)
  moreover have "\<forall>e\<in>set ?es. ev_txid e = pg_xid ctx" by (auto simp: bulk_events_def new_event_def)
  ultimately show thesis using that by blast
qed

lemma next_batch_active:
  assumes "find_sub q c t = Some s" "sub_batch s = Some b" "sub_role s = Role_normal"
    and "find_tick (sub_queue s) (sub_last_tick s) t = Some tk"
  shows "next_batch ctx q c t = (t, Inr (Some b))"
  using assms by (simp add: next_batch_def sql_defs)

lemma receive_opens:
  assumes st: "standing q c t r s tk" and sb: "sub_batch s = None"
    and rc: "pg_receive ctx q c n t = (t1, Inr ms)" "ms \<noteq> []"
  obtains b s' cur evs where "find_sub q c t1 = Some s'" "find_batch b t1 = Some s'" "sub_batch s' = Some b"
    "sub_role s' = Role_normal" "sub_queue s' = queue_id r"
    "find_tick (queue_id r) (sub_last_tick s') t1 = Some tk" "find_tick (queue_id r) (sub_next_tick s') t1 = Some cur"
    "tick_id tk < tick_id cur" "batch_rows b t1 = Some evs"
    "evs = batch_event_sql (tick_snapshot tk) (tick_snapshot cur) (sub_id s') [queue_events r]"
    "ms = map (to_message b) evs" "int (length evs) \<le> n" "t_queues t1 = t_queues t" "t_ticks t1 = t_ticks t" "subs_ok t1"
proof -
  note st = st[unfolded standing_def]
  then have ok: "subs_ok t" by simp
  from rc obtain b evs where nb: "next_batch ctx q c t = (t1, Inr (Some b))"
    and rows: "batch_rows b t1 = Some evs" "ms = map (to_message b) evs" "int (length evs) \<le> n"
    by (rule receive_cases)
  from nb show thesis
  proof (cases rule: next_batch_cases[OF ok nb])
    case (1 x)
    then show ?thesis using st sb by simp
  next
    case (2 x prev cur)
    let ?s = "stamp ctx b (tick_id cur) s"
    have x: "x = s" "prev = tk" using 2 st by auto
    have sq: "sub_queue s = queue_id r" using find_sub_queue st by blast
    have t1: "t1 = t\<lparr>s_batch := sq_set b, t_subs := upd_key (sub_key s) (stamp ctx b (tick_id cur)) (t_subs t)\<rparr>"
      using 2(6) st x by simp
    then have tq: "t_queues t1 = t_queues t" "t_ticks t1 = t_ticks t" by simp_all
    have fs: "find_sub q c t1 = Some ?s"
      by (rule find_sub_upd[where t = t]) (use st t1 in simp_all)
    then have fb: "find_batch b t1 = Some ?s"
      using find_batch_iff[OF next_batch_ok[OF ok nb], of b] find_sub_mem[of q c t1] by simp
    have tk: "find_tick (sub_queue s) (sub_last_tick s) t1 = Some tk"
      using st find_tick_cong[OF tq(2)] by simp
    have fr: "find (\<lambda>x. queue_id x = queue_id r) (t_queues t) = Some r" using find_queue_by_id[OF ok] st by blast
    obtain cur' where cur': "find_tick (queue_id r) (Some (tick_id cur)) t1 = Some cur'"
      and evs: "evs = batch_event_sql (tick_snapshot tk) (tick_snapshot cur') (sub_id s) [queue_events r]"
      using rows(1) tk fr by (auto simp: batch_rows_def fb tq sq split: option.splits)
    have "tick_id tk < tick_id cur'"
      using min_tick_mem[OF 2(5)] find_tick_mem[OF cur'] x by simp
    with that[OF fs fb] fs fb tk cur' rows evs tq sq st next_batch_ok[OF ok nb] show ?thesis by simp
  qed
qed

text \<open>The rows of a batch do not change when an unseen transaction inserts.\<close>

lemma batch_rows_grow:
  assumes "subs_ok t" "find_batch b t = Some s" "sub_queue s = queue_id r" "r \<in> set (t_queues t)"
    and "find_tick (queue_id r) (sub_last_tick s) t = Some tk" "find_tick (queue_id r) (sub_next_tick s) t = Some cur"
    and "ticks_ok t" "tick_id tk < tick_id cur" "unseen t x" "\<forall>e\<in>set es. ev_txid e = x"
  shows "batch_rows b (grow i es k t) = batch_rows b t"
proof -
  let ?t = "grow i es k t"
  have fr: "find (\<lambda>x. queue_id x = queue_id r) (t_queues t) = Some r"
    by (rule find_unique[OF assms(4)]) (use assms(1,4) in \<open>auto simp: subs_ok_def dest: distinct_keyD\<close>)
  then have fr': "find (\<lambda>x. queue_id x = queue_id r) (t_queues ?t) =
      Some (if queue_id r = i then r\<lparr>queue_events := queue_events r @ es\<rparr> else r)"
    by (simp add: grow_def find_map if_distrib[of queue_id] cong: if_cong)
  have same: "find_tick q j ?t = find_tick q j t" "find_batch b ?t = find_batch b t" for q j
    by (rule find_tick_cong, simp add: grow_def) (simp add: find_batch_def grow_def)
  have "snap_wf (tick_snapshot tk)" "snap_wf (tick_snapshot cur)"
    "snap_xmax (tick_snapshot tk) \<le> snap_xmax (tick_snapshot cur)"
    "\<not> pg_visible_in_snapshot x (tick_snapshot cur)"
    using assms(7-9) find_tick_mem[OF assms(5)] find_tick_mem[OF assms(6)]
    by (auto simp: ticks_ok_def unseen_def list_all_iff)
  with assms(10) have "batch_event_sql (tick_snapshot tk) (tick_snapshot cur) (sub_id s) [queue_events r @ es] =
      batch_event_sql (tick_snapshot tk) (tick_snapshot cur) (sub_id s) [queue_events r]"
    by (intro batch_part_unseen) auto
  then show ?thesis using assms fr fr' by (simp add: batch_rows_def same)
qed

text \<open>
  Claim C6. A batch stays the same until it is acked: after a \<open>receive\<close> that opened a batch,
  whatever another transaction inserts into whatever queue, the next \<open>receive\<close> returns the
  same messages under the same batch number, and changes nothing.
\<close>

theorem unacked_batch_redelivered:
  assumes "standing q c t r s tk" "sub_batch s = None" "ticks_ok t" "unseen t (pg_xid ctx2)"
    and "pg_receive ctx q c n t = (t1, Inr ms)" "ms \<noteq> []"
    and "pg_send_batch ctx2 q2 ty ps t1 = (t2, Inr ids)" "n \<le> n2"
  shows "pg_receive ctx3 q c n2 t2 = (t2, Inr ms)"
proof -
  obtain b s' cur evs where o: "find_sub q c t1 = Some s'" "find_batch b t1 = Some s'" "sub_batch s' = Some b"
    "sub_role s' = Role_normal" "sub_queue s' = queue_id r"
    "find_tick (queue_id r) (sub_last_tick s') t1 = Some tk" "find_tick (queue_id r) (sub_next_tick s') t1 = Some cur"
    "tick_id tk < tick_id cur" "batch_rows b t1 = Some evs" "ms = map (to_message b) evs" "int (length evs) \<le> n"
    and tq: "t_queues t1 = t_queues t" "t_ticks t1 = t_ticks t" and ok: "subs_ok t1"
    using receive_opens[OF assms(1,2,5,6)] by metis
  obtain i es k where g: "t2 = grow i es k t1" "\<forall>e\<in>set es. ev_txid e = pg_xid ctx2"
    using send_batch_state[OF assms(7)] .
  have ok1: "ticks_ok t1" "unseen t1 (pg_xid ctx2)" using assms(3,4) tq by (simp_all add: ticks_ok_def unseen_def)
  have "r \<in> set (t_queues t1)" using assms(1) tq by (auto simp: standing_def find_queue_def dest: find_SomeD)
  from batch_rows_grow[OF ok o(2,5) this o(6,7) ok1(1) o(8) ok1(2) g(2)] o(9)
  have "batch_rows b t2 = Some evs" by (simp add: g(1))
  moreover have "next_batch ctx3 q c t2 = (t2, Inr (Some b))"
  proof (rule next_batch_active)
    show "find_sub q c t2 = Some s'" using o(1) by (simp add: g(1) find_sub_grow)
    show "find_tick (sub_queue s') (sub_last_tick s') t2 = Some tk"
      using o(5,6) find_tick_cong[of t2 t1] by (simp add: g(1) grow_def)
  qed (use o in simp_all)
  moreover have "evs \<noteq> []" using assms(6) o(10) by simp
  moreover have "1 \<le> n" "CHR 0x23 \<notin> set c"
    using assms(5) by (auto simp: pg_receive_def pg_raise_def split: if_splits)
  ultimately show ?thesis
    using pg_receive_batch[of n2 c ctx3 q t2 t2 b evs] o(10,11) assms(8) by simp
qed

end
