(* ===== verification/Queues.thy ===== *)
theory Queues
  imports Pipeline CoopInvariant
begin

text \<open>
  Creating and removing a queue, from \<open>devel/sql/pgque.sql\<close>: \<open>create_queue\<close> with its first
  tick, \<open>drop_queue\<close> with the removal of the consumers, and the foreign keys
  that the removal meets. Grants, storage settings and the tables made by DDL are left out: the
  events of a queue are a field of its row, and its sequences are functions of its id.
\<close>

section \<open>The functions\<close>

definition fresh_sq :: sq where
  "fresh_sq = \<lparr>last_value = 1, is_called = False\<rparr>"

definition new_queue :: "int \<Rightarrow> string \<Rightarrow> qrow" where
  "new_queue i q = \<lparr>queue_id = i, queue_name = q, queue_external_ticker = False, queue_disable_insert = False,
     queue_ticker_paused = False, queue_ticker_max_count = 500, queue_ticker_max_lag = 3000000,
     queue_ticker_idle_period = 60000000, queue_rotation_period = 7200000000,
     queue_max_retries = None, queue_extra_maint = None, queue_events = []\<rparr>"

definition create_queue :: "pgctx \<Rightarrow> string \<Rightarrow> int sql" where
  "create_queue ctx q =
     (if 57 < length q then
        pg_raise (''queue name too long: '' @ str_of_nat (length q) @ '' bytes (max 57). pg_notify channel ''
          @ [CHR 0x27] @ ''pgque_<queue_name>'' @ [CHR 0x27] @ '' must fit in 63 bytes.'')
      else sql_bind (sql_read (find_queue q)) (\<lambda>qr. case qr of
        Some _ \<Rightarrow> sql_return 0
      | None \<Rightarrow> sql_bind nextval_queue (\<lambda>i.
          sql_bind (sql_update (\<lambda>t. t\<lparr>t_queues := t_queues t @ [new_queue i q],
            s_tick := (s_tick t)(i := fresh_sq), s_event := (s_event t)(i := fresh_sq)\<rparr>)) (\<lambda>_.
          sql_bind (pg_ticker ctx q) (\<lambda>_. sql_return 1)))))"

text \<open>The consumers of a queue by name, as \<open>get_consumer_info\<close> lists them.\<close>

definition consumer_names :: "int \<Rightarrow> db \<Rightarrow> string list" where
  "consumer_names i t = sort (concat (map (\<lambda>s. if sub_queue s = i
     then map co_name (filter (\<lambda>c. co_id c = sub_consumer s) (t_consumers t)) else []) (t_subs t)))"

fun unregister_all :: "pgctx \<Rightarrow> string \<Rightarrow> string list \<Rightarrow> unit sql" where
  "unregister_all ctx q [] = sql_return ()"
| "unregister_all ctx q (c # cs) = sql_bind (unregister_consumer ctx q c) (\<lambda>_. unregister_all ctx q cs)"

text \<open>
  The delete of the row meets the foreign keys of subscriptions and retry rows; those of the
  dead letters, of the partitioned consumers with their slots and of the send keys cascade.
\<close>

definition fk_violation :: "string \<Rightarrow> string \<Rightarrow> 'a sql" where
  "fk_violation tbl fkey = (\<lambda>t. (t, Inl (let m = ''update or delete on table '' @ [CHR 0x22] @ ''queue'' @ [CHR 0x22]
       @ '' violates foreign key constraint '' @ [CHR 0x22] @ fkey @ [CHR 0x22] @ '' on table '' @ [CHR 0x22] @ tbl @ [CHR 0x22]
     in \<lparr>pg_str = m, pg_diagnostic = Some \<lparr>message_primary = Some m, message_hint = None\<rparr>,
        pg_sqlstate = Some ''23503'', pg_operational = False\<rparr>)))"

definition delete_queue_row :: "string \<Rightarrow> int \<Rightarrow> unit sql" where
  "delete_queue_row q i = sql_bind (any_sub (\<lambda>s. sub_queue s = i)) (\<lambda>subs.
     if subs then fk_violation ''subscription'' ''sub_queue_fkey''
     else sql_bind (sql_read (\<lambda>t. \<exists>r\<in>set (t_retry t). rq_queue r = i)) (\<lambda>retries.
     if retries then fk_violation ''retry_queue'' ''rq_queue_id_fkey''
     else sql_update (\<lambda>t. t\<lparr>t_queues := filter (\<lambda>r. queue_name r \<noteq> q) (t_queues t),
         t_dead := filter (\<lambda>r. dl_queue_id r \<noteq> i) (t_dead t), t_parts := filter (\<lambda>r. pa_queue r \<noteq> i) (t_parts t),
         t_slots := filter (\<lambda>r. sl_queue r \<noteq> i) (t_slots t), t_idem := filter (\<lambda>r. id_queue r \<noteq> i) (t_idem t)\<rparr>)))"

definition drop_queue :: "pgctx \<Rightarrow> string \<Rightarrow> bool \<Rightarrow> int sql" where
  "drop_queue ctx q force = sql_bind (sql_read (find_queue q)) (\<lambda>qr. case qr of
      None \<Rightarrow> pg_raise ''No such event queue''
    | Some r \<Rightarrow>
      sql_bind (if force then sql_bind (sql_read (consumer_names (queue_id r))) (unregister_all ctx q)
        else sql_bind (any_sub (\<lambda>s. sub_queue s = queue_id r)) (\<lambda>attached.
          if attached then pg_raise ''cannot drop queue, consumers still attached'' else sql_return ())) (\<lambda>_.
      sql_bind (sql_update (\<lambda>t. t\<lparr>t_ticks := filter (\<lambda>k. tick_queue k \<noteq> queue_id r) (t_ticks t)\<rparr>)) (\<lambda>_.
      sql_bind (delete_queue_row q (queue_id r)) (\<lambda>_. sql_return 1))))"


section \<open>A new queue\<close>

text \<open>What the foreign keys and the sequence of the queue ids promise.\<close>

definition queue_refs_ok :: "db \<Rightarrow> bool" where
  "queue_refs_ok t \<longleftrightarrow> list_all (\<lambda>r. queue_id r < sq_next (s_queue t)) (t_queues t)
     \<and> list_all (\<lambda>k. tick_queue k < sq_next (s_queue t)) (t_ticks t)
     \<and> list_all (\<lambda>x. sub_queue x < sq_next (s_queue t)) (t_subs t)"

definition with_queue :: "pgctx \<Rightarrow> string \<Rightarrow> db \<Rightarrow> db" where
  "with_queue ctx q t = (let i = sq_next (s_queue t) in
     t\<lparr>s_queue := sq_set i, t_queues := t_queues t @ [new_queue i q],
       s_event := (s_event t)(i := fresh_sq), s_tick := (s_tick t)(i := sq_set 1),
       t_ticks := t_ticks t @ [\<lparr>tick_queue = i, tick_id = 1, tick_time = pg_now ctx,
         tick_snapshot = pg_snapshot ctx, tick_event_seq = 1\<rparr>]\<rparr>)"

lemma create_queue_state:
  assumes "queue_refs_ok t" "find_queue q t = None" "length q \<le> 57"
  shows "create_queue ctx q t = (with_queue ctx q t, Inr 1)"
proof -
  let ?i = "sq_next (s_queue t)"
  have "filter (\<lambda>k. tick_queue k = ?i) (t_ticks t) = []"
    using assms(1) by (auto simp: queue_refs_ok_def list_all_iff filter_empty_conv)
  then have no: "max_tick ?i (\<lambda>_. True) u = None" if "t_ticks u = t_ticks t" for u using that by (simp add: max_tick_def)
  have f: "find_queue q (t\<lparr>s_queue := x, t_queues := t_queues t @ [new_queue ?i q], s_tick := y, s_event := z\<rparr>) = Some (new_queue ?i q)" for x y z
    using assms(2) by (simp add: find_queue_def find_append new_queue_def)
  show ?thesis
    using assms(2,3) f no
    by (simp add: create_queue_def pg_ticker_def sql_bind_def sql_read_def sql_update_def sql_return_def nextval_queue_def
        nextval_tick_def with_queue_def Let_def new_queue_def fresh_sq_def sq_next_def)
qed


lemma with_queue_ok:
  assumes "db_ok t" "queue_refs_ok t"
  shows "db_ok (with_queue ctx q t)"
proof -
  let ?i = "sq_next (s_queue t)"
  have "?i \<notin> queue_id ` set (t_queues t)" "\<forall>k\<in>set (t_ticks t). tick_queue k \<noteq> ?i"
    using assms(2) by (auto simp: queue_refs_ok_def list_all_iff)
  with assms(1) show ?thesis
    by (auto simp: db_ok_def subs_ok_def with_queue_def Let_def new_queue_def fresh_sq_def list_all_iff cong: option.case_cong)
qed

lemma with_queue_find:
  assumes "queue_refs_ok t" "find_queue q t = None"
  shows "find_queue q (with_queue ctx q t) = Some (new_queue (sq_next (s_queue t)) q)"
    and "t_ticks u = t_ticks (with_queue ctx q t) \<Longrightarrow> max_tick (sq_next (s_queue t)) (\<lambda>_. True) u
      = Some \<lparr>tick_queue = sq_next (s_queue t), tick_id = 1, tick_time = pg_now ctx, tick_snapshot = pg_snapshot ctx, tick_event_seq = 1\<rparr>"
proof -
  show "find_queue q (with_queue ctx q t) = Some (new_queue (sq_next (s_queue t)) q)"
    using assms(2) by (simp add: find_queue_def with_queue_def Let_def find_append new_queue_def)
  have "filter (\<lambda>k. tick_queue k = sq_next (s_queue t)) (t_ticks t) = []"
    using assms(1) by (auto simp: queue_refs_ok_def list_all_iff filter_empty_conv)
  then show "t_ticks u = t_ticks (with_queue ctx q t) \<Longrightarrow> max_tick (sq_next (s_queue t)) (\<lambda>_. True) u
      = Some \<lparr>tick_queue = sq_next (s_queue t), tick_id = 1, tick_time = pg_now ctx, tick_snapshot = pg_snapshot ctx, tick_event_seq = 1\<rparr>"
    by (simp add: max_tick_def with_queue_def Let_def)
qed

text \<open>
  Claim C13. A new queue is ready: after \<open>create_queue\<close> on a free name and \<open>subscribe\<close>, both of which
  return 1, the tables are sound and the consumer stands on the first tick of the queue with nothing
  open and nothing behind it, so what is sent from now on is received.
\<close>

theorem new_queue_ready:
  assumes ok: "db_ok t" "queue_refs_ok t" and q: "find_queue q t = None" "length q \<le> 57" and c: "CHR 0x23 \<notin> set c"
  shows "\<exists>t1 t2 r sub tk. create_queue ctx q t = (t1, Inr 1) \<and> pg_subscribe ctx2 q c t1 = (t2, Inr 1)
    \<and> db_ok t2 \<and> caught_up q c t2 r sub tk \<and> tick_snapshot tk = pg_snapshot ctx \<and> queue_events r = []"
proof -
  let ?i = "sq_next (s_queue t)" and ?t1 = "with_queue ctx q t"
  let ?r = "new_queue ?i q" and ?tk = "\<lparr>tick_queue = ?i, tick_id = 1, tick_time = pg_now ctx, tick_snapshot = pg_snapshot ctx, tick_event_seq = 1\<rparr>"
  note create = create_queue_state[OF ok(2) q, of ctx] and f = with_queue_find[OF ok(2) q(1), where ctx = ctx]
  obtain u cid where u: "with_consumer c ?t1 = (u, cid)" by fastforce
  then have uf: "t_subs u = t_subs t" "t_ticks u = t_ticks ?t1" "t_queues u = t_queues ?t1" "s_tick u = s_tick ?t1" "s_sub u = s_sub t"
    "\<exists>co. find_consumer c u = Some co \<and> co_id co = cid"
    by (auto simp: with_consumer_def with_queue_def Let_def find_consumer_def find_append split: option.splits)
  have none: "find (\<lambda>s. sub_consumer s = cid \<and> sub_queue s = ?i) (t_subs u) = None"
    using ok(2) by (auto simp: uf queue_refs_ok_def list_all_iff find_None_iff)
  let ?s = "\<lparr>sub_id = sq_next (s_sub t), sub_queue = ?i, sub_consumer = cid, sub_last_tick = Some 1, sub_active = pg_now ctx2,
     sub_batch = None, sub_next_tick = None, sub_role = Role_normal\<rparr>"
  let ?t2 = "u\<lparr>s_sub := sq_set (sq_next (s_sub t)), t_subs := t_subs t @ [?s]\<rparr>"
  have sub: "pg_subscribe ctx2 q c ?t1 = (?t2, Inr 1)"
    using c f(2)[OF uf(2)] none
    by (simp add: pg_subscribe_def register_consumer_eq[OF f(1)] u registration_def sql_bind_def sql_read_def sql_return_def
        sql_update_def nextval_sub_def uf new_queue_def)
  have ok2: "db_ok ?t2" using subscribe_ok[OF with_queue_ok[OF ok, of ctx q] sub] .
  have fq: "find_queue q ?t2 = Some ?r" using f(1) by (simp add: find_queue_def uf)
  have "find (\<lambda>x. sub_queue x = ?i \<and> sub_consumer x = cid) (t_subs t) = None"
    using none by (auto simp: uf find_None_iff)
  then have fs: "find_sub q c ?t2 = Some ?s"
    using fq uf(6) by (auto simp: find_sub_def find_consumer_def find_append new_queue_def)
  have old: "\<forall>k\<in>set (t_ticks t). tick_queue k \<noteq> ?i" using ok(2) by (auto simp: queue_refs_ok_def list_all_iff)
  have ft: "find_tick ?i (Some 1) ?t2 = Some ?tk"
  proof -
    have "find (\<lambda>k. tick_queue k = ?i \<and> tick_id k = 1) (t_ticks t) = None" using old by (auto simp: find_None_iff)
    then show ?thesis by (simp add: find_tick_def uf with_queue_def Let_def find_append)
  qed
  have "standing q c ?t2 ?r ?s ?tk" using db_okD[OF ok2] fq fs ft by (simp add: standing_def)
  moreover have "\<forall>k\<in>set (t_ticks ?t2). tick_queue k = queue_id ?r \<longrightarrow> tick_id k \<le> tick_id ?tk"
    using old by (auto simp: uf with_queue_def Let_def new_queue_def)
  moreover have "tick_id ?tk < sq_next (s_tick ?t2 (queue_id ?r))"
    by (simp add: uf with_queue_def Let_def new_queue_def sq_set_def sq_next_def)
  ultimately have "caught_up q c ?t2 ?r ?s ?tk" by (simp add: caught_up_def)
  with create sub ok2 show ?thesis by (fastforce simp: new_queue_def)
qed


section \<open>Removing a queue\<close>

text \<open>What the removal of consumers of queue \<open>i\<close> leaves of the tables.\<close>

definition leaves :: "int \<Rightarrow> db \<Rightarrow> db \<Rightarrow> bool" where
  "leaves i t u \<longleftrightarrow> t_queues u = t_queues t \<and> t_ticks u = t_ticks t
     \<and> t_parts u = t_parts t \<and> t_slots u = t_slots t \<and> t_idem u = t_idem t
     \<and> filter (\<lambda>s. sub_queue s \<noteq> i) (t_subs u) = filter (\<lambda>s. sub_queue s \<noteq> i) (t_subs t)
     \<and> set (t_retry u) \<subseteq> set (t_retry t) \<and> set (t_consumers u) \<subseteq> set (t_consumers t)
     \<and> sub_consumer ` set (t_subs u) \<subseteq> sub_consumer ` set (t_subs t)
     \<and> (\<forall>c\<in>set (t_consumers t). co_id c \<in> sub_consumer ` set (t_subs u) \<longrightarrow> c \<in> set (t_consumers u))
     \<and> set (t_dead u) \<subseteq> set (t_dead t)
     \<and> (\<forall>r\<in>set (t_dead t). dl_consumer_id r \<in> sub_consumer ` set (t_subs u) \<longrightarrow> r \<in> set (t_dead u))"

lemma leaves_refl: "leaves i t t"
  by (simp add: leaves_def)

lemma leaves_delete:
  assumes "leaves i t u" "\<And>x. x \<in> set (t_subs u) \<Longrightarrow> P x \<Longrightarrow> sub_queue x = i"
  shows "leaves i t (u\<lparr>t_subs := filter (\<lambda>x. \<not> P x) (t_subs u)\<rparr>)"
proof -
  have "filter (\<lambda>s. sub_queue s \<noteq> i) (filter (\<lambda>x. \<not> P x) (t_subs u)) = filter (\<lambda>s. sub_queue s \<noteq> i) (t_subs u)"
    using assms(2) by (auto intro!: filter_cong)
  with assms(1) show ?thesis unfolding leaves_def by auto
qed

lemma leaves_map:
  assumes "leaves i t u" "\<And>x. x \<in> set (t_subs u) \<Longrightarrow> P x \<Longrightarrow> sub_queue x = i"
    and "\<And>x. sub_queue (f x) = sub_queue x" "\<And>x. sub_consumer (f x) = sub_consumer x"
  shows "leaves i t (u\<lparr>t_subs := map (\<lambda>x. if P x then f x else x) (t_subs u)\<rparr>)"
proof -
  have "filter (\<lambda>s. sub_queue s \<noteq> i) (map (\<lambda>x. if P x then f x else x) S) = filter (\<lambda>s. sub_queue s \<noteq> i) S"
    if "\<And>x. x \<in> set S \<Longrightarrow> P x \<Longrightarrow> sub_queue x = i" for S
    using that assms(3) by (induction S) auto
  moreover have "sub_consumer ` set (map (\<lambda>x. if P x then f x else x) (t_subs u)) = sub_consumer ` set (t_subs u)"
    unfolding set_map image_image by (intro image_cong refl) (simp add: assms(4))
  ultimately show ?thesis using assms(1,2) unfolding leaves_def by auto
qed

lemma leaves_consumer: "leaves i t u \<Longrightarrow> leaves i t (fst (drop_consumer c u))"
  by (auto simp: leaves_def drop_consumer_def sql_update_def)

lemma leaves_retry: "leaves i t u \<Longrightarrow> leaves i t (u\<lparr>t_retry := filter P (t_retry u)\<rparr>)"
  by (auto simp: leaves_def)

text \<open>Rows of one \<open>sub_id\<close> in one queue.\<close>

definition in_queue :: "int \<Rightarrow> int \<Rightarrow> db \<Rightarrow> bool" where
  "in_queue i n u \<longleftrightarrow> (\<forall>x\<in>set (t_subs u). sub_id x = n \<longrightarrow> sub_queue x = i)"

lemma ensures_leaves:
  "(\<And>x. P x \<Longrightarrow> sub_id x = n) \<Longrightarrow>
    ensures (leaves i t) (\<lambda>u. leaves i t u \<and> in_queue i n u) (delete_subs P) (\<lambda>_ u. leaves i t u \<and> in_queue i n u)"
  "(\<And>x. Q x \<Longrightarrow> sub_id x = n) \<Longrightarrow> (\<And>x. sub_queue (f x) = sub_queue x) \<Longrightarrow> (\<And>x. sub_consumer (f x) = sub_consumer x) \<Longrightarrow>
    (\<And>x. sub_id (f x) = sub_id x) \<Longrightarrow>
    ensures (leaves i t) (\<lambda>u. leaves i t u \<and> in_queue i n u) (set_sub Q f) (\<lambda>_ u. leaves i t u \<and> in_queue i n u)"
  "ensures (leaves i t) (\<lambda>u. leaves i t u \<and> in_queue i n u) (drop_consumer c) (\<lambda>_ u. leaves i t u \<and> in_queue i n u)"
  "ensures (leaves i t) (\<lambda>u. leaves i t u \<and> in_queue i n u) (sql_update (\<lambda>u. u\<lparr>t_retry := filter R (t_retry u)\<rparr>)) (\<lambda>_ u. leaves i t u \<and> in_queue i n u)"
  "ensures (leaves i t) (\<lambda>u. leaves i t u \<and> in_queue i n u) (any_sub P) (\<lambda>_ u. leaves i t u \<and> in_queue i n u)"
  "ensures (leaves i t) (\<lambda>u. leaves i t u \<and> in_queue i n u) (sql_return y) (\<lambda>_ u. leaves i t u \<and> in_queue i n u)"
  "ensures (leaves i t) (\<lambda>u. leaves i t u \<and> in_queue i n u) (pg_raise m) (\<lambda>_ u. leaves i t u \<and> in_queue i n u)"
proof -
  show "ensures (leaves i t) (\<lambda>u. leaves i t u \<and> in_queue i n u) (delete_subs P) (\<lambda>_ u. leaves i t u \<and> in_queue i n u)"
    if "\<And>x. P x \<Longrightarrow> sub_id x = n"
    unfolding delete_subs_def
    by (rule ensures_update) (use that in \<open>auto simp: in_queue_def intro!: leaves_delete\<close>)
  show "ensures (leaves i t) (\<lambda>u. leaves i t u \<and> in_queue i n u) (set_sub Q f) (\<lambda>_ u. leaves i t u \<and> in_queue i n u)"
    if "\<And>x. Q x \<Longrightarrow> sub_id x = n" "\<And>x. sub_queue (f x) = sub_queue x" "\<And>x. sub_consumer (f x) = sub_consumer x" "\<And>x. sub_id (f x) = sub_id x"
    unfolding set_sub_def
  proof (rule ensures_update)
    fix u assume u: "leaves i t u \<and> in_queue i n u"
    then have "leaves i t (u\<lparr>t_subs := map (\<lambda>x. if Q x then f x else x) (t_subs u)\<rparr>)"
      by (intro leaves_map that(2,3)) (use that(1) in \<open>auto simp: in_queue_def\<close>)
    moreover have "in_queue i n (u\<lparr>t_subs := map (\<lambda>x. if Q x then f x else x) (t_subs u)\<rparr>)"
      using u by (auto simp: in_queue_def that(2,4))
    ultimately show "leaves i t (u\<lparr>t_subs := map (\<lambda>x. if Q x then f x else x) (t_subs u)\<rparr>)
      \<and> in_queue i n (u\<lparr>t_subs := map (\<lambda>x. if Q x then f x else x) (t_subs u)\<rparr>)" ..
  qed
  have "in_queue i n u \<Longrightarrow> in_queue i n (fst (drop_consumer c u))" for u by (simp add: in_queue_def drop_consumer_def sql_update_def)
  then show "ensures (leaves i t) (\<lambda>u. leaves i t u \<and> in_queue i n u) (drop_consumer c) (\<lambda>_ u. leaves i t u \<and> in_queue i n u)"
    using leaves_consumer[of i t _ c] by (simp add: ensures_def drop_consumer_def sql_update_def)
  show "ensures (leaves i t) (\<lambda>u. leaves i t u \<and> in_queue i n u) (sql_update (\<lambda>u. u\<lparr>t_retry := filter R (t_retry u)\<rparr>)) (\<lambda>_ u. leaves i t u \<and> in_queue i n u)"
    by (rule ensures_update) (simp add: leaves_retry in_queue_def)
qed (simp_all add: ensures_def any_sub_def sql_read_def sql_return_def pg_raise_def)

lemma unregister_leaves:
  "ensures (leaves i t) (\<lambda>u. leaves i t u \<and> in_queue i (sub_id s) u) (unregister_member ctx s) (\<lambda>_ u. leaves i t u \<and> in_queue i (sub_id s) u)"
  "ensures (leaves i t) (\<lambda>u. leaves i t u \<and> in_queue i (sub_id s) u) (unregister_whole s cnt) (\<lambda>_ u. leaves i t u \<and> in_queue i (sub_id s) u)"
  unfolding unregister_member_def unregister_whole_def
  by (rule ensures_bind | rule ensures_cases(2) | rule ensures_leaves; simp)+


lemma leaves_trans:
  assumes "leaves i t u" "leaves i u v" shows "leaves i t v"
proof -
  note a = assms[unfolded leaves_def]
  have sub: "sub_consumer ` set (t_subs v) \<subseteq> sub_consumer ` set (t_subs u)" using a(2) by simp
  have "c \<in> set (t_consumers v)" if "c \<in> set (t_consumers t)" "co_id c \<in> sub_consumer ` set (t_subs v)" for c
    using a that subsetD[OF sub that(2)] by simp
  moreover have "r \<in> set (t_dead v)" if "r \<in> set (t_dead t)" "dl_consumer_id r \<in> sub_consumer ` set (t_subs v)" for r
    using a that subsetD[OF sub that(2)] by simp
  moreover have "set (t_retry v) \<subseteq> set (t_retry t)" "set (t_dead v) \<subseteq> set (t_dead t)" "set (t_consumers v) \<subseteq> set (t_consumers t)"
    "sub_consumer ` set (t_subs v) \<subseteq> sub_consumer ` set (t_subs t)"
    using a by (meson subset_trans)+
  ultimately show ?thesis using a by (simp add: leaves_def)
qed

lemma bind_reads:
  "sql_bind (sql_read f) g t = g (f t) t"
  "sql_bind (any_sub P) h t = h (\<exists>x\<in>set (t_subs t). P x) t"
  "m t = (v, y) \<Longrightarrow> sql_bind m k t = (case y of Inl e \<Rightarrow> (v, Inl e) | Inr a \<Rightarrow> k a v)"
  by (simp_all add: sql_bind_def sql_read_def any_sub_def)

lemma unregister_consumer_step:
  assumes ok: "coop_ok t" and r: "find_queue q t = Some r" and u: "unregister_consumer ctx q c t = (u, x)"
  shows "coop_ok u" "leaves (queue_id r) t u"
proof -
  have u': "pg_unsubscribe ctx q c t = (u, x)" using u by (simp add: pg_unsubscribe_def)
  show "coop_ok u"
    using unsubscribe_ok[OF coop_okD(1)[OF ok] u'] unsubscribe_groups[OF _ coop_okD(3)[OF ok] u'] ok by (simp add: coop_ok_def)
  show "leaves (queue_id r) t u"
  proof (cases "find_sub q c t")
    case None
    with u show ?thesis by (simp add: unregister_consumer_def sql_defs leaves_refl)
  next
    case (Some s)
    have i: "sub_queue s = queue_id r" using find_sub_queue[OF Some r] .
    have "in_queue (queue_id r) (sub_id s) t"
      using groups_queue[OF coop_okD(4)[OF ok] _ find_sub_mem[OF Some]] i by (auto simp: in_queue_def)
    then have pre: "leaves (queue_id r) t t \<and> in_queue (queue_id r) (sub_id s) t" by (simp add: leaves_refl)
    have eq: "unregister_consumer ctx q c t = (if 1 < int (length (filter (\<lambda>x. sub_id x = sub_id s) (t_subs t))) \<and> sub_role s = Role_coop_member
        then unregister_member ctx s else unregister_whole s (int (length (filter (\<lambda>x. sub_id x = sub_id s) (t_subs t))))) t"
      by (simp add: unregister_consumer_def sql_bind_def sql_read_def Some)
    from u[unfolded eq] consider "unregister_member ctx s t = (u, x)" | cnt where "unregister_whole s cnt t = (u, x)"
      by (auto split: if_splits)
    then have "case x of Inl e \<Rightarrow> leaves (queue_id r) t u | Inr _ \<Rightarrow> leaves (queue_id r) t u \<and> in_queue (queue_id r) (sub_id s) u"
      by cases (rule ensuresD[OF unregister_leaves(1) pre] ensuresD[OF unregister_leaves(2) pre], assumption)+
    then show ?thesis by (cases x) simp_all
  qed
qed

lemma leaves_find: "leaves i t u \<Longrightarrow> find_queue q u = find_queue q t"
  by (simp add: leaves_def find_queue_def)

lemma unregister_all_leaves:
  assumes "coop_ok t" "find_queue q t = Some r" "unregister_all ctx q cs t = (u, x)"
  shows "coop_ok u \<and> leaves (queue_id r) t u"
  using assms
proof (induction cs arbitrary: t)
  case Nil
  then show ?case by (simp add: sql_return_def leaves_refl)
next
  case (Cons c cs)
  obtain v y where v: "unregister_consumer ctx q c t = (v, y)" by fastforce
  note st = unregister_consumer_step[OF Cons.prems(1,2) v]
  show ?case
  proof (cases y)
    case (Inl e)
    with Cons.prems(3) v st show ?thesis by (simp add: sql_bind_def)
  next
    case (Inr n)
    with Cons.prems(3) v have "unregister_all ctx q cs v = (u, x)" by (simp add: sql_bind_def)
    from Cons.IH[OF st(1) _ this] leaves_find[OF st(2)] Cons.prems(2) leaves_trans[OF st(2)] show ?thesis by simp
  qed
qed

lemma drop_queue_queue:
  "find_queue q t = Some r \<Longrightarrow> drop_queue ctx q force t =
    sql_bind (if force then sql_bind (sql_read (consumer_names (queue_id r))) (unregister_all ctx q)
        else sql_bind (any_sub (\<lambda>s. sub_queue s = queue_id r)) (\<lambda>attached.
          if attached then pg_raise ''cannot drop queue, consumers still attached'' else sql_return ())) (\<lambda>_.
      sql_bind (sql_update (\<lambda>t. t\<lparr>t_ticks := filter (\<lambda>k. tick_queue k \<noteq> queue_id r) (t_ticks t)\<rparr>)) (\<lambda>_.
      sql_bind (delete_queue_row q (queue_id r)) (\<lambda>_. sql_return 1))) t"
  by (simp add: drop_queue_def bind_reads(1)[of "find_queue q"])

text \<open>
  Claim C14. A queue is removed whole: when \<open>drop_queue\<close> returns, no table has a row of the queue, while the
  other queues keep their rows, ticks and subscriptions, and every consumer who still has a
  subscription keeps its row and the dead letters of other queues.
\<close>

theorem drop_queue_removes_only_it:
  assumes ok: "coop_ok t" and q: "find_queue q t = Some r" and d: "drop_queue ctx q force t = (u, Inr n)"
  defines "i \<equiv> queue_id r"
  shows "n = 1 \<and> find_queue q u = None \<and> t_queues u = filter (\<lambda>x. queue_name x \<noteq> q) (t_queues t)
    \<and> t_ticks u = filter (\<lambda>k. tick_queue k \<noteq> i) (t_ticks t)
    \<and> t_subs u = filter (\<lambda>s. sub_queue s \<noteq> i) (t_subs t)
    \<and> t_parts u = filter (\<lambda>r. pa_queue r \<noteq> i) (t_parts t)
    \<and> t_slots u = filter (\<lambda>r. sl_queue r \<noteq> i) (t_slots t)
    \<and> t_idem u = filter (\<lambda>r. id_queue r \<noteq> i) (t_idem t)
    \<and> (\<forall>x\<in>set (t_retry u). x \<in> set (t_retry t) \<and> rq_queue x \<noteq> i)
    \<and> (\<forall>x\<in>set (t_dead u). x \<in> set (t_dead t) \<and> dl_queue_id x \<noteq> i)
    \<and> (\<forall>c\<in>set (t_consumers t). co_id c \<in> sub_consumer ` set (t_subs u) \<longrightarrow> c \<in> set (t_consumers u)
         \<and> (\<forall>x\<in>set (t_dead t). dl_consumer_id x = co_id c \<and> dl_queue_id x \<noteq> i \<longrightarrow> x \<in> set (t_dead u)))"
proof -
  let ?rest = "sql_bind (sql_update (\<lambda>t. t\<lparr>t_ticks := filter (\<lambda>k. tick_queue k \<noteq> i) (t_ticks t)\<rparr>)) (\<lambda>_.
      sql_bind (delete_queue_row q i) (\<lambda>_. sql_return 1))"
  from d obtain v where v: "leaves i t v" and rest: "?rest v = (u, Inr n)"
  proof (cases force)
    case True
    obtain w x where w: "unregister_all ctx q (consumer_names i t) t = (w, x)" by fastforce
    have "drop_queue ctx q force t = (case x of Inl e \<Rightarrow> (w, Inl e) | Inr _ \<Rightarrow> ?rest w)"
      using True w by (simp add: drop_queue_queue[OF q] bind_reads(3)[of _ t w x] bind_reads(1)[of "consumer_names _"] i_def split: sum.splits)
    with d have "?rest w = (u, Inr n)" by (simp split: sum.splits)
    with that[of w] unregister_all_leaves[OF ok q w] show ?thesis by (simp add: i_def)
  next
    case False
    have "drop_queue ctx q force t = (if \<exists>s\<in>set (t_subs t). sub_queue s = i
        then pg_raise ''cannot drop queue, consumers still attached'' t else ?rest t)"
      using False by (simp add: drop_queue_queue[OF q] bind_reads(3)[of _ t t] bind_reads(2) sql_return_def pg_raise_def i_def)
    with d have "?rest t = (u, Inr n)" by (auto simp: pg_raise_def split: if_splits)
    with that[of t] show ?thesis by (simp add: leaves_refl)
  qed
  from rest have n: "n = 1" and none: "\<not> (\<exists>s\<in>set (t_subs v). sub_queue s = i)" "\<not> (\<exists>x\<in>set (t_retry v). rq_queue x = i)"
    and u: "u = v\<lparr>t_ticks := filter (\<lambda>k. tick_queue k \<noteq> i) (t_ticks v), t_queues := filter (\<lambda>x. queue_name x \<noteq> q) (t_queues v),
         t_dead := filter (\<lambda>x. dl_queue_id x \<noteq> i) (t_dead v), t_parts := filter (\<lambda>r. pa_queue r \<noteq> i) (t_parts v),
         t_slots := filter (\<lambda>r. sl_queue r \<noteq> i) (t_slots v), t_idem := filter (\<lambda>r. id_queue r \<noteq> i) (t_idem v)\<rparr>"
    by (auto simp: delete_queue_row_def sql_bind_def sql_update_def sql_read_def any_sub_def sql_return_def fk_violation_def split: if_splits)
  have "filter (\<lambda>s. sub_queue s \<noteq> i) (t_subs v) = t_subs v" using none(1) by (auto intro: filter_True)
  then have s: "t_subs v = filter (\<lambda>s. sub_queue s \<noteq> i) (t_subs t)" using v by (simp add: leaves_def)
  have "find_queue q u = None" by (simp add: u find_queue_def find_None_iff)
  then show ?thesis using v n none s unfolding u leaves_def by auto
qed

end
