(* ===== verification/DeadLetters.thy ===== *)
theory DeadLetters
  imports Queues
begin

text \<open>
  The dead letter queue, from \<open>devel/sql/pgque.sql\<close>: looking at the rows, putting one or all of
  them back into their queue, and purging old ones.
\<close>

section \<open>The functions\<close>

text \<open>The join with \<open>pgque.queue\<close>.\<close>

definition queue_of_dead :: "dead_row \<Rightarrow> db \<Rightarrow> qrow option" where
  "queue_of_dead r t = find (\<lambda>q. queue_id q = dl_queue_id r) (t_queues t)"

definition dead_in :: "string \<Rightarrow> db \<Rightarrow> dead_row \<Rightarrow> bool" where
  "dead_in q t r = (case queue_of_dead r t of None \<Rightarrow> False | Some x \<Rightarrow> queue_name x = q)"

definition dlq_inspect :: "string \<Rightarrow> int \<Rightarrow> dead_row list sql" where
  "dlq_inspect q limit_count =
     (if limit_count < 0 then pg_raise ''LIMIT must not be negative''
      else sql_read (\<lambda>t. take (nat limit_count) (sort_key (\<lambda>r. - dl_time r) (filter (dead_in q t) (t_dead t)))))"

definition insert_dead :: "pgctx \<Rightarrow> string \<Rightarrow> dead_row \<Rightarrow> int sql" where
  "insert_dead ctx q r = (let e = dl_event r in
     insert_event_raw ctx q None (pg_now ctx) None None (ev_type e) (ev_data e)
       (ev_extra1 e) (ev_extra2 e) (ev_extra3 e) (ev_extra4 e))"

definition delete_dead :: "int \<Rightarrow> unit sql" where
  "delete_dead i = sql_update (\<lambda>t. t\<lparr>t_dead := filter (\<lambda>r. dl_id r \<noteq> i) (t_dead t)\<rparr>)"

definition dlq_replay :: "pgctx \<Rightarrow> int \<Rightarrow> int sql" where
  "dlq_replay ctx i = sql_bind (sql_read (\<lambda>t. case find (\<lambda>r. dl_id r = i) (t_dead t) of
       None \<Rightarrow> None
     | Some r \<Rightarrow> (case queue_of_dead r t of None \<Rightarrow> None | Some x \<Rightarrow> Some (queue_name x, r)))) (\<lambda>found. case found of
       None \<Rightarrow> pg_raise (''dead letter entry not found: '' @ str_of_int i)
     | Some (q, r) \<Rightarrow> sql_bind (insert_dead ctx q r) (\<lambda>n. sql_bind (delete_dead i) (\<lambda>_. sql_return n)))"

text \<open>
  One round of the loop is a block with an exception handler: its table changes are undone
  when it raises.
\<close>

record replayed =
  rp_replayed :: int
  rp_failed :: int
  rp_first_error :: "string option"

definition replay_one :: "pgctx \<Rightarrow> string \<Rightarrow> dead_row \<Rightarrow> replayed \<Rightarrow> replayed sql" where
  "replay_one ctx q r acc = (\<lambda>t.
     case sql_bind (insert_dead ctx q r) (\<lambda>_. delete_dead (dl_id r)) t of
       (u, Inr _) \<Rightarrow> (u, Inr (acc\<lparr>rp_replayed := rp_replayed acc + 1\<rparr>))
     | (u, Inl e) \<Rightarrow> (keep_sequences t u, Inr (acc\<lparr>rp_failed := rp_failed acc + 1,
         rp_first_error := (case rp_first_error acc of
             None \<Rightarrow> Some (''dl_id='' @ str_of_int (dl_id r) @ '': '' @ error_primary e)
           | Some m \<Rightarrow> Some m)\<rparr>)))"

fun replay_rows :: "pgctx \<Rightarrow> string \<Rightarrow> dead_row list \<Rightarrow> replayed \<Rightarrow> replayed sql" where
  "replay_rows ctx q [] acc = sql_return acc"
| "replay_rows ctx q (r # rs) acc = sql_bind (replay_one ctx q r acc) (replay_rows ctx q rs)"

definition dlq_replay_all :: "pgctx \<Rightarrow> string \<Rightarrow> replayed sql" where
  "dlq_replay_all ctx q = sql_bind (sql_read (\<lambda>t. filter (dead_in q t) (t_dead t)))
     (\<lambda>rs. replay_rows ctx q rs \<lparr>rp_replayed = 0, rp_failed = 0, rp_first_error = None\<rparr>)"

definition dlq_purge :: "pgctx \<Rightarrow> string \<Rightarrow> int \<Rightarrow> int sql" where
  "dlq_purge ctx q older = sql_bind (sql_read (find_queue q)) (\<lambda>qr.
     let old = (\<lambda>r. (case qr of None \<Rightarrow> False | Some x \<Rightarrow> dl_queue_id r = queue_id x) \<and> dl_time r < pg_now ctx - older) in
     sql_bind (sql_read (\<lambda>t. int (length (filter old (t_dead t))))) (\<lambda>cnt.
     sql_bind (sql_update (\<lambda>t. t\<lparr>t_dead := filter (\<lambda>r. \<not> old r) (t_dead t)\<rparr>)) (\<lambda>_. sql_return cnt)))"

section \<open>A message that died and came back\<close>

text \<open>The event that a dead letter becomes.\<close>

definition reborn :: "pgctx \<Rightarrow> int \<Rightarrow> event \<Rightarrow> event" where
  "reborn ctx i e = new_event ctx i (pg_now ctx) None None (ev_type e) (ev_data e)
     (ev_extra1 e) (ev_extra2 e) (ev_extra3 e) (ev_extra4 e)"

lemma insert_dead_eq:
  assumes "find_queue q t = Some r"
  shows "insert_dead ctx q d t =
    (if may_insert ctx r
     then (grow (queue_id r) [reborn ctx (sq_next (s_event t (queue_id r))) (dl_event d)] (Suc 0) t, Inr (sq_next (s_event t (queue_id r))))
     else pg_raise ''Insert into queue disallowed'' (t\<lparr>s_event := (s_event t)(queue_id r := sq_set (sq_next (s_event t (queue_id r))))\<rparr>))"
  using assms
  by (auto simp: insert_dead_def Let_def insert_event_raw_def sql_bind_def sql_read_def sql_update_def sql_return_def pg_raise_def
      nextval_event_def add_events_def may_insert_def grow_def seq_after_def reborn_def)

lemma grow_dead [simp]: "grow i es n (t\<lparr>t_dead := x\<rparr>) = (grow i es n t)\<lparr>t_dead := x\<rparr>"
  "t_dead (grow i es n t) = t_dead t"
  by (simp_all add: grow_def)

lemma find_queue_dead [simp]: "find_queue q (t\<lparr>t_dead := x\<rparr>) = find_queue q t"
  by (simp add: find_queue_def)

text \<open>
  Claim C15. A message that died comes back whole: a letter that \<open>event_dead\<close> wrote for a message
  of an open batch is put back by \<open>dlq_replay\<close> as a new event of the same queue, with the next
  event id, the same type, payload and extra fields, no owner and no retry count, and the
  dead letters are what they were before.
\<close>

theorem dead_letter_comes_back:
  assumes ok: "subs_ok t" and s: "find_batch b t = Some s" and r: "find_queue q t = Some r" "sub_queue s = queue_id r"
    and fresh: "\<forall>x\<in>set (t_dead t). dl_id x < sq_next (s_dead t) \<and> \<not> (dl_queue_id x = sub_queue s
        \<and> dl_consumer_id x = dead_consumer s t \<and> ev_id (dl_event x) = ev_id e)"
    and acc: "may_insert ctx2 r"
  shows "\<exists>t1 t2 n r2. event_dead ctx b e reason t = (t1, Inr 1) \<and> dlq_replay ctx2 (sq_next (s_dead t)) t1 = (t2, Inr n)
    \<and> t_dead t2 = t_dead t \<and> n = sq_next (s_event t (queue_id r))
    \<and> find_queue q t2 = Some r2 \<and> queue_events r2 = queue_events r @ [reborn ctx2 n e]"
proof -
  let ?i = "sq_next (s_dead t)"
  let ?row = "\<lparr>dl_id = ?i, dl_queue_id = sub_queue s, dl_consumer_id = dead_consumer s t, dl_time = pg_now ctx,
     dl_reason = reason, dl_event = e\<lparr>ev_owner := None\<rparr>\<rparr>"
  let ?t1 = "t\<lparr>s_dead := sq_set ?i, t_dead := t_dead t @ [?row]\<rparr>"
  have [simp]: "dead_consumer s (t\<lparr>s_dead := x\<rparr>) = dead_consumer s t" for x by (simp add: dead_consumer_def)
  have "\<not> (\<exists>x\<in>set (t_dead t). dl_queue_id x = sub_queue s \<and> dl_consumer_id x = dead_consumer s t \<and> ev_id (dl_event x) = ev_id e)"
    using fresh by blast
  then have dead: "event_dead ctx b e reason t = (?t1, Inr 1)"
    using s by (simp add: event_dead_def sql_bind_def sql_read_def sql_update_def sql_return_def nextval_dead_def Let_def)
  have q1: "find_queue q ?t1 = Some r" using r by (simp add: find_queue_def)
  have qn: "queue_name r = q" using r(1) by (auto simp: find_queue_def dest: find_SomeD)
  have qd: "queue_of_dead ?row ?t1 = Some r"
    using find_queue_by_id[OF ok r(1)] r(2) by (simp add: queue_of_dead_def)
  have none: "find (\<lambda>x. dl_id x = ?i) (t_dead t) = None" using fresh by (auto simp: find_None_iff)
  have keep: "filter (\<lambda>x. dl_id x \<noteq> ?i) (t_dead t) = t_dead t" using fresh by (auto intro!: filter_True)
  let ?n = "sq_next (s_event t (queue_id r))"
  let ?t2 = "(grow (queue_id r) [reborn ctx2 ?n e] (Suc 0) ?t1)\<lparr>t_dead := t_dead t\<rparr>"
  have "dlq_replay ctx2 ?i ?t1 = (?t2, Inr ?n)"
    using none keep acc qd qn
    by (simp add: dlq_replay_def sql_bind_def sql_read_def sql_return_def delete_dead_def sql_update_def find_append
        insert_dead_eq[OF q1] reborn_def)
  moreover have "find_queue q ?t2 = Some (r\<lparr>queue_events := queue_events r @ [reborn ctx2 ?n e]\<rparr>)"
    using q1 by (simp only: find_queue_dead find_queue_grow option.map) simp
  ultimately show ?thesis using dead by fastforce
qed

section \<open>All of them\<close>

definition reborn_all :: "pgctx \<Rightarrow> int \<Rightarrow> dead_row list \<Rightarrow> event list" where
  "reborn_all ctx n ds = map (\<lambda>(k, d). reborn ctx (n + int k) (dl_event d)) (zip [0..<length ds] ds)"

lemma reborn_all_Cons: "reborn_all ctx n (d # ds) = reborn ctx n (dl_event d) # reborn_all ctx (n + 1) ds"
proof -
  have "zip [0..<Suc (length ds)] (d # ds) = (0, d) # map (\<lambda>(k, x). (Suc k, x)) (zip [0..<length ds] ds)"
    by (simp add: upt_conv_Cons zip_map1[symmetric] map_Suc_upt[symmetric] del: upt_Suc)
  then show ?thesis by (simp add: reborn_all_def split_def del: upt_Suc) (simp add: add.assoc)
qed

lemma grow_none: "grow i [] 0 t = t"
proof -
  have "map (\<lambda>r. if queue_id r = i then r\<lparr>queue_events := queue_events r @ []\<rparr> else r) (t_queues t) = t_queues t"
    by (intro map_idI) simp
  then show ?thesis by (simp add: grow_def seq_after_def)
qed

lemma replay_rows_accepted:
  assumes "find_queue q t = Some r" "may_insert ctx r"
  shows "replay_rows ctx q ds acc t =
    ((grow (queue_id r) (reborn_all ctx (sq_next (s_event t (queue_id r))) ds) (length ds) t)
       \<lparr>t_dead := filter (\<lambda>x. dl_id x \<notin> dl_id ` set ds) (t_dead t)\<rparr>,
     Inr (acc\<lparr>rp_replayed := rp_replayed acc + int (length ds)\<rparr>))"
  using assms
proof (induction ds arbitrary: t r acc)
  case Nil
  then show ?case by (simp add: sql_return_def reborn_all_def grow_none)
next
  case (Cons d ds)
  let ?n = "sq_next (s_event t (queue_id r))"
  let ?t1 = "(grow (queue_id r) [reborn ctx ?n (dl_event d)] (Suc 0) t)\<lparr>t_dead := filter (\<lambda>x. dl_id x \<noteq> dl_id d) (t_dead t)\<rparr>"
  let ?r1 = "r\<lparr>queue_events := queue_events r @ [reborn ctx ?n (dl_event d)]\<rparr>"
  have one: "replay_one ctx q d acc t = (?t1, Inr (acc\<lparr>rp_replayed := rp_replayed acc + 1\<rparr>))"
    using Cons.prems(2) by (simp add: replay_one_def insert_dead_eq[OF Cons.prems(1)] sql_bind_def delete_dead_def sql_update_def)
  have f: "find_queue q ?t1 = Some ?r1" using Cons.prems(1) by (simp add: find_queue_grow)
  have m: "may_insert ctx ?r1" using Cons.prems(2) by (simp add: may_insert_def)
  have n: "sq_next (s_event (grow (queue_id r) es (Suc 0) t) (queue_id r)) = ?n + 1" for es
    by (simp add: grow_def seq_after_def)
  from Cons.IH[OF f m, of "acc\<lparr>rp_replayed := rp_replayed acc + 1\<rparr>"]
  show ?case by (simp add: sql_bind_def one n grow_grow reborn_all_Cons conj_commute)
qed

lemma replay_rows_refused:
  assumes "find_queue q t = Some r" "\<not> may_insert ctx r"
  shows "\<exists>t' rp. replay_rows ctx q ds acc t = (t', Inr rp) \<and> tables.truncate t' = tables.truncate t
    \<and> rp_replayed rp = rp_replayed acc \<and> rp_failed rp = rp_failed acc + int (length ds)
    \<and> rp_first_error rp = (case (rp_first_error acc, ds) of
         (None, d # _) \<Rightarrow> Some (''dl_id='' @ str_of_int (dl_id d) @ '': '' @ ''Insert into queue disallowed'')
       | (m, _) \<Rightarrow> m)"
  using assms
proof (induction ds arbitrary: t acc)
  case Nil
  then show ?case by (simp add: sql_return_def split: option.splits)
next
  case (Cons d ds)
  have prim: "error_primary \<lparr>pg_str = m, pg_diagnostic = Some \<lparr>message_primary = Some m, message_hint = None\<rparr>,
      pg_sqlstate = c, pg_operational = b\<rparr> = m" for m c b by (simp add: error_primary_def)
  let ?t1 = "t\<lparr>s_event := (s_event t)(queue_id r := sq_set (sq_next (s_event t (queue_id r))))\<rparr>"
  have "replay_one ctx q d acc t = (keep_sequences t ?t1, Inr (acc\<lparr>rp_failed := rp_failed acc + 1,
      rp_first_error := (case rp_first_error acc of
        None \<Rightarrow> Some (''dl_id='' @ str_of_int (dl_id d) @ '': '' @ ''Insert into queue disallowed'') | Some m \<Rightarrow> Some m)\<rparr>))"
    using Cons.prems by (simp add: replay_one_def insert_dead_eq sql_bind_def pg_raise_def prim cong: option.case_cong)
  moreover have "tables.truncate (keep_sequences t ?t1) = tables.truncate t" by (simp add: keep_sequences_def tables.truncate_def)
  ultimately obtain t1 acc1 where one: "replay_one ctx q d acc t = (t1, Inr acc1)" "tables.truncate t1 = tables.truncate t"
    "rp_replayed acc1 = rp_replayed acc" "rp_failed acc1 = rp_failed acc + 1"
    "rp_first_error acc1 = (case rp_first_error acc of
        None \<Rightarrow> Some (''dl_id='' @ str_of_int (dl_id d) @ '': '' @ ''Insert into queue disallowed'') | Some m \<Rightarrow> Some m)"
    by fastforce
  have "t_queues t1 = t_queues t" using one(2) by (simp add: tables.truncate_def)
  then have "find_queue q t1 = Some r" using Cons.prems(1) by (simp add: find_queue_def)
  from Cons.IH[OF this Cons.prems(2), of acc1] one show ?case
    by (auto simp: sql_bind_def split: option.splits list.splits)
qed


end
