(* ===== verification/AdminWitnesses.thy ===== *)
theory AdminWitnesses
  imports DeadLetters Scenario
begin

text \<open>The theorems on queues and dead letters, on the small deployment.\<close>

theorem new_queue_ready_witness:
  "\<exists>t1 t2 r sub tk. create_queue (sc_ctx 1) ''n'' (sc_db ''q'') = (t1, Inr 1) \<and> pg_subscribe (sc_ctx 2) ''n'' ''c'' t1 = (t2, Inr 1)
    \<and> db_ok t2 \<and> caught_up ''n'' ''c'' t2 r sub tk \<and> tick_snapshot tk = pg_snapshot (sc_ctx 1) \<and> queue_events r = []"
proof -
  have "db_ok (sc_db ''q'')" "queue_refs_ok (sc_db ''q'')" "find_queue ''n'' (sc_db ''q'') = None" by code_simp+
  then show ?thesis by (rule new_queue_ready) simp_all
qed

text \<open>Two queues; the consumer is on both, and has a retry row and dead letters.\<close>

definition sc_dead :: "int \<Rightarrow> int \<Rightarrow> event \<Rightarrow> dead_row" where
  "sc_dead i q e = \<lparr>dl_id = i, dl_queue_id = q, dl_consumer_id = 1, dl_time = 0, dl_reason = None, dl_event = e\<rparr>"

definition sc_two :: db where
  "sc_two = (sc_db ''q'')\<lparr>t_queues := [sc_queue ''q'', (sc_queue ''p'')\<lparr>queue_id := 2\<rparr>], s_sub := sq_set 2,
     t_ticks := [sc_tick 1 10 0, sc_tick 2 20 2, (sc_tick 1 10 0)\<lparr>tick_queue := 2\<rparr>],
     t_subs := [sc_sub, sc_sub\<lparr>sub_id := 2, sub_queue := 2\<rparr>],
     t_retry := [\<lparr>rq_retry_after = 5, rq_queue = 1, rq_event = evbody.truncate ((sc_event 1 12)\<lparr>ev_owner := Some 1\<rparr>)\<rparr>],
     t_dead := [sc_dead 1 1 (sc_event 1 12), sc_dead 2 2 (sc_event 7 12)], s_dead := sq_set 2\<rparr>"

theorem drop_queue_removes_only_it_witness:
  "\<exists>u. drop_queue (sc_ctx 3) ''q'' True sc_two = (u, Inr 1) \<and> find_queue ''q'' u = None
    \<and> t_subs u = [sc_sub\<lparr>sub_id := 2, sub_queue := 2\<rparr>] \<and> sc_dead 2 2 (sc_event 7 12) \<in> set (t_dead u)"
proof -
  have ok: "coop_ok sc_two" by code_simp
  have q: "find_queue ''q'' sc_two = Some (sc_queue ''q'')" by code_simp
  have "snd (drop_queue (sc_ctx 3) ''q'' True sc_two) = Inr 1" by code_simp
  then obtain u where d: "drop_queue (sc_ctx 3) ''q'' True sc_two = (u, Inr 1)" by (metis prod.collapse)
  note all = drop_queue_removes_only_it[OF ok q d]
  have s: "filter (\<lambda>s. sub_queue s \<noteq> queue_id (sc_queue ''q'')) (t_subs sc_two) = [sc_sub\<lparr>sub_id := 2, sub_queue := 2\<rparr>]" by code_simp
  have "\<lparr>co_id = 1, co_name = ''c''\<rparr> \<in> set (t_consumers sc_two)" "sc_dead 2 2 (sc_event 7 12) \<in> set (t_dead sc_two)"
    "dl_consumer_id (sc_dead 2 2 (sc_event 7 12)) = 1" "dl_queue_id (sc_dead 2 2 (sc_event 7 12)) \<noteq> queue_id (sc_queue ''q'')"
    "sub_consumer (sc_sub\<lparr>sub_id := 2, sub_queue := 2\<rparr>) = 1" by code_simp+
  with all d s show ?thesis by (fastforce simp: s)
qed

definition sc_open :: db where
  "sc_open = sc_opened\<lparr>t_dead := [sc_dead 1 1 (sc_event 7 12)], s_dead := sq_set 1\<rparr>"

theorem dead_letter_comes_back_witness:
  "\<exists>t1 t2 n r2. event_dead (sc_ctx 3) 1 (sc_event 1 12) (Some ''x'') sc_open = (t1, Inr 1) \<and> dlq_replay (sc_ctx 4) 2 t1 = (t2, Inr n)
    \<and> t_dead t2 = t_dead sc_open \<and> n = 3 \<and> find_queue ''q'' t2 = Some r2
    \<and> queue_events r2 = [sc_event 1 12, sc_event 2 15] @ [reborn (sc_ctx 4) n (sc_event 1 12)]"
proof -
  have ok: "subs_ok sc_open" by code_simp
  have b: "find_batch 1 sc_open = Some (sc_sub\<lparr>sub_batch := Some 1, sub_next_tick := Some 2\<rparr>)" by code_simp
  have q: "find_queue ''q'' sc_open = Some (sc_queue ''q'')" by code_simp
  have n: "sq_next (s_dead sc_open) = 2" "sq_next (s_event sc_open (queue_id (sc_queue ''q''))) = 3"
    "queue_events (sc_queue ''q'') = [sc_event 1 12, sc_event 2 15]" by code_simp+
  have f: "\<forall>x\<in>set (t_dead sc_open). dl_id x < sq_next (s_dead sc_open) \<and> \<not> (dl_queue_id x = sub_queue (sc_sub\<lparr>sub_batch := Some 1, sub_next_tick := Some 2\<rparr>)
      \<and> dl_consumer_id x = dead_consumer (sc_sub\<lparr>sub_batch := Some 1, sub_next_tick := Some 2\<rparr>) sc_open \<and> ev_id (dl_event x) = ev_id (sc_event 1 12))"
    by code_simp
  have "may_insert (sc_ctx 4) (sc_queue ''q'')" "sub_queue (sc_sub\<lparr>sub_batch := Some 1, sub_next_tick := Some 2\<rparr>) = queue_id (sc_queue ''q'')" by code_simp+
  from dead_letter_comes_back[OF ok b q this(2) f this(1), of "sc_ctx 3" "Some ''x''"] show ?thesis unfolding n by simp
qed


end
