(* ===== verification/Partitions.thy ===== *)
theory Partitions
  imports ServerFacts "HOL-Library.Signed_Division"
begin

text \<open>
  Partitioned consumers, from \<open>devel/sql/pgque.sql\<close> (\<open>pgque-api/partition_keys.sql\<close>). A consumer
  C with n slots is n subscriptions named C#k/n; each reads the whole stream and keeps the events
  whose key falls into its class. A worker must hold the lease of a slot to receive, acknowledge or
  refuse its batches. Arguments that the code compares with null are options.
\<close>

section \<open>Helpers\<close>

definition null_int :: "int option \<Rightarrow> string" where
  "null_int x = (case x of None \<Rightarrow> ''<NULL>'' | Some i \<Rightarrow> str_of_int i)"

definition null_text :: "string option \<Rightarrow> string" where
  "null_text x = (case x of None \<Rightarrow> ''<NULL>'' | Some s \<Rightarrow> s)"

definition slot_name :: "string \<Rightarrow> int \<Rightarrow> int \<Rightarrow> string" where
  "slot_name c k n = c @ ''#'' @ str_of_int k @ ''/'' @ str_of_int n"

text \<open>The join of \<open>partition_consumer\<close> with \<open>queue\<close>.\<close>

definition find_part :: "string \<Rightarrow> string \<Rightarrow> db \<Rightarrow> part_row option" where
  "find_part q c t = (case find_queue q t of
      None \<Rightarrow> None
    | Some r \<Rightarrow> find (\<lambda>p. pa_queue p = queue_id r \<and> pa_consumer p = c) (t_parts t))"

definition slot_at :: "int \<Rightarrow> string \<Rightarrow> int \<Rightarrow> slot_row \<Rightarrow> bool" where
  "slot_at i c k r \<longleftrightarrow> sl_queue r = i \<and> sl_consumer r = c \<and> sl_slot r = k"

definition find_slot :: "int \<Rightarrow> string \<Rightarrow> int \<Rightarrow> db \<Rightarrow> slot_row option" where
  "find_slot i c k t = find (slot_at i c k) (t_slots t)"

definition set_slot :: "int \<Rightarrow> string \<Rightarrow> int \<Rightarrow> (slot_row \<Rightarrow> slot_row) \<Rightarrow> unit sql" where
  "set_slot i c k f = sql_update (\<lambda>t. t\<lparr>t_slots := map (\<lambda>r. if slot_at i c k r then f r else r) (t_slots t)\<rparr>)"

definition not_partitioned :: "string \<Rightarrow> string \<Rightarrow> 'a sql" where
  "not_partitioned q c = pg_raise (''consumer '' @ c @ '' on queue '' @ q
     @ '' is not a partitioned consumer; call pgque.subscribe_slot() first'')"

definition out_of_range :: "string \<Rightarrow> string \<Rightarrow> int option \<Rightarrow> int \<Rightarrow> 'a sql" where
  "out_of_range q c k n = pg_raise (''slot '' @ null_int k @ '' out of range for consumer '' @ c @ '' on queue '' @ q
     @ '' (valid: 0..'' @ str_of_int (n - 1) @ '')'')"

definition not_subscribed :: "string \<Rightarrow> string \<Rightarrow> int \<Rightarrow> 'a sql" where
  "not_subscribed q c k = pg_raise (''slot '' @ str_of_int k @ '' of consumer '' @ c @ '' on queue '' @ q
     @ '' is not subscribed; call pgque.subscribe_slot()'')"

text \<open>
  The guard of the consume path. \<open>v_owner <> i_worker\<close> is null for a null worker, so that the
  branch is not taken.
\<close>

definition slot_guard :: "pgctx \<Rightarrow> string \<Rightarrow> string \<Rightarrow> int \<Rightarrow> int \<Rightarrow> string option \<Rightarrow> int sql" where
  "slot_guard ctx q c k n w =
     sql_bind (sql_read (find_part q c)) (\<lambda>pr. case pr of
       None \<Rightarrow> not_partitioned q c
     | Some p \<Rightarrow>
       if n \<noteq> pa_n p then
         pg_raise (''wrong slot count for consumer '' @ c @ '' on queue '' @ q @ '': pinned n='' @ str_of_int (pa_n p)
           @ '', caller passed n='' @ str_of_int n)
       else if k < 0 \<or> pa_n p \<le> k then out_of_range q c (Some k) (pa_n p)
       else sql_bind (sql_read (find_slot (pa_queue p) c k)) (\<lambda>sr. case sr of
         None \<Rightarrow> not_subscribed q c k
       | Some s \<Rightarrow>
         (case sl_owner s of
            None \<Rightarrow> pg_raise (''slot '' @ str_of_int k @ '' of consumer '' @ c @ '' on queue '' @ q
              @ '' is not leased; call pgque.claim_slot() first'')
          | Some v_owner \<Rightarrow>
            if (case w of None \<Rightarrow> False | Some i_worker \<Rightarrow> v_owner \<noteq> i_worker) then
              pg_raise (''lease on slot '' @ str_of_int k @ '' of consumer '' @ c @ '' on queue '' @ q
                @ '' is held by worker '' @ v_owner @ '', not '' @ null_text w @ ''; fenced'')
            else sql_bind (set_slot (pa_queue p) c k (\<lambda>r. r\<lparr>sl_until := map_option ((+) (pg_clock ctx)) (sl_ttl s)\<rparr>))
              (\<lambda>_. sql_return (pa_n p)))))"

text \<open>The first check of the guard, before any other of its callers' work.\<close>

definition slot_args :: "string option \<Rightarrow> string option \<Rightarrow> int option \<Rightarrow> int option
    \<Rightarrow> (string \<Rightarrow> string \<Rightarrow> int \<Rightarrow> int \<Rightarrow> 'a sql) \<Rightarrow> 'a sql" where
  "slot_args q c k n f = (case (q, c, k, n) of
      (Some q', Some c', Some k', Some n') \<Rightarrow> f q' c' k' n'
    | _ \<Rightarrow> pg_raise ''queue, consumer, slot, and n must not be null'')"

definition slot_batch :: "string \<Rightarrow> string \<Rightarrow> int \<Rightarrow> int \<Rightarrow> int option sql" where
  "slot_batch q c k n = sql_bind (sql_read (find_sub q (slot_name c k n))) (\<lambda>sr. case sr of
      None \<Rightarrow> pg_raise (''slot '' @ str_of_int k @ '' of consumer '' @ c @ '' is not subscribed to queue '' @ q)
    | Some s \<Rightarrow> sql_return (sub_batch s))"

section \<open>Sending with a key\<close>

definition send_keyed :: "pgctx \<Rightarrow> string \<Rightarrow> string option \<Rightarrow> string option \<Rightarrow> string option \<Rightarrow> int sql" where
  "send_keyed ctx q ty payload key =
     insert_event_raw ctx q None (pg_now ctx) None None ty payload key None None None"

definition send_keyed_json :: "pgctx \<Rightarrow> string \<Rightarrow> string option \<Rightarrow> string \<Rightarrow> string option \<Rightarrow> int sql" where
  "send_keyed_json ctx q ty jtext key =
     sql_bind (jsonb_cast ctx jtext) (\<lambda>u. send_keyed ctx q ty (Some u) key)"

section \<open>Slots\<close>

definition pin_slots :: "int \<Rightarrow> string \<Rightarrow> int \<Rightarrow> int sql" where
  "pin_slots i c n = sql_bind (sql_read (\<lambda>t. find (\<lambda>p. pa_queue p = i \<and> pa_consumer p = c) (t_parts t))) (\<lambda>pr. case pr of
      Some p \<Rightarrow> sql_return (pa_n p)
    | None \<Rightarrow> sql_bind (sql_update (\<lambda>t. t\<lparr>t_parts := t_parts t @ [\<lparr>pa_queue = i, pa_consumer = c, pa_n = n\<rparr>]\<rparr>))
        (\<lambda>_. sql_return n))"

definition add_slot :: "int \<Rightarrow> string \<Rightarrow> int \<Rightarrow> unit sql" where
  "add_slot i c k = sql_update (\<lambda>t. if list_ex (slot_at i c k) (t_slots t) then t
     else t\<lparr>t_slots := t_slots t @ [\<lparr>sl_queue = i, sl_consumer = c, sl_slot = k,
       sl_owner = None, sl_until = None, sl_ttl = None, sl_epoch = 0\<rparr>]\<rparr>)"

definition subscribe_slot ::
  "pgctx \<Rightarrow> string option \<Rightarrow> string option \<Rightarrow> int option \<Rightarrow> int option \<Rightarrow> unit sql" where
  "subscribe_slot ctx iq ic ik i_n =
     (case iq of None \<Rightarrow> pg_raise ''queue name must not be empty'' | Some q \<Rightarrow>
      if q = [] then pg_raise ''queue name must not be empty'' else
      case ic of None \<Rightarrow> pg_raise ''consumer name must not be empty'' | Some c \<Rightarrow>
      if c = [] then pg_raise ''consumer name must not be empty''
      else if CHR 0x23 \<in> set c then pg_raise (''partitioned consumer name must not contain #: '' @ c) else
      case i_n of None \<Rightarrow> pg_raise ''slot count n must be >= 1, got <NULL>'' | Some n \<Rightarrow>
      if n < 1 then pg_raise (''slot count n must be >= 1, got '' @ str_of_int n) else
      let bad = pg_raise (''slot '' @ null_int ik @ '' out of range for n='' @ str_of_int n
        @ '' (valid: 0..'' @ str_of_int (n - 1) @ '')'') in
      case ik of None \<Rightarrow> bad | Some k \<Rightarrow>
      if k < 0 \<or> n \<le> k then bad
      else sql_bind (sql_read (find_queue q)) (\<lambda>qr. case qr of
        None \<Rightarrow> pg_raise (''queue not found: '' @ q)
      | Some r \<Rightarrow> sql_bind (pin_slots (queue_id r) c n) (\<lambda>v_n.
          if v_n \<noteq> n then
            pg_raise (''consumer '' @ c @ '' on queue '' @ q @ '' is pinned to n='' @ str_of_int v_n @ ''; got n=''
              @ str_of_int n @ '' (unsubscribe all slots to change the slot count)'')
          else sql_bind (register_consumer ctx q (slot_name c k n)) (\<lambda>_. add_slot (queue_id r) c k))))"

text \<open>The subscriptions of the slots, by their names.\<close>

definition slot_subscribed :: "int \<Rightarrow> string \<Rightarrow> int \<Rightarrow> db \<Rightarrow> bool" where
  "slot_subscribed i c n t = list_ex (\<lambda>s. sub_queue s = i \<and> list_ex (\<lambda>r. co_id r = sub_consumer s
     \<and> list_ex (\<lambda>g. co_name r = slot_name c g n) [0..n - 1]) (t_consumers t)) (t_subs t)"

definition unsubscribe_slot :: "pgctx \<Rightarrow> string \<Rightarrow> string \<Rightarrow> int option \<Rightarrow> unit sql" where
  "unsubscribe_slot ctx q c ik =
     sql_bind (sql_read (find_part q c)) (\<lambda>pr. case pr of
       None \<Rightarrow> sql_return ()
     | Some p \<Rightarrow>
       (case ik of None \<Rightarrow> out_of_range q c ik (pa_n p) | Some k \<Rightarrow>
        if k < 0 \<or> pa_n p \<le> k then out_of_range q c ik (pa_n p)
        else sql_bind (unregister_consumer ctx q (slot_name c k (pa_n p))) (\<lambda>_.
          sql_bind (sql_update (\<lambda>t. t\<lparr>t_slots := filter (\<lambda>r. \<not> slot_at (pa_queue p) c k r) (t_slots t)\<rparr>)) (\<lambda>_.
          sql_bind (sql_read (slot_subscribed (pa_queue p) c (pa_n p))) (\<lambda>found.
          if found then sql_return ()
          else sql_update (\<lambda>t. t\<lparr>t_parts := filter (\<lambda>x. \<not> (pa_queue x = pa_queue p \<and> pa_consumer x = c)) (t_parts t),
            t_slots := filter (\<lambda>x. \<not> (sl_queue x = pa_queue p \<and> sl_consumer x = c)) (t_slots t)\<rparr>))))))"

section \<open>Leases\<close>

definition claim_slot :: "pgctx \<Rightarrow> string \<Rightarrow> string \<Rightarrow> int option \<Rightarrow> string option \<Rightarrow> int option \<Rightarrow> int option sql" where
  "claim_slot ctx q c ik iw ittl =
     (case iw of None \<Rightarrow> pg_raise ''worker id must not be empty'' | Some w \<Rightarrow>
      if w = [] then pg_raise ''worker id must not be empty'' else
      case ittl of None \<Rightarrow> pg_raise ''lease ttl must be >= 1 second, got <NULL>'' | Some ttl \<Rightarrow>
      if ttl < 1000000 then pg_raise (''lease ttl must be >= 1 second, got '' @ pg_interval_out ctx ttl)
      else sql_bind (sql_read (find_part q c)) (\<lambda>pr. case pr of
        None \<Rightarrow> not_partitioned q c
      | Some p \<Rightarrow>
        (case ik of None \<Rightarrow> out_of_range q c ik (pa_n p) | Some k \<Rightarrow>
         if k < 0 \<or> pa_n p \<le> k then out_of_range q c ik (pa_n p)
         else sql_bind (sql_read (find_slot (pa_queue p) c k)) (\<lambda>sr. case sr of
           None \<Rightarrow> not_subscribed q c k
         | Some s \<Rightarrow>
           if sl_owner s = Some w then
             sql_bind (set_slot (pa_queue p) c k (\<lambda>r. r\<lparr>sl_until := Some (pg_clock ctx + ttl), sl_ttl := Some ttl\<rparr>))
               (\<lambda>_. sql_return (Some (sl_epoch s)))
           else if sl_owner s = None \<or> (case sl_until s of None \<Rightarrow> False | Some v_until \<Rightarrow> v_until \<le> pg_clock ctx) then
             sql_bind (set_slot (pa_queue p) c k (\<lambda>r. r\<lparr>sl_owner := Some w, sl_until := Some (pg_clock ctx + ttl),
                 sl_ttl := Some ttl, sl_epoch := sl_epoch s + 1\<rparr>))
               (\<lambda>_. sql_return (Some (sl_epoch s + 1)))
           else sql_return None))))"

text \<open>As in the guard, the comparison with a null worker is null and does not return false.\<close>

definition release_slot :: "string \<Rightarrow> string \<Rightarrow> int \<Rightarrow> string option \<Rightarrow> bool sql" where
  "release_slot q c k w =
     sql_bind (sql_read (\<lambda>t. case find_queue q t of None \<Rightarrow> None | Some r \<Rightarrow> find_slot (queue_id r) c k t)) (\<lambda>sr. case sr of
       None \<Rightarrow> not_subscribed q c k
     | Some s \<Rightarrow>
       (case sl_owner s of
          None \<Rightarrow> sql_return False
        | Some v_owner \<Rightarrow>
          if (case w of None \<Rightarrow> False | Some i_worker \<Rightarrow> v_owner \<noteq> i_worker) then sql_return False
          else sql_bind (set_slot (sl_queue s) c k (\<lambda>r. r\<lparr>sl_owner := None, sl_until := None, sl_ttl := None\<rparr>))
            (\<lambda>_. sql_return True)))"

section \<open>The consume path\<close>

text \<open>
  The filter that \<open>receive_partitioned\<close> builds: \<open>%\<close> of PostgreSQL takes the sign of its left
  operand, so that n is added before the second \<open>%\<close>.
\<close>

definition slot_class :: "(string \<Rightarrow> int) \<Rightarrow> int \<Rightarrow> event \<Rightarrow> int" where
  "slot_class h n e = (case ev_extra1 e of None \<Rightarrow> 0 | Some key \<Rightarrow> (h key smod n + n) smod n)"

text \<open>
  The rows that \<open>get_batch_cursor\<close> leaves of a batch: the condition keeps the order, so
  that sorting the rows again changes nothing.
\<close>

definition slot_rows :: "pgctx \<Rightarrow> int \<Rightarrow> int \<Rightarrow> int \<Rightarrow> event list sql" where
  "slot_rows ctx b k n = sql_bind (get_batch_events b) (\<lambda>evs.
     sql_return (filter (\<lambda>e. slot_class (pg_hash_text ctx) n e = k) evs))"

definition receive_partitioned ::
  "pgctx \<Rightarrow> string option \<Rightarrow> string option \<Rightarrow> int option \<Rightarrow> int option \<Rightarrow> string option \<Rightarrow> int option \<Rightarrow> pg_message list sql" where
  "receive_partitioned ctx iq ic ik i_n w imax =
     (case imax of None \<Rightarrow> pg_raise ''pgque.receive_partitioned: max must be >= 1, got <NULL>'' | Some mx \<Rightarrow>
      if mx < 1 then pg_raise (''pgque.receive_partitioned: max must be >= 1, got '' @ str_of_int mx)
      else slot_args iq ic ik i_n (\<lambda>q c k n.
        sql_bind (slot_guard ctx q c k n w) (\<lambda>v_n.
        sql_bind (next_batch ctx q (slot_name c k v_n)) (\<lambda>bo. case bo of
          None \<Rightarrow> sql_return []
        | Some b \<Rightarrow> sql_bind (slot_rows ctx b k v_n) (\<lambda>evs.
            let ms = map (to_message b) (take (nat mx) evs) in
            if mx < int (length evs) then
              pg_raise_code (''pgque.receive_partitioned: batch exceeds max of '' @ str_of_int mx) ''54000''
                ''Retry with a larger resource-safe max to receive the complete slot batch. Do not acknowledge after this error.''
            else if ms = [] then sql_bind (finish_batch ctx b) (\<lambda>_. sql_return ms)
            else sql_return ms)))))"

definition ack_partitioned ::
  "pgctx \<Rightarrow> string option \<Rightarrow> string option \<Rightarrow> int option \<Rightarrow> int option \<Rightarrow> string option \<Rightarrow> int sql" where
  "ack_partitioned ctx iq ic ik i_n w = slot_args iq ic ik i_n (\<lambda>q c k n.
     sql_bind (slot_guard ctx q c k n w) (\<lambda>v_n.
     sql_bind (slot_batch q c k v_n) (\<lambda>bo. case bo of
       None \<Rightarrow> sql_return 0
     | Some b \<Rightarrow> finish_batch ctx b)))"

definition nack_partitioned ::
  "pgctx \<Rightarrow> string option \<Rightarrow> string option \<Rightarrow> int option \<Rightarrow> int option \<Rightarrow> string option
    \<Rightarrow> int \<Rightarrow> int \<Rightarrow> string option \<Rightarrow> int sql" where
  "nack_partitioned ctx iq ic ik i_n w mid secs reason = slot_args iq ic ik i_n (\<lambda>q c k n.
     sql_bind (slot_guard ctx q c k n w) (\<lambda>v_n.
     sql_bind (slot_batch q c k v_n) (\<lambda>bo. case bo of
       None \<Rightarrow> pg_raise (''slot '' @ str_of_int k @ '' of consumer '' @ c @ '' on queue '' @ q @ '' has no open batch to nack'')
     | Some b \<Rightarrow> nack_batch_event ctx b mid secs reason)))"

section \<open>What the view shows\<close>

record slot_status =
  ss_queue :: string
  ss_consumer :: string
  ss_slot :: int
  ss_n :: int
  ss_owner :: "string option"
  ss_until :: "int option"
  ss_epoch :: int
  ss_last_tick :: "int option"
  ss_pending :: int

definition status_of :: "pgctx \<Rightarrow> db \<Rightarrow> qrow \<Rightarrow> part_row \<Rightarrow> int \<Rightarrow> slot_status" where
  "status_of ctx t q p k =
     (let ps = find_slot (pa_queue p) (pa_consumer p) k t;
          s = find_sub (queue_name q) (slot_name (pa_consumer p) k (pa_n p)) t;
          cur = (case s of None \<Rightarrow> None | Some x \<Rightarrow> find_tick (pa_queue p) (sub_last_tick x) t);
          latest = max_tick (pa_queue p) (\<lambda>_. True) t
      in \<lparr>ss_queue = queue_name q, ss_consumer = pa_consumer p, ss_slot = k, ss_n = pa_n p,
        ss_owner = (case ps of None \<Rightarrow> None | Some r \<Rightarrow>
          (case sl_until r of None \<Rightarrow> None | Some u \<Rightarrow> if pg_clock ctx < u then sl_owner r else None)),
        ss_until = (case ps of None \<Rightarrow> None | Some r \<Rightarrow> sl_until r),
        ss_epoch = (case ps of None \<Rightarrow> 0 | Some r \<Rightarrow> sl_epoch r),
        ss_last_tick = (case s of None \<Rightarrow> None | Some x \<Rightarrow> sub_last_tick x),
        ss_pending = (case (latest, cur) of
           (Some l, Some x) \<Rightarrow> max (tick_event_seq l - tick_event_seq x) 0 | _ \<Rightarrow> 0)\<rparr>)"

definition partition_slot_status :: "pgctx \<Rightarrow> db \<Rightarrow> slot_status list" where
  "partition_slot_status ctx t = concat (map (\<lambda>p. concat (map (\<lambda>q.
     if queue_id q = pa_queue p then map (status_of ctx t q p) [0..pa_n p - 1] else []) (t_queues t))) (t_parts t))"

end
