(* ===== verification/PartitionClaims.thy ===== *)
theory PartitionClaims
  imports Partitions Pipeline
begin

text \<open>
  What partitioned consumers promise: the slots share the stream out by key, a worker without
  the lease is fenced, a successor gets the batch of a worker that went away, and the epochs of
  a slot tell its workers apart.
\<close>

section \<open>Classes\<close>

lemma slot_class_range:
  assumes "1 \<le> n" shows "slot_class h n e \<in> {0..n - 1}"
proof -
  have "0 \<le> (x smod n + n) smod n \<and> (x smod n + n) smod n < n" for x
    using assms smod_int_range[where a = x and b = n] smod_int_compares(1,2)[of "x smod n + n" n] by simp
  then show ?thesis using assms by (auto simp: slot_class_def split: option.split)
qed

lemma count_list_distinct: "distinct ks \<Longrightarrow> x \<in> set ks \<Longrightarrow> count_list ks x = 1"
  by (induction ks) auto

lemma mset_classes:
  assumes "\<And>x. x \<in> set es \<Longrightarrow> f x \<in> {0..n - 1}"
  shows "mset (concat (map (\<lambda>k. filter (\<lambda>x. f x = k) es) [0..n - 1])) = mset es"
  using assms
proof (induction es)
  case Nil
  then show ?case by (induction "[0..n - 1]") auto
next
  case (Cons x es)
  have add: "mset (concat (map (\<lambda>k. filter (\<lambda>y. f y = k) (x # es)) ks))
      = mset (concat (map (\<lambda>k. filter (\<lambda>y. f y = k) es) ks)) + replicate_mset (count_list ks (f x)) x" for ks
    by (induction ks) auto
  have "count_list [0..n - 1] (f x) = 1"
    by (rule count_list_distinct) (use Cons.prems[of x] in simp_all)
  with Cons show ?case by (simp only: add) simp
qed

lemma mset_concat_pieces:
  "(\<And>k. k \<in> set ks \<Longrightarrow> mset (filter P (f k)) = mset (g k)) \<Longrightarrow> mset (filter P (concat (map f ks))) = mset (concat (map g ks))"
  by (induction ks) auto

lemma batch_sorted: "sorted (map ev_id (batch_event_sql prv cur sub tbls))"
  by (simp add: batch_event_sql_def split: prod.split)

section \<open>The guard\<close>

text \<open>Subscriptions, ticks and events look the same with other leases.\<close>

lemma slots_unseen [simp]:
  "find_sub q c (t\<lparr>t_slots := x\<rparr>) = find_sub q c t" "find_queue q (t\<lparr>t_slots := x\<rparr>) = find_queue q t"
  "find_batch b (t\<lparr>t_slots := x\<rparr>) = find_batch b t" "find_tick i k (t\<lparr>t_slots := x\<rparr>) = find_tick i k t"
  "min_tick i P (t\<lparr>t_slots := x\<rparr>) = min_tick i P t" "subs_ok (t\<lparr>t_slots := x\<rparr>) = subs_ok t"
  "find_part q c (t\<lparr>t_slots := x\<rparr>) = find_part q c t" "batch_rows b (t\<lparr>t_slots := x\<rparr>) = batch_rows b t"
  by (simp_all add: find_sub_def find_queue_def find_consumer_def find_batch_def find_tick_def min_tick_def subs_ok_def
      find_part_def batch_rows_def cong: option.case_cong)

lemma standing_slots [simp]: "standing q c (t\<lparr>t_slots := x\<rparr>) r s tk = standing q c t r s tk"
  by (simp add: standing_def)

text \<open>The row of slot \<open>k\<close> of \<open>n\<close>.\<close>

definition leased :: "string \<Rightarrow> string \<Rightarrow> int \<Rightarrow> int \<Rightarrow> db \<Rightarrow> slot_row option" where
  "leased q c k n t = (case find_part q c t of
      None \<Rightarrow> None
    | Some p \<Rightarrow> if pa_n p = n \<and> 0 \<le> k \<and> k < n then find_slot (pa_queue p) c k t else None)"

definition fence_error :: "string \<Rightarrow> string \<Rightarrow> int \<Rightarrow> string \<Rightarrow> string \<Rightarrow> 'a sql" where
  "fence_error q c k v w = pg_raise (''lease on slot '' @ str_of_int k @ '' of consumer '' @ c @ '' on queue '' @ q
     @ '' is held by worker '' @ v @ '', not '' @ w @ ''; fenced'')"

lemma guard_fenced:
  assumes "leased q c k n t = Some s" "sl_owner s = Some v" "v \<noteq> w"
  shows "slot_guard ctx q c k n (Some w) t = fence_error q c k v w t"
  using assms by (auto simp: leased_def slot_guard_def fence_error_def sql_bind_def sql_read_def null_text_def pg_raise_def
      split: option.splits if_splits)

lemma guard_passes:
  assumes "slot_guard ctx q c k n (Some w) t = (u, Inr v)"
  obtains s p where "leased q c k n t = Some s" "find_part q c t = Some p" "sl_owner s = Some w" "v = n"
    "u = t\<lparr>t_slots := map (\<lambda>r. if slot_at (pa_queue p) c k r
        then r\<lparr>sl_until := map_option ((+) (pg_clock ctx)) (sl_ttl s)\<rparr> else r) (t_slots t)\<rparr>"
proof -
  obtain p where p: "find_part q c t = Some p" "pa_n p = n" "0 \<le> k" "k < n"
    using assms by (auto simp: slot_guard_def not_partitioned_def out_of_range_def sql_bind_def sql_read_def pg_raise_def
        split: option.splits if_splits)
  obtain s where s: "find_slot (pa_queue p) c k t = Some s"
    using assms p by (auto simp: slot_guard_def not_subscribed_def sql_bind_def sql_read_def pg_raise_def split: option.splits)
  have o: "sl_owner s = Some w" "v = n \<and> u = t\<lparr>t_slots := map (\<lambda>r. if slot_at (pa_queue p) c k r
        then r\<lparr>sl_until := map_option ((+) (pg_clock ctx)) (sl_ttl s)\<rparr> else r) (t_slots t)\<rparr>"
    using assms p s by (auto simp: slot_guard_def set_slot_def sql_bind_def sql_read_def sql_update_def sql_return_def pg_raise_def
        split: option.splits if_splits)
  with p s that show thesis by (simp add: leased_def)
qed

lemma guard_holds:
  assumes "leased q c k n t = Some s" "sl_owner s = Some w"
  obtains rows where "slot_guard ctx q c k n (Some w) t = (t\<lparr>t_slots := rows\<rparr>, Inr n)"
proof -
  from assms obtain p where p: "find_part q c t = Some p" "pa_n p = n" "0 \<le> k" "k < n" "find_slot (pa_queue p) c k t = Some s"
    by (auto simp: leased_def split: option.splits if_splits)
  with assms(2) that show thesis
    by (simp add: slot_guard_def set_slot_def sql_bind_def sql_read_def sql_update_def sql_return_def)
qed

section \<open>What a slot receives\<close>

text \<open>The next window of the subscription, its open batch included.\<close>

definition next_window :: "string \<Rightarrow> string \<Rightarrow> db \<Rightarrow> qrow \<Rightarrow> sub_row \<Rightarrow> tick \<Rightarrow> tick \<Rightarrow> bool" where
  "next_window q c t r s tk cur \<longleftrightarrow> standing q c t r s tk
     \<and> find_tick (queue_id r) (Some (tick_id cur)) t = Some cur
     \<and> (case sub_batch s of
          None \<Rightarrow> min_tick (queue_id r) (\<lambda>k. tick_id tk < tick_id k) t = Some cur
        | Some b \<Rightarrow> sub_next_tick s = Some (tick_id cur))"

lemma next_window_batch:
  assumes "next_window q c t r s tk cur"
  obtains t' b where "next_batch ctx q c t = (t', Inr (Some b))"
    "batch_rows b t' = Some (batch_event_sql (tick_snapshot tk) (tick_snapshot cur) (sub_id s) [queue_events r])"
proof (cases "sub_batch s")
  case None
  with assms obtain t' where "next_batch ctx q c t = (t', Inr (Some (sq_next (s_batch t))))"
    "batch_rows (sq_next (s_batch t)) t' = Some (batch_event_sql (tick_snapshot tk) (tick_snapshot cur) (sub_id s) [queue_events r])"
    by (auto simp: next_window_def elim: open_batch)
  with that show thesis by blast
next
  case (Some b)
  note st = assms[unfolded next_window_def standing_def]
  have "sub_queue s = queue_id r" using find_sub_queue st by blast
  moreover have "find_batch b t = Some s" using st Some find_sub_mem[of q c t s] by (simp add: find_batch_iff)
  ultimately have "batch_rows b t = Some (batch_event_sql (tick_snapshot tk) (tick_snapshot cur) (sub_id s) [queue_events r])"
    using st Some find_queue_by_id[of t q r] by (simp add: batch_rows_def)
  moreover have "next_batch ctx q c t = (t, Inr (Some b))" using st Some by (intro next_batch_active) auto
  ultimately show thesis using that by blast
qed

lemma slot_rows_eq:
  "slot_rows ctx b k n t = (case batch_rows b t of None \<Rightarrow> pg_raise ''batch not found'' t
     | Some es \<Rightarrow> (t, Inr (filter (\<lambda>e. slot_class (pg_hash_text ctx) n e = k) es)))"
  by (simp add: slot_rows_def sql_bind_def get_batch_events_eq sql_return_def pg_raise_def split: option.splits)

lemma slot_receives:
  assumes w: "next_window q (slot_name c k n) t r s tk cur"
    and rc: "receive_partitioned ctx (Some q) (Some c) (Some k) (Some n) (Some wk) (Some mx) t = (u, Inr ms)"
  shows "map pm_event ms = filter (\<lambda>e. slot_class (pg_hash_text ctx) n e = k)
    (batch_event_sql (tick_snapshot tk) (tick_snapshot cur) (sub_id s) [queue_events r])"
proof -
  let ?es = "filter (\<lambda>e. slot_class (pg_hash_text ctx) n e = k)
    (batch_event_sql (tick_snapshot tk) (tick_snapshot cur) (sub_id s) [queue_events r])"
  have mx: "1 \<le> mx" using rc by (auto simp: receive_partitioned_def pg_raise_def split: if_splits)
  obtain v t1 where g: "slot_guard ctx q c k n (Some wk) t = (t1, Inr v)"
    using rc mx by (auto simp: receive_partitioned_def slot_args_def sql_bind_def split: prod.splits sum.splits)
  then obtain rows where t1: "t1 = t\<lparr>t_slots := rows\<rparr>" "v = n" by (rule guard_passes) blast
  have "next_window q (slot_name c k n) t1 r s tk cur"
    using w by (simp add: next_window_def t1 cong: option.case_cong)
  then obtain t2 b where nb: "next_batch ctx q (slot_name c k n) t1 = (t2, Inr (Some b))"
    and rows: "batch_rows b t2 = Some (batch_event_sql (tick_snapshot tk) (tick_snapshot cur) (sub_id s) [queue_events r])"
    by (rule next_window_batch)
  have "ms = map (to_message b) (take (nat mx) ?es) \<and> \<not> mx < int (length ?es)"
    using rc mx g t1(2) nb rows
    by (auto simp: receive_partitioned_def slot_args_def sql_bind_def slot_rows_eq Let_def pg_raise_code_def sql_return_def
        split: if_splits prod.splits sum.splits)
  then have "ms = map (to_message b) ?es" by (auto simp: take_all)
  then show ?thesis by (simp add: to_message_def comp_def)
qed

text \<open>
  Claim C17. The slots of a partitioned consumer share the stream out: when each of the n slots receives the
  same window, their messages together are every event of the window exactly once (up to the events
  that came back for one subscription), those of one key all belong to one slot, and each slot gets its
  events by rising id. The slots may receive one after the other while others send.
\<close>

theorem slots_share_stream:
  assumes n: "1 \<le> n"
    and win: "\<And>k. k \<in> {0..n - 1} \<Longrightarrow> next_window q (slot_name c k n) (T k) (R k) (S k) tk cur"
    and same: "\<And>k. k \<in> {0..n - 1} \<Longrightarrow> filter (\<lambda>e. in_window (tick_snapshot tk) (tick_snapshot cur) (ev_txid e)) (queue_events (R k)) = W"
    and hash: "\<And>k. k \<in> {0..n - 1} \<Longrightarrow> pg_hash_text (ctx k) = h"
    and snaps: "snap_wf (tick_snapshot tk)" "snap_wf (tick_snapshot cur)" "snap_xmax (tick_snapshot tk) \<le> snap_xmax (tick_snapshot cur)"
    and rc: "\<And>k. k \<in> {0..n - 1} \<Longrightarrow>
      receive_partitioned (ctx k) (Some q) (Some c) (Some k) (Some n) (Some (wk k)) (Some mx) (T k) = (U k, Inr (ms k))"
  shows "mset (filter (\<lambda>e. ev_owner e = None) (concat (map (\<lambda>k. map pm_event (ms k)) [0..n - 1])))
        = mset (filter (\<lambda>e. ev_owner e = None) W)
    \<and> list_all (\<lambda>j. list_all (\<lambda>k. list_all (\<lambda>e. list_all (\<lambda>f. ev_extra1 e = ev_extra1 f \<longrightarrow> j = k)
        (map pm_event (ms k))) (map pm_event (ms j))) [0..n - 1]) [0..n - 1]
    \<and> list_all (\<lambda>k. sorted (map (ev_id \<circ> pm_event) (ms k))) [0..n - 1]"
proof -
  let ?B = "\<lambda>k. batch_event_sql (tick_snapshot tk) (tick_snapshot cur) (sub_id (S k)) [queue_events (R k)]"
  have ev: "map pm_event (ms k) = filter (\<lambda>e. slot_class h n e = k) (?B k)" if "k \<in> {0..n - 1}" for k
    using slot_receives[OF win[OF that] rc[OF that]] hash[OF that] by simp
  have "mset (filter (\<lambda>e. ev_owner e = None) (map pm_event (ms k)))
      = mset (filter (\<lambda>e. slot_class h n e = k) (filter (\<lambda>e. ev_owner e = None) W))" if k: "k \<in> {0..n - 1}" for k
  proof -
    have "mset (filter (\<lambda>e. ev_owner e = None) (filter (\<lambda>e. slot_class h n e = k) (?B k)))
        = filter_mset (\<lambda>e. ev_owner e = None \<and> slot_class h n e = k) (mset (?B k))"
      by (simp add: filter_filter_mset conj_commute)
    also have "\<dots> = filter_mset (\<lambda>e. ev_owner e = None \<and> slot_class h n e = k)
        (mset (filter (\<lambda>e. in_window (tick_snapshot tk) (tick_snapshot cur) (ev_txid e) \<and> retry_expr (sub_id (S k)) e) (queue_events (R k))))"
      by (simp add: batch_event_sql_mset[OF snaps] batch_reference_def)
    also have "\<dots> = mset (filter (\<lambda>e. ev_owner e = None \<and> slot_class h n e = k) W)"
      unfolding same[OF k, symmetric] mset_filter[symmetric] filter_filter
      by (intro arg_cong[where f = mset] filter_cong) (auto simp: retry_expr_def)
    finally show ?thesis by (simp add: ev[OF k] conj_commute)
  qed
  then have "mset (filter (\<lambda>e. ev_owner e = None) (concat (map (\<lambda>k. map pm_event (ms k)) [0..n - 1])))
      = mset (concat (map (\<lambda>k. filter (\<lambda>e. slot_class h n e = k) (filter (\<lambda>e. ev_owner e = None) W)) [0..n - 1]))"
    by (intro mset_concat_pieces) simp
  also have "\<dots> = mset (filter (\<lambda>e. ev_owner e = None) W)"
    by (rule mset_classes) (rule slot_class_range[OF n])
  finally have all: "mset (filter (\<lambda>e. ev_owner e = None) (concat (map (\<lambda>k. map pm_event (ms k)) [0..n - 1])))
      = mset (filter (\<lambda>e. ev_owner e = None) W)" .
  have key: "slot_class h n e = slot_class h n f" if "ev_extra1 e = ev_extra1 f" for e f
    using that by (simp add: slot_class_def)
  have "list_all (\<lambda>j. list_all (\<lambda>k. list_all (\<lambda>e. list_all (\<lambda>f. ev_extra1 e = ev_extra1 f \<longrightarrow> j = k)
        (map pm_event (ms k))) (map pm_event (ms j))) [0..n - 1]) [0..n - 1]"
    unfolding list_all_iff set_upto
  proof (intro ballI impI)
    fix j k e f
    assume a: "j \<in> {0..n - 1}" "k \<in> {0..n - 1}" "e \<in> set (map pm_event (ms j))" "f \<in> set (map pm_event (ms k))"
      and x: "ev_extra1 e = ev_extra1 f"
    have "slot_class h n e = j" using a(3) unfolding ev[OF a(1)] by simp
    moreover have "slot_class h n f = k" using a(4) unfolding ev[OF a(2)] by simp
    ultimately show "j = k" using key[OF x] by simp
  qed
  moreover have "list_all (\<lambda>k. sorted (map (ev_id \<circ> pm_event) (ms k))) [0..n - 1]"
    using ev by (simp add: list_all_iff batch_sorted sorted_filter flip: map_map)
  ultimately show ?thesis using all by simp
qed

lemma receive_partitioned_length:
  assumes "receive_partitioned ctx iq ic ik i_n w (Some mx) t = (u, Inr ms)"
  shows "length ms \<le> nat mx"
  using assms
  by (auto simp: receive_partitioned_def slot_args_def sql_bind_def Let_def pg_raise_def pg_raise_code_def sql_return_def
      split: option.splits if_splits prod.splits sum.splits)

section \<open>Fencing\<close>

lemma guard_bind_fenced:
  assumes "leased q c k n t = Some s" "sl_owner s = Some v" "v \<noteq> w"
  shows "sql_bind (slot_guard ctx q c k n (Some w)) f t = fence_error q c k v w t"
  by (simp add: sql_bind_def guard_fenced[OF assms] fence_error_def pg_raise_def)

text \<open>
  Claim C18. A worker without the lease can do nothing: while another worker holds the lease of a slot,
  \<open>receive_partitioned\<close>, \<open>ack_partitioned\<close> and \<open>nack_partitioned\<close> raise the fencing error,
  \<open>release_slot\<close> returns false, and as long as the lease lasts \<open>claim_slot\<close> returns null; no table changes.
\<close>

theorem lease_fences_others:
  assumes s: "leased q c k n t = Some s" "sl_owner s = Some v" "v \<noteq> w" and mx: "1 \<le> mx"
  shows "receive_partitioned ctx (Some q) (Some c) (Some k) (Some n) (Some w) (Some mx) t = fence_error q c k v w t
    \<and> ack_partitioned ctx (Some q) (Some c) (Some k) (Some n) (Some w) t = fence_error q c k v w t
    \<and> nack_partitioned ctx (Some q) (Some c) (Some k) (Some n) (Some w) mid secs reason t = fence_error q c k v w t
    \<and> release_slot q c k (Some w) t = (t, Inr False)
    \<and> (w \<noteq> [] \<longrightarrow> 1000000 \<le> ttl \<longrightarrow> (case sl_until s of None \<Rightarrow> True | Some u \<Rightarrow> pg_clock ctx < u)
        \<longrightarrow> claim_slot ctx q c (Some k) (Some w) (Some ttl) t = (t, Inr None))"
proof -
  obtain p where p: "find_part q c t = Some p" "pa_n p = n" "0 \<le> k" "k < n" "find_slot (pa_queue p) c k t = Some s"
    using s(1) by (auto simp: leased_def split: option.splits if_splits)
  obtain r where r: "find_queue q t = Some r" "queue_id r = pa_queue p"
    using p(1) by (auto simp: find_part_def dest: find_SomeD split: option.splits)
  have "release_slot q c k (Some w) t = (t, Inr False)"
    using p r s by (simp add: release_slot_def sql_bind_def sql_read_def sql_return_def)
  moreover have "claim_slot ctx q c (Some k) (Some w) (Some ttl) t = (t, Inr None)"
    if "w \<noteq> []" "1000000 \<le> ttl" "case sl_until s of None \<Rightarrow> True | Some u \<Rightarrow> pg_clock ctx < u"
    using p s that by (auto simp: claim_slot_def sql_bind_def sql_read_def sql_return_def split: option.splits)
  ultimately show ?thesis
    using mx by (simp add: guard_bind_fenced[OF s] receive_partitioned_def ack_partitioned_def nack_partitioned_def slot_args_def)
qed

section \<open>Taking a lease over\<close>

lemma leased_cong:
  "t_slots t' = t_slots t \<Longrightarrow> t_parts t' = t_parts t \<Longrightarrow> t_queues t' = t_queues t \<Longrightarrow> leased q c k n t' = leased q c k n t"
  by (simp add: leased_def find_part_def find_queue_def find_slot_def cong: option.case_cong if_cong)

lemma find_slot_upd:
  assumes "\<And>r. slot_at i c k (f r) = slot_at i c k r"
  shows "find_slot i c k (t\<lparr>t_slots := map (\<lambda>r. if slot_at i c k r then f r else r) (t_slots t)\<rparr>) = map_option f (find_slot i c k t)"
proof -
  have "find (slot_at i c k) (map (\<lambda>r. if slot_at i c k r then f r else r) xs) = map_option f (find (slot_at i c k) xs)" for xs
    using assms by (induction xs) auto
  then show ?thesis by (simp add: find_slot_def)
qed

text \<open>Opening a window leaves it the next one, with its batch.\<close>

lemma next_window_opens:
  assumes w: "next_window q c t r s tk cur"
  obtains t' b s' where "next_batch ctx q c t = (t', Inr (Some b))" "next_window q c t' r s' tk cur"
    "sub_batch s' = Some b" "sub_id s' = sub_id s"
    "t_slots t' = t_slots t" "t_parts t' = t_parts t" "t_queues t' = t_queues t"
proof (cases "sub_batch s")
  case (Some b)
  with w that[of t b s] next_batch_active[of q c t s b tk ctx] show thesis by (simp add: next_window_def standing_def)
next
  case None
  note st = w[unfolded next_window_def standing_def]
  have ok: "subs_ok t" using st by simp
  obtain t' b where nb: "next_batch ctx q c t = (t', Inr (Some b))" by (rule next_window_batch[OF w])
  show thesis
  proof (rule next_batch_cases[OF ok nb])
    fix x assume "find_sub q c t = Some x" "sub_batch x = Some b"
    with st None show thesis by simp
  next
    fix x prev k
    assume a: "find_sub q c t = Some x" "sub_batch x = None" "find_tick (sub_queue x) (sub_last_tick x) t = Some prev"
      "min_tick (sub_queue x) (\<lambda>r. tick_id prev < tick_id r) t = Some k"
      "t' = t\<lparr>s_batch := sq_set b, t_subs := if sub_role x = Role_normal
         then upd_key (sub_key x) (stamp ctx b (tick_id k)) (t_subs t) else t_subs t\<rparr>"
    have sq: "sub_queue s = queue_id r" using find_sub_queue st by blast
    have x: "x = s" "prev = tk" "k = cur" using a st None sq by auto
    let ?s = "stamp ctx b (tick_id cur) s"
    have t': "t' = t\<lparr>s_batch := sq_set b, t_subs := upd_key (sub_key s) (stamp ctx b (tick_id cur)) (t_subs t)\<rparr>"
      using a(5) x st by simp
    have fs: "find_sub q c t' = Some ?s" by (rule find_sub_upd[where t = t]) (use st t' in simp_all)
    have f: "find_tick i j t' = find_tick i j t" "find_queue q t' = find_queue q t" for i j
      using t' by (simp_all add: find_tick_def find_queue_def split: option.split)
    have "next_window q c t' r ?s tk cur"
      using st fs f next_batch_ok[OF ok nb] by (simp add: next_window_def standing_def)
    with that[OF nb] show thesis by (simp add: t')
  qed
qed

text \<open>What a worker with the lease gets.\<close>

lemma receive_partitioned_opens:
  fixes ctx :: pgctx
  assumes win: "next_window q (slot_name c k n) t r s tk cur"
    and l: "leased q c k n t = Some sl" "sl_owner sl = Some w" and mx: "1 \<le> mx"
  defines "es \<equiv> filter (\<lambda>e. slot_class (pg_hash_text ctx) n e = k)
    (batch_event_sql (tick_snapshot tk) (tick_snapshot cur) (sub_id s) [queue_events r])"
  assumes ne: "es \<noteq> []" "int (length es) \<le> mx"
  obtains u s' b where
    "receive_partitioned ctx (Some q) (Some c) (Some k) (Some n) (Some w) (Some mx) t = (u, Inr (map (to_message b) es))"
    "next_window q (slot_name c k n) u r s' tk cur" "sub_batch s' = Some b" "sub_id s' = sub_id s"
    "sub_batch s \<noteq> None \<longrightarrow> sub_batch s = Some b"
    "leased q c k n u = Some (sl\<lparr>sl_until := map_option ((+) (pg_clock ctx)) (sl_ttl sl)\<rparr>)"
proof -
  obtain p where p: "find_part q c t = Some p" "pa_n p = n" "0 \<le> k" "k < n" "find_slot (pa_queue p) c k t = Some sl"
    using l(1) by (auto simp: leased_def split: option.splits if_splits)
  let ?f = "\<lambda>r. r\<lparr>sl_until := map_option ((+) (pg_clock ctx)) (sl_ttl sl)\<rparr>"
  let ?t1 = "t\<lparr>t_slots := map (\<lambda>r. if slot_at (pa_queue p) c k r then ?f r else r) (t_slots t)\<rparr>"
  have g: "slot_guard ctx q c k n (Some w) t = (?t1, Inr n)"
    using p l(2) by (simp add: slot_guard_def set_slot_def sql_bind_def sql_read_def sql_update_def sql_return_def)
  have l1: "leased q c k n ?t1 = Some (?f sl)"
    using p by (simp add: leased_def) (subst find_slot_upd; simp add: slot_at_def)
  have "next_window q (slot_name c k n) ?t1 r s tk cur"
    using win by (simp add: next_window_def cong: option.case_cong)
  then obtain u b s' where o: "next_batch ctx q (slot_name c k n) ?t1 = (u, Inr (Some b))" "next_window q (slot_name c k n) u r s' tk cur"
    "sub_batch s' = Some b" "sub_id s' = sub_id s" "t_slots u = t_slots ?t1" "t_parts u = t_parts ?t1" "t_queues u = t_queues ?t1"
    by (rule next_window_opens)
  have b: "sub_batch s = Some b" if "sub_batch s \<noteq> None"
  proof -
    from that obtain b0 where b0: "sub_batch s = Some b0" by blast
    with win next_batch_active[of q "slot_name c k n" ?t1 s b0 tk ctx] o(1) show ?thesis by (simp add: next_window_def standing_def)
  qed
  have rows: "batch_rows b u = Some (batch_event_sql (tick_snapshot tk) (tick_snapshot cur) (sub_id s) [queue_events r])"
  proof -
    have nb: "next_batch ctx q (slot_name c k n) u = (u, Inr (Some b))"
      using o(2,3) by (intro next_batch_active) (auto simp: next_window_def standing_def)
    from next_window_batch[OF o(2), of ctx] nb o(4) show ?thesis by fastforce
  qed
  have "receive_partitioned ctx (Some q) (Some c) (Some k) (Some n) (Some w) (Some mx) t = (u, Inr (map (to_message b) es))"
    using mx ne g o(1) rows
    by (simp add: receive_partitioned_def slot_args_def sql_bind_def slot_rows_eq Let_def sql_return_def es_def)
  moreover have "leased q c k n u = Some (?f sl)" using leased_cong[OF o(5-7)] l1 by simp
  ultimately show thesis using that o b by blast
qed

lemma claim_expired:
  assumes l: "leased q c k n t = Some s" and e: "sl_owner s = Some v" "sl_until s = Some d" "d \<le> pg_clock ctx"
    and w: "w \<noteq> v" "w \<noteq> []" "1000000 \<le> ttl"
  obtains u where "claim_slot ctx q c (Some k) (Some w) (Some ttl) t = (u, Inr (Some (sl_epoch s + 1)))"
    "leased q c k n u = Some (s\<lparr>sl_owner := Some w, sl_until := Some (pg_clock ctx + ttl), sl_ttl := Some ttl, sl_epoch := sl_epoch s + 1\<rparr>)"
    "\<exists>rows. u = t\<lparr>t_slots := rows\<rparr>"
proof -
  obtain p where p: "find_part q c t = Some p" "pa_n p = n" "0 \<le> k" "k < n" "find_slot (pa_queue p) c k t = Some s"
    using l by (auto simp: leased_def split: option.splits if_splits)
  let ?f = "\<lambda>r. r\<lparr>sl_owner := Some w, sl_until := Some (pg_clock ctx + ttl), sl_ttl := Some ttl, sl_epoch := sl_epoch s + 1\<rparr>"
  let ?u = "t\<lparr>t_slots := map (\<lambda>r. if slot_at (pa_queue p) c k r then ?f r else r) (t_slots t)\<rparr>"
  have "claim_slot ctx q c (Some k) (Some w) (Some ttl) t = (?u, Inr (Some (sl_epoch s + 1)))"
    using p e w by (simp add: claim_slot_def set_slot_def sql_bind_def sql_read_def sql_update_def sql_return_def)
  moreover have "leased q c k n ?u = Some (?f s)"
    using p by (simp add: leased_def) (subst find_slot_upd; simp add: slot_at_def)
  ultimately show thesis using that by blast
qed

text \<open>
  Claim C19. Nothing is lost with a worker: when worker a has received the messages of a slot and its lease
  has run out, worker b claims the slot under the next epoch and receives the very same messages of
  the same batch; a can no longer acknowledge them, and b can.
\<close>

theorem takeover_redelivers:
  assumes win: "next_window q (slot_name c k n) t r s tk cur"
    and l: "leased q c k n t = Some sl" "sl_owner sl = Some a" "sl_ttl sl = Some d"
    and late: "pg_clock ctx + d \<le> pg_clock ctx2" and b: "b \<noteq> a" "b \<noteq> []" "1000000 \<le> ttl"
    and hash: "pg_hash_text ctx3 = pg_hash_text ctx"
    and a: "receive_partitioned ctx (Some q) (Some c) (Some k) (Some n) (Some a) (Some mx) t = (t1, Inr ms)" "ms \<noteq> []"
  shows "\<exists>t2 t3 t4. claim_slot ctx2 q c (Some k) (Some b) (Some ttl) t1 = (t2, Inr (Some (sl_epoch sl + 1)))
    \<and> receive_partitioned ctx3 (Some q) (Some c) (Some k) (Some n) (Some b) (Some mx) t2 = (t3, Inr ms)
    \<and> ack_partitioned ctx4 (Some q) (Some c) (Some k) (Some n) (Some a) t3 = fence_error q c k b a t3
    \<and> ack_partitioned ctx5 (Some q) (Some c) (Some k) (Some n) (Some b) t3 = (t4, Inr 1)"
proof -
  let ?es = "\<lambda>ctx. filter (\<lambda>e. slot_class (pg_hash_text ctx) n e = k)
    (batch_event_sql (tick_snapshot tk) (tick_snapshot cur) (sub_id s) [queue_events r])"
  have mx: "1 \<le> mx" using a(1) by (auto simp: receive_partitioned_def pg_raise_def split: if_splits)
  have ev: "map pm_event ms = ?es ctx" by (rule slot_receives[OF win a(1)])
  then have ne: "?es ctx \<noteq> []" using a(2) by auto
  have len: "int (length (?es ctx)) \<le> mx"
  proof -
    have "length ms \<le> nat mx" by (rule receive_partitioned_length[OF a(1)])
    then show ?thesis using arg_cong[OF ev, of length] mx by simp
  qed
  obtain s1 bid where s1: "ms = map (to_message bid) (?es ctx)" "next_window q (slot_name c k n) t1 r s1 tk cur"
    "sub_batch s1 = Some bid" "sub_id s1 = sub_id s" "leased q c k n t1 = Some (sl\<lparr>sl_until := Some (pg_clock ctx + d)\<rparr>)"
    by (rule receive_partitioned_opens[OF win l(1,2) mx ne len]) (use a(1) l(3) in auto)
  obtain t2 rows where t2: "claim_slot ctx2 q c (Some k) (Some b) (Some ttl) t1 = (t2, Inr (Some (sl_epoch sl + 1)))"
    and l2: "leased q c k n t2 = Some (sl\<lparr>sl_owner := Some b, sl_until := Some (pg_clock ctx2 + ttl), sl_ttl := Some ttl, sl_epoch := sl_epoch sl + 1\<rparr>)"
    and rows: "t2 = t1\<lparr>t_slots := rows\<rparr>"
    by (rule claim_expired[OF s1(5), where v = a and d = "pg_clock ctx + d" and ctx = ctx2 and w = b and ttl = ttl]) (use l late b in auto)
  have win2: "next_window q (slot_name c k n) t2 r s1 tk cur"
    using s1(2) by (simp add: rows next_window_def cong: option.case_cong)
  obtain t3 s3 where t3: "receive_partitioned ctx3 (Some q) (Some c) (Some k) (Some n) (Some b) (Some mx) t2 = (t3, Inr ms)"
    "next_window q (slot_name c k n) t3 r s3 tk cur" "sub_batch s3 = Some bid"
    and l3: "\<exists>sl3. leased q c k n t3 = Some sl3 \<and> sl_owner sl3 = Some b"
    by (rule receive_partitioned_opens[OF win2 l2 _ mx, where ctx = ctx3]) (use ne len hash s1 in auto)
  then obtain sl3 where sl3: "leased q c k n t3 = Some sl3" "sl_owner sl3 = Some b" by blast
  have zombie: "ack_partitioned ctx4 (Some q) (Some c) (Some k) (Some n) (Some a) t3 = fence_error q c k b a t3"
    using guard_bind_fenced[OF sl3 b(1)] by (simp add: ack_partitioned_def slot_args_def)
  obtain rows3 where g: "slot_guard ctx5 q c k n (Some b) t3 = (t3\<lparr>t_slots := rows3\<rparr>, Inr n)"
    by (rule guard_holds[OF sl3])
  have "find_batch bid t3 = Some s3" "sub_role s3 = Role_normal" "find_sub q (slot_name c k n) t3 = Some s3"
    using t3(2,3) find_sub_mem by (auto simp: next_window_def standing_def find_batch_iff)
  then have "snd (ack_partitioned ctx5 (Some q) (Some c) (Some k) (Some n) (Some b) t3) = Inr 1"
    by (simp add: ack_partitioned_def slot_args_def g slot_batch_def sql_bind_def sql_read_def sql_return_def t3(3)
        finish_batch_def set_sub_def sql_update_def)
  with t2 t3(1) zombie show ?thesis by (metis prod.collapse)
qed

section \<open>Epochs\<close>

text \<open>
  The life of the slots: a grant is a claim that returned an epoch, with the queue, the
  consumer, the slot and the worker. Whatever else happens keeps the rows of the slots, or is the end of
  a slot (\<open>unsubscribe_slot\<close>, \<open>drop_queue\<close>), which is not a step.
\<close>

record grant =
  gr_queue :: int
  gr_consumer :: string
  gr_slot :: int
  gr_worker :: string
  gr_epoch :: int

definition same_slot :: "grant \<Rightarrow> grant \<Rightarrow> bool" where
  "same_slot g h \<longleftrightarrow> gr_queue g = gr_queue h \<and> gr_consumer g = gr_consumer h \<and> gr_slot g = gr_slot h"

inductive lease_run :: "grant list \<Rightarrow> db \<Rightarrow> bool" where
  start: "lease_run [] t"
| claimed: "lease_run gs t \<Longrightarrow> find_part q c t = Some p \<Longrightarrow>
    claim_slot ctx q c (Some k) (Some w) ttl t = (u, Inr (Some e)) \<Longrightarrow>
    lease_run (gs @ [\<lparr>gr_queue = pa_queue p, gr_consumer = c, gr_slot = k, gr_worker = w, gr_epoch = e\<rparr>]) u"
| refused: "lease_run gs t \<Longrightarrow> claim_slot ctx q c k w ttl t = (u, r) \<Longrightarrow> (\<forall>e. r \<noteq> Inr (Some e)) \<Longrightarrow> lease_run gs u"
| released: "lease_run gs t \<Longrightarrow> release_slot q c k w t = (u, r) \<Longrightarrow> lease_run gs u"
| received: "lease_run gs t \<Longrightarrow> receive_partitioned ctx q' c' k' n w mx t = (u, r) \<Longrightarrow> lease_run gs u"
| acked: "lease_run gs t \<Longrightarrow> ack_partitioned ctx q' c' k' n w t = (u, r) \<Longrightarrow> lease_run gs u"
| nacked: "lease_run gs t \<Longrightarrow> nack_partitioned ctx q' c' k' n w mid secs reason t = (u, r) \<Longrightarrow> lease_run gs u"
| subscribed: "lease_run gs t \<Longrightarrow> subscribe_slot ctx q' c' k' n t = (u, r) \<Longrightarrow> lease_run gs u"
| other: "lease_run gs t \<Longrightarrow> t_slots u = t_slots t \<Longrightarrow> lease_run gs u"

text \<open>What a step may do to the rows: an owner may leave, no epoch changes.\<close>

definition keeps_epochs :: "db \<Rightarrow> db \<Rightarrow> bool" where
  "keeps_epochs t u \<longleftrightarrow> (\<forall>i c k r. find_slot i c k t = Some r \<longrightarrow>
     (\<exists>r'. find_slot i c k u = Some r' \<and> sl_epoch r' = sl_epoch r \<and> (sl_owner r' = sl_owner r \<or> sl_owner r' = None)))"

lemma keeps_epochs_same: "t_slots u = t_slots t \<Longrightarrow> keeps_epochs t u"
  by (auto simp: keeps_epochs_def find_slot_def)

lemma keeps_epochs_trans: "keeps_epochs t u \<Longrightarrow> keeps_epochs u v \<Longrightarrow> keeps_epochs t v"
  by (fastforce simp: keeps_epochs_def)

lemma keeps_epochs_map:
  assumes "t_slots u = map f (t_slots t)" "\<And>i c k r. slot_at i c k (f r) = slot_at i c k r"
    and "\<And>r. sl_epoch (f r) = sl_epoch r" "\<And>r. sl_owner (f r) = sl_owner r \<or> sl_owner (f r) = None"
  shows "keeps_epochs t u"
  using assms by (auto simp: keeps_epochs_def find_slot_def find_map)

lemma keeps_epochs_append:
  "t_slots u = t_slots t @ xs \<Longrightarrow> keeps_epochs t u"
  by (auto simp: keeps_epochs_def find_slot_def find_append)

definition epochs_kept :: "'a sql \<Rightarrow> bool" where
  "epochs_kept m \<longleftrightarrow> (\<forall>t. keeps_epochs t (fst (m t)))"

named_theorems kept_intros \<open>statements that keep the epochs\<close>

lemma kept_bind [kept_intros]: "epochs_kept m \<Longrightarrow> (\<And>x. epochs_kept (f x)) \<Longrightarrow> epochs_kept (sql_bind m f)"
  unfolding epochs_kept_def
proof
  fix t assume m: "\<forall>t. keeps_epochs t (fst (m t))" and f: "\<And>x. \<forall>t. keeps_epochs t (fst (f x t))"
  obtain u y where u: "m t = (u, y)" by fastforce
  have k: "keeps_epochs t u" using m[rule_format, of t] u by simp
  show "keeps_epochs t (fst (sql_bind m f t))"
  proof (cases y)
    case (Inr x)
    with k f[of x, rule_format, of u] u show ?thesis by (auto simp: sql_bind_def intro: keeps_epochs_trans)
  qed (use k u in \<open>simp add: sql_bind_def\<close>)
qed

lemma kept_same: "(\<And>t. t_slots (fst (m t)) = t_slots t) \<Longrightarrow> epochs_kept m"
  by (simp add: epochs_kept_def keeps_epochs_same)

lemma kept_basic [kept_intros]:
  "epochs_kept (sql_read f)" "epochs_kept (sql_return x)" "epochs_kept (pg_raise m)" "epochs_kept (pg_raise_code m c h)"
  "epochs_kept (any_sub P)" "epochs_kept (drop_consumer cid)" "epochs_kept (set_sub Q g)"
  "epochs_kept nextval_batch" "epochs_kept nextval_consumer" "epochs_kept nextval_dead" "epochs_kept nextval_sub"
  by (rule kept_same; simp add: sql_read_def sql_return_def pg_raise_def pg_raise_code_def any_sub_def drop_consumer_def
      set_sub_def sql_update_def nextval_batch_def nextval_consumer_def nextval_dead_def nextval_sub_def)+

lemma kept_update [kept_intros]: "(\<And>t. t_slots (f t) = t_slots t) \<Longrightarrow> epochs_kept (sql_update f)"
  by (rule kept_same) (simp add: sql_update_def)

lemma kept_cases [kept_intros]:
  "epochs_kept m \<Longrightarrow> (\<And>x. epochs_kept (f x)) \<Longrightarrow> epochs_kept (case y of None \<Rightarrow> m | Some x \<Rightarrow> f x)"
  "epochs_kept m \<Longrightarrow> epochs_kept m' \<Longrightarrow> epochs_kept (if b then m else m')"
  "epochs_kept m \<Longrightarrow> (\<And>x xs. epochs_kept (g x xs)) \<Longrightarrow> epochs_kept (case l of [] \<Rightarrow> m | x # xs \<Rightarrow> g x xs)"
  "epochs_kept a1 \<Longrightarrow> epochs_kept a2 \<Longrightarrow> epochs_kept a3 \<Longrightarrow>
    epochs_kept (case r of Role_normal \<Rightarrow> a1 | Role_coop_main \<Rightarrow> a2 | Role_coop_member \<Rightarrow> a3)"
  by (auto split: option.splits list.splits sub_role.splits)

lemma kept_set_slot [kept_intros]:
  assumes "\<And>i c k r. slot_at i c k (f r) = slot_at i c k r" "\<And>r. sl_epoch (f r) = sl_epoch r"
    "\<And>r. sl_owner (f r) = sl_owner r \<or> sl_owner (f r) = None"
  shows "epochs_kept (set_slot i c k f)"
  unfolding epochs_kept_def set_slot_def sql_update_def
  by (intro allI keeps_epochs_map[where f = "\<lambda>r. if slot_at i c k r then f r else r"]) (use assms in auto)

lemma kept_add_slot [kept_intros]: "epochs_kept (add_slot i c k)"
  by (auto simp: epochs_kept_def add_slot_def sql_update_def intro: keeps_epochs_same keeps_epochs_append)

lemma kept_batches [kept_intros]:
  "epochs_kept (get_batch_events b)" "epochs_kept (next_batch ctx q c)" "epochs_kept (finish_batch ctx b)"
  "epochs_kept (nack_batch_event ctx b i secs rs)" "epochs_kept (register_consumer ctx q c)"
proof -
  show g: "epochs_kept (get_batch_events b)" for b unfolding get_batch_events_def by (intro kept_intros)
  show "epochs_kept (next_batch ctx q c)" unfolding next_batch_def by (intro kept_intros)
  show "epochs_kept (finish_batch ctx b)" unfolding finish_batch_def by (intro kept_intros)
  show "epochs_kept (nack_batch_event ctx b i secs rs)"
    unfolding nack_batch_event_def event_dead_def event_retry_def Let_def by (intro kept_intros g) simp_all
  show "epochs_kept (register_consumer ctx q c)" unfolding register_consumer_def by (intro kept_intros) simp_all
qed

lemma kept_guard [kept_intros]: "epochs_kept (slot_guard ctx q c k n w)"
  unfolding slot_guard_def not_partitioned_def out_of_range_def not_subscribed_def
  by (intro kept_intros) (simp_all add: slot_at_def)

lemma kept_slot_api:
  "epochs_kept (receive_partitioned ctx q' c' k' n' w mx)" "epochs_kept (ack_partitioned ctx q' c' k' n' w)"
  "epochs_kept (nack_partitioned ctx q' c' k' n' w mid secs reason)" "epochs_kept (release_slot q c k w)"
  "epochs_kept (subscribe_slot ctx q' c' k' n')"
  unfolding receive_partitioned_def ack_partitioned_def nack_partitioned_def slot_args_def slot_rows_def slot_batch_def
    release_slot_def not_subscribed_def subscribe_slot_def pin_slots_def Let_def
  by ((intro kept_intros | simp split: option.split prod.split add: slot_at_def; intro conjI impI allI kept_intros); simp add: slot_at_def)+

text \<open>
  The invariant: the row of a granted slot is there, with an epoch that is not below the grant's, and
  under the granted epoch itself only its worker owns the slot.
\<close>

definition fenced_by :: "db \<Rightarrow> grant \<Rightarrow> bool" where
  "fenced_by t g \<longleftrightarrow> (case find_slot (gr_queue g) (gr_consumer g) (gr_slot g) t of
      None \<Rightarrow> False
    | Some r \<Rightarrow> gr_epoch g < sl_epoch r \<or> (gr_epoch g = sl_epoch r \<and> (sl_owner r = Some (gr_worker g) \<or> sl_owner r = None)))"

text \<open>A later grant \<open>h\<close> of the same slot.\<close>

definition later_grant :: "grant \<Rightarrow> grant \<Rightarrow> bool" where
  "later_grant g h \<longleftrightarrow> (same_slot g h \<longrightarrow> gr_epoch g \<le> gr_epoch h
     \<and> (gr_worker g \<noteq> gr_worker h \<longrightarrow> gr_epoch g < gr_epoch h))"

lemma fenced_kept: "keeps_epochs t u \<Longrightarrow> fenced_by t g \<Longrightarrow> fenced_by u g"
  by (fastforce simp: fenced_by_def keeps_epochs_def split: option.splits)

lemma kept_step: "epochs_kept m \<Longrightarrow> m t = (u, r) \<Longrightarrow> keeps_epochs t u"
  by (metis epochs_kept_def fst_conv)

lemma claim_cases:
  assumes "claim_slot ctx q c ik iw ittl t = (u, r)"
  obtains "u = t" "\<forall>e. r \<noteq> Inr (Some e)"
  | p k w s f where "find_part q c t = Some p" "ik = Some k" "iw = Some w" "find_slot (pa_queue p) c k t = Some s"
      "u = t\<lparr>t_slots := map (\<lambda>x. if slot_at (pa_queue p) c k x then f x else x) (t_slots t)\<rparr>"
      "\<And>i' c' k' x. slot_at i' c' k' (f x) = slot_at i' c' k' x"
      "r = Inr (Some (sl_epoch (f s)))" "sl_owner (f s) = Some w"
      "sl_epoch (f s) = sl_epoch s \<and> sl_owner s = Some w \<or> sl_epoch (f s) = sl_epoch s + 1"
proof (cases "\<exists>e. r = Inr (Some e)")
  case False
  with assms have "u = t"
    by (auto simp: claim_slot_def not_partitioned_def out_of_range_def not_subscribed_def set_slot_def sql_bind_def
        sql_read_def sql_update_def sql_return_def pg_raise_def Let_def split: option.splits if_splits)
  with False that(1) show thesis by blast
next
  case True
  with assms obtain k w ttl p s where a: "iw = Some w" "ittl = Some ttl" "ik = Some k" "find_part q c t = Some p"
    "find_slot (pa_queue p) c k t = Some s" "w \<noteq> []" "\<not> ttl < 1000000" "\<not> (k < 0 \<or> pa_n p \<le> k)"
    by (auto simp: claim_slot_def not_partitioned_def out_of_range_def not_subscribed_def sql_bind_def
        sql_read_def pg_raise_def split: option.splits if_splits)
  show thesis
  proof (cases "sl_owner s = Some w")
    case True
    show thesis
      by (rule that(2)[of p k w s "\<lambda>x. x\<lparr>sl_until := Some (pg_clock ctx + ttl), sl_ttl := Some ttl\<rparr>"])
        (use a True assms in \<open>auto simp: claim_slot_def set_slot_def sql_bind_def sql_read_def sql_update_def sql_return_def slot_at_def
            find_slot_def dest: find_SomeD\<close>)
  next
    case False
    show thesis
      by (rule that(2)[of p k w s "\<lambda>x. x\<lparr>sl_owner := Some w, sl_until := Some (pg_clock ctx + ttl), sl_ttl := Some ttl, sl_epoch := sl_epoch s + 1\<rparr>"])
        (use a False assms \<open>\<exists>e. r = Inr (Some e)\<close> in \<open>auto simp: claim_slot_def set_slot_def sql_bind_def sql_read_def sql_update_def sql_return_def slot_at_def
            split: if_splits option.splits\<close>)
  qed
qed

lemma lease_run_ok:
  assumes "lease_run gs t"
  shows "list_all (fenced_by t) gs \<and> sorted_wrt later_grant gs"
  using assms
proof induction
  case (claimed gs t q c p ctx k w ttl u e)
  let ?g = "\<lparr>gr_queue = pa_queue p, gr_consumer = c, gr_slot = k, gr_worker = w, gr_epoch = e\<rparr>"
  from claimed.hyps(2,3) obtain s f where s: "find_slot (pa_queue p) c k t = Some s"
      "u = t\<lparr>t_slots := map (\<lambda>x. if slot_at (pa_queue p) c k x then f x else x) (t_slots t)\<rparr>"
      "\<And>i' c' k' x. slot_at i' c' k' (f x) = slot_at i' c' k' x" "e = sl_epoch (f s)" "sl_owner (f s) = Some w"
      "sl_epoch (f s) = sl_epoch s \<and> sl_owner s = Some w \<or> sl_epoch (f s) = sl_epoch s + 1"
    by (auto elim!: claim_cases)
  have row: "find_slot (pa_queue p) c k u = Some (f s)" using find_slot_upd[of "pa_queue p" c k f t] s by simp
  have old: "fenced_by u g \<and> later_grant g ?g" if g: "fenced_by t g" for g
  proof (cases "gr_queue g = pa_queue p \<and> gr_consumer g = c \<and> gr_slot g = k")
    case True
    with g s row show ?thesis by (auto simp: fenced_by_def later_grant_def)
  next
    case False
    have "slot_at i c' k' (if slot_at (pa_queue p) c k x then f x else x) = slot_at i c' k' x" for i c' k' x using s(3) by simp
    then have "find_slot (gr_queue g) (gr_consumer g) (gr_slot g) u
        = map_option (\<lambda>x. if slot_at (pa_queue p) c k x then f x else x) (find_slot (gr_queue g) (gr_consumer g) (gr_slot g) t)"
      using s(2) by (simp add: find_slot_def find_map)
    with g False show ?thesis
      by (auto simp: fenced_by_def later_grant_def same_slot_def find_slot_def slot_at_def split: option.splits dest!: find_SomeD)
  qed
  have "fenced_by u ?g" using row s by (simp add: fenced_by_def)
  with claimed.IH old show ?case by (auto simp: list_all_iff sorted_wrt_append)
next
  case (refused gs t ctx q c k w ttl u r)
  from refused.hyps(2,3) have "u = t" by (auto elim!: claim_cases)
  with refused.IH show ?case by simp
next
  case (other gs t u)
  with keeps_epochs_same[of u t] show ?case by (auto simp: list_all_iff intro: fenced_kept)
qed (auto simp: list_all_iff intro: fenced_kept kept_step[OF kept_slot_api(1)] kept_step[OF kept_slot_api(2)]
    kept_step[OF kept_slot_api(3)] kept_step[OF kept_slot_api(4)] kept_step[OF kept_slot_api(5)])

text \<open>
  Claim C20. The epoch of a lease is a fencing token: whatever workers claim, release, receive,
  acknowledge, refuse and subscribe, in any order, at any times, and whatever else happens to the other
  tables, the epochs granted for one slot never fall, and two different workers never get the same one.
\<close>

theorem epochs_tell_workers_apart:
  assumes run: "lease_run gs t" and g: "i < j" "j < length gs" "same_slot (gs ! i) (gs ! j)"
  shows "gr_epoch (gs ! i) \<le> gr_epoch (gs ! j)
    \<and> (gr_worker (gs ! i) \<noteq> gr_worker (gs ! j) \<longrightarrow> gr_epoch (gs ! i) < gr_epoch (gs ! j))"
  using lease_run_ok[OF run] g by (auto simp: sorted_wrt_iff_nth_less later_grant_def)

end
