(* ===== verification/Idempotent.thy ===== *)
theory Idempotent
  imports Queues
begin

text \<open>
  Sending with an idempotency key, from \<open>devel/sql/pgque.sql\<close> (\<open>pgque-api/send_idem.sql\<close>): a send
  whose key was used on the same queue and has not expired appends nothing and returns the first
  event id. The sweep of expired keys takes them in table order, where the code leaves the order open.
\<close>

section \<open>The functions\<close>

definition find_idem :: "int \<Rightarrow> string \<Rightarrow> db \<Rightarrow> idem_row option" where
  "find_idem i key t = find (\<lambda>k. id_queue k = i \<and> id_key k = key) (t_idem t)"

definition set_idem :: "int \<Rightarrow> string \<Rightarrow> (idem_row \<Rightarrow> idem_row) \<Rightarrow> unit sql" where
  "set_idem i key f = sql_update (\<lambda>t. t\<lparr>t_idem := map (\<lambda>k. if id_queue k = i \<and> id_key k = key then f k else k) (t_idem t)\<rparr>)"

definition extra_maint :: "qrow \<Rightarrow> string list" where
  "extra_maint r = (case queue_extra_maint r of None \<Rightarrow> [] | Some ops \<Rightarrow> ops)"

definition register_sweep :: "int \<Rightarrow> unit sql" where
  "register_sweep i = sql_update (\<lambda>t. t\<lparr>t_queues := map (\<lambda>r.
     if queue_id r = i \<and> ''pgque.maint_idem'' \<notin> set (extra_maint r)
     then r\<lparr>queue_extra_maint := Some (extra_maint r @ [''pgque.maint_idem''])\<rparr> else r) (t_queues t)\<rparr>)"

text \<open>The upsert: a row that has not expired is not claimed.\<close>

definition claim_key :: "pgctx \<Rightarrow> int \<Rightarrow> string \<Rightarrow> int \<Rightarrow> bool sql" where
  "claim_key ctx i key ttl = sql_bind (sql_read (find_idem i key)) (\<lambda>kr. case kr of
      None \<Rightarrow> sql_bind (sql_update (\<lambda>t. t\<lparr>t_idem := t_idem t @
          [\<lparr>id_queue = i, id_key = key, id_event = None, id_expires = pg_now ctx + ttl\<rparr>]\<rparr>)) (\<lambda>_. sql_return True)
    | Some k \<Rightarrow>
        if id_expires k \<le> pg_now ctx then
          sql_bind (set_idem i key (\<lambda>k. k\<lparr>id_event := None, id_expires := pg_now ctx + ttl\<rparr>)) (\<lambda>_. sql_return True)
        else sql_return False)"

definition append_once :: "pgctx \<Rightarrow> string \<Rightarrow> int \<Rightarrow> string option \<Rightarrow> string option \<Rightarrow> string \<Rightarrow> int
    \<Rightarrow> string option \<Rightarrow> (int option \<times> bool) sql" where
  "append_once ctx q i ty body key ttl pkey =
     sql_bind (claim_key ctx i key ttl) (\<lambda>claimed.
     if claimed then
       sql_bind (insert_event_raw ctx q None (pg_now ctx) None None ty body pkey (Some key) None None) (\<lambda>v_event_id.
       sql_bind (set_idem i key (\<lambda>k. k\<lparr>id_event := Some v_event_id\<rparr>)) (\<lambda>_.
       sql_return (Some v_event_id, False)))
     else sql_bind (sql_read (find_idem i key)) (\<lambda>kr.
       sql_return (case kr of None \<Rightarrow> None | Some k \<Rightarrow> id_event k, True)))"

definition send_idem :: "pgctx \<Rightarrow> string \<Rightarrow> string option \<Rightarrow> string option \<Rightarrow> string option \<Rightarrow> int option
    \<Rightarrow> string option \<Rightarrow> (int option \<times> bool) sql" where
  "send_idem ctx q ty body ikey ittl pkey =
     (case ikey of None \<Rightarrow> pg_raise ''idem_key must not be null'' | Some key \<Rightarrow>
      case ittl of None \<Rightarrow> pg_raise ''ttl must be a positive interval'' | Some ttl \<Rightarrow>
      if ttl \<le> 0 then pg_raise ''ttl must be a positive interval''
      else sql_bind (sql_read (find_queue q)) (\<lambda>qr. case qr of
        None \<Rightarrow> pg_raise (''queue not found: '' @ q)
      | Some r \<Rightarrow>
        sql_bind (if ''pgque.maint_idem'' \<in> set (extra_maint r) then sql_return () else register_sweep (queue_id r)) (\<lambda>_.
        append_once ctx q (queue_id r) ty body key ttl pkey)))"

definition send_idem_json :: "pgctx \<Rightarrow> string \<Rightarrow> string option \<Rightarrow> string \<Rightarrow> string option \<Rightarrow> int option
    \<Rightarrow> string option \<Rightarrow> (int option \<times> bool) sql" where
  "send_idem_json ctx q ty jtext ikey ittl pkey =
     sql_bind (jsonb_cast ctx jtext) (\<lambda>u. send_idem ctx q ty (Some u) ikey ittl pkey)"

fun drop_first :: "nat \<Rightarrow> ('a \<Rightarrow> bool) \<Rightarrow> 'a list \<Rightarrow> 'a list" where
  "drop_first n P [] = []"
| "drop_first n P (x # xs) = (if P x \<and> n \<noteq> 0 then drop_first (n - 1) P xs else x # drop_first n P xs)"

definition sweep :: "(idem_row \<Rightarrow> bool) \<Rightarrow> int sql" where
  "sweep P = sql_bind (sql_read (\<lambda>t. min 10000 (length (filter P (t_idem t))))) (\<lambda>v_deleted.
     sql_bind (sql_update (\<lambda>t. t\<lparr>t_idem := drop_first 10000 P (t_idem t)\<rparr>)) (\<lambda>_.
     sql_return (if 10000 \<le> v_deleted then 1 else 0)))"

definition maint_idem_queue :: "pgctx \<Rightarrow> string \<Rightarrow> int sql" where
  "maint_idem_queue ctx q = sql_bind (sql_read (find_queue q)) (\<lambda>qr. case qr of
      None \<Rightarrow> sql_return 0
    | Some r \<Rightarrow> sweep (\<lambda>k. id_queue k = queue_id r \<and> id_expires k < pg_now ctx))"

definition maint_idem :: "pgctx \<Rightarrow> int sql" where
  "maint_idem ctx = sweep (\<lambda>k. id_expires k < pg_now ctx)"

section \<open>What the sweep removes\<close>

lemma drop_first_subset: "set (drop_first n P xs) \<subseteq> set xs"
  by (induction n P xs rule: drop_first.induct) auto

lemma drop_first_keeps: "x \<in> set xs \<Longrightarrow> \<not> P x \<Longrightarrow> x \<in> set (drop_first n P xs)"
  by (induction n P xs rule: drop_first.induct) auto

lemma drop_first_find: "(\<And>x. Q x \<Longrightarrow> x \<in> set xs \<Longrightarrow> \<not> P x) \<Longrightarrow> find Q (drop_first n P xs) = find Q xs"
  by (induction n P xs rule: drop_first.induct) auto

lemma drop_first_all: "length (filter P xs) \<le> n \<Longrightarrow> drop_first n P xs = filter (\<lambda>x. \<not> P x) xs"
  by (induction n P xs rule: drop_first.induct) auto

lemma drop_first_length: "length (filter P (drop_first n P xs)) = length (filter P xs) - n"
  by (induction n P xs rule: drop_first.induct) auto

text \<open>A sweep that answers 0 has left no expired key, and one that answers 1 has removed 10000.\<close>

lemma sweep_result:
  "sweep P t = (t\<lparr>t_idem := drop_first 10000 P (t_idem t)\<rparr>, Inr (if 10000 \<le> length (filter P (t_idem t)) then 1 else 0))"
  by (simp add: sweep_def sql_bind_def sql_read_def sql_update_def sql_return_def)

lemma sweep_drains:
  assumes "sweep P t = (u, Inr n)"
  shows "n = 0 \<Longrightarrow> t_idem u = filter (\<lambda>k. \<not> P k) (t_idem t)"
    and "n \<noteq> 0 \<Longrightarrow> length (filter P (t_idem u)) + 10000 = length (filter P (t_idem t))"
  using assms by (auto simp: sweep_result drop_first_all drop_first_length split: if_splits)

section \<open>One event in the window\<close>

text \<open>The key is claimed on queue \<open>i\<close> for event \<open>e\<close> until \<open>x\<close>.\<close>

definition holds_key :: "int \<Rightarrow> string \<Rightarrow> int \<Rightarrow> int \<Rightarrow> db \<Rightarrow> bool" where
  "holds_key i key e x t \<longleftrightarrow> (case find_idem i key t of None \<Rightarrow> False
     | Some k \<Rightarrow> id_event k = Some e \<and> id_expires k = x)"

lemma holds_key_cong: "t_idem u = t_idem t \<Longrightarrow> holds_key i key e x u = holds_key i key e x t"
  by (simp add: holds_key_def find_idem_def)

lemma register_keeps [simp]:
  "t_idem (fst (register_sweep i t)) = t_idem t" "snd (register_sweep i t) = Inr ()"
  by (simp_all add: register_sweep_def sql_update_def)

lemma find_queue_ids:
  assumes "map (\<lambda>r. (queue_id r, queue_name r)) (t_queues u) = map (\<lambda>r. (queue_id r, queue_name r)) (t_queues t)"
  shows "map_option queue_id (find_queue q u) = map_option queue_id (find_queue q t)"
proof -
  have eq: "map_option queue_id (find (\<lambda>r. queue_name r = q) rs) = map_option fst (find (\<lambda>p. snd p = q) (map (\<lambda>r. (queue_id r, queue_name r)) rs))" for rs
    by (induction rs) auto
  show ?thesis unfolding find_queue_def eq assms ..
qed

text \<open>What may happen before \<open>x\<close>: sends with any keys, sweeps, and all that leaves the keys alone.\<close>

inductive idem_run :: "int \<Rightarrow> db \<Rightarrow> db \<Rightarrow> bool" for x where
  none: "idem_run x t t"
| sent: "idem_run x t u \<Longrightarrow> pg_now ctx < x \<Longrightarrow> send_idem ctx q ty body ikey ittl pkey u = (v, r) \<Longrightarrow> idem_run x t v"
| swept_queue: "idem_run x t u \<Longrightarrow> pg_now ctx < x \<Longrightarrow> maint_idem_queue ctx q u = (v, r) \<Longrightarrow> idem_run x t v"
| swept: "idem_run x t u \<Longrightarrow> pg_now ctx < x \<Longrightarrow> maint_idem ctx u = (v, r) \<Longrightarrow> idem_run x t v"
| other: "idem_run x t u \<Longrightarrow> t_idem v = t_idem u \<Longrightarrow>
    map (\<lambda>r. (queue_id r, queue_name r)) (t_queues v) = map (\<lambda>r. (queue_id r, queue_name r)) (t_queues u) \<Longrightarrow> idem_run x t v"

text \<open>The two cases of a send that passed its checks.\<close>

lemma send_idem_eq:
  assumes "0 < ttl" "find_queue q t = Some r"
  shows "send_idem ctx q ty body (Some key) (Some ttl) pkey t =
    append_once ctx q (queue_id r) ty body key ttl pkey
      (if ''pgque.maint_idem'' \<in> set (extra_maint r) then t else fst (register_sweep (queue_id r) t))"
proof -
  let ?m = "if ''pgque.maint_idem'' \<in> set (extra_maint r) then sql_return () else register_sweep (queue_id r)"
  let ?u = "if ''pgque.maint_idem'' \<in> set (extra_maint r) then t else fst (register_sweep (queue_id r) t)"
  have m: "?m t = (?u, Inr ())" by (simp add: sql_return_def register_sweep_def sql_update_def)
  show ?thesis using assms by (simp add: send_idem_def bind_reads(1)[of "find_queue q"] bind_reads(3)[where m = ?m, OF m])
qed

lemma claim_key_live:
  assumes "holds_key i key e x t" "pg_now ctx < x"
  shows "claim_key ctx i key ttl t = (t, Inr False)"
  using assms by (auto simp: claim_key_def bind_reads(1) holds_key_def sql_return_def split: option.splits)

text \<open>Statements on other keys.\<close>

definition key_kept :: "int \<Rightarrow> string \<Rightarrow> 'a sql \<Rightarrow> bool" where
  "key_kept i key m \<longleftrightarrow> (\<forall>t. find_idem i key (fst (m t)) = find_idem i key t)"

named_theorems key_intros \<open>statements that keep a key\<close>

lemma key_bind [key_intros]: "key_kept i key m \<Longrightarrow> (\<And>x. key_kept i key (f x)) \<Longrightarrow> key_kept i key (sql_bind m f)"
  by (auto simp: key_kept_def sql_bind_def split: prod.splits sum.splits) (metis fst_conv)+

lemma key_basic [key_intros]:
  "key_kept i key (sql_read f)" "key_kept i key (sql_return x)" "key_kept i key (pg_raise m)"
  "key_kept i key (nextval_event j)" "key_kept i key (add_events j es)" "key_kept i key (register_sweep j)"
  by (simp_all add: key_kept_def find_idem_def sql_read_def sql_return_def pg_raise_def nextval_event_def add_events_def
      register_sweep_def sql_update_def)

lemma key_cases [key_intros]:
  "key_kept i key m \<Longrightarrow> (\<And>x. key_kept i key (f x)) \<Longrightarrow> key_kept i key (case y of None \<Rightarrow> m | Some x \<Rightarrow> f x)"
  "key_kept i key m \<Longrightarrow> key_kept i key m' \<Longrightarrow> key_kept i key (if b then m else m')"
  by (auto split: option.splits)

lemma key_set [key_intros]:
  assumes "i' \<noteq> i \<or> key' \<noteq> key" "\<And>k. id_queue (f k) = id_queue k" "\<And>k. id_key (f k) = id_key k"
  shows "key_kept i key (set_idem i' key' f)"
proof -
  have "find (\<lambda>k. id_queue k = i \<and> id_key k = key) (map (\<lambda>k. if id_queue k = i' \<and> id_key k = key' then f k else k) ks)
      = find (\<lambda>k. id_queue k = i \<and> id_key k = key) ks" for ks
    using assms by (induction ks) auto
  then show ?thesis by (simp add: key_kept_def find_idem_def set_idem_def sql_update_def)
qed

lemma key_claim [key_intros]:
  assumes "i' \<noteq> i \<or> key' \<noteq> key" shows "key_kept i key (claim_key ctx i' key' ttl)"
proof -
  have "key_kept i key (sql_update (\<lambda>t. t\<lparr>t_idem := t_idem t @ [\<lparr>id_queue = i', id_key = key', id_event = None, id_expires = x\<rparr>]\<rparr>))" for x
    using assms by (auto simp: key_kept_def find_idem_def sql_update_def find_append split: option.split)
  then show ?thesis unfolding claim_key_def by (intro key_intros key_set assms) simp_all
qed

lemma key_insert [key_intros]: "key_kept i key (insert_event_raw ctx q eid tm ow re ty da x1 x2 x3 x4)"
  unfolding insert_event_raw_def Let_def by (intro key_intros)

lemma key_append_once:
  "i' \<noteq> i \<or> key' \<noteq> key \<Longrightarrow> key_kept i key (append_once ctx q i' ty body key' ttl pkey)"
  unfolding append_once_def by (intro key_intros) simp_all

lemma append_once_live:
  assumes "holds_key i key e x t" "pg_now ctx < x"
  shows "append_once ctx q i ty body key ttl pkey t = (t, Inr (Some e, True))"
  using assms(1)
  by (auto simp: append_once_def bind_reads(3)[where m = "claim_key ctx i key ttl", OF claim_key_live[OF assms]] bind_reads(1)
      sql_return_def holds_key_def split: option.splits)

text \<open>The state after the registration of the sweep.\<close>

definition registered :: "qrow \<Rightarrow> db \<Rightarrow> db" where
  "registered r t = (if ''pgque.maint_idem'' \<in> set (extra_maint r) then t else fst (register_sweep (queue_id r) t))"

lemma registered_idem: "t_idem (registered r t) = t_idem t"
  by (simp add: registered_def)

lemma send_idem_keeps:
  assumes h: "holds_key i key e x t" and now: "pg_now ctx < x" and s: "send_idem ctx q ty body ikey ittl pkey t = (u, r)"
  shows "holds_key i key e x u"
proof (cases "\<exists>key' ttl qr. ikey = Some key' \<and> ittl = Some ttl \<and> 0 < ttl \<and> find_queue q t = Some qr")
  case False
  with s have "u = t"
    by (auto simp: send_idem_def sql_bind_def sql_read_def pg_raise_def split: option.splits if_splits)
  with h show ?thesis by simp
next
  case True
  then obtain key' ttl qr where k: "ikey = Some key'" "ittl = Some ttl" "0 < ttl" "find_queue q t = Some qr" by blast
  have hw: "holds_key i key e x (registered qr t)" using h by (simp add: holds_key_cong[OF registered_idem])
  have st: "append_once ctx q (queue_id qr) ty body key' ttl pkey (registered qr t) = (u, r)"
    using s unfolding k(1,2) send_idem_eq[OF k(3,4)] registered_def .
  show ?thesis
  proof (cases "queue_id qr = i \<and> key' = key")
    case True
    with append_once_live[OF hw now] st hw show ?thesis by auto
  next
    case False
    then have "key_kept i key (append_once ctx q (queue_id qr) ty body key' ttl pkey)" by (intro key_append_once) blast
    then have "find_idem i key (fst (append_once ctx q (queue_id qr) ty body key' ttl pkey (registered qr t))) = find_idem i key (registered qr t)"
      unfolding key_kept_def by blast
    with hw st show ?thesis by (simp add: holds_key_def)
  qed
qed

lemma sweep_keeps:
  assumes "holds_key i key e x t" "\<And>k. P k \<Longrightarrow> id_expires k \<noteq> x" "sweep P t = (u, r)"
  shows "holds_key i key e x u"
proof -
  have find: "find Q (drop_first n P ks) = Some k" if "find Q ks = Some k" "\<not> P k" for Q n and ks :: "idem_row list" and k
    using that by (induction n P ks rule: drop_first.induct) (auto split: if_splits)
  from assms(1) obtain k where k: "find_idem i key t = Some k" "id_event k = Some e" "id_expires k = x"
    by (auto simp: holds_key_def split: option.splits)
  have "u = t\<lparr>t_idem := drop_first 10000 P (t_idem t)\<rparr>" using assms(3) by (simp add: sweep_result)
  moreover have "find_idem i key (t\<lparr>t_idem := drop_first 10000 P (t_idem t)\<rparr>) = Some k"
    using find[of "\<lambda>k. id_queue k = i \<and> id_key k = key" "t_idem t" k] k assms(2) by (auto simp: find_idem_def)
  ultimately show ?thesis using k by (simp add: holds_key_def)
qed

lemma idem_run_keeps:
  assumes "idem_run x t u" "holds_key i key e x t"
  shows "holds_key i key e x u"
  using assms
proof induction
  case (sent t u ctx q ty body ikey ittl pkey v r)
  show ?case by (rule send_idem_keeps[OF sent.IH[OF sent.prems] sent.hyps(2,3)])
next
  case (swept_queue t u ctx q v r)
  show ?case
  proof (cases "find_queue q u")
    case None
    with swept_queue show ?thesis by (simp add: maint_idem_queue_def bind_reads(1) sql_return_def)
  next
    case (Some y)
    with swept_queue.hyps(3) have sw: "sweep (\<lambda>k. id_queue k = queue_id y \<and> id_expires k < pg_now ctx) u = (v, r)"
      by (simp add: maint_idem_queue_def bind_reads(1))
    show ?thesis
      by (rule sweep_keeps[OF swept_queue.IH[OF swept_queue.prems] _ sw]) (use swept_queue.hyps(2) in simp)
  qed
next
  case (swept t u ctx v r)
  show ?case
    by (rule sweep_keeps[OF swept.IH[OF swept.prems] _ swept.hyps(3)[unfolded maint_idem_def]]) (use swept.hyps(2) in simp)
next
  case (other t u v)
  show ?case using other.IH[OF other.prems] holds_key_cong[OF other.hyps(2)] by blast
qed simp

text \<open>The queues keep their ids and names.\<close>

definition names :: "db \<Rightarrow> (int \<times> string) list" where
  "names t = map (\<lambda>r. (queue_id r, queue_name r)) (t_queues t)"

definition names_kept :: "'a sql \<Rightarrow> bool" where
  "names_kept m \<longleftrightarrow> (\<forall>t. names (fst (m t)) = names t)"

lemma names_kept_bind: "names_kept m \<Longrightarrow> (\<And>x. names_kept (f x)) \<Longrightarrow> names_kept (sql_bind m f)"
  by (auto simp: names_kept_def sql_bind_def split: prod.splits sum.splits) (metis fst_conv)+

lemma names_kept_basic:
  "names_kept (sql_read f)" "names_kept (sql_return x)" "names_kept (pg_raise m)" "names_kept (nextval_event i)"
  "names_kept (add_events i es)" "names_kept (register_sweep i)" "names_kept (set_idem i key g)" "names_kept (sweep P)"
  "names_kept (sql_update (\<lambda>t. t\<lparr>t_idem := h t\<rparr>))"
  by (simp_all add: names_kept_def names_def sql_read_def sql_return_def pg_raise_def nextval_event_def add_events_def
      register_sweep_def set_idem_def sql_update_def sweep_result comp_def if_distrib cong: if_cong)

lemma names_kept_cases:
  "names_kept m \<Longrightarrow> (\<And>x. names_kept (f x)) \<Longrightarrow> names_kept (case y of None \<Rightarrow> m | Some x \<Rightarrow> f x)"
  "names_kept m \<Longrightarrow> names_kept m' \<Longrightarrow> names_kept (if b then m else m')"
  by (auto split: option.splits)

lemmas names_intros = names_kept_bind names_kept_basic names_kept_cases

lemma names_kept_api:
  "names_kept (send_idem ctx q ty body ikey ittl pkey)" "names_kept (maint_idem_queue ctx q)" "names_kept (maint_idem ctx)"
  unfolding send_idem_def append_once_def claim_key_def insert_event_raw_def maint_idem_queue_def maint_idem_def Let_def
  by (intro names_intros)+

lemma idem_run_names: "idem_run x t u \<Longrightarrow> names u = names t"
proof (induction rule: idem_run.induct)
  case (sent t u ctx q ty body ikey ittl pkey v r)
  then show ?case using names_kept_api(1)[of ctx q ty body ikey ittl pkey] by (metis names_kept_def fst_conv)
next
  case (swept_queue t u ctx q v r)
  then show ?case using names_kept_api(2)[of ctx q] by (metis names_kept_def fst_conv)
next
  case (swept t u ctx v r)
  then show ?case using names_kept_api(3)[of ctx] by (metis names_kept_def fst_conv)
qed (simp_all add: names_def)

lemma claim_key_new:
  assumes "claim_key ctx i key ttl t = (u, Inr True)"
  shows "\<exists>k. find_idem i key u = Some k \<and> id_expires k = pg_now ctx + ttl" "t_queues u = t_queues t" "s_event u = s_event t"
proof -
  have f: "find (\<lambda>k. id_queue k = i \<and> id_key k = key) (map (\<lambda>k. if id_queue k = i \<and> id_key k = key then g k else k) ks)
      = map_option g (find (\<lambda>k. id_queue k = i \<and> id_key k = key) ks)"
    if "\<And>k. id_queue (g k) = id_queue k \<and> id_key (g k) = id_key k" for g ks
    using that by (induction ks) auto
  show "t_queues u = t_queues t" "s_event u = s_event t"
    using assms by (auto simp: claim_key_def sql_bind_def sql_read_def sql_update_def sql_return_def set_idem_def split: option.splits if_splits)
  show "\<exists>k. find_idem i key u = Some k \<and> id_expires k = pg_now ctx + ttl"
  proof (cases "find_idem i key t")
    case None
    with assms show ?thesis
      by (auto simp: claim_key_def sql_read_def sql_bind_def sql_update_def sql_return_def find_idem_def find_append)
  next
    case (Some k)
    with assms show ?thesis
      by (auto simp: claim_key_def sql_read_def sql_bind_def sql_update_def sql_return_def set_idem_def find_idem_def f split: if_splits)
  qed
qed

lemma insert_keyed_eq:
  assumes "find_queue q t = Some r"
  shows "insert_event_raw ctx q None (pg_now ctx) None None ty body pkey (Some key) None None t =
    (if may_insert ctx r
     then (grow (queue_id r) [new_event ctx (sq_next (s_event t (queue_id r))) (pg_now ctx) None None ty body pkey (Some key) None None] (Suc 0) t,
       Inr (sq_next (s_event t (queue_id r))))
     else pg_raise ''Insert into queue disallowed'' (t\<lparr>s_event := (s_event t)(queue_id r := sq_set (sq_next (s_event t (queue_id r))))\<rparr>))"
  using assms
  by (auto simp: insert_event_raw_def Let_def sql_bind_def sql_read_def sql_update_def sql_return_def pg_raise_def
      nextval_event_def add_events_def may_insert_def grow_def seq_after_def)

lemma registered_queue:
  assumes "find_queue q t = Some r"
  shows "\<exists>r'. find_queue q (registered r t) = Some r' \<and> queue_id r' = queue_id r \<and> queue_events r' = queue_events r
    \<and> may_insert ctx r' = may_insert ctx r"
    "map queue_events (t_queues (registered r t)) = map queue_events (t_queues t)"
    "s_event (registered r t) = s_event t"
proof -
  let ?g = "\<lambda>x. if queue_id x = queue_id r \<and> ''pgque.maint_idem'' \<notin> set (extra_maint x)
     then x\<lparr>queue_extra_maint := Some (extra_maint x @ [''pgque.maint_idem''])\<rparr> else x"
  have n: "(\<lambda>x. queue_name (?g x) = q) = (\<lambda>x. queue_name x = q)" by auto
  have "find_queue q (registered r t) = Some r \<or> find_queue q (registered r t) = Some (?g r)"
    using assms by (auto simp: registered_def register_sweep_def sql_update_def find_queue_def find_map n)
  then show "\<exists>r'. find_queue q (registered r t) = Some r' \<and> queue_id r' = queue_id r \<and> queue_events r' = queue_events r
    \<and> may_insert ctx r' = may_insert ctx r"
    by (elim disjE) (auto simp: may_insert_def)
  show "map queue_events (t_queues (registered r t)) = map queue_events (t_queues t)" "s_event (registered r t) = s_event t"
    by (auto simp: registered_def register_sweep_def sql_update_def)
qed

text \<open>An append that claimed the key: one event, and the key points to it.\<close>

lemma append_once_appends:
  assumes q: "find_queue q t = Some r" and m: "may_insert ctx r" and c: "claim_key ctx (queue_id r) key ttl t = (w, Inr True)"
  defines "n \<equiv> sq_next (s_event t (queue_id r))"
  obtains u where "append_once ctx q (queue_id r) ty body key ttl pkey t = (u, Inr (Some n, False))"
    "find_queue q u = Some (r\<lparr>queue_events := queue_events r @ [new_event ctx n (pg_now ctx) None None ty body pkey (Some key) None None]\<rparr>)"
    "holds_key (queue_id r) key n (pg_now ctx + ttl) u"
proof -
  note w = claim_key_new[OF c]
  have qw: "find_queue q w = Some r" using q w(2) by (simp add: find_queue_def)
  let ?e = "new_event ctx n (pg_now ctx) None None ty body pkey (Some key) None None"
  let ?v = "grow (queue_id r) [?e] (Suc 0) w"
  have ins: "insert_event_raw ctx q None (pg_now ctx) None None ty body pkey (Some key) None None w = (?v, Inr n)"
    using m by (simp add: insert_keyed_eq[OF qw] n_def w(3))
  let ?u = "fst (set_idem (queue_id r) key (\<lambda>k. k\<lparr>id_event := Some n\<rparr>) ?v)"
  have "append_once ctx q (queue_id r) ty body key ttl pkey t = (?u, Inr (Some n, False))"
    by (simp add: append_once_def bind_reads(3)[where m = "claim_key ctx (queue_id r) key ttl", OF c]
        bind_reads(3)[where m = "insert_event_raw ctx q None (pg_now ctx) None None ty body pkey (Some key) None None", OF ins])
      (simp add: sql_bind_def set_idem_def sql_update_def sql_return_def)
  moreover have "find_queue q ?u = Some (r\<lparr>queue_events := queue_events r @ [?e]\<rparr>)"
  proof -
    have "find_queue q ?u = find_queue q ?v" by (simp add: find_queue_def set_idem_def sql_update_def)
    then show ?thesis using qw by (simp add: find_queue_grow)
  qed
  moreover have "holds_key (queue_id r) key n (pg_now ctx + ttl) ?u"
  proof -
    have f: "find (\<lambda>k. id_queue k = i \<and> id_key k = key) (map (\<lambda>k. if id_queue k = i \<and> id_key k = key then k\<lparr>id_event := Some n\<rparr> else k) ks)
      = map_option (\<lambda>k. k\<lparr>id_event := Some n\<rparr>) (find (\<lambda>k. id_queue k = i \<and> id_key k = key) ks)" for i ks
      by (induction ks) auto
    have "t_idem ?v = t_idem w" by (simp add: grow_def)
    with w(1) show ?thesis by (auto simp: holds_key_def find_idem_def set_idem_def sql_update_def f)
  qed
  ultimately show thesis by (rule that)
qed

lemma send_idem_first:
  assumes s: "send_idem ctx q ty body (Some key) (Some ttl) pkey t = (u, Inr (Some e, False))" and r: "find_queue q t = Some r"
  obtains r' w where "may_insert ctx r'" "find_queue q (registered r t) = Some r'" "queue_id r' = queue_id r"
    "queue_events r' = queue_events r" "claim_key ctx (queue_id r) key ttl (registered r t) = (w, Inr True)" "0 < ttl"
proof -
  have ttl: "0 < ttl" using s by (auto simp: send_idem_def pg_raise_def split: if_splits)
  have st: "append_once ctx q (queue_id r) ty body key ttl pkey (registered r t) = (u, Inr (Some e, False))"
    using s unfolding send_idem_eq[OF ttl r] registered_def .
  obtain r' where r': "find_queue q (registered r t) = Some r'" "queue_id r' = queue_id r" "queue_events r' = queue_events r"
    "may_insert ctx r' = may_insert ctx r" using registered_queue(1)[OF r] by blast
  obtain w y where c: "claim_key ctx (queue_id r) key ttl (registered r t) = (w, y)" by fastforce
  note st = st[unfolded append_once_def bind_reads(3)[where m = "claim_key ctx (queue_id r) key ttl", OF c]]
  have y: "y = Inr True"
    using st by (cases y) (auto simp: sql_bind_def sql_read_def sql_return_def split: if_splits)
  have qw: "find_queue q w = Some r'" using claim_key_new(2)[OF c[unfolded y]] r'(1) by (simp add: find_queue_def)
  have "may_insert ctx r'"
  proof (rule ccontr)
    assume "\<not> may_insert ctx r'"
    with st y show False by (simp add: sql_bind_def insert_keyed_eq[OF qw] pg_raise_def)
  qed
  with that r' c y ttl show thesis by blast
qed

text \<open>
  Claim C21. A key sends once: the first send appends one event that carries the key, and then,
  whatever is sent, swept or done elsewhere, a send of the same key before the time to live is over appends
  nothing and returns the id of that event as a duplicate; from then on the key sends again.
\<close>

theorem idem_key_sends_once:
  assumes first: "send_idem ctx q ty body (Some key) (Some ttl) pkey t = (u, Inr (Some e, False))"
    and r: "find_queue q t = Some r"
    and run: "idem_run (pg_now ctx + ttl) u v"
    and r2: "find_queue q v = Some r2" and ttl2: "0 < ttl2"
  shows "map_option queue_events (find_queue q u) = Some (queue_events r @ [new_event ctx e (pg_now ctx) None None ty body pkey (Some key) None None])
    \<and> (if pg_now ctx2 < pg_now ctx + ttl
       then \<exists>w. send_idem ctx2 q ty2 body2 (Some key) (Some ttl2) pkey2 v = (w, Inr (Some e, True))
         \<and> map queue_events (t_queues w) = map queue_events (t_queues v) \<and> t_idem w = t_idem v
       else may_insert ctx2 r2 \<longrightarrow> (\<exists>w. send_idem ctx2 q ty2 body2 (Some key) (Some ttl2) pkey2 v
         = (w, Inr (Some (sq_next (s_event v (queue_id r2))), False))))"
proof -
  from first r obtain r' w where f: "may_insert ctx r'" "find_queue q (registered r t) = Some r'" "queue_id r' = queue_id r"
    "queue_events r' = queue_events r" "claim_key ctx (queue_id r) key ttl (registered r t) = (w, Inr True)" "0 < ttl"
    by (rule send_idem_first)
  have app: "append_once ctx q (queue_id r') ty body key ttl pkey (registered r t) = (u, Inr (Some e, False))"
    using first unfolding send_idem_eq[OF f(6) r] registered_def f(3) .
  from append_once_appends[OF f(2,1) f(5)[folded f(3)], of ty body pkey] app
  have u: "find_queue q u = Some (r'\<lparr>queue_events := queue_events r' @ [new_event ctx e (pg_now ctx) None None ty body pkey (Some key) None None]\<rparr>)"
    and hu: "holds_key (queue_id r') key e (pg_now ctx + ttl) u" by auto
  have hv: "holds_key (queue_id r') key e (pg_now ctx + ttl) v" by (rule idem_run_keeps[OF run hu])
  have "map_option queue_id (find_queue q v) = map_option queue_id (find_queue q u)"
    using idem_run_names[OF run] by (intro find_queue_ids) (simp add: names_def)
  then have i: "queue_id r2 = queue_id r'" using r2 u by simp
  have eq: "send_idem ctx2 q ty2 body2 (Some key) (Some ttl2) pkey2 v
      = append_once ctx2 q (queue_id r2) ty2 body2 key ttl2 pkey2 (registered r2 v)"
    by (simp only: send_idem_eq[OF ttl2 r2] registered_def)
  have hw: "holds_key (queue_id r2) key e (pg_now ctx + ttl) (registered r2 v)"
    using hv by (simp add: i holds_key_cong[OF registered_idem])
  show ?thesis
  proof (cases "pg_now ctx2 < pg_now ctx + ttl")
    case True
    with u f(4) eq append_once_live[OF hw True] registered_queue(2)[OF r2] show ?thesis by (simp add: registered_idem)
  next
    case False
    obtain r3 where r3: "find_queue q (registered r2 v) = Some r3" "queue_id r3 = queue_id r2"
      "may_insert ctx2 r3 = may_insert ctx2 r2" using registered_queue(1)[OF r2] by blast
    obtain x where c: "claim_key ctx2 (queue_id r3) key ttl2 (registered r2 v) = (x, Inr True)"
      using hw False r3(2) by (auto simp: claim_key_def bind_reads(1) holds_key_def split: option.splits)
        (simp add: sql_bind_def set_idem_def sql_update_def sql_return_def)
    have "may_insert ctx2 r2 \<longrightarrow> (\<exists>w. append_once ctx2 q (queue_id r2) ty2 body2 key ttl2 pkey2 (registered r2 v)
        = (w, Inr (Some (sq_next (s_event v (queue_id r2))), False)))"
      using append_once_appends[OF r3(1) _ c, of ty2 body2 pkey2] r3(2,3) registered_queue(3)[OF r2] by metis
    with u f(4) eq False show ?thesis by simp
  qed
qed

end
