(* ===== verification/PartitionWitnesses.thy ===== *)
theory PartitionWitnesses
  imports PartitionClaims Idempotent Scenario
begin

text \<open>
  The theorems on partitioned consumers and on keys, on a queue with two slots: worker a has leased
  both, the events have one key each, and the hash of a text is its length less three.
\<close>

definition sp_event :: "int \<Rightarrow> int \<Rightarrow> string \<Rightarrow> event" where
  "sp_event i x key = (sc_event i x)\<lparr>ev_extra1 := Some key\<rparr>"

definition sp_slot :: "int \<Rightarrow> slot_row" where
  "sp_slot k = \<lparr>sl_queue = 1, sl_consumer = ''c'', sl_slot = k, sl_owner = Some ''a'', sl_until = Some 30000000,
     sl_ttl = Some 30000000, sl_epoch = 1\<rparr>"

definition sp_queue :: qrow where
  "sp_queue = (sc_queue ''q'')\<lparr>queue_events := [sp_event 1 12 ''k'', sp_event 2 15 ''kk'']\<rparr>"

definition sp_sub :: "int \<Rightarrow> sub_row" where
  "sp_sub k = sc_sub\<lparr>sub_id := k + 1, sub_consumer := k + 1\<rparr>"

definition sp_db :: db where
  "sp_db = (sc_db ''q'')\<lparr>t_queues := [sp_queue], t_parts := [\<lparr>pa_queue = 1, pa_consumer = ''c'', pa_n = 2\<rparr>],
     t_slots := [sp_slot 0, sp_slot 1],
     t_consumers := [\<lparr>co_id = 1, co_name = ''c#0/2''\<rparr>, \<lparr>co_id = 2, co_name = ''c#1/2''\<rparr>],
     t_subs := [sp_sub 0, sp_sub 1]\<rparr>"

definition sp_receive :: "int \<Rightarrow> db \<Rightarrow> db \<times> (pg_error + pg_message list)" where
  "sp_receive k = receive_partitioned (sc_ctx 0) (Some ''q'') (Some ''c'') (Some k) (Some 2) (Some ''a'') (Some 100)"

definition sp_state :: "int \<Rightarrow> db" where
  "sp_state k = (if k = 0 then sp_db else fst (sp_receive 0 sp_db))"

definition sp_message :: "int \<Rightarrow> pg_message list" where
  "sp_message k = (case snd (sp_receive k (sp_state k)) of Inl _ \<Rightarrow> [] | Inr ms \<Rightarrow> ms)"

lemma sp_received: "snd (sp_receive 0 sp_db) = Inr [to_message 1 (sp_event 1 12 ''k'')]"
  "snd (sp_receive 1 (sp_state 1)) = Inr [to_message 2 (sp_event 2 15 ''kk'')]"
  by code_simp+

lemma sp_windows:
  "next_window ''q'' ''c#0/2'' sp_db sp_queue (sp_sub 0) (sc_tick 1 10 0) (sc_tick 2 20 2)"
  "next_window ''q'' ''c#1/2'' (sp_state 1) sp_queue (sp_sub 1) (sc_tick 1 10 0) (sc_tick 2 20 2)"
  unfolding next_window_def standing_def subs_ok_def by code_simp+

section \<open>Slots\<close>

lemma slot_names: "slot_name ''c'' 0 2 = ''c#0/2''" "slot_name ''c'' 1 2 = ''c#1/2''"
  by code_simp+

theorem slots_share_stream_witness:
  "mset (filter (\<lambda>e. ev_owner e = None) (map pm_event (sp_message 0) @ map pm_event (sp_message 1)))
   = {#sp_event 1 12 ''k'', sp_event 2 15 ''kk''#}"
proof -
  have two: "k \<in> {0..2 - 1} \<longleftrightarrow> k = 0 \<or> k = (1 :: int)" for k by auto
  have zero: "sp_state 0 = sp_db" by (simp add: sp_state_def)
  have win: "next_window ''q'' (slot_name ''c'' k 2) (sp_state k) sp_queue (sp_sub k) (sc_tick 1 10 0) (sc_tick 2 20 2)"
    if "k \<in> {0..2 - 1}" for k
    using that sp_windows unfolding two by (elim disjE) (simp_all only: slot_names zero)
  have rc: "receive_partitioned (sc_ctx 0) (Some ''q'') (Some ''c'') (Some k) (Some 2) (Some ''a'') (Some 100) (sp_state k)
      = (fst (sp_receive k (sp_state k)), Inr (sp_message k))" if "k \<in> {0..2 - 1}" for k
  proof -
    have "snd (sp_receive k (sp_state k)) = Inr (sp_message k)"
      using that sp_received unfolding two by (elim disjE) (simp_all add: sp_message_def zero)
    then show ?thesis by (simp add: sp_receive_def prod_eq_iff)
  qed
  have "mset (filter (\<lambda>e. ev_owner e = None) (concat (map (\<lambda>k. map pm_event (sp_message k)) [0..2 - 1])))
      = mset (filter (\<lambda>e. ev_owner e = None) [sp_event 1 12 ''k'', sp_event 2 15 ''kk''])"
    by (rule slots_share_stream[where n = 2 and ctx = "\<lambda>_. sc_ctx 0" and h = "\<lambda>s. int (length s) - 3" and wk = "\<lambda>_. ''a''",
          OF _ win _ _ _ _ _ rc, THEN conjunct1])
      (simp_all add: sc_ctx_def sp_queue_def sc_tick_def sc_snap_def snap_wf_def in_window_def pg_visible_in_snapshot_def
        sp_event_def sc_event_def)
  moreover have "[0..2 - 1] = [0, 1 :: int]" by code_simp
  ultimately show ?thesis by (simp add: sp_event_def sc_event_def)
qed

theorem lease_fences_others_witness:
  "ack_partitioned (sc_ctx 0) (Some ''q'') (Some ''c'') (Some 0) (Some 2) (Some ''b'') sp_db
     = (sp_db, snd (fence_error ''q'' ''c'' 0 ''a'' ''b'' sp_db :: _ \<times> (_ + int)))
   \<and> claim_slot (sc_ctx 0) ''q'' ''c'' (Some 0) (Some ''b'') (Some 1000000) sp_db = (sp_db, Inr None)"
proof -
  have l: "leased ''q'' ''c'' 0 2 sp_db = Some (sp_slot 0)" by code_simp
  from lease_fences_others[OF l, of "''a''" "''b''" 1 "sc_ctx 0" 0 0 None 1000000] show ?thesis
    by (simp add: sp_slot_def sc_ctx_def fence_error_def pg_raise_def)
qed

theorem takeover_redelivers_witness:
  "\<exists>t2 t3 t4. claim_slot (sc_ctx 40) ''q'' ''c'' (Some 0) (Some ''b'') (Some 1000000) (fst (sp_receive 0 sp_db)) = (t2, Inr (Some 2))
    \<and> receive_partitioned (sc_ctx 41) (Some ''q'') (Some ''c'') (Some 0) (Some 2) (Some ''b'') (Some 100) t2
        = (t3, Inr [to_message 1 (sp_event 1 12 ''k'')])
    \<and> ack_partitioned (sc_ctx 42) (Some ''q'') (Some ''c'') (Some 0) (Some 2) (Some ''a'') t3 = fence_error ''q'' ''c'' 0 ''b'' ''a'' t3
    \<and> ack_partitioned (sc_ctx 43) (Some ''q'') (Some ''c'') (Some 0) (Some 2) (Some ''b'') t3 = (t4, Inr 1)"
proof -
  have w: "next_window ''q'' (slot_name ''c'' 0 2) sp_db sp_queue (sp_sub 0) (sc_tick 1 10 0) (sc_tick 2 20 2)"
    using sp_windows(1) by (simp add: slot_names)
  have l: "leased ''q'' ''c'' 0 2 sp_db = Some (sp_slot 0)" by code_simp
  have r: "receive_partitioned (sc_ctx 0) (Some ''q'') (Some ''c'') (Some 0) (Some 2) (Some ''a'') (Some 100) sp_db
      = (fst (sp_receive 0 sp_db), Inr [to_message 1 (sp_event 1 12 ''k'')])"
    using sp_received(1) by (simp add: sp_receive_def prod_eq_iff)
  from takeover_redelivers[OF w l _ _ _ _ _ _ _ r, of 30000000 "sc_ctx 40" "''b''" 1000000 "sc_ctx 41" "sc_ctx 42" "sc_ctx 43"]
  show ?thesis by (simp add: sp_slot_def sc_ctx_def)
qed

text \<open>Worker a claims, releases, b claims.\<close>

definition sp_free :: db where
  "sp_free = fst (release_slot ''q'' ''c'' 0 (Some ''a'') sp_db)"

definition sp_claimed :: "string \<Rightarrow> db \<Rightarrow> db" where
  "sp_claimed w t = fst (claim_slot (sc_ctx 0) ''q'' ''c'' (Some 0) (Some w) (Some 1000000) t)"

definition sp_grant :: "string \<Rightarrow> int \<Rightarrow> grant" where
  "sp_grant w e = \<lparr>gr_queue = 1, gr_consumer = ''c'', gr_slot = 0, gr_worker = w, gr_epoch = e\<rparr>"

theorem epochs_tell_workers_apart_witness:
  "gr_epoch (sp_grant ''a'' 1) < gr_epoch (sp_grant ''b'' 2)
   \<and> lease_run [sp_grant ''a'' 1, sp_grant ''b'' 2] (sp_claimed ''b'' sp_free)"
proof -
  have p: "find_part ''q'' ''c'' sp_db = Some \<lparr>pa_queue = 1, pa_consumer = ''c'', pa_n = 2\<rparr>" by code_simp
  have pf: "find_part ''q'' ''c'' sp_free = Some \<lparr>pa_queue = 1, pa_consumer = ''c'', pa_n = 2\<rparr>" by code_simp
  have "snd (claim_slot (sc_ctx 0) ''q'' ''c'' (Some 0) (Some ''a'') (Some 1000000) sp_db) = Inr (Some 1)" by code_simp
  then have "claim_slot (sc_ctx 0) ''q'' ''c'' (Some 0) (Some ''a'') (Some 1000000) sp_db = (sp_claimed ''a'' sp_db, Inr (Some 1))"
    by (simp add: sp_claimed_def prod_eq_iff)
  from lease_run.claimed[OF lease_run.start p this] have a: "lease_run [sp_grant ''a'' 1] (sp_claimed ''a'' sp_db)"
    by (simp add: sp_grant_def)
  have "t_slots sp_free = t_slots (fst (release_slot ''q'' ''c'' 0 (Some ''a'') (sp_claimed ''a'' sp_db)))" by code_simp
  with lease_run.released[OF a, of "''q''" "''c''" 0 "Some ''a''"] have f: "lease_run [sp_grant ''a'' 1] sp_free"
    by (metis lease_run.other prod.collapse)
  have "snd (claim_slot (sc_ctx 0) ''q'' ''c'' (Some 0) (Some ''b'') (Some 1000000) sp_free) = Inr (Some 2)" by code_simp
  then have "claim_slot (sc_ctx 0) ''q'' ''c'' (Some 0) (Some ''b'') (Some 1000000) sp_free = (sp_claimed ''b'' sp_free, Inr (Some 2))"
    by (simp add: sp_claimed_def prod_eq_iff)
  from lease_run.claimed[OF f pf this] have "lease_run [sp_grant ''a'' 1, sp_grant ''b'' 2] (sp_claimed ''b'' sp_free)"
    by (simp add: sp_grant_def)
  with epochs_tell_workers_apart[OF this, of 0 1] show ?thesis by (simp add: sp_grant_def same_slot_def)
qed

text \<open>The fence does not hold for a null worker, whose comparison with the owner is null.\<close>

lemma null_worker_passes_fence:
  "snd (receive_partitioned (sc_ctx 1) (Some ''q'') (Some ''c'') (Some 0) (Some 2) None (Some 100) (fst (sp_receive 0 sp_db)))
     = Inr [to_message 1 (sp_event 1 12 ''k'')]
   \<and> snd (ack_partitioned (sc_ctx 1) (Some ''q'') (Some ''c'') (Some 0) (Some 2) None (fst (sp_receive 0 sp_db))) = Inr 1
   \<and> snd (release_slot ''q'' ''c'' 0 None sp_db) = Inr True
   \<and> map sl_owner (t_slots (fst (release_slot ''q'' ''c'' 0 None sp_db))) = [None, Some ''a'']"
  by (intro conjI) code_simp+

text \<open>The epoch starts over with a new row of the slot, so that two workers get the same one.\<close>

definition sp_renewed :: db where
  "sp_renewed = fst (subscribe_slot (sc_ctx 2) (Some ''q'') (Some ''c'') (Some 0) (Some 2)
     (fst (unsubscribe_slot (sc_ctx 1) ''q'' ''c'' (Some 0) sp_db)))"

lemma epoch_starts_over:
  "snd (claim_slot (sc_ctx 0) ''q'' ''c'' (Some 0) (Some ''a'') (Some 1000000) sp_db) = Inr (Some 1)
   \<and> snd (claim_slot (sc_ctx 3) ''q'' ''c'' (Some 0) (Some ''b'') (Some 1000000) sp_renewed) = Inr (Some 1)"
  by (intro conjI) code_simp+

section \<open>Keys\<close>

definition si_sent :: db where
  "si_sent = fst (send_idem (sc_ctx 0) ''q'' (Some ''t'') (Some ''1'') (Some ''key'') (Some 5000000) None (sc_db ''q''))"

theorem idem_key_sends_once_witness:
  "\<exists>w. send_idem (sc_ctx 4) ''q'' (Some ''t'') (Some ''2'') (Some ''key'') (Some 1) None si_sent = (w, Inr (Some 3, True))
    \<and> map queue_events (t_queues w) = map queue_events (t_queues si_sent)"
proof -
  have "snd (send_idem (sc_ctx 0) ''q'' (Some ''t'') (Some ''1'') (Some ''key'') (Some 5000000) None (sc_db ''q''))
      = Inr (Some 3, False)" by code_simp
  then have s: "send_idem (sc_ctx 0) ''q'' (Some ''t'') (Some ''1'') (Some ''key'') (Some 5000000) None (sc_db ''q'')
      = (si_sent, Inr (Some 3, False))" by (simp add: si_sent_def prod_eq_iff)
  have q: "find_queue ''q'' (sc_db ''q'') = Some (sc_queue ''q'')" by code_simp
  obtain r2 where r2: "find_queue ''q'' si_sent = Some r2"
  proof -
    have "\<not> Option.is_none (find_queue ''q'' si_sent)" by code_simp
    with that show thesis by (auto simp: Option.is_none_def)
  qed
  from idem_key_sends_once[OF s q idem_run.none r2, of 1 "sc_ctx 4" "Some ''t''" "Some ''2''" None] show ?thesis
    by (simp add: sc_ctx_def) blast
qed

end
