(* ===== verification/Ticking.thy ===== *)
theory Ticking
  imports DeadLetters
begin

text \<open>
  The rest of the ticking functions of \<open>devel/sql/pgque.sql\<close>: the external ticker, the search for
  a tick under limits with the batches that use it (\<open>find_tick_helper\<close>, \<open>next_batch_custom\<close>,
  \<open>next_batch_info\<close>), and the loop that pg_cron starts every second (\<open>ticker_loop\<close> with
  \<open>set_tick_period_ms\<close>).
\<close>

section \<open>The functions\<close>

text \<open>\<open>seq_setval\<close>: a sequence is never put back.\<close>

definition sq_forward :: "int \<Rightarrow> sq \<Rightarrow> sq" where
  "sq_forward v s = (if last_value s < v then sq_set v else s)"

definition external_ticker :: "pgctx \<Rightarrow> string \<Rightarrow> int \<Rightarrow> int \<Rightarrow> int \<Rightarrow> int sql" where
  "external_ticker ctx q tid orig_timestamp event_seq =
     sql_bind (sql_read (find_queue q)) (\<lambda>qr. case qr of
         None \<Rightarrow> pg_raise (''queue not found: '' @ q)
       | Some r \<Rightarrow>
         if queue_ticker_paused r then pg_raise (''queue '' @ q @ '' is paused (queue_ticker_paused = true)'')
         else if \<not> queue_external_ticker r then
           pg_raise (''queue '' @ q @ '' is not configured for external ticker (queue_external_ticker = false); use pgque.ticker(queue) instead'')
         else sql_bind (sql_read (max_tick (queue_id r) (\<lambda>_. True))) (\<lambda>last.
           let max_id = (case last of None \<Rightarrow> 0 | Some k \<Rightarrow> tick_id k) in
           if tid \<le> max_id then
             pg_raise (''external ticker tick_id must be strictly greater than current max ('' @ str_of_int tid
               @ '' <= '' @ str_of_int max_id @ '')'')
           else sql_bind (case last of
             Some k \<Rightarrow> if event_seq < tick_event_seq k then
                 pg_raise (''external ticker event_seq must be >= previous tick ('' @ str_of_int event_seq
                   @ '' < '' @ str_of_int (tick_event_seq k) @ '')'')
               else sql_return ()
           | None \<Rightarrow> sql_return ()) (\<lambda>_.
           sql_bind (sql_update (\<lambda>t. t\<lparr>t_ticks := t_ticks t @ [\<lparr>tick_queue = queue_id r, tick_id = tid,
               tick_time = orig_timestamp, tick_snapshot = pg_snapshot ctx, tick_event_seq = event_seq\<rparr>],
             s_tick := (s_tick t)(queue_id r := sq_forward tid (s_tick t (queue_id r))),
             s_event := (s_event t)(queue_id r := sq_forward event_seq (s_event t (queue_id r)))\<rparr>)) (\<lambda>_.
           sql_return tid))))"

text \<open>
  The limits of a batch. \<open>prev\<close> is the tick at which the batch begins; a limit that is null asks
  for nothing.
\<close>

definition at_least :: "int option \<Rightarrow> int \<Rightarrow> bool" where
  "at_least bound x = (case bound of None \<Rightarrow> False | Some n \<Rightarrow> n \<le> x)"

definition too_far :: "int option \<Rightarrow> int \<Rightarrow> bool" where
  "too_far bound x = (case bound of None \<Rightarrow> False | Some n \<Rightarrow> n * 2 < x)"

definition enough :: "tick \<Rightarrow> int option \<Rightarrow> int option \<Rightarrow> tick \<Rightarrow> bool" where
  "enough prev min_count min_interval k =
     (at_least min_count (tick_event_seq k - tick_event_seq prev)
      \<or> at_least min_interval (tick_time k - tick_time prev))"

definition find_tick_helper :: "int \<Rightarrow> tick \<Rightarrow> int option \<Rightarrow> int option \<Rightarrow> db \<Rightarrow> tick option" where
  "find_tick_helper q prev min_count min_interval t =
     (case max_tick q (\<lambda>k. tick_id prev < tick_id k) t of
        None \<Rightarrow> None
      | Some k \<Rightarrow>
        let sure = (\<not> too_far min_count (tick_event_seq k - tick_event_seq prev)
                    \<and> \<not> too_far min_interval (tick_time k - tick_time prev))
        in if \<not> sure then min_tick q (\<lambda>x. tick_id prev < tick_id x \<and> enough prev min_count min_interval x) t
           else if enough prev min_count min_interval k then Some k else None)"

text \<open>The columns of a row of \<open>next_batch_info\<close>: the batch with its last and its first tick.\<close>

record batch_info =
  bi_batch :: "int option"
  bi_cur :: "tick option"
  bi_prev :: "tick option"

definition no_batch :: batch_info where
  "no_batch = \<lparr>bi_batch = None, bi_cur = None, bi_prev = None\<rparr>"

definition next_batch_custom ::
  "pgctx \<Rightarrow> string \<Rightarrow> string \<Rightarrow> int option \<Rightarrow> int option \<Rightarrow> int option \<Rightarrow> batch_info sql" where
  "next_batch_custom ctx q c min_lag min_count min_interval =
     sql_bind (sql_read (find_sub q c)) (\<lambda>sr. case sr of
       None \<Rightarrow> pg_raise (''Not subscriber to queue: '' @ q @ ''/'' @ c)
     | Some s \<Rightarrow>
       sql_bind (sql_read (\<lambda>t. sub_role s = Role_coop_main \<and>
           (\<exists>x\<in>set (t_subs t). sub_queue x = sub_queue s \<and> sub_id x = sub_id s
              \<and> sub_role x = Role_coop_member))) (\<lambda>has_members.
       if has_members then
         pg_raise (''consumer '' @ c @ '' on queue '' @ q @ '' is a cooperative main consumer; use cooperative receive/next_batch with a subconsumer'')
       else if sub_role s = Role_coop_member then
         pg_raise (''consumer '' @ c @ '' on queue '' @ q @ '' is a cooperative subconsumer; use receive_coop / next_batch (cooperative form) instead of the legacy 5-arg next_batch_custom'')
       else sql_bind (sql_read (find_tick (sub_queue s) (sub_last_tick s))) (\<lambda>tk. case tk of
           None \<Rightarrow> pg_raise (''PgQ corruption: Consumer '' @ c @ '' on queue '' @ q @ '' does not see tick <NULL>'')
         | Some prev \<Rightarrow>
           (case sub_batch s of
              Some b \<Rightarrow> sql_bind (sql_read (find_tick (sub_queue s) (sub_next_tick s))) (\<lambda>cur.
                sql_return \<lparr>bi_batch = Some b, bi_cur = cur, bi_prev = Some prev\<rparr>)
            | None \<Rightarrow>
              sql_bind (sql_read (if min_interval = None \<and> min_count = None
                  then min_tick (sub_queue s) (\<lambda>r. tick_id prev < tick_id r)
                  else find_tick_helper (sub_queue s) prev min_count min_interval)) (\<lambda>found.
              let cur = (case (found, min_lag) of
                  (Some k, Some l) \<Rightarrow> if pg_now ctx - tick_time k < l then None else Some k
                | _ \<Rightarrow> found)
              in case cur of
                  None \<Rightarrow> sql_return no_batch
                | Some k \<Rightarrow> sql_bind nextval_batch (\<lambda>b.
                    sql_bind (set_sub (\<lambda>x. sub_queue x = sub_queue s \<and> sub_consumer x = sub_consumer s
                                          \<and> sub_role x = Role_normal)
                        (\<lambda>x. x\<lparr>sub_batch := Some b, sub_next_tick := Some (tick_id k),
                              sub_active := pg_now ctx\<rparr>))
                    (\<lambda>_. sql_return \<lparr>bi_batch = Some b, bi_cur = Some k, bi_prev = Some prev\<rparr>)))))))"

definition next_batch_info :: "pgctx \<Rightarrow> string \<Rightarrow> string \<Rightarrow> batch_info sql" where
  "next_batch_info ctx q c = next_batch_custom ctx q c None None None"

text \<open>
  The row of \<open>pgque.config\<close>, the period of the ticks in milliseconds, and the loop. A call of the
  loop starts at \<open>started\<close> and reads the clock \<open>clk i\<close> (microseconds) after its i-th tick; each
  tick is a transaction of its own.
\<close>

record config_row =
  tick_period_ms :: int

definition set_tick_period_ms :: "int option \<Rightarrow> config_row option \<Rightarrow> string + (config_row option \<times> int)" where
  "set_tick_period_ms p cfg =
     (let msg = (\<lambda>v. ''tick_period_ms must be an exact divisor of 1000 between 1 and 1000 (got '' @ v @ '')'') in
      case p of
        None \<Rightarrow> Inl (msg ''NULL'')
      | Some n \<Rightarrow>
        if n < 1 \<or> 1000 < n then Inl (msg (str_of_int n))
        else if 1000 mod n \<noteq> 0 then Inl (msg (str_of_int n))
        else Inr (map_option (\<lambda>r. r\<lparr>tick_period_ms := n\<rparr>) cfg, n))"

definition loop_period :: "config_row option \<Rightarrow> int" where
  "loop_period cfg =
     (let v = (case cfg of None \<Rightarrow> 100 | Some r \<Rightarrow> if tick_period_ms r < 1 then 100 else tick_period_ms r)
      in if 1000 < v then 1000 else v)"

definition loop_budget :: "int \<Rightarrow> nat" where
  "loop_budget period = nat (max 1 (1000 div period))"

fun ticker_iterations ::
  "nat \<Rightarrow> int \<Rightarrow> int \<Rightarrow> (nat \<Rightarrow> pgctx) \<Rightarrow> (nat \<Rightarrow> int) \<Rightarrow> nat \<Rightarrow> db \<Rightarrow> db \<times> (pg_error + nat)" where
  "ticker_iterations 0 period started ctxs clk i t = (t, Inr i)"
| "ticker_iterations (Suc n) period started ctxs clk i t =
     (case pg_ticker_all (ctxs i) t of
        (u, Inl e) \<Rightarrow> (keep_sequences t u, Inl e)
      | (u, Inr _) \<Rightarrow>
        if n = 0 then (u, Inr (Suc i))
        else if 1000 * 1000 \<le> clk i - started + period * 1000 then (u, Inr (Suc i))
        else ticker_iterations n period started ctxs clk (Suc i) u)"

definition ticker_loop :: "config_row option \<Rightarrow> (nat \<Rightarrow> pgctx) \<Rightarrow> int \<Rightarrow> (nat \<Rightarrow> int) \<Rightarrow> db \<Rightarrow> db \<times> (pg_error + nat)" where
  "ticker_loop cfg ctxs started clk t =
     (let period = loop_period cfg in ticker_iterations (loop_budget period) period started ctxs clk 0 t)"

section \<open>The external ticker\<close>

lemma foldl_max_ge_tick:
  "\<forall>k\<in>set (r # rs). tick_id k \<le> tick_id (foldl (\<lambda>a b. if tick_id a < tick_id b then b else a) r rs)"
proof (induction rs arbitrary: r)
  case (Cons b rs)
  show ?case using Cons[of r] Cons[of b] by auto
qed simp

lemma foldl_min_le_tick:
  "\<forall>k\<in>set (r # rs). tick_id (foldl (\<lambda>a b. if tick_id b < tick_id a then b else a) r rs) \<le> tick_id k"
proof (induction rs arbitrary: r)
  case (Cons b rs)
  show ?case using Cons[of r] Cons[of b] by auto
qed simp

lemma max_tick_ge: "max_tick q P t = Some m \<Longrightarrow> k \<in> set (t_ticks t) \<Longrightarrow> tick_queue k = q \<Longrightarrow> P k \<Longrightarrow> tick_id k \<le> tick_id m"
  using foldl_max_ge_tick by (fastforce simp: max_tick_def split: list.splits dest: filter_eq_ConsD)

lemma min_tick_le: "min_tick q P t = Some m \<Longrightarrow> k \<in> set (t_ticks t) \<Longrightarrow> tick_queue k = q \<Longrightarrow> P k \<Longrightarrow> tick_id m \<le> tick_id k"
  using foldl_min_le_tick by (fastforce simp: min_tick_def split: list.splits dest: filter_eq_ConsD)

lemma max_tick_None: "max_tick q P t = None \<longleftrightarrow> (\<forall>k\<in>set (t_ticks t). tick_queue k = q \<longrightarrow> \<not> P k)"
  by (auto simp: max_tick_def filter_empty_conv split: list.splits dest: filter_eq_ConsD)

lemma min_tick_None: "min_tick q P t = None \<longleftrightarrow> (\<forall>k\<in>set (t_ticks t). tick_queue k = q \<longrightarrow> \<not> P k)"
  by (auto simp: min_tick_def filter_empty_conv split: list.splits dest: filter_eq_ConsD)

text \<open>
  What the ticks of a queue look like: their ids are distinct and behind the sequence of the ids, and
  the event sequence rises with them.
\<close>

definition ticks_rise :: "db \<Rightarrow> bool" where
  "ticks_rise t \<longleftrightarrow> distinct (map (\<lambda>k. (tick_queue k, tick_id k)) (t_ticks t))
     \<and> list_all (\<lambda>r. is_called (s_tick t (queue_id r))) (t_queues t)
     \<and> list_all (\<lambda>k. is_called (s_tick t (tick_queue k)) \<and> tick_id k \<le> last_value (s_tick t (tick_queue k))
         \<and> tick_event_seq k \<le> last_value (s_event t (tick_queue k))) (t_ticks t)
     \<and> list_all (\<lambda>j. list_all (\<lambda>k. tick_queue j = tick_queue k \<and> tick_id j < tick_id k \<longrightarrow>
         tick_event_seq j \<le> tick_event_seq k) (t_ticks t)) (t_ticks t)"

lemma ticks_riseD:
  assumes "ticks_rise t" "j \<in> set (t_ticks t)"
  shows "is_called (s_tick t (tick_queue j))" "tick_id j \<le> last_value (s_tick t (tick_queue j))"
    "tick_event_seq j \<le> last_value (s_event t (tick_queue j))"
    and "k \<in> set (t_ticks t) \<Longrightarrow> tick_queue j = tick_queue k \<Longrightarrow> tick_id j < tick_id k \<Longrightarrow> tick_event_seq j \<le> tick_event_seq k"
    and "k \<in> set (t_ticks t) \<Longrightarrow> tick_queue j = tick_queue k \<Longrightarrow> tick_id j = tick_id k \<Longrightarrow> j = k"
  using assms distinct_keyD[of "\<lambda>k. (tick_queue k, tick_id k)" "t_ticks t" j k]
  by (auto simp: ticks_rise_def list_all_iff)

definition later_sequences :: "db \<Rightarrow> db \<Rightarrow> bool" where
  "later_sequences t u \<longleftrightarrow> map queue_id (t_queues u) = map queue_id (t_queues t)
     \<and> (\<forall>q. (is_called (s_tick t q) \<longrightarrow> is_called (s_tick u q)) \<and> last_value (s_tick t q) \<le> last_value (s_tick u q)
         \<and> last_value (s_event t q) \<le> last_value (s_event u q))"

lemma ticks_rise_same:
  assumes "ticks_rise t" "later_sequences t u" "t_ticks u = t_ticks t"
  shows "ticks_rise u"
proof -
  from assms(2) have l: "is_called (s_tick t q) \<Longrightarrow> is_called (s_tick u q)"
      "last_value (s_tick t q) \<le> last_value (s_tick u q)" "last_value (s_event t q) \<le> last_value (s_event u q)" for q
    unfolding later_sequences_def by blast+
  have "is_called (s_tick u i)" if "i \<in> set (map queue_id (t_queues u))" for i
    using that assms(1,2) l(1) unfolding later_sequences_def ticks_rise_def by (auto simp: list_all_iff)
  moreover have "is_called (s_tick u (tick_queue k)) \<and> tick_id k \<le> last_value (s_tick u (tick_queue k))
      \<and> tick_event_seq k \<le> last_value (s_event u (tick_queue k))" if "k \<in> set (t_ticks t)" for k
    using ticks_riseD(1-3)[OF assms(1) that] l order_trans by blast
  ultimately show ?thesis using assms(1) by (simp add: ticks_rise_def assms(3) list_all_iff)
qed

lemma ticks_rise_append:
  assumes "ticks_rise t" "later_sequences t u" "t_ticks u = t_ticks t @ [k]"
    and "\<And>j. j \<in> set (t_ticks t) \<Longrightarrow> tick_queue j = tick_queue k \<Longrightarrow> tick_id j < tick_id k \<and> tick_event_seq j \<le> tick_event_seq k"
    and "is_called (s_tick u (tick_queue k))" "tick_id k \<le> last_value (s_tick u (tick_queue k))"
      "tick_event_seq k \<le> last_value (s_event u (tick_queue k))"
  shows "ticks_rise u"
proof -
  have "ticks_rise (u\<lparr>t_ticks := t_ticks t\<rparr>)"
    by (rule ticks_rise_same[OF assms(1)]) (use assms(2) in \<open>simp_all add: later_sequences_def\<close>)
  moreover have "(tick_queue k, tick_id k) \<notin> (\<lambda>k. (tick_queue k, tick_id k)) ` set (t_ticks t)"
    using assms(4) by fastforce
  ultimately show ?thesis
    using assms(4-7) unfolding ticks_rise_def assms(3) by (fastforce simp: list_all_iff)
qed

lemma sq_forward_ge: "last_value s \<le> last_value (sq_forward v s)" "v \<le> last_value (sq_forward v s)"
  "is_called s \<Longrightarrow> is_called (sq_forward v s)"
  by (simp_all add: sq_forward_def sq_set_def)

lemma external_tick_cases:
  assumes "external_ticker ctx q tid ts sq t = (t', x)"
  obtains (error) e where "x = Inl e" "t' = t"
  | (tick) r where "x = Inr tid" "find_queue q t = Some r" "queue_external_ticker r" "\<not> queue_ticker_paused r" "0 < tid \<or> max_tick (queue_id r) (\<lambda>_. True) t \<noteq> None"
      "\<And>k. max_tick (queue_id r) (\<lambda>_. True) t = Some k \<Longrightarrow> tick_id k < tid \<and> tick_event_seq k \<le> sq"
      "t' = t\<lparr>t_ticks := t_ticks t @ [\<lparr>tick_queue = queue_id r, tick_id = tid, tick_time = ts,
          tick_snapshot = pg_snapshot ctx, tick_event_seq = sq\<rparr>],
        s_tick := (s_tick t)(queue_id r := sq_forward tid (s_tick t (queue_id r))),
        s_event := (s_event t)(queue_id r := sq_forward sq (s_event t (queue_id r)))\<rparr>"
proof (cases x)
  case (Inl e)
  then have "t' = t" using assms by (auto simp: external_ticker_def sql_defs Let_def split: option.splits if_splits)
  then show thesis by (rule error[OF Inl])
next
  case (Inr i)
  from assms Inr obtain r where r: "find_queue q t = Some r"
    by (auto simp: external_ticker_def sql_defs split: option.splits)
  let ?m = "max_tick (queue_id r) (\<lambda>_. True) t"
  from assms Inr r have c: "queue_external_ticker r" "\<not> queue_ticker_paused r"
    and m: "(case ?m of None \<Rightarrow> 0 | Some k \<Rightarrow> tick_id k) < tid" "\<And>k. ?m = Some k \<Longrightarrow> tick_event_seq k \<le> sq"
    by (auto simp: external_ticker_def sql_defs Let_def split: option.splits if_splits)
  from assms Inr r c m show thesis
    by (cases ?m) (auto intro!: tick[OF _ r c] simp: external_ticker_def sql_defs Let_def)
qed

lemma external_ticker_rises:
  assumes "ticks_rise t" "external_ticker ctx q tid ts sq t = (t', x)"
  shows "ticks_rise t'"
  using assms(2)
proof (cases rule: external_tick_cases)
  case (tick r)
  let ?k = "\<lparr>tick_queue = queue_id r, tick_id = tid, tick_time = ts, tick_snapshot = pg_snapshot ctx, tick_event_seq = sq\<rparr>"
  have r: "r \<in> set (t_queues t)" using tick(2) by (auto simp: find_queue_def dest: find_SomeD)
  have below: "tick_id j < tid \<and> tick_event_seq j \<le> sq" if j: "j \<in> set (t_ticks t)" "tick_queue j = queue_id r" for j
  proof -
    obtain m where m: "max_tick (queue_id r) (\<lambda>_. True) t = Some m"
      using j max_tick_None[of "queue_id r" "\<lambda>_. True" t] by (cases "max_tick (queue_id r) (\<lambda>_. True) t") auto
    from max_tick_mem[OF m] max_tick_ge[OF m j(1,2)] ticks_riseD(4,5)[OF assms(1) j(1), of m] j(2) tick(6)[OF m]
    show ?thesis by (cases "tick_id j < tick_id m") auto
  qed
  show ?thesis
    by (rule ticks_rise_append[OF assms(1), where k = ?k])
      (use assms(1) r below tick(7) sq_forward_ge in \<open>auto simp: later_sequences_def ticks_rise_def list_all_iff\<close>)
qed (use assms(1) in simp)

lemma ticker_rises:
  assumes "ticks_rise t" "pg_ticker ctx q t = (t', x)"
  shows "ticks_rise t'"
proof (cases x)
  case (Inr i)
  show ?thesis
  proof (cases i)
    case None
    with assms Inr show ?thesis by (auto simp: pg_ticker_def sql_defs nextval_tick_def split: option.splits if_splits)
  next
    case (Some n)
    from assms(2) Inr Some obtain r where r: "find_queue q t = Some r"
      by (auto simp: pg_ticker_def sql_defs split: option.splits)
    then have m: "r \<in> set (t_queues t)" by (auto simp: find_queue_def dest: find_SomeD)
    let ?k = "\<lparr>tick_queue = queue_id r, tick_id = n, tick_time = pg_now ctx, tick_snapshot = pg_snapshot ctx,
      tick_event_seq = last_value (s_event t (queue_id r))\<rparr>"
    from ticker_adds[OF assms(2)[unfolded Inr Some] r] m assms(1)
    have n: "n = last_value (s_tick t (queue_id r)) + 1"
        "t' = t\<lparr>s_tick := (s_tick t)(queue_id r := sq_set n), t_ticks := t_ticks t @ [?k]\<rparr>"
      by (auto simp: ticks_rise_def list_all_iff sq_next_def)
    have below: "tick_id j \<le> last_value (s_tick t (queue_id r))" "tick_event_seq j \<le> last_value (s_event t (queue_id r))"
      if "j \<in> set (t_ticks t)" "tick_queue j = queue_id r" for j
      using ticks_riseD(2,3)[OF assms(1) that(1)] that(2) by simp_all
    show ?thesis
      by (rule ticks_rise_append[OF assms(1), where k = ?k])
        (use n(2) in \<open>auto simp: n(1) later_sequences_def sq_set_def dest: below\<close>)
  qed
qed (use assms in \<open>auto simp: pg_ticker_def sql_defs nextval_tick_def split: option.splits if_splits\<close>)

lemma new_queue_rises:
  assumes "ticks_rise t" "queue_refs_ok t"
  shows "ticks_rise (with_queue ctx q t)"
proof -
  have "queue_id r \<noteq> sq_next (s_queue t)" if "r \<in> set (t_queues t)" for r
    using that assms(2) by (auto simp: queue_refs_ok_def list_all_iff)
  moreover have no: "k \<in> set (t_ticks t) \<Longrightarrow> tick_queue k = sq_next (s_queue t) \<Longrightarrow> False" for k
    using assms(2) by (auto simp: queue_refs_ok_def list_all_iff)
  ultimately show ?thesis
    using assms(1) by (auto simp: ticks_rise_def with_queue_def Let_def list_all_iff new_queue_def sq_set_def fresh_sq_def
        dest: no no[OF _ sym])
qed

lemma forced_tick_rises:
  assumes "ticks_rise t" "pg_force_tick q t = (t', x)" "\<And>r. find_queue q t = Some r \<Longrightarrow> 0 \<le> queue_ticker_max_count r"
  shows "ticks_rise t'"
proof -
  have "last_value s \<le> sq_next s + n * 2 + 1000" if "0 \<le> n" for s n
    using that by (simp add: sq_next_def)
  with assms show ?thesis
    by (auto simp: pg_force_tick_def sql_defs nextval_event_def later_sequences_def sq_set_def
        intro!: ticks_rise_same[OF assms(1)] split: option.splits if_splits)
qed

text \<open>
  The external ticker takes exactly the ticks that continue the series: a larger id, no smaller
  event sequence, on a queue that is set up for it.
\<close>

theorem external_tick_taken:
  assumes "ticks_rise t" "find_queue q t = Some r"
  shows "(\<exists>t'. external_ticker ctx q tid ts sq t = (t', Inr tid)
      \<and> t_ticks t' = t_ticks t @ [\<lparr>tick_queue = queue_id r, tick_id = tid, tick_time = ts,
          tick_snapshot = pg_snapshot ctx, tick_event_seq = sq\<rparr>] \<and> ticks_rise t')
    \<longleftrightarrow> queue_external_ticker r \<and> \<not> queue_ticker_paused r
      \<and> (\<forall>k\<in>set (t_ticks t). tick_queue k = queue_id r \<longrightarrow> tick_id k < tid \<and> tick_event_seq k \<le> sq)
      \<and> ((\<forall>k\<in>set (t_ticks t). tick_queue k \<noteq> queue_id r) \<longrightarrow> 0 < tid)" (is "?l \<longleftrightarrow> ?r")
proof
  assume ?l
  then obtain t' where e: "external_ticker ctx q tid ts sq t = (t', Inr tid)" "ticks_rise t'"
    "t_ticks t' = t_ticks t @ [\<lparr>tick_queue = queue_id r, tick_id = tid, tick_time = ts,
          tick_snapshot = pg_snapshot ctx, tick_event_seq = sq\<rparr>]" by blast
  from e(1) show ?r
  proof (cases rule: external_tick_cases)
    case (tick x)
    have below: "tick_id k < tid \<and> tick_event_seq k \<le> sq" if k: "k \<in> set (t_ticks t)" "tick_queue k = queue_id r" for k
    proof -
      obtain m where m: "max_tick (queue_id r) (\<lambda>_. True) t = Some m"
        using k max_tick_None[of "queue_id r" "\<lambda>_. True" t] by (cases "max_tick (queue_id r) (\<lambda>_. True) t") auto
      from max_tick_mem[OF m] max_tick_ge[OF m k(1,2)] ticks_riseD(4,5)[OF assms(1) k(1), of m] k(2)
        tick(2) assms(2) tick(6)[of m] m
      show ?thesis by (cases "tick_id k < tick_id m") auto
    qed
    with tick assms(2) max_tick_None[of "queue_id r" "\<lambda>_. True" t] show ?thesis by auto
  qed simp
next
  assume r: ?r
  obtain t' x where e: "external_ticker ctx q tid ts sq t = (t', x)" by fastforce
  have m: "tick_id k < tid \<and> tick_event_seq k \<le> sq" if "max_tick (queue_id r) (\<lambda>_. True) t = Some k" for k
    using max_tick_mem[OF that] r by blast
  have "0 < tid" if "max_tick (queue_id r) (\<lambda>_. True) t = None"
    using that r max_tick_None[of "queue_id r" "\<lambda>_. True" t] by blast
  with m r e assms(2) have "x = Inr tid"
    by (cases "max_tick (queue_id r) (\<lambda>_. True) t") (auto simp: external_ticker_def sql_defs Let_def)
  from e this show ?l
  proof (cases rule: external_tick_cases)
    case (tick y)
    with e assms(2) external_ticker_rises[OF assms(1) e] show ?thesis by auto
  qed simp
qed

section \<open>Batches under limits\<close>

text \<open>Without limits the custom call is the plain one.\<close>

lemma next_batch_is_custom:
  "next_batch ctx q c = sql_bind (next_batch_info ctx q c) (\<lambda>i. sql_return (bi_batch i))"
proof
  fix t
  show "next_batch ctx q c t = sql_bind (next_batch_info ctx q c) (\<lambda>i. sql_return (bi_batch i)) t"
  proof (cases "find_sub q c t")
    case (Some s)
    show ?thesis
      by (cases "find_tick (sub_queue s) (sub_last_tick s) t";
          cases "sub_batch s"; cases "min_tick (sub_queue s) (\<lambda>r. tick_id (the (find_tick (sub_queue s) (sub_last_tick s) t)) < tick_id r) t")
        (auto simp: next_batch_def next_batch_info_def next_batch_custom_def sql_defs no_batch_def nextval_batch_def set_sub_def Some)
  qed (simp add: next_batch_def next_batch_info_def next_batch_custom_def sql_defs)
qed

lemma helper_enough:
  assumes "find_tick_helper q prev mc mi t = Some k"
  shows "k \<in> set (t_ticks t) \<and> tick_queue k = q \<and> tick_id prev < tick_id k \<and> enough prev mc mi k"
  using assms max_tick_mem[of q _ t k] min_tick_mem[of q _ t k]
  by (auto simp: find_tick_helper_def Let_def split: option.splits if_splits)

text \<open>
  With limits that are not negative, on ticks whose times and sequences rise, the search finds nothing only when no
  later tick is enough; a tick that is far beyond the limits gives way to the first that is enough.
\<close>

definition rising :: "int \<Rightarrow> db \<Rightarrow> bool" where
  "rising q t \<longleftrightarrow> list_all (\<lambda>j. list_all (\<lambda>k. tick_queue j = q \<and> tick_queue k = q \<and> tick_id j \<le> tick_id k \<longrightarrow>
      tick_event_seq j \<le> tick_event_seq k \<and> tick_time j \<le> tick_time k) (t_ticks t)) (t_ticks t)"

lemma too_far_enough:
  "case mc of None \<Rightarrow> True | Some n \<Rightarrow> 0 \<le> n \<Longrightarrow> too_far mc x \<Longrightarrow> at_least mc x"
  by (auto simp: too_far_def at_least_def split: option.splits)

lemma enough_later:
  assumes "rising q t" "j \<in> set (t_ticks t)" "k \<in> set (t_ticks t)" "tick_queue j = q" "tick_queue k = q" "tick_id j \<le> tick_id k"
    and "enough prev mc mi j"
  shows "enough prev mc mi k"
proof -
  have "tick_event_seq j \<le> tick_event_seq k" "tick_time j \<le> tick_time k"
    using assms(1-6) by (auto simp: rising_def list_all_iff)
  with assms(7) show ?thesis by (auto simp: enough_def at_least_def split: option.splits)
qed

theorem helper_none:
  assumes "rising q t" "case mc of None \<Rightarrow> True | Some n \<Rightarrow> 0 \<le> n" "case mi of None \<Rightarrow> True | Some n \<Rightarrow> 0 \<le> n"
  shows "find_tick_helper q prev mc mi t = None
    \<longleftrightarrow> (\<forall>k\<in>set (t_ticks t). tick_queue k = q \<and> tick_id prev < tick_id k \<longrightarrow> \<not> enough prev mc mi k)"
proof (cases "max_tick q (\<lambda>k. tick_id prev < tick_id k) t")
  case None
  then show ?thesis using max_tick_None[of q "\<lambda>k. tick_id prev < tick_id k" t]
    by (auto simp: find_tick_helper_def)
next
  case (Some m)
  note mem = max_tick_mem[OF Some]
  have later: "enough prev mc mi m" if "k \<in> set (t_ticks t)" "tick_queue k = q" "tick_id prev < tick_id k" "enough prev mc mi k" for k
    using enough_later[OF assms(1) that(1) _ that(2) _ max_tick_ge[OF Some that(1,2,3)] that(4)] mem by blast
  have far: "enough prev mc mi m" if "too_far mc (tick_event_seq m - tick_event_seq prev) \<or> too_far mi (tick_time m - tick_time prev)"
    using that too_far_enough assms(2,3) by (auto simp: enough_def)
  show ?thesis
  proof (cases "too_far mc (tick_event_seq m - tick_event_seq prev) \<or> too_far mi (tick_time m - tick_time prev)")
    case True
    then have "find_tick_helper q prev mc mi t = min_tick q (\<lambda>x. tick_id prev < tick_id x \<and> enough prev mc mi x) t"
      by (auto simp: find_tick_helper_def Some Let_def)
    then show ?thesis by (auto simp: min_tick_None)
  next
    case False
    then have "find_tick_helper q prev mc mi t = (if enough prev mc mi m then Some m else None)"
      by (simp add: find_tick_helper_def Some Let_def)
    with later mem show ?thesis by auto
  qed
qed

lemma find_tick_rise:
  "ticks_rise t \<Longrightarrow> k \<in> set (t_ticks t) \<Longrightarrow> tick_queue k = q \<Longrightarrow> find_tick q (Some (tick_id k)) t = Some k"
  by (auto simp: find_tick_def intro!: find_unique dest: ticks_riseD(5))

lemma custom_batch_opens:
  assumes "subs_ok t" "find_sub q c t = Some s" "sub_batch s = None" "sub_role s = Role_normal"
    and "next_batch_custom ctx q c min_lag mc mi t = (t', Inr i)" "bi_batch i = Some b"
  obtains prev k where "i = \<lparr>bi_batch = Some b, bi_cur = Some k, bi_prev = Some prev\<rparr>" "b = sq_next (s_batch t)"
    "find_tick (sub_queue s) (sub_last_tick s) t = Some prev"
    "k \<in> set (t_ticks t)" "tick_queue k = sub_queue s" "tick_id prev < tick_id k"
    "mc = None \<and> mi = None \<or> enough prev mc mi k"
    "case min_lag of None \<Rightarrow> True | Some l \<Rightarrow> l \<le> pg_now ctx - tick_time k"
    "t' = t\<lparr>s_batch := sq_set b, t_subs := upd_key (sub_key s) (stamp ctx b (tick_id k)) (t_subs t)\<rparr>"
proof -
  let ?pick = "\<lambda>prev. (if mi = None \<and> mc = None then min_tick (sub_queue s) (\<lambda>r. tick_id prev < tick_id r)
      else find_tick_helper (sub_queue s) prev mc mi) t"
  from assms(2-6) obtain prev k where p: "find_tick (sub_queue s) (sub_last_tick s) t = Some prev" "?pick prev = Some k"
      "case min_lag of None \<Rightarrow> True | Some l \<Rightarrow> l \<le> pg_now ctx - tick_time k"
    by (auto simp: next_batch_custom_def sql_defs no_batch_def Let_def split: option.splits if_splits)
  have k: "k \<in> set (t_ticks t)" "tick_queue k = sub_queue s" "tick_id prev < tick_id k" "mc = None \<and> mi = None \<or> enough prev mc mi k"
    using p(2) helper_enough[of "sub_queue s" prev mc mi t k] min_tick_mem[of "sub_queue s" _ t k] by (auto split: if_splits)
  let ?b = "sq_next (s_batch t)" and ?t0 = "t\<lparr>s_batch := sq_set (sq_next (s_batch t))\<rparr>"
  let ?P = "\<lambda>x. sub_queue x = sub_queue s \<and> sub_consumer x = sub_consumer s \<and> sub_role x = Role_normal"
  have st: "(\<lambda>x. x\<lparr>sub_batch := Some ?b, sub_next_tick := Some (tick_id k), sub_active := pg_now ctx\<rparr>) = stamp ctx ?b (tick_id k)"
    by (simp add: stamp_def fun_eq_iff)
  have upd: "set_sub ?P (stamp ctx ?b (tick_id k)) ?t0 = (?t0\<lparr>t_subs := upd_key (sub_key s) (stamp ctx ?b (tick_id k)) (t_subs t)\<rparr>, Inr ())"
    by (rule set_sub_key[OF assms(1) find_sub_mem[OF assms(2)]]) (auto simp: assms(4) sub_key_def)
  have "next_batch_custom ctx q c min_lag mc mi t =
      (t\<lparr>s_batch := sq_set ?b, t_subs := upd_key (sub_key s) (stamp ctx ?b (tick_id k)) (t_subs t)\<rparr>,
       Inr \<lparr>bi_batch = Some ?b, bi_cur = Some k, bi_prev = Some prev\<rparr>)"
    using assms(2-4) p upd by (auto simp: next_batch_custom_def sql_defs nextval_batch_def st split: option.splits)
  with assms(5,6) show thesis using p k by (intro that[of k prev]) auto
qed

text \<open>
  A batch under limits: what it covers is at least as much as was asked for, it ends early enough,
  and its events are those between its two ticks, however many ticks it takes together.
\<close>

theorem custom_batch_respects_limits:
  assumes "subs_ok t" "ticks_rise t" "find_queue q t = Some r" "find_sub q c t = Some s" "sub_batch s = None" "sub_role s = Role_normal"
    and "next_batch_custom ctx q c min_lag mc mi t = (t', Inr i)" "bi_batch i = Some b"
  shows "\<exists>prev k. i = \<lparr>bi_batch = Some b, bi_cur = Some k, bi_prev = Some prev\<rparr>
    \<and> (mc = None \<and> mi = None \<or> at_least mc (tick_event_seq k - tick_event_seq prev) \<or> at_least mi (tick_time k - tick_time prev))
    \<and> (case min_lag of None \<Rightarrow> True | Some l \<Rightarrow> l \<le> pg_now ctx - tick_time k)
    \<and> batch_rows b t' = Some (batch_event_sql (tick_snapshot prev) (tick_snapshot k) (sub_id s) [queue_events r])"
  using assms(1,4-8)
proof (rule custom_batch_opens)
  fix prev k
  assume i: "i = \<lparr>bi_batch = Some b, bi_cur = Some k, bi_prev = Some prev\<rparr>" and b: "b = sq_next (s_batch t)"
    and prev: "find_tick (sub_queue s) (sub_last_tick s) t = Some prev"
    and k: "k \<in> set (t_ticks t)" "tick_queue k = sub_queue s" "tick_id prev < tick_id k"
    and lims: "mc = None \<and> mi = None \<or> enough prev mc mi k"
      "case min_lag of None \<Rightarrow> True | Some l \<Rightarrow> l \<le> pg_now ctx - tick_time k"
    and t': "t' = t\<lparr>s_batch := sq_set b, t_subs := upd_key (sub_key s) (stamp ctx b (tick_id k)) (t_subs t)\<rparr>"
  have sq: "sub_queue s = queue_id r" using find_sub_queue[OF assms(4,3)] .
  have ok: "subs_ok t'"
    unfolding t' by (rule subs_ok_open[OF assms(1) find_sub_mem[OF assms(4)] b]) simp_all
  have "find_sub q c t' = Some (stamp ctx b (tick_id k) s)"
    by (rule find_sub_upd[where t = t]) (use assms(1,4) t' in simp_all)
  then have fb: "find_batch b t' = Some (stamp ctx b (tick_id k) s)"
    using find_batch_iff[OF ok, of b] find_sub_mem[of q c t'] by simp
  have f: "find_tick x y t' = find_tick x y t" "t_queues t' = t_queues t" for x y
    using t' by (simp_all add: find_tick_def split: option.split)
  have "batch_rows b t' = Some (batch_event_sql (tick_snapshot prev) (tick_snapshot k) (sub_id s) [queue_events r])"
    using prev find_tick_rise[OF assms(2) k(1,2)] sq find_queue_by_id[OF assms(1,3)] by (simp add: batch_rows_def fb f)
  with i lims show ?thesis by (auto simp: enough_def)
qed

section \<open>The loop\<close>

lemma iterations_count:
  assumes "ticker_iterations n p s ctxs clk i t = (u, Inr k)"
  shows "i \<le> k \<and> k \<le> i + n \<and> (0 < n \<longrightarrow> i < k)
    \<and> (\<forall>j. i < j \<and> j < k \<longrightarrow> clk (j - 1) - s + p * 1000 < 1000000)"
  using assms
proof (induction n arbitrary: i t)
  case (Suc n)
  obtain v x where v: "pg_ticker_all (ctxs i) t = (v, x)" by fastforce
  show ?case
  proof (cases x)
    case (Inr m)
    show ?thesis
    proof (cases "n = 0 \<or> 1000 * 1000 \<le> clk i - s + p * 1000")
      case True
      with Suc.prems v Inr show ?thesis by (auto split: if_splits)
    next
      case False
      with Suc.prems v Inr have r: "ticker_iterations n p s ctxs clk (Suc i) v = (u, Inr k)" by auto
      from Suc.IH[OF r] have ih: "Suc i \<le> k \<and> k \<le> Suc i + n"
        "\<forall>j. Suc i < j \<and> j < k \<longrightarrow> clk (j - 1) - s + p * 1000 < 1000000" by auto
      have "clk (j - 1) - s + p * 1000 < 1000000" if "i < j" "j < k" for j
        using that ih(2) False by (cases "j = Suc i") auto
      with ih show ?thesis by auto
    qed
  qed (use Suc.prems v in simp)
qed simp

lemma loop_period_range: "1 \<le> loop_period cfg \<and> loop_period cfg \<le> 1000"
  by (auto simp: loop_period_def Let_def split: option.splits)

lemma loop_budget_period: "1 \<le> p \<Longrightarrow> p \<le> 1000 \<Longrightarrow> 1 \<le> loop_budget p \<and> int (loop_budget p) * p \<le> 1000"
proof -
  assume p: "1 \<le> p" "p \<le> 1000"
  then have "1 \<le> 1000 div p" by (simp add: pos_imp_zdiv_pos_iff int_one_le_iff_zero_less)
  moreover have "1000 div p * p \<le> 1000"
    using pos_mod_sign[of p 1000] div_mult_mod_eq[of 1000 p] p by linarith
  ultimately show ?thesis by (auto simp: loop_budget_def)
qed

text \<open>
  A call of the loop stays in its slot of one second: it ticks at least once and not more often
  than the period allows, and after the first tick it begins another only when the time that has passed and the
  wait before it are less than the slot.
\<close>

theorem ticker_loop_in_slot:
  assumes "ticker_loop cfg ctxs started clk t = (u, Inr k)"
  shows "1 \<le> k \<and> int k * loop_period cfg \<le> 1000
    \<and> (\<forall>j. 0 < j \<and> j < k \<longrightarrow> clk (j - 1) + loop_period cfg * 1000 < started + 1000000)"
proof -
  let ?p = "loop_period cfg"
  note p = loop_budget_period[OF conjunct1[OF loop_period_range] conjunct2[OF loop_period_range], of cfg]
  have c: "1 \<le> k" "k \<le> loop_budget ?p" "\<forall>j. 0 < j \<and> j < k \<longrightarrow> clk (j - 1) - started + ?p * 1000 < 1000000"
    using iterations_count[of "loop_budget ?p" ?p started ctxs clk 0 t u k] assms p by (auto simp: ticker_loop_def Let_def)
  have "int k * ?p \<le> int (loop_budget ?p) * ?p" using c(2) loop_period_range[of cfg] by (intro mult_right_mono) auto
  with p c(1,3) show ?thesis by force
qed

lemma iterations_full:
  assumes "ticker_iterations n p s ctxs clk i t = (u, Inr k)" "\<forall>j. Suc j < i + n \<longrightarrow> clk j - s + p * 1000 < 1000000"
  shows "k = i + n"
  using assms
proof (induction n arbitrary: i t)
  case (Suc n)
  obtain v x where v: "pg_ticker_all (ctxs i) t = (v, x)" by fastforce
  with Suc.prems(1) obtain m where m: "x = Inr m" by (cases x) auto
  show ?case
  proof (cases "n = 0")
    case True
    with Suc.prems(1) v m show ?thesis by simp
  next
    case False
    with Suc.prems(2)[rule_format, of i] have "\<not> 1000 * 1000 \<le> clk i - s + p * 1000" by simp
    with Suc.prems(1) v m False have "ticker_iterations n p s ctxs clk (Suc i) v = (u, Inr k)" by simp
    from Suc.IH[OF this] Suc.prems(2) show ?thesis by simp
  qed
qed simp

text \<open>
  The period that \<open>set_tick_period_ms\<close> accepts is the period at which the loop ticks: when the ticks take no
  time and the waits are exact, a call of the loop fills its second.
\<close>

theorem ticker_loop_rate:
  assumes "set_tick_period_ms (Some p) (Some cfg) = Inr (cfg', x)"
    and "\<forall>i. clk i = started + int i * (p * 1000)" and "ticker_loop cfg' ctxs started clk t = (u, Inr k)"
  shows "int k * p = 1000"
proof -
  from assms(1) have p: "1 \<le> p" "p \<le> 1000" "1000 mod p = 0" and c: "loop_period cfg' = p"
    by (auto simp: set_tick_period_ms_def loop_period_def Let_def split: if_splits)
  let ?n = "loop_budget p"
  have d: "1000 div p * p = 1000" using p(3) by (simp add: dvd_div_mult_self mod_0_imp_dvd)
  have "1 \<le> 1000 div p" using p(1,2) by (simp add: pos_imp_zdiv_pos_iff int_one_le_iff_zero_less)
  then have n: "int ?n * p = 1000" using d by (simp add: loop_budget_def)
  have "clk j - started + p * 1000 < 1000000" if "Suc j < 0 + ?n" for j
  proof -
    have "int (Suc j) * p < int ?n * p" using that p(1) by (intro mult_strict_right_mono) auto
    with n assms(2) show ?thesis by (simp add: algebra_simps)
  qed
  with iterations_full[of ?n p started ctxs clk 0 t u k] assms(3) c n show ?thesis by (simp add: ticker_loop_def Let_def)
qed

lemma ticker_loop_ok: "db_ok t \<Longrightarrow> ticker_loop cfg ctxs started clk t = (u, Inr k) \<Longrightarrow> db_ok u"
proof -
  have "db_ok t \<Longrightarrow> ticker_iterations n p s ctxs clk i t = (u, Inr k) \<Longrightarrow> db_ok u" for n p s i t
  proof (induction n arbitrary: i t)
    case (Suc n)
    obtain v x where v: "pg_ticker_all (ctxs i) t = (v, x)" by fastforce
    from ticker_all_ok[OF Suc.prems(1) v] Suc v show ?case by (cases x) (auto split: if_splits)
  qed simp
  then show "db_ok t \<Longrightarrow> ticker_loop cfg ctxs started clk t = (u, Inr k) \<Longrightarrow> db_ok u"
    by (auto simp: ticker_loop_def Let_def)
qed

end
