(* ===== verification/Configuration.thy ===== *)
theory Configuration
  imports Ticking Rotation
begin

text \<open>
  Configuration and information functions of \<open>devel/sql/pgque.sql\<close>: \<open>set_queue_config\<close> with its
  checks, and what \<open>get_queue_info\<close>, \<open>get_consumer_info\<close> and \<open>get_batch_info\<close> report.
\<close>

section \<open>set_queue_config\<close>

text \<open>The casts of PostgreSQL from text, with the errors that they raise.\<close>

record casts =
  cast_int4 :: "string \<Rightarrow> pg_error + int"
  cast_int8 :: "string \<Rightarrow> pg_error + int"
  cast_interval :: "string \<Rightarrow> pg_error + int"
  cast_bool :: "string \<Rightarrow> pg_error + bool"

definition sql_lift :: "pg_error + 'a \<Rightarrow> 'a sql" where
  "sql_lift x = (\<lambda>t. (t, x))"

definition config_params :: "string list" where
  "config_params = [''queue_ticker_max_count'', ''queue_ticker_max_lag'', ''queue_ticker_idle_period'',
     ''queue_ticker_paused'', ''queue_rotation_period'', ''queue_external_ticker'', ''queue_max_retries'']"

definition v_param_name :: "string \<Rightarrow> string" where
  "v_param_name p = ''queue_'' @ p"

text \<open>The checks of a value, before anything is written.\<close>

definition positive_interval :: "pgctx \<Rightarrow> casts \<Rightarrow> string \<Rightarrow> string \<Rightarrow> unit sql" where
  "positive_interval ctx cs name v = sql_bind (sql_lift (cast_interval cs v)) (\<lambda>n.
     if n \<le> 0 then pg_raise (''set_queue_config: '' @ name @ '' must be > 0, got '' @ pg_interval_out ctx n)
     else sql_return ())"

definition check_param :: "pgctx \<Rightarrow> casts \<Rightarrow> string \<Rightarrow> string \<Rightarrow> unit sql" where
  "check_param ctx cs param v =
     (if param = ''queue_max_retries'' then sql_bind (sql_lift (cast_int8 cs v)) (\<lambda>n.
        if n < 0 then pg_raise (''set_queue_config: max_retries must be >= 0, got '' @ str_of_int n) else sql_return ())
      else if param = ''queue_ticker_max_count'' then sql_bind (sql_lift (cast_int8 cs v)) (\<lambda>n.
        if n \<le> 0 then pg_raise (''set_queue_config: ticker_max_count must be > 0, got '' @ str_of_int n) else sql_return ())
      else if param = ''queue_ticker_max_lag'' then positive_interval ctx cs ''ticker_max_lag'' v
      else if param = ''queue_ticker_idle_period'' then positive_interval ctx cs ''ticker_idle_period'' v
      else if param = ''queue_rotation_period'' then positive_interval ctx cs ''rotation_period'' v
      else sql_return ())"

text \<open>
  The UPDATE that the function composes: the column gets the value in its own type, or its default.
\<close>

definition column_update :: "casts \<Rightarrow> string \<Rightarrow> string option \<Rightarrow> pg_error + (qrow \<Rightarrow> qrow)" where
  "column_update cs param value =
     (let int4 = (\<lambda>d. case value of None \<Rightarrow> Inr d | Some v \<Rightarrow> cast_int4 cs v);
          ival = (\<lambda>d. case value of None \<Rightarrow> Inr d | Some v \<Rightarrow> cast_interval cs v);
          bool = (\<lambda>d. case value of None \<Rightarrow> Inr d | Some v \<Rightarrow> cast_bool cs v)
      in if param = ''queue_ticker_max_count'' then map_sum id (\<lambda>n. queue_ticker_max_count_update (\<lambda>_. n)) (int4 500)
      else if param = ''queue_ticker_max_lag'' then map_sum id (\<lambda>n. queue_ticker_max_lag_update (\<lambda>_. n)) (ival 3000000)
      else if param = ''queue_ticker_idle_period'' then map_sum id (\<lambda>n. queue_ticker_idle_period_update (\<lambda>_. n)) (ival 60000000)
      else if param = ''queue_ticker_paused'' then map_sum id (\<lambda>b. queue_ticker_paused_update (\<lambda>_. b)) (bool False)
      else if param = ''queue_rotation_period'' then map_sum id (\<lambda>n. queue_rotation_period_update (\<lambda>_. n)) (ival 7200000000)
      else if param = ''queue_external_ticker'' then map_sum id (\<lambda>b. queue_external_ticker_update (\<lambda>_. b)) (bool False)
      else map_sum id (\<lambda>n. queue_max_retries_update (\<lambda>_. n))
        (case value of None \<Rightarrow> Inr None | Some v \<Rightarrow> map_sum id Some (cast_int4 cs v)))"

definition set_queue_config ::
  "pgctx \<Rightarrow> casts \<Rightarrow> string option \<Rightarrow> string option \<Rightarrow> string option \<Rightarrow> int sql" where
  "set_queue_config ctx cs queue param value = (case (queue, param) of
       (Some q, Some p) \<Rightarrow>
         sql_bind (sql_read (find_queue q)) (\<lambda>qr. if qr = None then pg_raise ''No such event queue''
         else let name = v_param_name p in
           if name \<notin> set config_params then
             pg_raise (''cannot change parameter '' @ [CHR 0x22] @ p @ ''s'' @ [CHR 0x22])
           else sql_bind (case value of None \<Rightarrow> sql_return () | Some v \<Rightarrow> check_param ctx cs name v) (\<lambda>_.
             sql_bind (sql_lift (column_update cs name value)) (\<lambda>f.
             sql_bind (sql_update (\<lambda>t. t\<lparr>t_queues := map (\<lambda>r. if queue_name r = q then f r else r) (t_queues t)\<rparr>)) (\<lambda>_.
             sql_return 1))))
     | _ \<Rightarrow> pg_raise ''Invalid NULL value'')"

section \<open>The information functions\<close>

text \<open>
  A row of \<open>get_queue_info\<close>. The columns that rotation changes come from theory Rotation
  (\<open>rot\<close>, with the number of tables); the rate is a rational where the code has a float8.
\<close>

record queue_info_row =
  qi_name :: string
  qi_ntables :: nat
  qi_cur_table :: nat
  qi_rotation_period :: int
  qi_switch_time :: int
  qi_external_ticker :: bool
  qi_ticker_paused :: bool
  qi_ticker_max_count :: int
  qi_ticker_max_lag :: int
  qi_ticker_idle_period :: int
  qi_ticker_lag :: "int option"
  qi_ev_per_sec :: "rat option"
  qi_ev_new :: "int option"
  qi_last_tick_id :: "int option"

definition queue_info_row :: "pgctx \<Rightarrow> (int \<Rightarrow> nat \<times> rot_row) \<Rightarrow> db \<Rightarrow> qrow \<Rightarrow> queue_info_row" where
  "queue_info_row ctx rot t q =
     (let (ntables, rr) = rot (queue_id q);
          latest = max_tick (queue_id q) (\<lambda>_. True) t;
          ht = (case latest of None \<Rightarrow> None
                | Some k \<Rightarrow> min_tick (queue_id q) (\<lambda>x. tick_id k - 20 \<le> tick_id x) t)
      in \<lparr>qi_name = queue_name q, qi_ntables = ntables, qi_cur_table = cur_table rr,
          qi_rotation_period = queue_rotation_period q, qi_switch_time = switch_time rr,
          qi_external_ticker = queue_external_ticker q, qi_ticker_paused = queue_ticker_paused q,
          qi_ticker_max_count = queue_ticker_max_count q, qi_ticker_max_lag = queue_ticker_max_lag q,
          qi_ticker_idle_period = queue_ticker_idle_period q,
          qi_ticker_lag = map_option (\<lambda>k. pg_now ctx - tick_time k) latest,
          qi_ev_per_sec = (case (latest, ht) of
              (Some k, Some h) \<Rightarrow> if tick_time h < tick_time k
                then Some (of_int (tick_event_seq k - tick_event_seq h) / (of_int (tick_time k - tick_time h) / 1000000))
                else None
            | _ \<Rightarrow> None),
          qi_ev_new = map_option (\<lambda>k. last_value (s_event t (queue_id q)) - tick_event_seq k) latest,
          qi_last_tick_id = map_option tick_id latest\<rparr>)"

definition wanted :: "string option \<Rightarrow> string \<Rightarrow> bool" where
  "wanted filter_by name = (case filter_by of None \<Rightarrow> True | Some n \<Rightarrow> name = n)"

definition get_queue_info :: "pgctx \<Rightarrow> (int \<Rightarrow> nat \<times> rot_row) \<Rightarrow> string option \<Rightarrow> db \<Rightarrow> queue_info_row list" where
  "get_queue_info ctx rot queue t =
     map (queue_info_row ctx rot t) (sort_key queue_name (filter (\<lambda>q. wanted queue (queue_name q)) (t_queues t)))"

record consumer_info_row =
  ci_queue :: string
  ci_consumer :: string
  ci_lag :: "int option"
  ci_last_seen :: int
  ci_last_tick :: "int option"
  ci_current_batch :: "int option"
  ci_next_tick :: "int option"
  ci_pending_events :: "int option"

definition consumer_info_row :: "pgctx \<Rightarrow> db \<Rightarrow> qrow \<Rightarrow> co_row \<Rightarrow> sub_row \<Rightarrow> consumer_info_row" where
  "consumer_info_row ctx t q c s =
     (let tk = find_tick (sub_queue s) (sub_last_tick s) t in
      \<lparr>ci_queue = queue_name q, ci_consumer = co_name c,
       ci_lag = map_option (\<lambda>k. pg_now ctx - tick_time k) tk,
       ci_last_seen = pg_now ctx - sub_active s, ci_last_tick = sub_last_tick s,
       ci_current_batch = sub_batch s, ci_next_tick = sub_next_tick s,
       ci_pending_events = (case (max_tick (queue_id q) (\<lambda>_. True) t, tk) of
           (Some m, Some k) \<Rightarrow> Some (tick_event_seq m - tick_event_seq k)
         | _ \<Rightarrow> None)\<rparr>)"

definition get_consumer_info :: "pgctx \<Rightarrow> string option \<Rightarrow> string option \<Rightarrow> db \<Rightarrow> consumer_info_row list" where
  "get_consumer_info ctx queue consumer t = sort_key ci_queue (sort_key ci_consumer
     (concat (map (\<lambda>s. concat (map (\<lambda>q. map (\<lambda>c. consumer_info_row ctx t q c s)
         (filter (\<lambda>c. co_id c = sub_consumer s \<and> wanted consumer (co_name c)) (t_consumers t)))
       (filter (\<lambda>q. queue_id q = sub_queue s \<and> wanted queue (queue_name q)) (t_queues t)))) (t_subs t))))"

record batch_info_row =
  bt_queue :: string
  bt_consumer :: string
  bt_start :: int
  bt_end :: int
  bt_prev_tick :: "int option"
  bt_tick :: "int option"
  bt_lag :: int
  bt_seq_start :: int
  bt_seq_end :: int

text \<open>No row is the row of nulls that the function returns when nothing matches.\<close>

definition get_batch_info :: "pgctx \<Rightarrow> int \<Rightarrow> db \<Rightarrow> batch_info_row option" where
  "get_batch_info ctx b t = (case find_batch b t of
      None \<Rightarrow> None
    | Some s \<Rightarrow>
      (case (find_tick (sub_queue s) (sub_next_tick s) t, find_tick (sub_queue s) (sub_last_tick s) t,
             find (\<lambda>q. queue_id q = sub_queue s) (t_queues t), find (\<lambda>c. co_id c = sub_consumer s) (t_consumers t)) of
         (Some cur, Some prev, Some q, Some c) \<Rightarrow>
           Some \<lparr>bt_queue = queue_name q, bt_consumer = co_name c, bt_start = tick_time prev, bt_end = tick_time cur,
             bt_prev_tick = sub_last_tick s, bt_tick = sub_next_tick s, bt_lag = pg_now ctx - tick_time cur,
             bt_seq_start = tick_event_seq prev, bt_seq_end = tick_event_seq cur\<rparr>
       | _ \<Rightarrow> None))"

section \<open>What a configured queue keeps\<close>

definition limits_ok :: "qrow \<Rightarrow> bool" where
  "limits_ok r \<longleftrightarrow> 0 < queue_ticker_max_count r \<and> 0 < queue_ticker_max_lag r \<and> 0 < queue_ticker_idle_period r
     \<and> 0 < queue_rotation_period r \<and> (case queue_max_retries r of None \<Rightarrow> True | Some n \<Rightarrow> 0 \<le> n)"

text \<open>What fits an int4 is read by the cast to int8 as the same number.\<close>

definition casts_agree :: "casts \<Rightarrow> bool" where
  "casts_agree cs \<longleftrightarrow> (\<forall>v n. cast_int4 cs v = Inr n \<longrightarrow> cast_int8 cs v = Inr n)"

lemma check_keeps: "fst (check_param ctx cs p v u) = u"
  by (auto simp: check_param_def positive_interval_def sql_lift_def sql_defs split: sum.splits if_splits)

lemma config_success:
  assumes "set_queue_config ctx cs queue param value t = (t', Inr n)"
  obtains q p f where "queue = Some q" "param = Some p" "n = 1" "find_queue q t \<noteq> None" "v_param_name p \<in> set config_params"
    "\<And>v. value = Some v \<Longrightarrow> check_param ctx cs (v_param_name p) v t = (t, Inr ())"
    "column_update cs (v_param_name p) value = Inr f"
    "t' = t\<lparr>t_queues := map (\<lambda>r. if queue_name r = q then f r else r) (t_queues t)\<rparr>"
proof -
  from assms obtain q p where qp: "queue = Some q" "param = Some p"
    by (auto simp: set_queue_config_def pg_raise_def split: option.splits)
  have "find_queue q t \<noteq> None"
  proof
    assume "find_queue q t = None"
    with assms qp show False by (simp add: set_queue_config_def sql_bind_def sql_read_def pg_raise_def)
  qed
  note q = qp this
  let ?name = "v_param_name p"
  let ?check = "(case value of None \<Rightarrow> sql_return () | Some v \<Rightarrow> check_param ctx cs ?name v) t"
  have "fst ?check = t" by (cases "value") (simp_all add: sql_return_def check_keeps)
  then obtain x where x: "?check = (t, x)" by (metis prod.collapse)
  have mem: "?name \<in> set config_params"
    using assms q by (auto simp: set_queue_config_def sql_defs Let_def split: if_splits)
  have run: "set_queue_config ctx cs queue param value t = (case x of Inl e \<Rightarrow> (t, Inl e) | Inr _ \<Rightarrow>
      (case column_update cs ?name value of Inl e \<Rightarrow> (t, Inl e)
       | Inr f \<Rightarrow> (t\<lparr>t_queues := map (\<lambda>r. if queue_name r = q then f r else r) (t_queues t)\<rparr>, Inr 1)))"
    using q mem x by (auto simp: set_queue_config_def sql_bind_def sql_read_def sql_lift_def sql_update_def sql_return_def Let_def
        split: sum.splits)
  from assms[unfolded run] obtain f where f: "x = Inr ()" "column_update cs ?name value = Inr f" "n = 1"
      "t' = t\<lparr>t_queues := map (\<lambda>r. if queue_name r = q then f r else r) (t_queues t)\<rparr>"
    by (auto split: sum.splits)
  show thesis
    by (rule that[OF q(1,2) f(3) q(3) mem _ f(2,4)]) (use x f(1) in simp)
qed

lemma config_error: "set_queue_config ctx cs queue param value t = (t', Inl e) \<Longrightarrow> t' = t"
proof -
  assume a: "set_queue_config ctx cs queue param value t = (t', Inl e)"
  have k: "fst ((case value of None \<Rightarrow> sql_return () | Some v \<Rightarrow> check_param ctx cs p v) t) = t" for p
    by (cases "value") (simp_all add: sql_return_def check_keeps)
  show "t' = t"
  proof (cases "queue = None \<or> param = None")
    case True
    with a show ?thesis by (auto simp: set_queue_config_def pg_raise_def split: option.splits)
  next
    case False
    then obtain q p where q: "queue = Some q" "param = Some p" by auto
    obtain x where x: "(case value of None \<Rightarrow> sql_return () | Some v \<Rightarrow> check_param ctx cs (v_param_name p) v) t = (t, x)"
      using k by (metis prod.collapse)
    from a show ?thesis
      by (auto simp: set_queue_config_def q x sql_bind_def sql_read_def sql_lift_def sql_update_def sql_return_def pg_raise_def Let_def
          split: if_splits sum.splits)
  qed
qed

lemma v_param_eq [simp]: "v_param_name p = v_param_name r \<longleftrightarrow> p = r"
  by (simp add: v_param_name_def)

text \<open>The value that was checked is the value that is written.\<close>

lemma column_limits:
  assumes "casts_agree cs" "column_update cs name value = Inr f" "limits_ok r" "name \<in> set config_params"
    and "\<And>v. value = Some v \<Longrightarrow> check_param ctx cs name v t = (t, Inr ())"
  shows "limits_ok (f r)"
proof (cases "value")
  case None
  with assms(2,3) show ?thesis
    by (auto simp: column_update_def limits_ok_def split: if_splits)
next
  case (Some v)
  note chk = assms(5)[OF Some]
  from assms(1) have i: "cast_int4 cs v = Inr n \<Longrightarrow> cast_int8 cs v = Inr n" for n by (simp add: casts_agree_def)
  from assms(2-4) Some chk i show ?thesis
    by (auto simp: config_params_def column_update_def limits_ok_def check_param_def positive_interval_def sql_lift_def sql_bind_def sql_return_def
        pg_raise_def map_sum_def split: if_splits sum.splits)
qed

text \<open>
  Claim C22. The row of a queue stays within its limits: counts and intervals positive, retries not
  negative, whatever is configured.
\<close>

theorem config_keeps_limits:
  assumes "casts_agree cs" "list_all limits_ok (t_queues t)"
    and "set_queue_config ctx cs queue param value t = (t', x)"
  shows "list_all limits_ok (t_queues t')"
proof (cases x)
  case (Inr n)
  from assms(3)[unfolded Inr] show ?thesis
  proof (rule config_success)
    fix q p f
    assume m: "v_param_name p \<in> set config_params" and c: "\<And>v. value = Some v \<Longrightarrow> check_param ctx cs (v_param_name p) v t = (t, Inr ())"
      "column_update cs (v_param_name p) value = Inr f"
      and t': "t' = t\<lparr>t_queues := map (\<lambda>r. if queue_name r = q then f r else r) (t_queues t)\<rparr>"
    from assms(2) column_limits[OF assms(1) c(2) _ m c(1)] show ?thesis by (auto simp: t' list_all_iff)
  qed
next
  case (Inl e)
  then show ?thesis using assms(2) config_error[OF assms(3)[unfolded Inl]] by simp
qed

lemma new_queue_limits: "limits_ok (new_queue i q)"
  by (simp add: limits_ok_def new_queue_def)

text \<open>A change writes one column of one queue; a null value puts back what a new queue has there.\<close>

lemma column_keeps:
  assumes "column_update cs name value = Inr f"
  shows "queue_id (f r) = queue_id r" "queue_name (f r) = queue_name r" "queue_events (f r) = queue_events r"
    "queue_disable_insert (f r) = queue_disable_insert r" "queue_extra_maint (f r) = queue_extra_maint r"
  using assms by (auto simp: column_update_def map_sum_def split: if_splits sum.splits option.splits)

lemma column_default:
  assumes "column_update cs name None = Inr f"
  shows "f (new_queue i q) = new_queue i q" "f (f r) = f r"
  using assms by (auto simp: column_update_def new_queue_def split: if_splits)

lemma config_core:
  assumes "set_queue_config ctx cs queue param value t = (t', x)"
  shows "core_le t t' \<and> s_tick t' = s_tick t \<and> map queue_name (t_queues t') = map queue_name (t_queues t)
    \<and> map queue_events (t_queues t') = map queue_events (t_queues t)"
proof (cases x)
  case (Inl e)
  then show ?thesis using config_error[OF assms[unfolded Inl]] by simp
next
  case (Inr n)
  from assms[unfolded Inr] show ?thesis
  proof (rule config_success)
    fix q p f
    assume c: "column_update cs (v_param_name p) value = Inr f"
      and t': "t' = t\<lparr>t_queues := map (\<lambda>r. if queue_name r = q then f r else r) (t_queues t)\<rparr>"
    have "map g (map (\<lambda>r. if queue_name r = q then f r else r) (t_queues t)) = map g (t_queues t)"
      if "\<And>r. g (f r) = g r" for g :: "qrow \<Rightarrow> 'z"
      using that by (induction "t_queues t") auto
    with column_keeps[OF c] show ?thesis unfolding core_le_def t' by simp
  qed
qed

lemma config_ok: "db_ok t \<Longrightarrow> set_queue_config ctx cs queue param value t = (t', x) \<Longrightarrow> db_ok t'"
  using config_core core_le_ok by blast

lemma config_rises: "ticks_rise t \<Longrightarrow> set_queue_config ctx cs queue param value t = (t', x) \<Longrightarrow> ticks_rise t'"
  using config_core[of ctx cs queue param "value" t t' x]
  by (auto intro!: ticks_rise_same[of t t'] simp: core_le_def later_sequences_def)

lemma config_find:
  assumes "set_queue_config ctx cs (Some q) (Some p) value t = (t', Inr n)" "find_queue q t = Some r"
    "column_update cs (v_param_name p) value = Inr f"
  shows "find_queue q t' = Some (f r)"
  using assms(1)
proof (rule config_success)
  fix q' p' g
  assume e: "Some q = Some q'" "Some p = Some p'" "column_update cs (v_param_name p') value = Inr g"
    and t': "t' = t\<lparr>t_queues := map (\<lambda>r. if queue_name r = q' then g r else r) (t_queues t)\<rparr>"
  have g: "g = f" "q' = q" using e assms(3) by auto
  have n: "(\<lambda>r. queue_name (if queue_name r = q then f r else r) = q) = (\<lambda>r. queue_name r = q)"
    using column_keeps(2)[OF assms(3)] by auto
  from assms(2) have "queue_name r = q" by (auto simp: find_queue_def dest: find_SomeD)
  with assms(2) show ?thesis unfolding t' g by (simp add: find_queue_def find_map n)
qed

text \<open>
  Two settings at work: a queue whose ticker was paused is not ticked, and
  one whose ticker became external is ticked from outside only.
\<close>

theorem paused_queue_not_ticked:
  assumes "set_queue_config ctx cs (Some q) (Some ''ticker_paused'') (Some v) t = (t', Inr n)"
    and "cast_bool cs v = Inr True" "find_queue q t = Some r" "\<not> queue_external_ticker r"
  shows "pg_ticker ctx2 q t' = pg_raise ''Ticker has been paused for this queue'' t'
    \<and> external_ticker ctx2 q tid ts sq t' = pg_raise (''queue '' @ q @ '' is paused (queue_ticker_paused = true)'') t'"
proof -
  have "column_update cs (v_param_name ''ticker_paused'') (Some v) = Inr (queue_ticker_paused_update (\<lambda>_. True))"
    using assms(2) by (simp add: column_update_def v_param_name_def)
  from config_find[OF assms(1,3) this] assms(4) show ?thesis
    by (simp add: pg_ticker_def external_ticker_def sql_bind_def sql_read_def)
qed

text \<open>
  The refusal of an unknown parameter. RAISE replaces the percent sign of the format only, so that the
  letter after it stays in the text.
\<close>

theorem unknown_parameter_text:
  assumes "find_queue q t \<noteq> None" "v_param_name p \<notin> set config_params"
  shows "set_queue_config ctx cs (Some q) (Some p) value t
    = pg_raise (''cannot change parameter '' @ [CHR 0x22] @ p @ ''s'' @ [CHR 0x22]) t"
  using assms by (auto simp: set_queue_config_def sql_bind_def sql_read_def Let_def)

section \<open>What the views report\<close>

lemma consumer_info_set:
  "set (get_consumer_info ctx queue consumer t) = {consumer_info_row ctx t q c s | q c s.
     s \<in> set (t_subs t) \<and> q \<in> set (t_queues t) \<and> queue_id q = sub_queue s \<and> wanted queue (queue_name q)
     \<and> c \<in> set (t_consumers t) \<and> co_id c = sub_consumer s \<and> wanted consumer (co_name c)}"
  by (auto simp: get_consumer_info_def)

lemma queue_info_names:
  "map qi_name (get_queue_info ctx rot queue t) = sort (filter (wanted queue) (map queue_name (t_queues t)))"
proof -
  have n: "qi_name (queue_info_row ctx rot t q) = queue_name q" for q
    by (simp add: queue_info_row_def Let_def split: prod.split)
  have "map queue_name (sort_key queue_name xs) = sort (map queue_name xs)" for xs
    by (rule properties_for_sort[symmetric]) simp_all
  then show ?thesis by (simp add: get_queue_info_def comp_def n filter_map)
qed

lemma max_tick_exists:
  "k \<in> set (t_ticks t) \<Longrightarrow> tick_queue k = q \<Longrightarrow> \<exists>m. max_tick q (\<lambda>_. True) t = Some m \<and> tick_id k \<le> tick_id m"
  using max_tick_None[of q "\<lambda>_. True" t] max_tick_ge[of q "\<lambda>_. True" t _ k]
  by (cases "max_tick q (\<lambda>_. True) t") auto

lemma pending_of_tick:
  assumes "ticks_rise t" "find_tick (sub_queue s) (sub_last_tick s) t = Some k" "queue_id q = sub_queue s"
  obtains m where "max_tick (queue_id q) (\<lambda>_. True) t = Some m" "tick_event_seq k \<le> tick_event_seq m"
    "ci_pending_events (consumer_info_row ctx t q c s) = Some (tick_event_seq m - tick_event_seq k)"
proof -
  note k = find_tick_mem[OF assms(2)]
  then obtain m where m: "max_tick (queue_id q) (\<lambda>_. True) t = Some m" "tick_id k \<le> tick_id m"
    using max_tick_exists[of k t "queue_id q"] assms(3) by auto
  from max_tick_mem[OF m(1)] have "tick_event_seq k \<le> tick_event_seq m"
    using ticks_riseD(4,5)[OF assms(1), of k m] k m(2) assms(3) by (cases "tick_id k = tick_id m") auto
  then show thesis by (rule that[OF m(1)]) (simp add: consumer_info_row_def Let_def assms(2) m(1))
qed


lemma find_sub_consumer:
  assumes "subs_ok t" "find_sub q c t = Some s"
  obtains r where "find (\<lambda>x. co_id x = sub_consumer s) (t_consumers t) = Some r" "co_name r = c"
proof -
  from assms(2) obtain r where r: "find_consumer c t = Some r" "sub_consumer s = co_id r"
    by (auto simp: find_sub_def dest: find_SomeD split: option.splits)
  then have m: "r \<in> set (t_consumers t)" "co_name r = c" by (auto simp: find_consumer_def dest: find_SomeD)
  have "find (\<lambda>x. co_id x = sub_consumer s) (t_consumers t) = Some r"
    by (rule find_unique[OF m(1)]) (use assms(1) m(1) r(2) in \<open>auto simp: subs_ok_def dest: distinct_keyD\<close>)
  then show thesis using that m(2) by blast
qed

text \<open>\<open>get_batch_info\<close> gives for an open batch the ticks that opened it.\<close>

theorem batch_info_of_opened:
  assumes "subs_ok t" "ticks_rise t" "find_queue q t = Some r" "find_sub q c t = Some s" "sub_batch s = None" "sub_role s = Role_normal"
    and "next_batch_custom ctx q c min_lag mc mi t = (t', Inr i)" "bi_batch i = Some b"
  shows "\<exists>row prev k. get_batch_info ctx2 b t' = Some row \<and> i = \<lparr>bi_batch = Some b, bi_cur = Some k, bi_prev = Some prev\<rparr>
    \<and> bt_queue row = q \<and> bt_consumer row = c \<and> bt_prev_tick row = Some (tick_id prev) \<and> bt_tick row = Some (tick_id k)
    \<and> bt_seq_start row = tick_event_seq prev \<and> bt_seq_end row = tick_event_seq k \<and> bt_seq_start row \<le> bt_seq_end row"
  using assms(1,4-8)
proof (rule custom_batch_opens)
  fix prev k
  assume i: "i = \<lparr>bi_batch = Some b, bi_cur = Some k, bi_prev = Some prev\<rparr>" and b: "b = sq_next (s_batch t)"
    and prev: "find_tick (sub_queue s) (sub_last_tick s) t = Some prev"
    and k: "k \<in> set (t_ticks t)" "tick_queue k = sub_queue s" "tick_id prev < tick_id k"
    and t': "t' = t\<lparr>s_batch := sq_set b, t_subs := upd_key (sub_key s) (stamp ctx b (tick_id k)) (t_subs t)\<rparr>"
  have sq: "sub_queue s = queue_id r" using find_sub_queue[OF assms(4,3)] .
  have ok: "subs_ok t'"
    unfolding t' by (rule subs_ok_open[OF assms(1) find_sub_mem[OF assms(4)] b]) simp_all
  have "find_sub q c t' = Some (stamp ctx b (tick_id k) s)"
    by (rule find_sub_upd[where t = t]) (use assms(1,4) t' in simp_all)
  then have fb: "find_batch b t' = Some (stamp ctx b (tick_id k) s)"
    using find_batch_iff[OF ok, of b] find_sub_mem[of q c t'] by simp
  have f: "find_tick x y t' = find_tick x y t" "t_queues t' = t_queues t" "t_consumers t' = t_consumers t" for x y
    using t' by (simp_all add: find_tick_def split: option.split)
  obtain cr where cr: "find (\<lambda>x. co_id x = sub_consumer s) (t_consumers t) = Some cr" "co_name cr = c"
    using find_sub_consumer[OF assms(1,4)] .
  have q: "queue_name r = q" using assms(3) by (auto simp: find_queue_def dest: find_SomeD)
  have p: "sub_last_tick s = Some (tick_id prev)" using find_tick_mem[OF prev] by simp
  have "tick_event_seq prev \<le> tick_event_seq k"
    using ticks_riseD(4)[OF assms(2) _ k(1)] find_tick_mem[OF prev] k(2,3) by simp
  then show ?thesis
    using prev find_tick_rise[OF assms(2) k(1,2)] sq find_queue_by_id[OF assms(1,3)] cr q p i
    by (simp add: get_batch_info_def fb f)
qed

end
