(* ===== verification/ConfigWitnesses.thy ===== *)
theory ConfigWitnesses
  imports Configuration Scenario
begin

text \<open>The theorems on configuration, limits and the ticker loop, on the small deployment.\<close>

definition cf_casts :: casts where
  "cf_casts = (let bad = plain_error ''invalid input syntax'' (Some ''22P02'') False;
       num = (\<lambda>v. if v = ''200'' then Inr 200 else if v = ''0'' then Inr 0 else Inl bad)
     in \<lparr>cast_int4 = num, cast_int8 = num, cast_interval = num,
         cast_bool = (\<lambda>v. if v = ''true'' then Inr True else if v = ''false'' then Inr False else Inl bad)\<rparr>)"

lemma cf_agree: "casts_agree cf_casts"
  by (simp add: casts_agree_def cf_casts_def Let_def)

theorem config_keeps_limits_witness:
  "\<exists>t'. set_queue_config (sc_ctx 0) cf_casts (Some ''q'') (Some ''ticker_max_count'') (Some ''200'') (sc_db ''q'') = (t', Inr 1)
    \<and> map queue_ticker_max_count (t_queues t') = [200] \<and> list_all limits_ok (t_queues t')"
proof -
  let ?c = "set_queue_config (sc_ctx 0) cf_casts (Some ''q'') (Some ''ticker_max_count'') (Some ''200'') (sc_db ''q'')"
  have e: "snd ?c = Inr 1 \<and> map queue_ticker_max_count (t_queues (fst ?c)) = [200]" by code_simp
  have l: "list_all limits_ok (t_queues (sc_db ''q''))" by code_simp
  have "list_all limits_ok (t_queues (fst ?c))"
    by (rule config_keeps_limits[OF cf_agree l]) (rule prod.collapse[symmetric])
  with e show ?thesis by (metis prod.collapse)
qed

text \<open>A refused value changes nothing.\<close>

lemma zero_count_refused:
  "set_queue_config (sc_ctx 0) cf_casts (Some ''q'') (Some ''ticker_max_count'') (Some ''0'') (sc_db ''q'') =
    pg_raise ''set_queue_config: ticker_max_count must be > 0, got 0'' (sc_db ''q'')"
proof -
  let ?c = "set_queue_config (sc_ctx 0) cf_casts (Some ''q'') (Some ''ticker_max_count'') (Some ''0'') (sc_db ''q'')"
  let ?m = "''set_queue_config: ticker_max_count must be > 0, got 0''"
  have r: "snd ?c = Inl (plain_error ?m (Some ''P0001'') False)" by code_simp
  then have "fst ?c = sc_db ''q''" using config_error by (metis prod.collapse)
  with r show ?thesis by (metis prod.collapse pg_raise_def plain_error_def)
qed


text \<open>A batch of at least two events, and of at least three, which is not there yet.\<close>

lemma custom_batch_witness:
  "\<exists>t' i prev k. next_batch_custom (sc_ctx 0) ''q'' ''c'' None (Some 2) None (sc_db ''q'') = (t', Inr i)
    \<and> i = \<lparr>bi_batch = Some 1, bi_cur = Some k, bi_prev = Some prev\<rparr> \<and> 2 \<le> tick_event_seq k - tick_event_seq prev
    \<and> batch_rows 1 t' = Some (batch_event_sql (tick_snapshot prev) (tick_snapshot k) 1 [sc_events])"
proof -
  let ?n = "next_batch_custom (sc_ctx 0) ''q'' ''c'' None (Some 2) None (sc_db ''q'')"
  have h: "subs_ok (sc_db ''q'')" "ticks_rise (sc_db ''q'')" "find_queue ''q'' (sc_db ''q'') = Some (sc_queue ''q'')"
    "find_sub ''q'' ''c'' (sc_db ''q'') = Some sc_sub" "sub_batch sc_sub = None" "sub_role sc_sub = Role_normal" by code_simp+
  have s: "sub_id sc_sub = 1" "queue_events (sc_queue ''q'') = sc_events" by code_simp+
  have r: "map_sum (\<lambda>_. ()) bi_batch (snd ?n) = Inr (Some 1)" by code_simp
  then obtain t' i where n: "?n = (t', Inr i)" "bi_batch i = Some 1" by (cases ?n; cases "snd ?n") auto
  from custom_batch_respects_limits[OF h n] n(1) show ?thesis by (auto simp: at_least_def s)
qed

lemma custom_batch_waits:
  "next_batch_custom (sc_ctx 0) ''q'' ''c'' None (Some 3) None (sc_db ''q'') = (sc_db ''q'', Inr no_batch)"
proof -
  have "find_sub ''q'' ''c'' (sc_db ''q'') = Some sc_sub" "find_tick 1 (Some 1) (sc_db ''q'') = Some (sc_tick 1 10 0)"
    "find_tick_helper 1 (sc_tick 1 10 0) (Some 3) None (sc_db ''q'') = None" by code_simp+
  then show ?thesis by (simp add: next_batch_custom_def sql_defs sc_sub_def)
qed

text \<open>Ten ticks in a second at the default period, whatever the queues.\<close>

lemma ticker_loop_rate_witness:
  "ticker_loop (Some \<lparr>tick_period_ms = 100\<rparr>) sc_ctx 0 (\<lambda>i. int i * 100000) t = (u, Inr k) \<Longrightarrow> k = 10"
  using ticker_loop_rate[of 100 "\<lparr>tick_period_ms = 7\<rparr>" "Some \<lparr>tick_period_ms = 100\<rparr>" 100 "\<lambda>i. int i * 100000" 0 sc_ctx t u k]
  by (simp add: set_tick_period_ms_def)

end
