(* ===== verification/ClientErrors.thy ===== *)
theory ClientErrors
  imports Client
begin

text \<open>
  What the methods of \<open>PgqueClient\<close> (\<open>client.py\<close>) can raise, for any driver: the wrapping
  of database errors is complete, and the overflow error is recognised and pickled exactly.
\<close>

section \<open>No database error escapes\<close>


lemma send_no_psycopg: "send d s q p ty \<noteq> (s', Inl (PsycopgError e))"
  by (auto simp: send_def call_scalar_no_psycopg simp del: encode_payload.simps dest!: encode_payload_error
      split: pyval.splits sum.splits if_splits)

lemma py_list_no_psycopg: "py_list v \<noteq> Inl (PsycopgError e)"
  by (cases v) auto

lemma send_batch_no_psycopg: "send_batch d s q ty ps \<noteq> (s', Inl (PsycopgError e))"
proof
  assume a: "send_batch d s q ty ps = (s', Inl (PsycopgError e))"
  then show False
  proof (cases "mapE encode_payload ps")
    case (Inl x)
    with a show False by (auto simp: send_batch_def dest!: mapE_error encode_payload_error)
  next
    case (Inr js)
    obtain s1 r where r: "call_scalar d s ''select pgque.send_batch(%s, %s, %s::jsonb[])''
        [PyStr q, PyStr ty, PyList js] = (s1, r)" by fastforce
    with a Inr have "bindE r py_list = Inl (PsycopgError e)" "s1 = s'" by (simp_all add: send_batch_def)
    then show False using r by (auto simp: bindE_eq_Inl py_list_no_psycopg call_scalar_no_psycopg)
  qed
qed

lemma message_of_row_error: "message_of_row r = Inl e \<Longrightarrow> \<exists>m. e = IndexError m"
  by (auto simp: message_of_row_def split: if_splits)

lemma receive_no_psycopg:
  "receive d s q c n \<noteq> (s', Inl (PsycopgError e))" "receive_coop d s q c sub n dead \<noteq> (s', Inl (PsycopgError e))"
proof -
  have "bindE r (mapE message_of_row) \<noteq> Inl (PsycopgError e)"
    if "run_sql d w s sql ps = (s1, r)" "\<And>p q. w p \<noteq> PsycopgError q" for w sql ps s1 r
  proof
    assume "bindE r (mapE message_of_row) = Inl (PsycopgError e)"
    then show False using that(1) run_sql_no_psycopg[where wrap = w and d = d and s = s and sql = sql and ps = ps and s' = s1 and p = e, OF that(2)]
      by (auto simp: bindE_eq_Inl dest!: mapE_error message_of_row_error)
  qed
  then show "receive d s q c n \<noteq> (s', Inl (PsycopgError e))"
    "receive_coop d s q c sub n dead \<noteq> (s', Inl (PsycopgError e))"
    by (auto simp: receive_def receive_coop_def split: prod.splits)
qed

lemma nack_no_psycopg: "nack d s b m ra rs \<noteq> (s', Inl (PsycopgError e))"
proof
  assume "nack d s b m ra rs = (s', Inl (PsycopgError e))"
  then show False
    using run_sql_no_psycopg[of plain_wrap d s nack_sql]
    by (auto simp: nack_def bindE_eq_Inl plain_wrap_def simp del: encode_nack_payload.simps dest!: encode_nack_error split: sum.splits prod.splits)
qed

text \<open>
  Claim C35. No raw database error leaves the client: whatever the driver answers, none of the
  client's methods raises an exception of psycopg; every one is wrapped in an exception of the
  library first.
\<close>

theorem no_psycopg_error_escapes:
  "send d s q p ty \<noteq> (s', Inl (PsycopgError e)) \<and> send_batch d s q ty ps \<noteq> (s', Inl (PsycopgError e))
   \<and> subscribe d s q c \<noteq> (s', Inl (PsycopgError e)) \<and> unsubscribe d s q c \<noteq> (s', Inl (PsycopgError e))
   \<and> receive d s q c n \<noteq> (s', Inl (PsycopgError e)) \<and> ack d s b \<noteq> (s', Inl (PsycopgError e))
   \<and> nack d s b m ra rs \<noteq> (s', Inl (PsycopgError e))
   \<and> force_next_tick d s q \<noteq> (s', Inl (PsycopgError e)) \<and> force_tick d s q \<noteq> (s', Inl (PsycopgError e))
   \<and> ticker d s q \<noteq> (s', Inl (PsycopgError e)) \<and> ticker_all d s \<noteq> (s', Inl (PsycopgError e))
   \<and> subscribe_subconsumer d s q c sub \<noteq> (s', Inl (PsycopgError e))
   \<and> unsubscribe_subconsumer d s q c sub k \<noteq> (s', Inl (PsycopgError e))
   \<and> receive_coop d s q c sub n dead \<noteq> (s', Inl (PsycopgError e))
   \<and> touch_subconsumer d s q c sub \<noteq> (s', Inl (PsycopgError e))"
  by (simp add: send_no_psycopg send_batch_no_psycopg receive_no_psycopg nack_no_psycopg
      subscribe_def unsubscribe_def ack_def force_next_tick_def force_tick_def ticker_def ticker_all_def
      subscribe_subconsumer_def unsubscribe_subconsumer_def touch_subconsumer_def call_scalar_no_psycopg)

text \<open>
  Pickling keeps a receive overflow: rebuilding from what \<open>__reduce__\<close> returns and
  restoring the state with \<open>__setstate__\<close> gives the same exception, its message, operation and
  limit included.
\<close>

theorem overflow_pickle_roundtrip:
  "overflow_setstate (restore_receive_overflow_error (fst (overflow_reduce x))) (snd (overflow_reduce x)) = x"
  by (simp add: overflow_reduce_def overflow_setstate_def overflow_init_def)

text \<open>
  An error becomes \<open>PgqueReceiveOverflowError\<close> exactly when it has SQLSTATE 54000,
  comes from a call of \<open>receive\<close> or \<open>receive_coop\<close>, and its message is, letter by letter,
  the server's overflow message for that operation and that limit.
\<close>

theorem wrap_classification:
  "(\<exists>x. wrap_sql_error e op n = PgqueReceiveOverflowError x) \<longleftrightarrow>
     (\<exists>o' k. pg_sqlstate e = Some ''54000'' \<and> op = Some o' \<and> n = Some k \<and> o' \<in> {''receive'', ''receive_coop''}
        \<and> error_primary e = ''pgque.'' @ o' @ '': batch exceeds max_return of '' @ str_of_int k)"
  by (auto simp: wrap_overflow_iff is_overflow_def overflow_text_def split: option.splits)

end
