(* ===== verification/ClientTypes.thy ===== *)
theory ClientTypes
  imports Delivery ClientErrors Cooperative
begin

text \<open>
  The types that the annotations of \<open>client.py\<close> and \<open>types.py\<close> promise, on a connection to the
  SQL functions: no method fails on the shape of a row.
\<close>

fun is_int :: "pyval \<Rightarrow> bool" where
  "is_int (PyInt _) = True"
| "is_int _ = False"

fun is_str :: "pyval \<Rightarrow> bool" where
  "is_str (PyStr _) = True"
| "is_str _ = False"

fun is_datetime :: "pyval \<Rightarrow> bool" where
  "is_datetime (PyDatetime _) = True"
| "is_datetime _ = False"

definition optional :: "(pyval \<Rightarrow> bool) \<Rightarrow> pyval \<Rightarrow> bool" where
  "optional P v \<longleftrightarrow> v = PyNone \<or> P v"

definition message_typed :: "message \<Rightarrow> bool" where
  "message_typed m \<longleftrightarrow> is_int (msg_id m) \<and> is_int (batch_id m) \<and> optional is_str (msg_type m)
     \<and> optional is_str (payload m) \<and> optional is_int (retry_count m) \<and> is_datetime (created_at m)
     \<and> list_all (optional is_str) [extra1 m, extra2 m, extra3 m, extra4 m]"

text \<open>A result of the given type, or an error of the library; for methods that encode a payload also a \<open>TypeError\<close>.\<close>

definition returns :: "('a \<Rightarrow> bool) \<Rightarrow> exc + 'a \<Rightarrow> bool" where
  "returns P r \<longleftrightarrow> (case r of Inl e \<Rightarrow> isinstance e CPgqueError | Inr v \<Rightarrow> P v)"

definition encodes :: "('a \<Rightarrow> bool) \<Rightarrow> exc + 'a \<Rightarrow> bool" where
  "encodes P r \<longleftrightarrow> returns P r \<or> (case r of Inl (TypeError _) \<Rightarrow> True | _ \<Rightarrow> False)"

lemma opt_typed [simp]: "optional is_int (opt_num x)" "optional is_str (opt_text y)"
  by (simp_all add: optional_def opt_num_def opt_text_def split: option.splits)

lemma client_message_typed: "message_typed (client_message m)"
  by (simp add: message_typed_def client_message_def Let_def)

lemma execute_error: "pg_execute other ctxs s sql ps = (s', Inl e) \<Longrightarrow> \<exists>p. e = PsycopgError p"
  by (auto simp: pg_execute_def pg_block_def split: if_splits prod.splits sum.splits)

lemma run_sql_returns:
  assumes "\<And>k t t' rows. pg_call other (ctxs k) sql ps t = (t', Inr rows) \<Longrightarrow> P rows" "\<And>e. isinstance (w e) CPgqueError"
  shows "returns P (snd (run_sql (pg_driver other ctxs rep) w s sql ps))"
proof (cases "pg_execute other ctxs s sql ps")
  case (Pair s' r)
  show ?thesis
  proof (cases r)
    case (Inl e)
    with Pair execute_error[of other ctxs s sql ps s' e] assms(2) show ?thesis by (auto simp: run_sql_def returns_def)
  next
    case (Inr rows)
    obtain k where "pg_call other (ctxs k) sql ps (pg_view s) = (pg_view s', Inr rows)"
      by (rule pg_execute_ok[OF Pair[unfolded Inr]])
    from assms(1)[OF this] Pair Inr show ?thesis by (simp add: run_sql_def returns_def)
  qed
qed

lemma returns_bind: "returns P r \<Longrightarrow> (\<And>x. P x \<Longrightarrow> returns Q (f x)) \<Longrightarrow> returns Q (bindE r f)"
  by (cases r) (auto simp: returns_def)

lemma scalar_returns:
  assumes "\<And>k t t' rows. pg_call other (ctxs k) sql ps t = (t', Inr rows) \<Longrightarrow> \<exists>v. rows = [[v]] \<and> P v"
  shows "returns P (snd (call_scalar (pg_driver other ctxs rep) s sql ps))"
proof -
  have "returns (\<lambda>rows. \<exists>v. rows = [[v]] \<and> P v) (snd (run_sql (pg_driver other ctxs rep) plain_wrap s sql ps))"
    by (rule run_sql_returns) (use assms in \<open>auto simp: plain_wrap_def\<close>)
  then have "returns P (bindE (snd (run_sql (pg_driver other ctxs rep) plain_wrap s sql ps)) (\<lambda>rows. row_item (fetchone rows) 0))"
    by (rule returns_bind) (auto simp: row_item_def fetchone_def returns_def)
  then show ?thesis by (simp add: call_scalar_def case_prod_beta)
qed

lemma messages_returns:
  assumes "\<And>k t t' rows. pg_call other (ctxs k) sql ps t = (t', Inr rows) \<Longrightarrow> \<exists>pms. rows = map message_row pms"
    and "\<And>e. isinstance (w e) CPgqueError"
  shows "returns (list_all message_typed) (bindE (snd (run_sql (pg_driver other ctxs rep) w s sql ps)) (mapE message_of_row))"
proof -
  have "mapE message_of_row (map message_row pms) = Inr (map client_message pms)" for pms
    by (induction pms) (simp_all add: message_of_message_row)
  then show ?thesis
    by (intro returns_bind[OF run_sql_returns[where P = "\<lambda>rows. \<exists>pms. rows = map message_row pms"]])
       (use assms client_message_typed in \<open>auto simp: returns_def list_all_iff\<close>)
qed

lemma scalar_rows: "scalar f m t = (t', Inr rows) \<Longrightarrow> (\<And>x. P (f x)) \<Longrightarrow> \<exists>v. rows = [[v]] \<and> P v"
  using scalar_ok by fastforce

lemma ill_typed_Inr [simp]: "ill_typed t \<noteq> (t', Inr rows)"
  by (simp add: ill_typed_def pg_raise_def)

lemma bind_message_rows:
  "sql_bind m (\<lambda>ms. sql_return (map message_row ms)) t = (t', Inr rows) \<Longrightarrow> \<exists>pms. rows = map message_row pms"
  by (auto simp: sql_bind_def sql_return_def split: prod.splits sum.splits)

lemma call_rows:
  "call_send ctx ps t = (t', Inr rows) \<Longrightarrow> \<exists>v. rows = [[v]] \<and> is_int v"
  "call_send_typed ctx ps t = (t', Inr rows) \<Longrightarrow> \<exists>v. rows = [[v]] \<and> is_int v"
  "call_send_batch ctx ps t = (t', Inr rows) \<Longrightarrow> \<exists>v. rows = [[v]] \<and> (\<exists>is. v = PyList (map PyInt is))"
  "call_subscribe ctx ps t = (t', Inr rows) \<Longrightarrow> \<exists>v. rows = [[v]] \<and> is_int v"
  "call_unsubscribe ctx ps t = (t', Inr rows) \<Longrightarrow> \<exists>v. rows = [[v]] \<and> is_int v"
  "call_ack ctx ps t = (t', Inr rows) \<Longrightarrow> \<exists>v. rows = [[v]] \<and> is_int v"
  "call_force_next_tick ps t = (t', Inr rows) \<Longrightarrow> \<exists>v. rows = [[v]] \<and> optional is_int v"
  "call_ticker ctx ps t = (t', Inr rows) \<Longrightarrow> \<exists>v. rows = [[v]] \<and> optional is_int v"
  "call_ticker_all ctx ps t = (t', Inr rows) \<Longrightarrow> \<exists>v. rows = [[v]] \<and> is_int v"
  "call_subscribe_subconsumer ctx ps t = (t', Inr rows) \<Longrightarrow> \<exists>v. rows = [[v]] \<and> is_int v"
  "call_unsubscribe_subconsumer ctx ps t = (t', Inr rows) \<Longrightarrow> \<exists>v. rows = [[v]] \<and> is_int v"
  "call_touch_subconsumer ctx ps t = (t', Inr rows) \<Longrightarrow> \<exists>v. rows = [[v]] \<and> is_int v"
  unfolding call_send_def call_send_typed_def call_send_batch_def call_subscribe_def call_unsubscribe_def
    call_ack_def call_force_next_tick_def call_ticker_def call_ticker_all_def call_subscribe_subconsumer_def
    call_unsubscribe_subconsumer_def call_touch_subconsumer_def
  by (auto dest!: scalar_ok split: list.splits pyval.splits option.splits)

lemma call_message_rows:
  "call_receive ctx ps t = (t', Inr rows) \<Longrightarrow> \<exists>pms. rows = map message_row pms"
  "call_receive_coop ctx ps t = (t', Inr rows) \<Longrightarrow> \<exists>pms. rows = map message_row pms"
  unfolding call_receive_def call_receive_coop_def
  by (auto simp: pg_raise_def dest!: bind_message_rows split: list.splits pyval.splits option.splits)

lemma pg_call_coop [simp]:
  "pg_call (coop_call other) ctx ''select * from pgque.receive_coop(%s, %s, %s, %s, %s::interval)'' = call_receive_coop ctx"
  "pg_call (coop_call other) ctx ''select pgque.subscribe_subconsumer(%s, %s, %s)'' = call_subscribe_subconsumer ctx"
  "pg_call (coop_call other) ctx ''select pgque.unsubscribe_subconsumer(%s, %s, %s, %s)'' = call_unsubscribe_subconsumer ctx"
  "pg_call (coop_call other) ctx ''select pgque.touch_subconsumer(%s, %s, %s)'' = call_touch_subconsumer ctx"
  by (rule ext, simp add: pg_call_def nack_sql_def)+

lemma send_returns: "encodes is_int (snd (send (pg_driver other ctxs rep) s q p ty))"
proof -
  have sc: "encodes is_int (snd (call_scalar (pg_driver other ctxs rep) s ''select pgque.send(%s, %s, %s::jsonb)'' ps))"
    "encodes is_int (snd (call_scalar (pg_driver other ctxs rep) s ''select pgque.send(%s, %s::jsonb)'' ps))" for ps
    unfolding encodes_def by (rule disjI1, rule scalar_returns, simp add: call_rows)+
  obtain ty1 p1 where t: "(case p of PyEvent p t \<Rightarrow> (t, p) | _ \<Rightarrow> (ty, p)) = (ty1, p1)" by fastforce
  show ?thesis
  proof (cases "encode_payload p1")
    case (Inl e)
    then obtain m where "e = TypeError m" using encode_payload_error by blast
    with Inl t show ?thesis by (simp add: send_def encodes_def)
  next
    case (Inr v)
    with t sc show ?thesis by (simp add: send_def)
  qed
qed

lemma send_batch_returns: "encodes (list_all is_int) (snd (send_batch (pg_driver other ctxs rep) s q ty ps))"
proof (cases "mapE encode_payload ps")
  case (Inl e)
  from mapE_error[OF Inl] obtain m where "e = TypeError m" by (auto dest: encode_payload_error simp del: encode_payload.simps)
  with Inl show ?thesis by (simp add: send_batch_def encodes_def)
next
  case (Inr js)
  have "returns (\<lambda>v. \<exists>is. v = PyList (map PyInt is)) (snd (call_scalar (pg_driver other ctxs rep) s
      ''select pgque.send_batch(%s, %s, %s::jsonb[])'' [PyStr q, PyStr ty, PyList js]))"
    by (rule scalar_returns) (simp add: call_rows)
  then have "returns (list_all is_int) (bindE (snd (call_scalar (pg_driver other ctxs rep) s
      ''select pgque.send_batch(%s, %s, %s::jsonb[])'' [PyStr q, PyStr ty, PyList js])) py_list)"
    by (rule returns_bind) (auto simp: returns_def list_all_iff)
  with Inr show ?thesis by (simp add: send_batch_def encodes_def case_prod_beta)
qed

lemma nack_returns: "encodes (\<lambda>_. True) (snd (nack (pg_driver other ctxs rep) s bid m ra rs))"
proof (cases "encode_nack_payload (payload m)")
  case (Inl e)
  then obtain x where "e = TypeError x" using encode_nack_error by blast
  with Inl show ?thesis by (simp add: nack_def encodes_def)
next
  case (Inr body)
  have "returns (\<lambda>_. True) (snd (run_sql (pg_driver other ctxs rep) plain_wrap s nack_sql ps))" for ps
    by (rule run_sql_returns) (auto simp: plain_wrap_def)
  then have "returns (\<lambda>_. True) (bindE (snd (run_sql (pg_driver other ctxs rep) plain_wrap s nack_sql ps)) (\<lambda>_. Inr ()))" for ps
    by (rule returns_bind) (simp add: returns_def)
  with Inr show ?thesis by (simp add: nack_def encodes_def case_prod_beta)
qed


end
