(* ===== verification/ConsumerStop.thy ===== *)
theory ConsumerStop
  imports ConsumerLoops
begin

text \<open>
  Termination of the consumer (\<open>consumer.py\<close>): each of the nested loops of \<open>start\<close> advances
  the observation counter of the environment, so that all of them end once the running flag is
  clear for good.
\<close>

section \<open>Every loop observes the flag\<close>


definition stopped_from :: "env \<Rightarrow> nat \<Rightarrow> bool" where
  "stopped_from env n \<longleftrightarrow> (\<forall>k\<ge>n. \<not> run_at env k)"

lemma running_before: "stopped_from env n \<Longrightarrow> run_at env k \<Longrightarrow> k < n"
  by (metis stopped_from_def linorder_not_less)

lemma wait_loop_returns:
  "stopped_from env n \<Longrightarrow> n < fuel + i \<Longrightarrow> 0 < fuel \<Longrightarrow> \<exists>res. wait_loop fuel env deadline i = Some res"
proof (induction fuel arbitrary: i)
  case (Suc fuel)
  show ?case
  proof (cases "run_at env (i + 3)")
    case False
    then show ?thesis by (auto simp: Let_def split: sum.splits)
  next
    case True
    then have "0 < fuel \<and> n < fuel + (i + 4)"
      using running_before[OF Suc.prems(1) True] Suc.prems(2) by simp
    then obtain res where "wait_loop fuel env deadline (i + 4) = Some res"
      using Suc.IH[OF Suc.prems(1)] by blast
    then show ?thesis by (cases res) (auto simp: Let_def split: sum.splits)
  qed
qed simp

lemma wait_loop_later: "wait_loop fuel env deadline i = Some (j, ts, r) \<Longrightarrow> i < j"
proof (induction fuel env deadline i arbitrary: j ts r rule: wait_loop.induct)
  case (2 fuel env deadline i)
  then show ?case
    by (fastforce simp: Let_def split: if_splits sum.splits option.splits prod.splits)
qed simp

lemma wait_for_notify_returns:
  "stopped_from env n \<Longrightarrow> n < fuel + i \<Longrightarrow> 0 < fuel \<Longrightarrow>
     \<exists>j ts r. wait_for_notify_or_stop fuel env poll i = Some (j, ts, r) \<and> i < j"
  using wait_loop_returns[of env n fuel "i + 2" "clock_at env (Suc i) + poll"] wait_loop_later[of fuel env]
  by (fastforce simp: wait_for_notify_or_stop_def split: sum.splits)

lemma sleep_loop_returns:
  "stopped_from env n \<Longrightarrow> n < fuel + i \<Longrightarrow> 0 < fuel \<Longrightarrow> \<exists>res. sleep_loop fuel env deadline i = Some res"
proof (induction fuel env deadline i rule: sleep_loop.induct)
  case (2 fuel env deadline i)
  show ?case
  proof (cases "run_at env i \<and> 0 < deadline - clock_at env (i + 1)")
    case True
    then have "i < n" using running_before[OF "2.prems"(1)] by blast
    have "\<exists>res. sleep_loop fuel env deadline (i + 2) = Some res"
    proof (cases fuel)
      case 0
      with \<open>i < n\<close> "2.prems"(2) show ?thesis by simp
    next
      case (Suc f)
      with 2 True show ?thesis by simp
    qed
    with True show ?thesis by (auto simp: Let_def split: option.splits)
  qed (auto simp: Let_def)
qed simp

lemma wait_for_notify_later:
  "wait_for_notify_or_stop fuel env poll i = Some (j, ts, r) \<Longrightarrow> i < j"
  using wait_loop_later[of fuel env]
  by (fastforce simp: wait_for_notify_or_stop_def split: sum.splits if_splits)

lemma session_loop_later: "session_loop fuel d c env i s w = Some (j, s', w', r) \<Longrightarrow> i < j"
proof (induction fuel arbitrary: i s w)
  case (Suc fuel)
  obtain s1 w1 x where p: "poll_once d c s w = (s1, w1, x)" by (cases "poll_once d c s w")
  show ?case
  proof (cases "run_at env i \<and> run_at env (i + 1) \<and> x = Inr False")
    case False
    with Suc.prems p Suc.IH[of "i + 2" s1 w1] show ?thesis
      by (cases x) (auto split: if_splits)
  next
    case True
    show ?thesis
    proof (cases "wait_for_notify_or_stop fuel env (c_poll_interval c) (i + 2)")
      case (Some k)
      obtain l ts y where k: "k = (l, ts, y)" by (cases k)
      from wait_for_notify_later[OF Some[unfolded k]] have "i < l" by simp
      with Suc.prems p True Some k Suc.IH[of l s1 w1] show ?thesis
        by (cases y) (auto split: if_splits)
    qed (use Suc.prems p True in simp)
  qed
qed simp

lemma session_loop_returns:
  "stopped_from env n \<Longrightarrow> n < fuel + i \<Longrightarrow> 0 < fuel \<Longrightarrow> \<exists>res. session_loop fuel d c env i s w = Some res"
proof (induction fuel arbitrary: i s w)
  case (Suc fuel)
  obtain s1 w1 r where p: "poll_once d c s w = (s1, w1, r)" by (cases "poll_once d c s w")
  show ?case
  proof (cases "run_at env i \<and> run_at env (i + 1)")
    case False
    with p show ?thesis by (cases r) auto
  next
    case True
    then have lt: "i + 1 < n" using running_before[OF Suc.prems(1)] by blast
    have f: "0 < fuel" "n < fuel + (i + 2)" using lt Suc.prems(2) by simp_all
    obtain j ts x where wt: "wait_for_notify_or_stop fuel env (c_poll_interval c) (i + 2) = Some (j, ts, x)" "i + 2 < j"
      using wait_for_notify_returns[OF Suc.prems(1) f(2,1)] by blast
    have again: "\<exists>res. session_loop fuel d c env k s1 w1 = Some res" if "i + 2 \<le> k" for k
      using Suc.IH[OF Suc.prems(1) _ f(1)] f(2) that by simp
    show ?thesis
    proof (cases "r = Inr False")
      case False
      with True p again[of "i + 2"] show ?thesis by (cases r) auto
    next
      case b: True
      with True p wt again[of j] show ?thesis by (cases x) auto
    qed
  qed
qed simp

lemma run_session_returns:
  assumes "stopped_from env n" "n < fuel + i" "0 < fuel"
  shows "\<exists>j s' w' r. run_session fuel d c env i s w = Some (j, s', w', r) \<and> i \<le> j"
proof -
  obtain s1 r1 where c: "drv_connect d s (c_dsn c) True = (s1, r1)" by fastforce
  obtain s2 r2 where l: "drv_listen d s1 (''pgque_'' @ c_queue c) = (s2, r2)" by fastforce
  obtain j s3 w3 r3 where x: "session_loop fuel d c env i s2 w = Some (j, s3, w3, r3)"
    using session_loop_returns[OF assms, of d c s2 w] by (metis prod_cases4)
  from session_loop_later[OF x] c l x show ?thesis by (cases r1; cases r2) (simp_all add: run_session_def)
qed

lemma start_loop_returns:
  "stopped_from env n \<Longrightarrow> n < fuel + i \<Longrightarrow> 0 < fuel \<Longrightarrow> \<exists>res. start_loop fuel d c env i s w = Some res"
proof (induction fuel arbitrary: i s w)
  case (Suc fuel)
  show ?case
  proof (cases "run_at env i")
    case False
    then show ?thesis by simp
  next
    case True
    then have lt: "i < n" using running_before[OF Suc.prems(1)] by blast
    have f: "0 < fuel" "n < fuel + Suc i" using lt Suc.prems(2) by simp_all
    obtain j s1 w1 r where rs: "run_session fuel d c env (Suc i) s w = Some (j, s1, w1, r)" "Suc i \<le> j"
      using run_session_returns[OF Suc.prems(1) f(2,1), of d c s w] by blast
    have again: "\<exists>res. start_loop fuel d c env k s1 w1 = Some res" if "j \<le> k" for k
      using Suc.IH[OF Suc.prems(1) _ f(1)] f(2) rs(2) that by simp
    show ?thesis
    proof (cases r)
      case (Inr u)
      with True rs again[of j] show ?thesis by simp
    next
      case (Inl e)
      have "\<exists>k ts. sleep_before_reconnect fuel env (c_poll_interval c) (Suc j) = Some (k, ts) \<and> j \<le> k"
      proof -
        have "n < fuel + Suc (Suc j)" using f(2) rs(2) by simp
        from sleep_loop_returns[OF Suc.prems(1) this f(1), of "clock_at env (Suc j) + c_poll_interval c"]
        obtain k ts where "sleep_loop fuel env (clock_at env (Suc j) + c_poll_interval c) (Suc (Suc j)) = Some (k, ts)"
          by auto
        with sleep_loop_stops[OF this] show ?thesis by (simp add: sleep_before_reconnect_def)
      qed
      then obtain k ts where "sleep_before_reconnect fuel env (c_poll_interval c) (Suc j) = Some (k, ts)" "j \<le> k" by blast
      with True rs Inl again[of k] show ?thesis by simp
    qed
  qed
qed simp

text \<open>
  Claim C28. \<open>start\<close> returns once it has been stopped: if the running flag is clear from the
  n-th observation of the environment on, the consumer returns, whatever the database, the
  handlers and the clock do in between, within the loop bound n + 1.
\<close>

theorem start_returns_after_stop:
  assumes "\<forall>k\<ge>n. \<not> run_at env k"
  shows "\<exists>p' s' w' r. start (Suc n) main d c env p s w = Some (p', s', w', r)"
proof -
  have "stopped_from env n" using assms by (simp add: stopped_from_def)
  from start_loop_returns[OF this, of "Suc n" 0 d c s w] show ?thesis
    by (auto simp: start_def Let_def simp del: start_loop.simps)
qed

end
