(* ===== verification/PyText.thy ===== *)
theory PyText
  imports Errors Complex_Main "HOL-Library.List_Lexorder" "HOL-Library.Char_ord"
begin

text \<open>
  The pieces of Python's library that the scripts use: \<open>range\<close>, \<open>round\<close>, fixed-point
  formatting, \<open>int\<close> of a text, \<open>split\<close> and \<open>strip\<close>, rows of \<open>csv.DictReader\<close>, dictionaries
  as association lists in insertion order, and scripts as functions of a state that may
  raise. Floating point numbers are exact rationals.
\<close>

section \<open>Scripts\<close>

type_synonym ('s, 'a) script = "'s \<Rightarrow> 's \<times> (exc + 'a)"

definition ret :: "'a \<Rightarrow> ('s, 'a) script" where
  "ret x = (\<lambda>s. (s, Inr x))"

definition throw :: "exc \<Rightarrow> ('s, 'a) script" where
  "throw e = (\<lambda>s. (s, Inl e))"

definition andThen :: "('s, 'a) script \<Rightarrow> ('a \<Rightarrow> ('s, 'b) script) \<Rightarrow> ('s, 'b) script" where
  "andThen m f = (\<lambda>s. case m s of (s', Inl e) \<Rightarrow> (s', Inl e) | (s', Inr x) \<Rightarrow> f x s')"

text \<open>\<open>try: m finally: f\<close>: an exception of \<open>f\<close> replaces the one of \<open>m\<close>.\<close>

definition tryFinally :: "('s, 'a) script \<Rightarrow> ('s, unit) script \<Rightarrow> ('s, 'a) script" where
  "tryFinally m f = (\<lambda>s. case m s of (s1, r) \<Rightarrow>
     (case f s1 of (s2, Inl e) \<Rightarrow> (s2, Inl e) | (s2, Inr _) \<Rightarrow> (s2, r)))"

text \<open>\<open>try: m except C: f\<close>.\<close>

definition tryExcept :: "('s, 'a) script \<Rightarrow> pyclass \<Rightarrow> ('s, 'a) script \<Rightarrow> ('s, 'a) script" where
  "tryExcept m c f = (\<lambda>s. case m s of
      (s1, Inl e) \<Rightarrow> if isinstance e c then f s1 else (s1, Inl e)
    | (s1, Inr x) \<Rightarrow> (s1, Inr x))"

lemmas script_defs = ret_def throw_def andThen_def tryFinally_def tryExcept_def

lemma andThen_Inr: "andThen m f s = (s', Inr y) \<longleftrightarrow> (\<exists>s1 x. m s = (s1, Inr x) \<and> f x s1 = (s', Inr y))"
  by (auto simp: andThen_def split: prod.splits sum.splits)

lemma andThen_Inl: "andThen m f s = (s', Inl e) \<longleftrightarrow>
  m s = (s', Inl e) \<or> (\<exists>s1 x. m s = (s1, Inr x) \<and> f x s1 = (s', Inl e))"
  by (auto simp: andThen_def split: prod.splits sum.splits)

lemma tryFinally_Inr:
  "tryFinally body fin s = (s', Inr x) \<longleftrightarrow> (\<exists>s1 u. body s = (s1, Inr x) \<and> fin s1 = (s', Inr u))"
  by (cases "body s"; cases "snd (body s)") (auto simp: tryFinally_def split: prod.splits sum.splits)

lemma ret_Inr [simp]: "ret x s = (s', r) \<longleftrightarrow> s' = s \<and> r = Inr x"
  by (auto simp: ret_def)

lemma throw_eq [simp]: "throw e s = (s', r) \<longleftrightarrow> s' = s \<and> r = Inl e"
  by (auto simp: throw_def)

text \<open>A step that cannot raise.\<close>

definition returning :: "('s \<Rightarrow> 's \<times> 'a) \<Rightarrow> ('s, 'a) script" where
  "returning f = (\<lambda>s. case f s of (s', x) \<Rightarrow> (s', Inr x))"

lemma returning_Inr [simp]: "returning f s = (s', Inr x) \<longleftrightarrow> f s = (s', x)"
  by (auto simp: returning_def split: prod.splits)

lemma returning_Inl [simp]: "returning f s \<noteq> (s', Inl e)"
  by (auto simp: returning_def split: prod.splits)

section \<open>Numbers\<close>

text \<open>\<open>range(a, b, step)\<close> with a positive step.\<close>

definition range_up :: "int \<Rightarrow> int \<Rightarrow> int \<Rightarrow> int list" where
  "range_up a b step = map (\<lambda>k. a + int k * step) [0..<nat ((b - a + step - 1) div step)]"

lemma range_up_Nil: "0 < step \<Longrightarrow> b \<le> a \<Longrightarrow> range_up a b step = []"
proof -
  assume "0 < step" "b \<le> a"
  then have "(b - a + step - 1) div step \<le> 0"
    by (metis div_pos_pos_trivial div_neg_pos_less0 diff_ge_0_iff_ge int_one_le_iff_zero_less
        less_le_not_le linorder_not_less add.commute add_le_same_cancel1 diff_add_eq diff_right_mono
        le_diff_eq zle_diff1_eq)
  then show ?thesis by (simp add: range_up_def)
qed

lemma range_up_Cons:
  assumes "0 < step" "a < b"
  shows "range_up a b step = a # range_up (a + step) b step"
proof -
  let ?n = "(b - a + step - 1) div step"
  have "(b - (a + step) + step - 1) div step = ?n - 1"
  proof -
    have "b - a + step - 1 = (b - (a + step) + step - 1) + step" by simp
    then show ?thesis using assms(1) by (metis add_diff_cancel_right' div_add_self2 less_irrefl)
  qed
  moreover have "1 \<le> ?n"
  proof -
    have "step \<le> b - a + step - 1" using assms(2) by simp
    then show ?thesis using assms(1) by (metis div_self less_irrefl zdiv_mono1)
  qed
  ultimately have n: "nat ?n = Suc (nat ((b - (a + step) + step - 1) div step))" by simp
  show ?thesis
    unfolding range_up_def n by (simp add: map_upt_Suc distrib_right add.assoc del: upt_Suc)
qed

lemma range_up_step1: "range_up a b 1 = map (\<lambda>k. a + int k) [0..<nat (b - a)]"
  by (simp add: range_up_def)

lemma range_up_step1_append:
  assumes "a \<le> b" "b \<le> c"
  shows "range_up a b 1 @ range_up b c 1 = range_up a c 1"
proof -
  let ?m = "nat (b - a)" and ?l = "nat (c - b)"
  have n: "nat (c - a) = ?m + ?l" using assms by simp
  have "[?m..<?m + ?l] = map (\<lambda>k. k + ?m) [0..<?l]"
    by (metis add.commute map_add_upt)
  then have "map (\<lambda>k. a + int k) [?m..<?m + ?l] = map (\<lambda>k. b + int k) [0..<?l]"
    using assms(1) by (simp add: comp_def algebra_simps)
  moreover have "[0..<?m + ?l] = [0..<?m] @ [?m..<?m + ?l]" by (rule upt_add_eq_append) simp
  ultimately show ?thesis unfolding range_up_step1 n by (simp only: map_append)
qed

text \<open>Blocks of a fixed length cover the range, each index once.\<close>

lemma range_up_chunks:
  assumes "0 < c"
  shows "a \<le> n \<Longrightarrow> concat (map (\<lambda>f. range_up f (min (f + c) n) 1) (range_up a n c)) = range_up a n 1"
proof (induction "nat (n - a)" arbitrary: a rule: less_induct)
  case less
  show ?case
  proof (cases "a < n")
    case False
    with less.prems assms show ?thesis by (simp add: range_up_Nil)
  next
    case lt: True
    show ?thesis
    proof (cases "a + c \<le> n")
      case True
      have "nat (n - (a + c)) < nat (n - a)" using assms lt by simp
      from less.hyps[OF this True] assms True show ?thesis
        by (simp add: range_up_Cons[OF assms lt] min_def range_up_step1_append[of a "a + c" n])
    next
      case False
      with assms lt show ?thesis by (simp add: range_up_Cons[OF assms lt] min_def range_up_Nil)
    qed
  qed
qed

definition py_round :: "rat \<Rightarrow> int" where
  "py_round x = (let f = \<lfloor>x\<rfloor>; d = x - of_int f in
     if d < 1 / 2 then f else if 1 / 2 < d then f + 1 else if even f then f else f + 1)"

lemma py_round_of_int [simp]: "py_round (of_int n) = n"
  by (simp add: py_round_def)

lemma py_round_mono_bounds: "of_int a \<le> x \<Longrightarrow> x \<le> of_int b \<Longrightarrow> a \<le> py_round x \<and> py_round x \<le> b"
proof -
  assume a: "of_int a \<le> x" and b: "x \<le> of_int b"
  have f: "a \<le> \<lfloor>x\<rfloor>" using a by (simp add: le_floor_iff)
  have "py_round x \<le> \<lceil>x\<rceil>"
  proof (cases "x = of_int \<lfloor>x\<rfloor>")
    case True
    then have "py_round x = \<lfloor>x\<rfloor>" by (simp add: py_round_def)
    then show ?thesis by (simp add: floor_le_ceiling)
  next
    case False
    then have "\<lceil>x\<rceil> = \<lfloor>x\<rfloor> + 1" by (metis ceiling_altdef)
    then show ?thesis by (auto simp: py_round_def Let_def)
  qed
  moreover have "\<lceil>x\<rceil> \<le> b" using b by (simp add: ceiling_le_iff)
  moreover have "\<lfloor>x\<rfloor> \<le> py_round x" by (auto simp: py_round_def Let_def)
  ultimately show ?thesis using f by simp
qed

lemma average_between:
  assumes "xs \<noteq> []" "\<And>x. x \<in> set xs \<Longrightarrow> lo \<le> x \<and> x \<le> (hi :: rat)"
  shows "lo \<le> sum_list xs / of_nat (length xs) \<and> sum_list xs / of_nat (length xs) \<le> hi"
proof -
  have n: "0 < (of_nat (length xs) :: rat)" using assms(1) by simp
  have "sum_list xs \<le> of_nat (length xs) * hi"
    using sum_list_mono[of xs "\<lambda>x. x" "\<lambda>_. hi"] assms(2) by (simp add: sum_list_triv)
  moreover have "of_nat (length xs) * lo \<le> sum_list xs"
    using sum_list_mono[of xs "\<lambda>_. lo" "\<lambda>x. x"] assms(2) by (simp add: sum_list_triv)
  ultimately show ?thesis using n by (simp add: field_simps)
qed

text \<open>\<open>f"{x:.kf}"\<close>.\<close>

fun pad_left :: "nat \<Rightarrow> string \<Rightarrow> string" where
  "pad_left n s = replicate (n - length s) (CHR ''0'') @ s"

definition fmt_fixed :: "nat \<Rightarrow> rat \<Rightarrow> string" where
  "fmt_fixed k x = (let n = nat (py_round (\<bar>x\<bar> * 10 ^ k)) in
     (if x < 0 then ''-'' else []) @ str_of_nat (n div 10 ^ k)
     @ (if k = 0 then [] else ''.'' @ pad_left k (str_of_nat (n mod 10 ^ k))))"

section \<open>Text\<close>

definition is_space :: "char \<Rightarrow> bool" where
  "is_space c \<longleftrightarrow> (of_char c :: nat) \<in> {9, 10, 11, 12, 13, 28, 29, 30, 31, 32}"

definition strip :: "string \<Rightarrow> string" where
  "strip s = rev (dropWhile is_space (rev (dropWhile is_space s)))"

text \<open>\<open>int(text)\<close>: white space around an optional sign and decimal digits.\<close>

definition py_int :: "string \<Rightarrow> exc + int" where
  "py_int s = (let t = strip s;
       (neg, ds) = (case t of [] \<Rightarrow> (False, []) | c # cs \<Rightarrow>
          if c = CHR ''-'' then (True, cs) else if c = CHR ''+'' then (False, cs) else (False, t)) in
     if ds \<noteq> [] \<and> list_all is_digit ds
     then Inr (if neg then - int (nat_of_str ds) else int (nat_of_str ds))
     else Inl (ValueError ''invalid literal for int()''))"

text \<open>\<open>text.split(",")\<close> at one character.\<close>

fun split_at :: "char \<Rightarrow> string \<Rightarrow> string list" where
  "split_at c [] = [[]]"
| "split_at c (x # xs) = (if x = c then [] # split_at c xs
     else (case split_at c xs of [] \<Rightarrow> [[x]] | p # ps \<Rightarrow> (x # p) # ps))"

text \<open>\<open>text.split()\<close> at white space.\<close>

definition split_ws :: "string \<Rightarrow> string list" where
  "split_ws s = filter (\<lambda>p. p \<noteq> []) (split_at (CHR '' '') (map (\<lambda>c. if is_space c then CHR '' '' else c) s))"

text \<open>\<open>text.split(sep, 1)\<close> where the separator occurs.\<close>

definition split_first :: "char \<Rightarrow> string \<Rightarrow> (string \<times> string) option" where
  "split_first c s = (if c \<in> set s then Some (takeWhile (\<lambda>x. x \<noteq> c) s, drop 1 (dropWhile (\<lambda>x. x \<noteq> c) s)) else None)"

lemma split_at_ne: "split_at c s \<noteq> []"
  by (induction s) (auto split: list.splits)

lemma strip_id: "s = [] \<or> (\<not> is_space (hd s) \<and> \<not> is_space (last s)) \<Longrightarrow> strip s = s"
proof -
  have d: "dropWhile is_space u = u" if "u = [] \<or> \<not> is_space (hd u)" for u
    using that by (cases u) auto
  assume "s = [] \<or> (\<not> is_space (hd s) \<and> \<not> is_space (last s))"
  then show ?thesis by (auto simp: strip_def d hd_rev)
qed

lemma is_digit_not_space: "is_digit c \<Longrightarrow> \<not> is_space c"
  by (auto simp: is_digit_def is_space_def Let_def)

lemma is_digit_not_sign: "is_digit c \<Longrightarrow> c \<noteq> CHR ''-'' \<and> c \<noteq> CHR ''+''"
  by (auto simp: is_digit_def)

lemma py_int_str_of_nat [simp]: "py_int (str_of_nat n) = Inr (int n)"
proof -
  let ?s = "str_of_nat n"
  have d: "is_digit c" if "c \<in> set ?s" for c using that by (rule str_of_nat_digits)
  have s: "strip ?s = ?s" by (rule strip_id) (simp add: d is_digit_not_space)
  obtain x xs where x: "?s = x # xs" by (cases ?s) auto
  have "is_digit x" using d x by simp
  then show ?thesis
    using s x d is_digit_not_sign[of x] nat_of_str_of_nat[of n]
    by (auto simp: py_int_def Let_def list_all_iff)
qed

text \<open>\<open>float(text)\<close> for decimal literals: digits, a point, an exponent. Infinities are left out.\<close>

definition py_exponent :: "string \<Rightarrow> int option" where
  "py_exponent s = (case s of [] \<Rightarrow> Some 0
     | c # cs \<Rightarrow> if c = CHR ''e'' \<or> c = CHR ''E''
         then (case py_int cs of Inr n \<Rightarrow> (if list_ex is_space cs then None else Some n) | Inl _ \<Rightarrow> None) else None)"

definition py_float :: "string \<Rightarrow> exc + rat" where
  "py_float s = (let t = strip s;
       neg = prefix ''-'' t; u = (if prefix ''-'' t \<or> prefix ''+'' t then drop 1 t else t);
       whole = takeWhile is_digit u; rest = dropWhile is_digit u;
       point = prefix ''.'' rest;
       frac = (if point then takeWhile is_digit (drop 1 rest) else []);
       tail = (if point then dropWhile is_digit (drop 1 rest) else rest);
       mant = of_nat (nat_of_str (whole @ frac)) / 10 ^ length frac in
     (if whole @ frac = [] then Inl (ValueError ''could not convert string to float'')
      else case py_exponent tail of
          None \<Rightarrow> Inl (ValueError ''could not convert string to float'')
        | Some e \<Rightarrow> Inr ((if neg then - 1 else 1) * (if 0 \<le> e then mant * 10 ^ nat e else mant / 10 ^ nat (- e)))))"

text \<open>Thousands separators, as in \<open>f"{n:,}"\<close>; the digits are given backwards.\<close>

fun group_digits :: "string \<Rightarrow> string" where
  "group_digits (a # b # c # d # ds) = a # b # c # CHR '','' # group_digits (d # ds)"
| "group_digits ds = ds"

definition fmt_commas :: "int \<Rightarrow> string" where
  "fmt_commas n = (if n < 0 then ''-'' else []) @ rev (group_digits (rev (str_of_nat (nat \<bar>n\<bar>))))"

section \<open>Dictionaries and rows\<close>

text \<open>A dictionary in insertion order; assigning to a key that is present keeps its place.\<close>

fun dict_set :: "'k \<Rightarrow> 'v \<Rightarrow> ('k \<times> 'v) list \<Rightarrow> ('k \<times> 'v) list" where
  "dict_set k v [] = [(k, v)]"
| "dict_set k v ((k', v') # d) = (if k' = k then (k, v) # d else (k', v') # dict_set k v d)"

definition dict_get :: "'k \<Rightarrow> 'v \<Rightarrow> ('k \<times> 'v) list \<Rightarrow> 'v" where
  "dict_get k v d = (case map_of d k of None \<Rightarrow> v | Some x \<Rightarrow> x)"

definition dict_item :: "string \<Rightarrow> (string \<times> 'v) list \<Rightarrow> exc + 'v" where
  "dict_item k d = (case map_of d k of None \<Rightarrow> Inl (OtherException (''KeyError: '' @ k)) | Some x \<Rightarrow> Inr x)"

lemma map_of_dict_set: "map_of (dict_set k v d) = (map_of d)(k \<mapsto> v)"
  by (induction d) (auto simp: fun_eq_iff)

lemma dict_get_set: "dict_get k x (dict_set k' v d) = (if k = k' then v else dict_get k x d)"
  by (simp add: dict_get_def map_of_dict_set)

lemma keys_dict_set: "fst ` set (dict_set k v d) = insert k (fst ` set d)"
proof (induction d)
  case (Cons p d)
  then show ?case by (cases p) auto
qed simp

lemma distinct_dict_set: "distinct (map fst d) \<Longrightarrow> distinct (map fst (dict_set k v d))"
proof (induction d)
  case (Cons p d)
  obtain k' v' where p: "p = (k', v')" by (cases p)
  have "k' \<noteq> k \<Longrightarrow> k' \<notin> fst ` set (dict_set k v d)" using Cons.prems p by (auto simp: keys_dict_set)
  with Cons p show ?case by auto
qed simp

text \<open>The sum of the values after adding to one entry (a \<open>defaultdict(int)\<close> update).\<close>

lemma sum_dict_add:
  "sum_list (map snd (dict_set k (dict_get k 0 d + n) d)) = sum_list (map snd d) + (n :: int)"
  by (induction d) (auto simp: dict_get_def)

lemma dict_set_ne [simp]: "dict_set k v d \<noteq> []"
  by (cases "(k, v, d)" rule: dict_set.cases) auto

text \<open>A row of \<open>csv.DictReader\<close> maps the column names to texts.\<close>

type_synonym csv_row = "(string \<times> string) list"

text \<open>\<open>int(row.get(k, "0") or 0)\<close>, and the same with \<open>float\<close>.\<close>

definition int_or0 :: "string \<Rightarrow> csv_row \<Rightarrow> exc + int" where
  "int_or0 k r = (case map_of r k of None \<Rightarrow> Inr 0 | Some t \<Rightarrow> if t = [] then Inr 0 else py_int t)"

definition float_or0 :: "string \<Rightarrow> csv_row \<Rightarrow> exc + rat" where
  "float_or0 k r = (case map_of r k of None \<Rightarrow> Inr 0 | Some t \<Rightarrow> if t = [] then Inr 0 else py_float t)"

definition int_column :: "string \<Rightarrow> csv_row \<Rightarrow> exc + int" where
  "int_column k r = bindE (dict_item k r) py_int"

end
