(* ===== verification/ProducerBench.thy ===== *)
theory ProducerBench
  imports SqlErrors PyText
begin

text \<open>
  \<open>clients/python/bench_producer.py\<close>: measuring a loop of \<open>send\<close> against one \<open>send_batch\<close>.
  Random queue suffixes and the clock are functions of the repetition; the environment
  supplies the address and the number of repetitions.
\<close>

record bench_result =
  br_language :: string
  br_method :: string
  br_batch_size :: int
  br_median_ms :: rat
  br_events_per_sec :: "rat option"
  br_repeats :: int

definition BATCH_SIZES :: "int list" where
  "BATCH_SIZES = [1, 100, 1000]"

record bench_env =
  be_token :: "string \<Rightarrow> int \<Rightarrow> nat \<Rightarrow> string"
  be_begin :: "string \<Rightarrow> int \<Rightarrow> nat \<Rightarrow> rat"
  be_end :: "string \<Rightarrow> int \<Rightarrow> nat \<Rightarrow> rat"

text \<open>\<open>statistics.median\<close>.\<close>

definition median :: "rat list \<Rightarrow> exc + rat" where
  "median xs = (let ys = sort xs; n = length ys in
     if n = 0 then Inl (OtherException ''StatisticsError: no median for empty data'')
     else if odd n then Inr (ys ! (n div 2))
     else Inr ((ys ! (n div 2 - 1) + ys ! (n div 2)) / 2))"

definition display_method :: "string \<Rightarrow> string" where
  "display_method m = (if m = ''send_loop'' then ''loop over send()'' else ''send_batch()'')"

fun send_loop :: "'s driver \<Rightarrow> string \<Rightarrow> pyval list \<Rightarrow> ('s, unit) script" where
  "send_loop d queue [] = ret ()"
| "send_loop d queue (p # payloads) =
     andThen (\<lambda>s. send d s queue p ''bench.producer'') (\<lambda>_. send_loop d queue payloads)"

definition bench_send_batch :: "'s driver \<Rightarrow> string \<Rightarrow> pyval list \<Rightarrow> ('s, unit) script" where
  "bench_send_batch d queue payloads =
     andThen (\<lambda>s. send_batch d s queue ''bench.producer'' payloads) (\<lambda>_. ret ())"

definition scalar_of :: "'s driver \<Rightarrow> string \<Rightarrow> pyval list \<Rightarrow> ('s, pyval) script" where
  "scalar_of d sql ps = andThen (\<lambda>s. drv_execute d s sql ps) (\<lambda>rows.
     (case row_item (fetchone rows) 0 of Inl e \<Rightarrow> throw e | Inr v \<Rightarrow> ret v))"

definition verify_count :: "'s driver \<Rightarrow> string \<Rightarrow> int \<Rightarrow> ('s, unit) script" where
  "verify_count d queue expected =
     andThen (scalar_of d ''select pgque.current_event_table(%s)'' [PyStr queue]) (\<lambda>table.
     andThen (scalar_of d (''select count(*) from '' @ py_str (drv_rep d) table) []) (\<lambda>got.
     if got \<noteq> PyInt expected then throw (OtherException (''RuntimeError: '' @ queue @ '': expected ''
        @ str_of_int expected @ '' events, got '' @ py_str (drv_rep d) got))
     else ret ()))"

definition bench_payload :: "string \<Rightarrow> int \<Rightarrow> pyval" where
  "bench_payload m i = PyDict [(PyStr ''i'', PyInt i), (PyStr ''lang'', PyStr ''python''),
     (PyStr ''method'', PyStr m)]"

text \<open>One repetition: the elapsed time, and the queue dropped however it ends.\<close>

definition measure_once :: "'s driver \<Rightarrow> bench_env \<Rightarrow> string \<Rightarrow> int
    \<Rightarrow> (string \<Rightarrow> pyval list \<Rightarrow> ('s, unit) script) \<Rightarrow> nat \<Rightarrow> ('s, rat) script" where
  "measure_once d env m n fn k =
     (let queue = ''pybench_'' @ m @ ''_'' @ str_of_int n @ ''_'' @ be_token env m n k;
          payloads = map (bench_payload m) (range_up 0 n 1)
      in andThen (\<lambda>s. drv_execute d s ''select pgque.create_queue(%s)'' [PyStr queue]) (\<lambda>_.
         andThen (drv_commit d) (\<lambda>_.
         tryFinally
           (andThen (fn queue payloads) (\<lambda>_.
            andThen (drv_commit d) (\<lambda>_.
            andThen (verify_count d queue n) (\<lambda>_.
            ret (be_end env m n k - be_begin env m n k)))))
           (andThen (drv_rollback d) (\<lambda>_.
            andThen (\<lambda>s. drv_execute d s ''select pgque.drop_queue(%s, true)'' [PyStr queue]) (\<lambda>_.
            drv_commit d))))))"

fun measure_loop :: "'s driver \<Rightarrow> bench_env \<Rightarrow> string \<Rightarrow> int
    \<Rightarrow> (string \<Rightarrow> pyval list \<Rightarrow> ('s, unit) script) \<Rightarrow> nat list \<Rightarrow> ('s, rat list) script" where
  "measure_loop d env m n fn [] = ret []"
| "measure_loop d env m n fn (k # ks) =
     andThen (measure_once d env m n fn k) (\<lambda>t.
     andThen (measure_loop d env m n fn ks) (\<lambda>ts. ret (t # ts)))"

definition measure_method :: "'s driver \<Rightarrow> bench_env \<Rightarrow> int \<Rightarrow> string \<Rightarrow> int
    \<Rightarrow> (string \<Rightarrow> pyval list \<Rightarrow> ('s, unit) script) \<Rightarrow> ('s, bench_result) script" where
  "measure_method d env repeats m n fn =
     andThen (measure_loop d env m n fn [0..<nat repeats]) (\<lambda>durations.
     case median durations of
       Inl e \<Rightarrow> throw e
     | Inr median_s \<Rightarrow> ret \<lparr>br_language = ''python'', br_method = m, br_batch_size = n,
         br_median_ms = median_s * 1000,
         br_events_per_sec = (if 0 < median_s then Some (of_int n / median_s) else None),
         br_repeats = repeats\<rparr>)"

fun bench_sizes :: "'s driver \<Rightarrow> bench_env \<Rightarrow> int \<Rightarrow> int list \<Rightarrow> ('s, bench_result list) script" where
  "bench_sizes d env repeats [] = ret []"
| "bench_sizes d env repeats (n # ns) =
     andThen (measure_method d env repeats ''send_loop'' n (send_loop d)) (\<lambda>r1.
     andThen (measure_method d env repeats ''send_batch'' n (bench_send_batch d)) (\<lambda>r2.
     andThen (bench_sizes d env repeats ns) (\<lambda>rs. ret (r1 # r2 # rs))))"

text \<open>\<open>main\<close>: the results that it prints; \<open>None\<close> without an address.\<close>

definition bench_main :: "'s driver \<Rightarrow> string option \<Rightarrow> bench_env \<Rightarrow> int
    \<Rightarrow> ('s, bench_result list option) script" where
  "bench_main d dsn env repeats =
     (case dsn of
        None \<Rightarrow> ret None
      | Some [] \<Rightarrow> ret None
      | Some url \<Rightarrow>
          andThen (\<lambda>s. connect d s url False) (\<lambda>c.
          andThen (tryFinally (bench_sizes d env repeats BATCH_SIZES) (\<lambda>s. (client_close d c s, Inr ())))
            (\<lambda>rs. ret (Some rs))))"

text \<open>
  What \<open>main\<close> prints: a table and the same results as CSV, or that it was skipped. The number
  of repetitions comes from the environment.
\<close>

definition bench_repeats :: "string option \<Rightarrow> exc + int" where
  "bench_repeats env = py_int (case env of None \<Rightarrow> ''3'' | Some v \<Rightarrow> v)"

definition events_text :: "rat option \<Rightarrow> string" where
  "events_text x = (case x of None \<Rightarrow> ''inf'' | Some v \<Rightarrow> fmt_fixed 0 v)"

definition table_row :: "bench_result \<Rightarrow> string" where
  "table_row r = ''| '' @ display_method (br_method r) @ '' | '' @ str_of_int (br_batch_size r) @ '' | ''
     @ fmt_fixed 3 (br_median_ms r) @ '' | '' @ events_text (br_events_per_sec r) @ '' | '' @ str_of_int (br_repeats r) @ '' |''"

definition csv_row :: "bench_result \<Rightarrow> string" where
  "csv_row r = br_language r @ '','' @ br_method r @ '','' @ str_of_int (br_batch_size r) @ '',''
     @ fmt_fixed 3 (br_median_ms r) @ '','' @ events_text (br_events_per_sec r) @ '','' @ str_of_int (br_repeats r)"

definition bench_report :: "bench_result list \<Rightarrow> string list" where
  "bench_report results =
     [''# pgque-py producer benchmark'', [],
      ''| method | batch_size | median_ms | events_per_sec | repeats |'', ''|---|---:|---:|---:|---:|'']
     @ map table_row results
     @ [[], ''```csv'', ''language,method,batch_size,median_ms,events_per_sec,repeats'']
     @ map csv_row results @ [''```'']"

definition bench_output :: "bench_result list option \<Rightarrow> string list" where
  "bench_output out = (case out of
      None \<Rightarrow> [''PGQUE_TEST_DSN not set; skipping pgque-py producer benchmarks'']
    | Some results \<Rightarrow> bench_report results)"

section \<open>The report\<close>

lemma split_at_field:
  "c \<notin> set xs \<Longrightarrow> split_at c (xs @ c # ys) = xs # split_at c ys" "c \<notin> set xs \<Longrightarrow> split_at c xs = [xs]"
  by (induction xs) auto

lemma digits_no_comma [simp]: "CHR '','' \<notin> set (str_of_nat n)" "CHR '','' \<notin> set (str_of_int i)"
  using str_of_nat_digits[of "CHR '',''" n] str_of_int_chars[of "CHR '',''" i] by (auto simp: is_digit_def)

lemma fmt_fixed_no_comma [simp]: "CHR '','' \<notin> set (fmt_fixed k x)"
  by (auto simp: fmt_fixed_def Let_def)

lemma csv_row_fields:
  assumes "CHR '','' \<notin> set (br_language r)" "CHR '','' \<notin> set (br_method r)"
  shows "split_at (CHR '','') (csv_row r) = [br_language r, br_method r, str_of_int (br_batch_size r),
    fmt_fixed 3 (br_median_ms r), events_text (br_events_per_sec r), str_of_int (br_repeats r)]"
  using assms by (simp add: csv_row_def split_at_field events_text_def split: option.split)

lemma measure_method_labels:
  assumes "measure_method d env repeats m n fn s = (s', Inr r)"
  shows "br_language r = ''python'' \<and> br_method r = m \<and> br_batch_size r = n \<and> br_repeats r = repeats"
proof -
  from assms obtain s1 ds where r: "(case median ds of Inl e \<Rightarrow> throw e
      | Inr median_s \<Rightarrow> ret \<lparr>br_language = ''python'', br_method = m, br_batch_size = n,
         br_median_ms = median_s * 1000,
         br_events_per_sec = (if 0 < median_s then Some (of_int n / median_s) else None),
         br_repeats = repeats\<rparr>) s1 = (s', Inr r)"
    by (auto simp: measure_method_def andThen_Inr)
  then show ?thesis by (cases "median ds") auto
qed

lemma bench_sizes_labels:
  "bench_sizes d env repeats ns s = (s', Inr rs) \<Longrightarrow>
    map (\<lambda>r. (br_language r, br_method r, br_batch_size r, br_repeats r)) rs
    = concat (map (\<lambda>n. [(''python'', ''send_loop'', n, repeats), (''python'', ''send_batch'', n, repeats)]) ns)"
proof (induction ns arbitrary: s rs)
  case (Cons n ns)
  from Cons.prems obtain s1 s2 r1 r2 rs' where "measure_method d env repeats ''send_loop'' n (send_loop d) s = (s1, Inr r1)"
    "measure_method d env repeats ''send_batch'' n (bench_send_batch d) s1 = (s2, Inr r2)"
    "bench_sizes d env repeats ns s2 = (s', Inr rs')" "rs = r1 # r2 # rs'"
    by (auto simp: andThen_Inr)
  with Cons.IH[of s2 rs'] show ?case by (auto dest!: measure_method_labels)
qed simp

text \<open>
  The report is complete: a benchmark that returns has printed, as a table and as CSV, one row per method and
  batch size in the order of the runs, and each CSV row splits into the six columns of its header.
\<close>

theorem bench_report_complete:
  assumes "bench_main d dsn env repeats s = (s', Inr (Some rs))"
  shows "length rs = 6
    \<and> bench_output (Some rs) = take 4 (bench_report []) @ map table_row rs @ take 3 (drop 4 (bench_report [])) @ map csv_row rs @ [''```'']
    \<and> map (\<lambda>r. take 3 (split_at (CHR '','') (csv_row r))) rs
      = concat (map (\<lambda>n. [[''python'', ''send_loop'', str_of_int n], [''python'', ''send_batch'', str_of_int n]]) BATCH_SIZES)
    \<and> list_all (\<lambda>r. length (split_at (CHR '','') (csv_row r)) = length (split_at (CHR '','') ''language,method,batch_size,median_ms,events_per_sec,repeats'')) rs"
proof -
  obtain s1 s2 where "bench_sizes d env repeats BATCH_SIZES s1 = (s2, Inr rs)"
    using assms by (auto simp: bench_main_def andThen_Inr tryFinally_Inr split: option.splits list.splits)
  note l = bench_sizes_labels[OF this]
  let ?f = "\<lambda>r. (br_language r, br_method r, br_batch_size r, br_repeats r)"
  have len: "length rs = 6" using arg_cong[OF l, of length] by (simp add: BATCH_SIZES_def)
  have "set (map ?f rs) = set (concat (map (\<lambda>n. [(''python'', ''send_loop'', n, repeats), (''python'', ''send_batch'', n, repeats)]) BATCH_SIZES))"
    by (simp only: l)
  then have "?f r \<in> set (concat (map (\<lambda>n. [(''python'', ''send_loop'', n, repeats), (''python'', ''send_batch'', n, repeats)]) BATCH_SIZES))"
    if "r \<in> set rs" for r using that by (metis (no_types, lifting) image_eqI list.set_map)
  then have ok: "CHR '','' \<notin> set (br_language r) \<and> CHR '','' \<notin> set (br_method r)" if "r \<in> set rs" for r
    using that by (fastforce simp: BATCH_SIZES_def)
  note fields = csv_row_fields[OF conjunct1[OF ok] conjunct2[OF ok]]
  have "map (\<lambda>r. take 3 (split_at (CHR '','') (csv_row r))) rs = map (\<lambda>r. [br_language r, br_method r, str_of_int (br_batch_size r)]) rs"
    by (intro map_cong refl) (simp add: fields)
  also have "\<dots> = map (\<lambda>(a, b, c, d). [a, b, str_of_int c]) (map ?f rs)" by simp
  also have "\<dots> = concat (map (\<lambda>n. [[''python'', ''send_loop'', str_of_int n], [''python'', ''send_batch'', str_of_int n]]) BATCH_SIZES)"
    unfolding l by (simp add: BATCH_SIZES_def)
  finally show ?thesis using len by (simp add: list_all_iff fields bench_output_def bench_report_def)
qed

section \<open>The median\<close>

lemma sorted_counts:
  fixes ys :: "rat list"
  assumes "sorted ys" "k \<le> length ys"
  shows "\<lbrakk>\<And>i. i < k \<Longrightarrow> ys ! i \<le> m\<rbrakk> \<Longrightarrow> k \<le> length (filter (\<lambda>x. x \<le> m) ys)"
    and "\<lbrakk>\<And>i. k \<le> i \<Longrightarrow> i < length ys \<Longrightarrow> m \<le> ys ! i\<rbrakk> \<Longrightarrow> length ys - k \<le> length (filter (\<lambda>x. m \<le> x) ys)"
proof -
  have split: "filter P ys = filter P (take k ys) @ filter P (drop k ys)" for P
    by (metis append_take_drop_id filter_append)
  show "k \<le> length (filter (\<lambda>x. x \<le> m) ys)" if "\<And>i. i < k \<Longrightarrow> ys ! i \<le> m"
  proof -
    have "filter (\<lambda>x. x \<le> m) (take k ys) = take k ys"
      using that assms(2) by (auto intro!: filter_eq_self simp: in_set_conv_nth)
    then show ?thesis using assms(2) by (simp add: split)
  qed
  show "length ys - k \<le> length (filter (\<lambda>x. m \<le> x) ys)" if "\<And>i. k \<le> i \<Longrightarrow> i < length ys \<Longrightarrow> m \<le> ys ! i"
  proof -
    have "filter (\<lambda>x. m \<le> x) (drop k ys) = drop k ys"
      using that by (auto intro!: filter_eq_self simp: in_set_conv_nth)
    then show ?thesis by (simp add: split)
  qed
qed

lemma median_sorted:
  assumes "median xs = Inr m"
  defines "ys \<equiv> sort xs" and "h \<equiv> length xs div 2"
  shows "h < length ys" "length ys = length xs"
    and "odd (length xs) \<Longrightarrow> m = ys ! h" "even (length xs) \<Longrightarrow> m = (ys ! (h - 1) + ys ! h) / 2 \<and> 0 < h"
proof -
  have n: "length xs \<noteq> 0" using assms(1) by (auto simp: median_def)
  then have y: "sort xs \<noteq> []" by (metis length_0_conv length_sort)
  from n show "h < length ys" "length ys = length xs" by (simp_all add: ys_def h_def)
  show "m = ys ! h" if "odd (length xs)"
    using assms(1) y that by (simp add: median_def Let_def ys_def h_def)
  show "m = (ys ! (h - 1) + ys ! h) / 2 \<and> 0 < h" if "even (length xs)"
  proof
    show "m = (ys ! (h - 1) + ys ! h) / 2"
      using assms(1) y that by (simp add: median_def Let_def ys_def h_def)
    show "0 < h" using n that unfolding h_def by presburger
  qed
qed

lemma median_halves:
  assumes "median xs = Inr m"
  shows "length xs \<le> 2 * length (filter (\<lambda>x. x \<le> m) xs) \<and> length xs \<le> 2 * length (filter (\<lambda>x. m \<le> x) xs)"
proof -
  let ?ys = "sort xs" and ?h = "length xs div 2"
  have count: "length (filter P xs) = length (filter P ?ys)" for P
    by (metis mset_filter mset_sort size_mset)
  note c = sorted_counts[of ?ys, OF sorted_sort]
  have mono: "?ys ! i \<le> ?ys ! j" if "i \<le> j" "j < length xs" for i j
    using that by (simp add: sorted_nth_mono)
  have h: "?h < length xs" using median_sorted(1)[OF assms] by simp
  show ?thesis
  proof (cases "odd (length xs)")
    case True
    note m = median_sorted(3)[OF assms True]
    have "Suc ?h \<le> length (filter (\<lambda>x. x \<le> m) ?ys)"
      using mono h unfolding m by (intro c(1)) auto
    moreover have "length xs - ?h \<le> length (filter (\<lambda>x. m \<le> x) ?ys)"
      using mono h unfolding m by (intro order_trans[OF _ c(2)[of ?h]]) auto
    ultimately show ?thesis unfolding count using True by presburger
  next
    case False
    with median_sorted(4)[OF assms] have m: "m = (?ys ! (?h - 1) + ?ys ! ?h) / 2" "0 < ?h" by auto
    have mid: "?ys ! (?h - 1) \<le> m" "m \<le> ?ys ! ?h" using mono[of "?h - 1" ?h] h m by (simp_all add: field_simps)
    have "?h \<le> length (filter (\<lambda>x. x \<le> m) ?ys)"
      using mono[of _ "?h - 1"] h mid by (intro c(1)) (auto intro!: order_trans[OF _ mid(1)])
    moreover have "length xs - ?h \<le> length (filter (\<lambda>x. m \<le> x) ?ys)"
      using mono h by (intro order_trans[OF _ c(2)[of ?h]]) (auto intro!: order_trans[OF mid(2)])
    ultimately show ?thesis unfolding count using False by presburger
  qed
qed

lemma measure_once_time: "measure_once d env m n fn k s = (s', Inr t) \<Longrightarrow> t = be_end env m n k - be_begin env m n k"
  by (auto simp: measure_once_def Let_def andThen_Inr tryFinally_Inr ret_def)

lemma measure_loop_times:
  "measure_loop d env m n fn ks s = (s', Inr ts) \<Longrightarrow> ts = map (\<lambda>k. be_end env m n k - be_begin env m n k) ks"
  by (induction ks arbitrary: s ts) (auto simp: andThen_Inr ret_def dest: measure_once_time)

text \<open>
  What a benchmark reports is a median over all its repetitions: at least half of
  the measured times (rounded up) are at most the reported one, at least half are at least
  it, there is one time per repetition, and the rate is the batch size over the median.
\<close>

theorem measured_median:
  assumes "measure_method d env repeats m n fn s = (s', Inr r)"
  defines "ts \<equiv> map (\<lambda>k. (be_end env m n k - be_begin env m n k) * 1000) [0..<nat repeats]"
  shows "ts \<noteq> [] \<and> br_batch_size r = n \<and> br_method r = m \<and> br_repeats r = repeats
    \<and> length ts \<le> 2 * length (filter (\<lambda>x. x \<le> br_median_ms r) ts)
    \<and> length ts \<le> 2 * length (filter (\<lambda>x. br_median_ms r \<le> x) ts)
    \<and> br_events_per_sec r = (if 0 < br_median_ms r then Some (of_int n * 1000 / br_median_ms r) else None)"
proof -
  let ?xs = "map (\<lambda>k. be_end env m n k - be_begin env m n k) [0..<nat repeats]"
  from assms(1) obtain med where med: "median ?xs = Inr med"
    and r: "br_method r = m" "br_batch_size r = n" "br_repeats r = repeats" "br_median_ms r = med * 1000"
      "br_events_per_sec r = (if 0 < med then Some (of_int n / med) else None)"
  proof -
    from assms(1) obtain s1 ds where l: "measure_loop d env m n fn [0..<nat repeats] s = (s1, Inr ds)"
      and r: "(case median ds of Inl e \<Rightarrow> throw e
        | Inr median_s \<Rightarrow> ret \<lparr>br_language = ''python'', br_method = m, br_batch_size = n,
         br_median_ms = median_s * 1000,
         br_events_per_sec = (if 0 < median_s then Some (of_int n / median_s) else None),
         br_repeats = repeats\<rparr>) s1 = (s', Inr r)"
      by (auto simp: measure_method_def andThen_Inr)
    from r obtain med where "median ds = Inr med" by (cases "median ds") (auto simp: throw_def)
    with r measure_loop_times[OF l] show thesis by (intro that[of med]) (auto simp: ret_def)
  qed
  have ts: "ts = map (\<lambda>x. x * 1000) ?xs" by (simp add: ts_def)
  have "?xs \<noteq> []" using med by (auto simp: median_def)
  have scaled: "length (filter (\<lambda>x. x \<le> med * 1000) (map (\<lambda>x. x * 1000) zs)) = length (filter (\<lambda>x. x \<le> med) zs)"
    "length (filter (\<lambda>x. med * 1000 \<le> x) (map (\<lambda>x. x * 1000) zs)) = length (filter (\<lambda>x. med \<le> x) zs)" for zs
    by (simp_all add: filter_map comp_def)
  from median_halves[OF med] r \<open>?xs \<noteq> []\<close> show ?thesis
    unfolding ts r(4) scaled by (simp del: map_map)
qed

section \<open>The two methods write the same events\<close>

definition in_block :: "pgconn \<Rightarrow> bool" where
  "in_block s \<longleftrightarrow> pc_in_tx s \<and> \<not> pc_failed s \<and> \<not> pc_closed s"

lemma block_execute:
  assumes "in_block s" "pg_call other (ctxs (pc_txn s)) sql ps (pc_work s) = (t, Inr rows)"
  shows "pg_execute other ctxs s sql ps = (s\<lparr>pc_work := t\<rparr>, Inr rows)"
  using assms by (simp add: in_block_def pg_execute_def pg_block_def)

lemma send_in_block:
  assumes "in_block s" "find_queue q (pc_work s) = Some r" "may_insert (ctxs (pc_txn s)) r"
    and "\<nexists>x ty. p = PyEvent x ty" "encode_payload p = Inr (PyStr j)" "pg_jsonb_text (ctxs (pc_txn s)) j = Some u"
  shows "send (pg_driver other ctxs rep) s q p ''bench.producer'' =
    (s\<lparr>pc_work := fst (pg_send (ctxs (pc_txn s)) q ''bench.producer'' u (pc_work s))\<rparr>,
     Inr (PyInt (sq_next (s_event (pc_work s) (queue_id r)))))"
proof -
  let ?ctx = "ctxs (pc_txn s)"
  note e = pg_send_eq[OF assms(2,3), of "''bench.producer''" u]
  have "pg_call other ?ctx ''select pgque.send(%s, %s, %s::jsonb)'' [PyStr q, PyStr ''bench.producer'', PyStr j] (pc_work s)
      = (fst (pg_send ?ctx q ''bench.producer'' u (pc_work s)), Inr [[PyInt (sq_next (s_event (pc_work s) (queue_id r)))]])"
    using assms(6) e by (simp add: call_send_typed_def scalar_def sql_bind_def jsonb_cast_def sql_return_def)
  from block_execute[where ctxs = ctxs, OF assms(1) this] have x: "pg_execute other ctxs s ''select pgque.send(%s, %s, %s::jsonb)''
      [PyStr q, PyStr ''bench.producer'', PyStr j]
      = (s\<lparr>pc_work := fst (pg_send ?ctx q ''bench.producer'' u (pc_work s))\<rparr>,
         Inr [[PyInt (sq_next (s_event (pc_work s) (queue_id r)))]])" .
  have ev: "(case p of PyEvent p t \<Rightarrow> (t, p) | _ \<Rightarrow> (''bench.producer'', p)) = (''bench.producer'', p)"
    using assms(4) by (cases p) auto
  show ?thesis
    unfolding send_def ev using assms(5) x
    by (simp add: call_scalar_value[of "pg_driver other ctxs rep"])
qed

lemma send_loop_in_block:
  assumes "in_block s" "find_queue q (pc_work s) = Some r" "may_insert (ctxs n) r" "pc_txn s = n"
    and "list_all2 (\<lambda>p u. (\<nexists>x ty. p = PyEvent x ty) \<and>
        (\<exists>j. encode_payload p = Inr (PyStr j) \<and> pg_jsonb_text (ctxs n) j = Some u)) ps us"
  shows "send_loop (pg_driver other ctxs rep) q ps s =
    (s\<lparr>pc_work := fst (send_each (ctxs n) q ''bench.producer'' us (pc_work s))\<rparr>, Inr ())"
  using assms(5,1,2,3,4)
proof (induction ps us arbitrary: s r rule: list_all2_induct)
  case Nil
  then show ?case by (simp add: sql_return_def)
next
  case (Cons p ps u us)
  let ?ctx = "ctxs n"
  note n = Cons.prems(4)
  from Cons.hyps(1) obtain j where j: "\<nexists>x ty. p = PyEvent x ty" "encode_payload p = Inr (PyStr j)"
      "pg_jsonb_text ?ctx j = Some u" by blast
  note s1 = send_in_block[where ctxs = ctxs, OF Cons.prems(1,2), of p j u other rep, unfolded n, OF Cons.prems(3) j]
  let ?t1 = "fst (pg_send ?ctx q ''bench.producer'' u (pc_work s))"
  let ?s1 = "s\<lparr>pc_work := ?t1\<rparr>"
  note e = pg_send_eq[OF Cons.prems(2,3), of "''bench.producer''" u]
  obtain es where t1: "?t1 = grow (queue_id r) es (Suc 0) (pc_work s)"
    using e by simp
  have f1: "find_queue q (pc_work ?s1) = Some (r\<lparr>queue_events := queue_events r @ es\<rparr>)"
    using Cons.prems(2) by (simp add: t1 find_queue_grow)
  have m1: "may_insert ?ctx (r\<lparr>queue_events := queue_events r @ es\<rparr>)"
    using Cons.prems(3) by (simp add: may_insert_def)
  have b1: "in_block ?s1" using Cons.prems(1) by (simp add: in_block_def)
  obtain t2 ids where t2: "send_each ?ctx q ''bench.producer'' us ?t1 = (t2, Inr ids)"
    using send_each_eq[of q ?t1 _ ?ctx "''bench.producer''" us] f1 m1 by auto
  have ih: "send_loop (pg_driver other ctxs rep) q ps ?s1 = (?s1\<lparr>pc_work := t2\<rparr>, Inr ())"
    using Cons.IH[OF b1 f1 m1] n t2 by simp
  show ?case
    using s1 ih t2 e by (simp add: andThen_def sql_bind_def sql_return_def)
qed

text \<open>
  Claim C36. The benchmark compares like with like: inside a transaction, on a queue that
  accepts inserts, the loop of \<open>send\<close> and the one \<open>send_batch\<close> leave the connection in the
  same state, with the same rows, event ids and sequence values.
\<close>

theorem bench_methods_write_the_same:
  assumes "in_block s" "find_queue q (pc_work s) = Some r" "may_insert (ctxs (pc_txn s)) r"
    and "list_all2 (\<lambda>p u. (\<nexists>x ty. p = PyEvent x ty) \<and>
        (\<exists>j. encode_payload p = Inr (PyStr j) \<and> pg_jsonb_text (ctxs (pc_txn s)) j = Some u)) ps us"
  shows "bench_send_batch (pg_driver other ctxs rep) q ps s = send_loop (pg_driver other ctxs rep) q ps s
    \<and> snd (send_loop (pg_driver other ctxs rep) q ps s) = Inr ()"
proof -
  let ?ctx = "ctxs (pc_txn s)" and ?ty = "''bench.producer''"
  obtain js where js: "mapE encode_payload ps = Inr (map PyStr js)"
      "list_all2 (\<lambda>j u. pg_jsonb_text ?ctx j = Some u) js us"
  proof -
    have "\<exists>js. mapE encode_payload ps = Inr (map PyStr js) \<and> list_all2 (\<lambda>j u. pg_jsonb_text ?ctx j = Some u) js us"
      using assms(4)
    proof (induction ps us rule: list_all2_induct)
      case (Cons p ps u us)
      then obtain j js where "encode_payload p = Inr (PyStr j)" "pg_jsonb_text ?ctx j = Some u"
        "mapE encode_payload ps = Inr (map PyStr js)" "list_all2 (\<lambda>j u. pg_jsonb_text ?ctx j = Some u) js us"
        by blast
      then show ?case by (intro exI[of _ "j # js"]) simp
    qed simp
    then show thesis using that by blast
  qed
  have texts: "texts_of (map PyStr js) = Some js" by (induction js) simp_all
  have casts: "jsonb_casts ?ctx js t = (t, Inr us)" for t
    using js(2) by (induction js us rule: list_all2_induct)
      (simp_all add: sql_return_def sql_bind_def jsonb_cast_def)
  obtain t2 ids where t2: "send_each ?ctx q ?ty us (pc_work s) = (t2, Inr ids)"
    using send_each_eq[OF assms(2,3), of ?ty us] by simp
  have b: "pg_send_batch ?ctx q ?ty us (pc_work s) = (t2, Inr ids)"
    using send_batch_send_each[of q "pc_work s" ?ctx ?ty us] assms(2,3) t2 by simp
  have "pg_call other ?ctx ''select pgque.send_batch(%s, %s, %s::jsonb[])''
      [PyStr q, PyStr ?ty, PyList (map PyStr js)] (pc_work s) = (t2, Inr [[PyList (map PyInt ids)]])"
    using b by (simp add: call_send_batch_def texts scalar_def sql_bind_def casts sql_return_def)
  from block_execute[where ctxs = ctxs, OF assms(1) this]
  have "send_batch (pg_driver other ctxs rep) s q ?ty ps = (s\<lparr>pc_work := t2\<rparr>, Inr (map PyInt ids))"
    by (simp add: send_batch_def js(1) call_scalar_value[of "pg_driver other ctxs rep"])
  then have "bench_send_batch (pg_driver other ctxs rep) q ps s = (s\<lparr>pc_work := t2\<rparr>, Inr ())"
    by (simp add: bench_send_batch_def andThen_def ret_def)
  moreover have "send_loop (pg_driver other ctxs rep) q ps s = (s\<lparr>pc_work := t2\<rparr>, Inr ())"
    using send_loop_in_block[where ctxs = ctxs, OF assms(1-3) refl assms(4), of other rep] t2 by simp
  ultimately show ?thesis by simp
qed

end
