(* ===== verification/CoreWitnesses.thy ===== *)
theory CoreWitnesses
  imports Scenario Delivery Sessions ClientErrors ConsumerStop ProducerBench
begin

text \<open>
  The theorems about the client, the consumer and the SQL functions, each applied where its
  hypotheses hold: on the deployment of theory Scenario.
\<close>

section \<open>Delivery\<close>


theorem reachable_tables_ok_witness:
  "let t = fst (client_statements (sc_ctx 0) ''select * from pgque.receive(%s, %s, %s)''
       [PyStr ''q'', PyStr ''c'', PyInt 100] (sc_db ''q''));
       u = fst (client_statements (sc_ctx 1) ''select pgque.subscribe_subconsumer(%s, %s, %s)''
       [PyStr ''q'', PyStr ''g'', PyStr ''a''] t) in
   db_ok u \<and> groups_ok u \<and> sq_next (s_batch (sc_db ''q'')) \<le> sq_next (s_batch u)"
proof -
  let ?c = "client_statements (sc_ctx 0) ''select * from pgque.receive(%s, %s, %s)''
       [PyStr ''q'', PyStr ''c'', PyInt 100] (sc_db ''q'')"
  let ?d = "client_statements (sc_ctx 1) ''select pgque.subscribe_subconsumer(%s, %s, %s)''
       [PyStr ''q'', PyStr ''g'', PyStr ''a''] (fst ?c)"
  have "server_run (sc_db ''q'') (fst ?c)"
    by (rule server_run.statement[OF server_run.start, where r = "snd ?c"]) simp
  then have "server_run (sc_db ''q'') (fst ?d)"
    by (rule server_run.statement[where r = "snd ?d"]) simp
  moreover have "db_ok (sc_db ''q'')" "groups_ok (sc_db ''q'')" "counts_ok (sc_db ''q'')" by code_simp+
  ultimately show ?thesis using reachable_tables_ok by (simp add: Let_def)
qed

theorem batches_exactly_once_witness:
  "mset (batches [sc_snap 10, sc_snap 14, sc_snap 20] 1 [sc_events]) = mset sc_events"
proof -
  have "snap_chain [sc_snap 10, sc_snap 14, sc_snap 20]" by code_simp
  from batches_exactly_once[OF this, of 1 "[sc_events]"] show ?thesis
    by (simp add: sc_events_def sc_event_def sc_snap_def pg_visible_in_snapshot_def retry_expr_def)
qed

theorem batch_sql_is_reference_witness:
  "mset (batch_event_sql (sc_snap 10) (sc_snap 20) 1 [sc_events]) = mset sc_events"
proof -
  have "snap_wf (sc_snap 10)" "snap_wf (sc_snap 20)" "snap_xmax (sc_snap 10) \<le> snap_xmax (sc_snap 20)" by code_simp+
  from batch_sql_is_reference[OF this, of 1 "[sc_events]"] show ?thesis
    by (simp add: batch_reference_def in_window_def sc_events_def sc_event_def sc_snap_def
        pg_visible_in_snapshot_def retry_expr_def)
qed

section \<open>One poll\<close>

definition sc_small :: "unit consumer" where
  "sc_small = sc_consumer\<lparr>c_max_messages := 1\<rparr>"

definition sc_begun :: pgconn where
  "sc_begun = pg_begin sc_conn"

lemma sc_enter: "pg_enter sc_conn = (sc_begun, Inr ())"
  by (simp add: pg_enter_def sc_conn_def sc_begun_def)

theorem poll_raise_keeps_tables_witness:
  "\<exists>s' w' e. poll_once sc_driver sc_small sc_conn () = (s', w', Inl e) \<and> durable s' = durable sc_conn"
proof -
  let ?b = "poll_body sc_driver sc_small sc_begun ()"
  have "case snd (snd ?b) of Inl e \<Rightarrow> True | Inr x \<Rightarrow> False" by code_simp
  then obtain s2 w' e where "?b = (s2, w', Inl e)"
    by (cases ?b) (auto split: sum.splits)
  from poll_raise_keeps_tables[OF sc_enter this[unfolded sc_driver_def]] show ?thesis
    unfolding sc_driver_def by blast
qed

definition sc_picky :: "nat \<Rightarrow> pgctx" where
  "sc_picky n = (sc_ctx n)\<lparr>pg_interval_secs := \<lambda>_. None\<rparr>"

definition sc_picky_driver :: "pgconn driver" where
  "sc_picky_driver = pg_driver (\<lambda>_ _ _. ill_typed) sc_picky (\<lambda>_. [])"


definition sc_counter :: "nat consumer" where
  "sc_counter = \<lparr>c_dsn = [], c_queue = ''q'', c_name = ''c'', c_poll_interval = 1,
     c_max_messages = 100, c_retry_after = PyInt 60, c_policy = ''nack'', c_subconsumer = None,
     c_dead_interval = None, c_handlers = Map.empty, c_default_handler = Some (\<lambda>m w. (Suc w, None))\<rparr>"

theorem poll_once_runs_all_handlers_witness:
  "fst (snd (poll_once sc_driver sc_counter sc_conn 0)) = 2"
proof -
  let ?r = "poll_receive sc_driver sc_counter sc_begun" and ?p = "poll_once sc_driver sc_counter sc_conn 0"
  have "map_sum (\<lambda>_. ()) length (snd ?r) = Inr 2" by code_simp
  then obtain s2 msgs where r: "?r = (s2, Inr msgs)" "length msgs = 2"
    by (cases ?r; cases "snd ?r") auto
  have "snd (snd ?p) = Inr True" by code_simp
  then obtain s' w' where p: "?p = (s', w', Inr True)" by (metis prod.collapse)
  have h: "handle_effect sc_counter m w = Suc w" for m w
    by (simp add: handle_effect_def handler_for_def sc_counter_def split: pyval.splits)
  have "drv_tx_enter sc_driver sc_conn = (sc_begun, Inr ())" by (simp add: sc_driver_def sc_enter)
  from poll_once_runs_all_handlers[OF this r(1) p] h r(2) p show ?thesis
    by (simp add: length_Suc_conv numeral_2_eq_2) (auto simp: h)
qed

section \<open>Receiving, nacking, sending\<close>

theorem receive_complete_batch_witness:
  "\<exists>s'. receive sc_driver sc_conn ''q'' ''c'' 100 = (s', Inr (map (client_message \<circ> to_message 1) sc_events))
    \<and> pg_view s' = sc_opened"
  using receive_complete_batch[of sc_conn 100 "''c''" sc_ctx "''q''" sc_opened 1 sc_events
      "\<lambda>_ _ _. ill_typed" "\<lambda>_. []"] sc_usable sc_next_batch sc_batch_rows
  unfolding sc_driver_def by (auto simp: sc_events_def)

theorem receive_overflow_witness:
  "\<exists>s' x. receive sc_driver sc_conn ''q'' ''c'' 1 = (s', Inl (PgqueReceiveOverflowError x))
    \<and> ovf_configured_limit x = 1 \<and> durable s' = durable sc_conn"
  using receive_overflow[of sc_conn 1 "''c''" sc_ctx "''q''" sc_opened 1 sc_events
      "\<lambda>_ _ _. ill_typed" "\<lambda>_. []"] sc_usable sc_next_batch sc_batch_rows
  unfolding sc_driver_def by (auto simp: sc_events_def)


theorem force_next_tick_then_ticker_witness:
  "\<exists>t2 i. pg_ticker (sc_ctx 0) ''q'' (fst (pg_force_next_tick ''q'' (sc_db ''q''))) = (t2, Inr (Some i))
    \<and> length (t_ticks t2) = 3"
proof -
  let ?f = "pg_force_next_tick ''q'' (sc_db ''q'')"
  have "snd ?f = Inr (Some 2)" by code_simp
  then have f: "?f = (fst ?f, Inr (Some 2))" by (metis prod.collapse)
  have q: "find_queue ''q'' (sc_db ''q'') = Some (sc_queue ''q'')" by code_simp
  have "\<forall>k\<in>set (t_ticks (sc_db ''q'')). tick_queue k = queue_id (sc_queue ''q'') \<longrightarrow>
      tick_event_seq k \<le> last_value (s_event (sc_db ''q'') (queue_id (sc_queue ''q'')))
      \<and> snap_xmin (tick_snapshot k) \<le> pg_xid (sc_ctx 0)" by code_simp
  from force_next_tick_then_ticker[OF f q _ this] show ?thesis
    by (fastforce simp: sc_queue_def sc_db_def)
qed

theorem send_batch_is_loop_of_sends_witness:
  "pg_send_batch (sc_ctx 0) ''q'' ''t'' [''1'', ''2''] (sc_db ''q'')
    = send_each (sc_ctx 0) ''q'' ''t'' [''1'', ''2''] (sc_db ''q'')"
  by (rule send_batch_is_loop_of_sends) (auto simp: may_insert_def find_queue_def sc_db_def sc_queue_def)

section \<open>Errors\<close>

theorem send_missing_queue_witness:
  "\<exists>s'. send sc_driver sc_conn ''x'' (PyStr ''1'') ''t'' = (s', Inl (PgqueQueueNotFound ''queue not found: x''))
    \<and> durable s' = durable sc_conn"
  using send_missing_queue[of sc_conn "''x''" "PyStr ''1''" "''1''" sc_ctx "''1''" "\<lambda>_ _ _. ill_typed" "\<lambda>_. []" "''t''"]
    sc_usable
  unfolding sc_driver_def by (simp add: find_queue_def sc_db_def sc_queue_def sc_ctx_def)

theorem nack_missing_batch_witness:
  "\<exists>s'. nack sc_driver sc_conn (PyInt 9) (client_message (to_message 9 (sc_event 1 12))) (PyInt 60) None
      = (s', Inl (PgqueBatchNotFound ''batch not found: 9'')) \<and> durable s' = durable sc_conn"
proof -
  have "str_of_int 9 = ''9''" by code_simp
  then show ?thesis using nack_missing_batch[of sc_conn 9 "client_message (to_message 9 (sc_event 1 12))" 1 "PyStr ''1''" sc_ctx
      "\<lambda>_. []" "PyInt 60" 60 "\<lambda>_ _ _. ill_typed" None] sc_usable
  unfolding sc_driver_def
  by (simp add: find_batch_def sc_db_def sc_sub_def sc_ctx_def to_message_def sc_event_def client_message_def
      opt_text_def)
qed

theorem missing_queue_base_error_witness:
  "\<exists>s1 s2. subscribe sc_driver sc_conn ''x'' ''c'' = (s1, Inl (PgqueError ''Event queue not created yet''))
    \<and> ticker sc_driver sc_conn ''x'' = (s2, Inl (PgqueError ''no such queue''))"
  using missing_queue_base_error[of sc_conn "''x''" "''c''" "\<lambda>_ _ _. ill_typed" sc_ctx "\<lambda>_. []"] sc_usable
  unfolding sc_driver_def by (simp add: find_queue_def sc_db_def sc_queue_def)

theorem consumer_init_spec_witness:
  "\<exists>c :: unit consumer. consumer_init [] ''q'' ''c'' 30 DEFAULT_MAX_MESSAGES (PyInt 60) ''nack'' None None = Inr c
    \<and> c_max_messages c = 2147483647 \<and> handler_for c (PyStr ''t'') = None"
proof -
  let ?c = "consumer_init [] ''q'' ''c'' 30 DEFAULT_MAX_MESSAGES (PyInt 60) ''nack'' None None :: exc + unit consumer"
  show ?thesis
    using consumer_init_spec[where dsn = "[]" and qname = "''q''" and name = "''c''" and poll = 30
        and maxm = DEFAULT_MAX_MESSAGES and retry = "PyInt 60" and policy = "''nack''" and sub = None
        and dead = None and ?'a = unit]
    by (cases ?c) (auto simp: DEFAULT_MAX_MESSAGES_def)
qed

section \<open>The main loop\<close>

definition sc_env :: "nat \<Rightarrow> env" where
  "sc_env n = \<lparr>run_at = (\<lambda>k. k < n), clock_at = of_nat, ready_at = (\<lambda>_. Inr False), drain_at = (\<lambda>_. Inr 0)\<rparr>"

definition sc_proc :: "nat proc" where
  "sc_proc = \<lparr>p_running = False, p_sigterm = Original 1, p_sigint = Original 2\<rparr>"

theorem start_error_policy_witness:
  "\<exists>p' s' w' r. start 10 True sc_driver sc_consumer (sc_env 9) sc_proc sc_conn () = Some (p', s', w', r)
    \<and> \<not> p_running p' \<and> p_sigterm p' = Original 1 \<and> p_sigint p' = Original 2"
proof -
  let ?s = "start 10 True sc_driver sc_consumer (sc_env 9) sc_proc sc_conn ()"
  have "case ?s of None \<Rightarrow> False | Some x \<Rightarrow> True" by code_simp
  then obtain p' s' w' r where s: "?s = Some (p', s', w', r)" by (auto split: option.splits)
  from start_error_policy[OF s] s show ?thesis by (simp add: sc_proc_def)
qed

theorem start_returns_after_stop_witness:
  "\<exists>p' s' w' r. start 10 True sc_driver sc_consumer (sc_env 9) sc_proc sc_conn () = Some (p', s', w', r)"
proof -
  have "\<forall>k\<ge>9. \<not> run_at (sc_env 9) k" by (simp add: sc_env_def)
  from start_returns_after_stop[OF this, of True sc_driver sc_consumer sc_proc sc_conn "()"]
  show ?thesis by (simp add: eval_nat_numeral)
qed

theorem start_propagates_overflow_witness:
  "\<exists>p' s' x. start 2 True sc_driver sc_small (sc_env 9) sc_proc sc_conn ()
      = Some (p', s', (), Inl (PgqueReceiveOverflowError x)) \<and> \<not> p_running p'"
proof -
  let ?s2 = "sc_conn\<lparr>pc_closed := False, pc_in_tx := False, pc_failed := False, pc_autocommit := True\<rparr>"
  let ?r = "poll_receive sc_driver sc_small (pg_begin ?s2)"
  have "case snd ?r of Inl (PgqueReceiveOverflowError x) \<Rightarrow> True | _ \<Rightarrow> False" by code_simp
  then obtain s4 x where r: "?r = (s4, Inl (PgqueReceiveOverflowError x))"
    by (cases ?r) (auto split: sum.splits exc.splits)
  have "start (Suc (Suc 0)) True sc_driver sc_small (sc_env 9) sc_proc sc_conn ()
      = Some (start_finally True sc_proc (start_enter True sc_proc),
          drv_close sc_driver (drv_tx_rollback sc_driver s4), (), Inl (PgqueReceiveOverflowError x))"
    by (rule start_propagates_overflow[of _ _ _ _ ?s2 ?s2, OF _ _ _ _ _ r])
       (simp_all add: sc_env_def sc_driver_def pg_driver_def pg_enter_def sc_conn_def)
  then show ?thesis by (simp add: numeral_2_eq_2 start_finally_def Let_def)
qed

theorem wait_bounded_witness:
  "\<exists>j ts r. wait_for_notify_or_stop 3 (sc_env 9) 1 0 = Some (j, ts, r) \<and> sum_list ts \<le> 1"
proof -
  have "select_waits (sc_env 9) (clock_at (sc_env 9) (Suc 0) + 1)"
    by (auto simp: select_waits_def sc_env_def WAIT_SLICE_SECONDS_def)
  moreover have "mono (clock_at (sc_env 9))" by (simp add: sc_env_def mono_def)
  moreover have "(1 :: rat) \<le> of_nat 2 * WAIT_SLICE_SECONDS" by (simp add: WAIT_SLICE_SECONDS_def)
  ultimately show ?thesis using wait_bounded[of "sc_env 9" 0 1 2] by (auto simp: eval_nat_numeral)
qed

theorem wait_stops_promptly_witness:
  "\<exists>j ts r. wait_loop 9 (sc_env 6) 100 0 = Some (j, ts, r) \<and> j \<le> 9"
proof -
  have "case wait_loop 9 (sc_env 6) 100 0 of None \<Rightarrow> False | Some x \<Rightarrow> True" by code_simp
  then obtain j ts r where w: "wait_loop 9 (sc_env 6) 100 0 = Some (j, ts, r)" by (auto split: option.splits)
  have "\<forall>k\<ge>6. \<not> run_at (sc_env 6) k" by (simp add: sc_env_def)
  from wait_stops_promptly[OF w _ this] w show ?thesis by simp
qed

end
