(* ===== verification/Maintenance.thy ===== *)
theory Maintenance
  imports Pipeline
begin

text \<open>
  The maintenance job that puts due messages of the retry queue back into the event tables, and
  the way of a nacked message through it.
\<close>

section \<open>A nacked message comes back\<close>

lemma due_rows_single:
  assumes "distinct (map queue_id (t_queues t))" "qr \<in> set (t_queues t)" "rq_queue row = queue_id qr"
    and "rq_retry_after row \<le> pg_now ctx" "\<forall>r\<in>set rs. pg_now ctx < rq_retry_after r" "t_retry t = rs @ [row]"
  shows "due_rows ctx t = [(queue_name qr, row)]"
proof -
  have "concat (map (\<lambda>r. if rq_retry_after r \<le> pg_now ctx
        then map (\<lambda>q. (queue_name q, r)) (filter (\<lambda>q. queue_id q = rq_queue r) (t_queues t)) else []) rs) = []"
    using assms(5) by (auto simp: concat_eq_Nil_conv)
  moreover have "filter (\<lambda>q. queue_id q = rq_queue row) (t_queues t) = [qr]"
    using filter_single[OF assms(1,2)] assms(3) by simp
  ultimately show ?thesis using assms(4,6) by (simp add: due_rows_def del: concat_eq_Nil_conv)
qed

lemma find_queue_name:
  "distinct (map queue_name (t_queues t)) \<Longrightarrow> qr \<in> set (t_queues t) \<Longrightarrow> find_queue (queue_name qr) t = Some qr"
  unfolding find_queue_def by (rule find_unique) (auto dest: distinct_keyD)

lemma insert_raw_state:
  assumes "find_queue q t = Some r" "may_insert ctx r"
  shows "insert_event_raw ctx q (Some i) tm ow re ty da x1 x2 x3 x4 t =
    (grow (queue_id r) [new_event ctx i tm ow re ty da x1 x2 x3 x4] (Suc 0) t, Inr i)"
  using assms by (auto simp: insert_event_raw_def sql_defs nextval_event_def add_events_def may_insert_def
      grow_def seq_after_def)

definition requeued :: "pgctx \<Rightarrow> sub_row \<Rightarrow> event \<Rightarrow> event" where
  "requeued ctx s e = e\<lparr>ev_owner := Some (sub_id s),
     ev_retry := Some ((case ev_retry e of None \<Rightarrow> 0 | Some n \<Rightarrow> n) + 1), ev_txid := pg_xid ctx\<rparr>"

lemma maintenance_moves:
  assumes "distinct (map queue_id (t_queues t))" "distinct (map queue_name (t_queues t))" "qr \<in> set (t_queues t)"
    and "may_insert ctx qr" "rq_queue row = queue_id qr" "rq_retry_after row \<le> pg_now ctx"
    and "rq_event row = evbody.truncate (e\<lparr>ev_owner := Some (sub_id s),
           ev_retry := Some ((case ev_retry e of None \<Rightarrow> 0 | Some n \<Rightarrow> n) + 1)\<rparr>)"
    and "\<forall>r\<in>set rs. pg_now ctx < rq_retry_after r
           \<and> \<not> (ev_owner (rq_event r) = Some (sub_id s) \<and> ev_id (rq_event r) = ev_id e)"
    and "t_retry t = rs @ [row]"
  shows "maint_retry_events ctx t = ((grow (queue_id qr) [requeued ctx s e] (Suc 0) t)\<lparr>t_retry := rs\<rparr>, Inr 1)"
proof -
  have due: "due_rows ctx t = [(queue_name qr, row)]"
    using assms by (intro due_rows_single[where rs = rs]) auto
  have ev: "ev_id (rq_event row) = ev_id e" "ev_owner (rq_event row) = Some (sub_id s)"
    using assms(7) by (simp_all add: evbody.truncate_def)
  have new: "new_event ctx (ev_id (rq_event row)) (ev_time (rq_event row)) (ev_owner (rq_event row)) (ev_retry (rq_event row))
      (ev_type (rq_event row)) (ev_data (rq_event row)) (ev_extra1 (rq_event row)) (ev_extra2 (rq_event row))
      (ev_extra3 (rq_event row)) (ev_extra4 (rq_event row)) = requeued ctx s e"
    unfolding assms(7) by (cases e) (simp add: new_event_def requeued_def evbody.truncate_def)
  have del: "filter (\<lambda>x. \<not> (ev_owner (rq_event row) \<noteq> None \<and> ev_owner (rq_event x) = ev_owner (rq_event row)
      \<and> ev_id (rq_event x) = ev_id (rq_event row))) (t_retry t) = rs"
    using assms(8) by (auto simp: assms(9) ev intro: filter_True)
  have retry: "t_retry (grow i es k t) = t_retry t" for i es k by (simp add: grow_def)
  show ?thesis
    using insert_raw_state[OF find_queue_name[OF assms(2,3)] assms(4)] del
    by (simp add: maint_retry_events_def sql_bind_def sql_read_def due Let_def sql_update_def sql_return_def new retry)
qed

lemma nack_queues:
  assumes "find_batch b t = Some s" "slot_batch_name b t = None"
    and "find (\<lambda>r. queue_id r = sub_queue s) (t_queues t) = Some qr"
    and "batch_rows b t = Some evs" "distinct (map ev_id evs)" "e \<in> set evs"
    and "(case ev_retry e of None \<Rightarrow> 0 | Some n \<Rightarrow> n) < (case queue_max_retries qr of None \<Rightarrow> 5 | Some n \<Rightarrow> n)"
    and "\<forall>r\<in>set (t_retry t). \<not> (ev_owner (rq_event r) = Some (sub_id s) \<and> ev_id (rq_event r) = ev_id e)"
  obtains t' where "pg_nack ctx b (ev_id e) secs reason t = (t', Inr 1)" "same_batches t t'"
    "t_retry t' = t_retry t @ [\<lparr>rq_retry_after = pg_now ctx + secs * 1000000, rq_queue = sub_queue s,
            rq_event = evbody.truncate (e\<lparr>ev_owner := Some (sub_id s),
              ev_retry := Some ((case ev_retry e of None \<Rightarrow> 0 | Some n \<Rightarrow> n) + 1)\<rparr>)\<rparr>]"
proof -
  let ?row = "\<lparr>rq_retry_after = pg_now ctx + secs * 1000000, rq_queue = sub_queue s,
      rq_event = evbody.truncate (e\<lparr>ev_owner := Some (sub_id s),
        ev_retry := Some ((case ev_retry e of None \<Rightarrow> 0 | Some n \<Rightarrow> n) + 1)\<rparr>)\<rparr>"
  have none: "\<not> (\<exists>r\<in>set (t_retry t). ev_owner (rq_event r) = Some (sub_id s) \<and> ev_id (rq_event r) = ev_id e)"
    using assms(8) by blast
  have "pg_nack ctx b (ev_id e) secs reason t = (t\<lparr>t_retry := t_retry t @ [?row]\<rparr>, Inr 1)"
    unfolding nack_branch[OF assms(1-6)] using assms(1,4,7) filter_single[OF assms(5,6)] none
    by (auto simp: event_retry_def sql_bind_def get_batch_events_eq sql_read_def sql_return_def
        sql_update_def not_le)
  then show thesis by (rule that) (simp_all add: same_batches_def)
qed


end
