(* ===== verification/DeliveryWitnesses.thy ===== *)
theory DeliveryWitnesses
  imports Maintenance CoreWitnesses
begin

text \<open>
  The theorems on the way from the producer to the consumer and back, applied in the scenario.
\<close>

section \<open>From the producer to the consumer and back\<close>

definition sc_caught_up :: pgconn where
  "sc_caught_up = sc_conn\<lparr>pc_committed := (sc_db ''q'')\<lparr>t_ticks := [sc_tick 1 10 0], s_tick := (\<lambda>_. sq_set 1)\<rparr>\<rparr>"

theorem sent_message_received_witness:
  "\<exists>ms. snd (receive sc_driver (fst (ticker sc_driver (fst (force_next_tick sc_driver
        (fst (send sc_driver sc_caught_up ''q'' (PyStr ''7'') ''t'')) ''q'')) ''q'')) ''q'' ''c'' 100) = Inr ms
    \<and> (\<exists>m\<in>set ms. msg_id m = PyInt 3 \<and> msg_type m = PyStr ''t'')"
proof -
  let ?t = "pc_committed sc_caught_up"
  let ?s1 = "send sc_driver sc_caught_up ''q'' (PyStr ''7'') ''t''"
  let ?s2 = "force_next_tick sc_driver (fst ?s1) ''q''"
  let ?s3 = "ticker sc_driver (fst ?s2) ''q''"
  let ?r = "receive sc_driver (fst ?s3) ''q'' ''c'' 100"
  have idle: "idle sc_caught_up" by (simp add: idle_def sc_caught_up_def sc_conn_def)
  have "caught_up ''q'' ''c'' ?t (sc_queue ''q'') sc_sub (sc_tick 1 10 0)"
  proof -
    have "subs_ok ?t" by code_simp
    then show ?thesis
      by (simp add: caught_up_def standing_def find_queue_def find_sub_def find_consumer_def find_tick_def
          sc_caught_up_def sc_conn_def sc_db_def sc_queue_def sc_sub_def sc_tick_def)
  qed
  moreover have "between (sc_snap 10) (sc_snap 102) 100"
    by (simp add: between_def snap_wf_def sc_snap_def pg_visible_in_snapshot_def)
  then have "between (tick_snapshot (sc_tick 1 10 0)) (pg_snapshot (sc_ctx (pc_txn sc_caught_up + 2)))
      (pg_xid (sc_ctx (pc_txn sc_caught_up)))"
    by (simp add: sc_tick_def sc_ctx_def sc_caught_up_def sc_conn_def)
  moreover have "snd ?s1 = Inr (PyInt 3)" by code_simp
  then have "?s1 = (fst ?s1, Inr (PyInt 3))" by (metis prod.collapse)
  moreover have "snd ?s2 = Inr (PyInt 1)" by code_simp
  then have "?s2 = (fst ?s2, Inr (PyInt 1))" by (metis prod.collapse)
  moreover have "snd ?s3 = Inr (PyInt 2)" by code_simp
  then have "?s3 = (fst ?s3, Inr (PyInt 2))" by (metis prod.collapse)
  ultimately have c: "case snd ?r of Inl e \<Rightarrow> \<exists>x. e = PgqueReceiveOverflowError x
    | Inr ms \<Rightarrow> \<exists>m\<in>set ms. msg_id m = PyInt 3 \<and> msg_type m = PyStr (if ''t'' = [] then ''default'' else ''t'')
        \<and> retry_count m = PyNone \<and> (\<exists>j u. encode_payload (PyStr ''7'') = Inr (PyStr j)
            \<and> pg_jsonb_text (sc_ctx (pc_txn sc_caught_up)) j = Some u \<and> payload m = PyStr u)"
    unfolding sc_driver_def by (intro sent_message_received[OF idle]) (simp_all del: encode_payload.simps)
  have "case snd ?r of Inr ms \<Rightarrow> True | Inl e \<Rightarrow> False" by code_simp
  with c show ?thesis by (cases "snd ?r") auto
qed

theorem unacked_batch_redelivered_witness:
  "\<exists>ms t1 t2. pg_receive (sc_ctx 0) ''q'' ''c'' 100 (sc_db ''q'') = (t1, Inr ms) \<and> length ms = 2
    \<and> pg_send_batch (sc_ctx 5) ''q'' ''t'' [''8''] t1 = (t2, Inr [3])
    \<and> pg_receive (sc_ctx 6) ''q'' ''c'' 100 t2 = (t2, Inr ms)"
proof -
  let ?r = "pg_receive (sc_ctx 0) ''q'' ''c'' 100 (sc_db ''q'')"
  let ?s = "pg_send_batch (sc_ctx 5) ''q'' ''t'' [''8''] (fst ?r)"
  have "map_sum (\<lambda>_. ()) length (snd ?r) = Inr 2" by code_simp
  then obtain t1 ms where r: "?r = (t1, Inr ms)" "length ms = 2" by (cases ?r; cases "snd ?r") auto
  have "snd ?s = Inr [3]" by code_simp
  with r obtain t2 where s: "pg_send_batch (sc_ctx 5) ''q'' ''t'' [''8''] t1 = (t2, Inr [3])"
    by (metis fst_conv prod.collapse)
  have "subs_ok (sc_db ''q'')" "ticks_ok (sc_db ''q'')" "unseen (sc_db ''q'') (pg_xid (sc_ctx 5))" by code_simp+
  moreover from this have "standing ''q'' ''c'' (sc_db ''q'') (sc_queue ''q'') sc_sub (sc_tick 1 10 0)"
    by (simp add: standing_def find_queue_def find_sub_def find_consumer_def find_tick_def
        sc_db_def sc_queue_def sc_sub_def sc_tick_def)
  moreover have "sub_batch sc_sub = None" "ms \<noteq> []" using r(2) by (auto simp: sc_sub_def)
  ultimately have "pg_receive (sc_ctx 6) ''q'' ''c'' 100 t2 = (t2, Inr ms)"
    using unacked_batch_redelivered[of "''q''" "''c''" "sc_db ''q''" "sc_queue ''q''" sc_sub "sc_tick 1 10 0" "sc_ctx 5"
        "sc_ctx 0" 100 t1 ms "''q''" "''t''" "[''8'']" t2 "[3]" 100 "sc_ctx 6"] r(1) s by simp
  with r s show ?thesis by blast
qed


end
