(* ===== verification/CoopDemo.thy ===== *)
theory CoopDemo
  imports ConsumerLoops PyText
begin

text \<open>
  \<open>clients/python/bench/coop_demo.py\<close>: publishing in ticks, the counting handlers of the
  two cooperative workers, the clean-up, and the exit code. The two threads are an
  environment: what the counters are at each observation of the waiting loop.
\<close>

definition DEFAULT_EVENTS :: int where
  "DEFAULT_EVENTS = 40"

definition DEFAULT_RUN_SECONDS :: rat where
  "DEFAULT_RUN_SECONDS = 5"

definition assertion_error :: exc where
  "assertion_error = OtherException ''AssertionError''"

section \<open>Publishing\<close>

definition demo_payload :: "int \<Rightarrow> pyval" where
  "demo_payload i = PyDict [(PyStr ''i'', PyInt i), (PyStr ''demo'', PyStr ''coop'')]"

definition chunk_payloads :: "int \<Rightarrow> int \<Rightarrow> pyval list" where
  "chunk_payloads first sz = map (\<lambda>i. demo_payload (first + i)) (range_up 0 sz 1)"

definition publish_chunk :: "'s driver \<Rightarrow> string \<Rightarrow> pyval list \<Rightarrow> ('s, unit) script" where
  "publish_chunk d queue payloads =
     andThen (\<lambda>s. send_batch d s queue ''demo.coop'' payloads) (\<lambda>_.
     andThen (drv_commit d) (\<lambda>_.
     andThen (\<lambda>s. force_next_tick d s queue) (\<lambda>_.
     andThen (\<lambda>s. drv_execute d s ''select pgque.ticker(%s)'' [PyStr queue]) (\<lambda>_.
     drv_commit d))))"

fun publish_loop :: "'s driver \<Rightarrow> string \<Rightarrow> int \<Rightarrow> int \<Rightarrow> int list \<Rightarrow> int \<Rightarrow> ('s, int) script" where
  "publish_loop d queue n chunk [] sent = ret sent"
| "publish_loop d queue n chunk (first # firsts) sent =
     (let sz = min chunk (n - first) in
      andThen (publish_chunk d queue (chunk_payloads first sz)) (\<lambda>_.
      publish_loop d queue n chunk firsts (sent + sz)))"

definition publish_chunk_size :: "int \<Rightarrow> int" where
  "publish_chunk_size n = max 1 (n div 4)"

definition publish :: "'s driver \<Rightarrow> string \<Rightarrow> int \<Rightarrow> ('s, unit) script" where
  "publish d queue n =
     (let chunk = publish_chunk_size n in
      andThen (publish_loop d queue n chunk (range_up 0 n chunk) 0) (\<lambda>sent.
      if sent = n then ret () else throw assertion_error))"

lemma publish_loop_sent:
  assumes "0 < chunk"
  shows "publish_loop d queue n chunk (range_up a n chunk) sent s = (s', Inr r) \<Longrightarrow>
    a \<le> n \<Longrightarrow> r = sent + (n - a)"
proof (induction "nat (n - a)" arbitrary: a sent s rule: less_induct)
  case less
  show ?case
  proof (cases "a < n")
    case False
    with less.prems assms show ?thesis by (simp add: range_up_Nil)
  next
    case True
    let ?size = "min chunk (n - a)"
    from less.prems(1) obtain s1 where rest:
        "publish_loop d queue n chunk (range_up (a + chunk) n chunk) (sent + ?size) s1 = (s', Inr r)"
      by (auto simp: range_up_Cons[OF assms True] Let_def andThen_Inr)
    show ?thesis
    proof (cases "a + chunk \<le> n")
      case True
      have "nat (n - (a + chunk)) < nat (n - a)" using assms \<open>a < n\<close> by simp
      from less.hyps[OF this rest True] True show ?thesis by (simp add: min_def)
    next
      case False
      with rest assms show ?thesis by (simp add: range_up_Nil min_def)
    qed
  qed
qed

text \<open>
  The assertion of \<open>_publish\<close> holds for every number of events that is not
  negative: whatever the connection does, the chunks that were sent add up to \<open>n\<close>.
\<close>

theorem publish_assertion:
  assumes "0 \<le> n"
    and "publish_loop d queue n (publish_chunk_size n) (range_up 0 n (publish_chunk_size n)) 0 s = (s', Inr sent)"
  shows "sent = n \<and> publish d queue n s = (s', Inr ())"
proof -
  have "0 < publish_chunk_size n" by (simp add: publish_chunk_size_def)
  from publish_loop_sent[OF this assms(2) assms(1)] assms(2) show ?thesis
    by (simp add: publish_def Let_def andThen_def ret_def)
qed

lemma chunk_payloads_eq: "chunk_payloads first sz = map demo_payload (range_up first (first + sz) 1)"
  by (simp add: chunk_payloads_def range_up_step1)

text \<open>
  The chunks of \<open>_publish\<close> are a partition of the events: in order, their payloads
  are those of the events 0 to \<open>n - 1\<close>, each exactly once.
\<close>

theorem publish_chunks_partition:
  assumes "0 \<le> n"
  shows "concat (map (\<lambda>first. chunk_payloads first (min (publish_chunk_size n) (n - first)))
      (range_up 0 n (publish_chunk_size n))) = map demo_payload (range_up 0 n 1)"
proof -
  let ?c = "publish_chunk_size n"
  have c: "0 < ?c" by (simp add: publish_chunk_size_def)
  let ?r = "\<lambda>f. range_up f (min (f + ?c) n) 1"
  have "(\<lambda>f. chunk_payloads f (min ?c (n - f))) = (\<lambda>f. map demo_payload (?r f))"
    by (auto simp: chunk_payloads_eq min_def)
  then have "concat (map (\<lambda>f. chunk_payloads f (min ?c (n - f))) (range_up 0 n ?c)) =
      map demo_payload (concat (map ?r (range_up 0 n ?c)))"
    by (simp add: map_concat comp_def)
  then show ?thesis by (simp only: range_up_chunks[OF c assms])
qed

section \<open>The workers\<close>

text \<open>The shared dictionary \<open>counts\<close>; the printed line is not kept.\<close>

type_synonym counts = "(string \<times> int) list"

definition make_handler :: "string \<Rightarrow> counts handler" where
  "make_handler worker = (\<lambda>msg counts. (dict_set worker (dict_get worker 0 counts + 1) counts, None))"

definition spawn_consumer :: "string \<Rightarrow> string \<Rightarrow> string \<Rightarrow> string \<Rightarrow> exc + counts consumer" where
  "spawn_consumer dsn queue consumer_name subconsumer =
     bindE (consumer_init dsn queue consumer_name 1 DEFAULT_MAX_MESSAGES (PyInt 60) ''nack''
              (Some subconsumer) None) (\<lambda>cons.
       Inr (consumer_on cons ''demo.coop'' (make_handler subconsumer)))"

text \<open>
  A spawned worker is a cooperative consumer that counts: constructing it never
  fails, and the messages of a batch add to its own counter the number of those of type
  "demo.coop", and leave the other worker's counter as it was.
\<close>

theorem worker_counts:
  "\<exists>c. spawn_consumer dsn queue name sub = Inr c \<and> c_subconsumer c = Some sub
     \<and> (\<forall>ms counts. let counts' = fold (handle_effect c) ms counts in
          dict_get sub 0 counts' = dict_get sub 0 counts
            + int (length (filter (\<lambda>m. msg_type m = PyStr ''demo.coop'') ms))
          \<and> (\<forall>other. other \<noteq> sub \<longrightarrow> dict_get other 0 counts' = dict_get other 0 counts))"
proof -
  obtain c where c: "spawn_consumer dsn queue name sub = Inr c" "c_subconsumer c = Some sub"
      "\<And>t. handler_for c t = (if t = PyStr ''demo.coop'' then Some (make_handler sub) else None)"
    by (simp add: spawn_consumer_def consumer_init_def consumer_on_def handler_for_def
        split: pyval.splits)
  have "dict_get k 0 (fold (handle_effect c) ms counts) = dict_get k 0 counts
      + (if k = sub then int (length (filter (\<lambda>m. msg_type m = PyStr ''demo.coop'') ms)) else 0)"
    for k ms counts
    by (induction ms arbitrary: counts)
       (auto simp: handle_effect_def c(3) make_handler_def dict_get_set)
  then show ?thesis using c(1,2) by (auto simp: Let_def)
qed

section \<open>Clean-up and exit code\<close>

fun drain_subconsumers :: "'s driver \<Rightarrow> string \<Rightarrow> string \<Rightarrow> string list \<Rightarrow> ('s, unit) script" where
  "drain_subconsumers d queue name [] = ret ()"
| "drain_subconsumers d queue name (sub # subs) =
     andThen (tryExcept
       (andThen (\<lambda>s. unsubscribe_subconsumer d s queue name sub 1) (\<lambda>_. drv_commit d))
       CPgqueError (drv_rollback d)) (\<lambda>_.
     drain_subconsumers d queue name subs)"

text \<open>The loop that waits for the workers: the clock and the counters at each round.\<close>

fun wait_done :: "nat \<Rightarrow> (nat \<Rightarrow> rat) \<Rightarrow> (nat \<Rightarrow> counts) \<Rightarrow> rat \<Rightarrow> int \<Rightarrow> nat \<Rightarrow> nat option" where
  "wait_done 0 clock counts deadline n i = None"
| "wait_done (Suc fuel) clock counts deadline n i =
     (if \<not> clock i < deadline then Some i
      else if n \<le> sum_list (map snd (counts i)) then Some i
      else wait_done fuel clock counts deadline n (Suc i))"

text \<open>A summary line: worker, messages, share.\<close>

definition demo_summary :: "counts \<Rightarrow> (string \<times> int \<times> rat) list" where
  "demo_summary counts = (let total = sum_list (map snd counts) in
     map (\<lambda>worker. (worker, dict_get worker 0 counts,
            if total \<noteq> 0 then of_int (dict_get worker 0 counts) / of_int total else 0))
       (sort (map fst counts)))"

definition with_client :: "'s driver \<Rightarrow> string \<Rightarrow> ('s, 'a) script \<Rightarrow> ('s, 'a) script" where
  "with_client d dsn body = andThen (\<lambda>s. connect d s dsn False) (\<lambda>c.
     tryFinally body (\<lambda>s. (client_close d c s, Inr ())))"

definition demo_setup :: "'s driver \<Rightarrow> string \<Rightarrow> string \<Rightarrow> int \<Rightarrow> ('s, unit) script" where
  "demo_setup d queue name n =
     andThen (\<lambda>s. drv_execute d s ''select pgque.create_queue(%s)'' [PyStr queue]) (\<lambda>_.
     andThen (drv_commit d) (\<lambda>_.
     andThen (\<lambda>s. subscribe_subconsumer d s queue name ''worker-1'') (\<lambda>_.
     andThen (\<lambda>s. subscribe_subconsumer d s queue name ''worker-2'') (\<lambda>_.
     andThen (drv_commit d) (\<lambda>_.
     publish d queue n)))))"

definition demo_cleanup :: "'s driver \<Rightarrow> string \<Rightarrow> string \<Rightarrow> ('s, unit) script" where
  "demo_cleanup d queue name =
     andThen (drain_subconsumers d queue name [''worker-1'', ''worker-2'']) (\<lambda>_.
     tryExcept
       (andThen (\<lambda>s. drv_execute d s ''select pgque.drop_queue(%s, true)'' [PyStr queue]) (\<lambda>_. drv_commit d))
       CPgqueError (drv_rollback d))"

text \<open>
  \<open>main\<close>: \<open>dsn\<close>, \<open>events\<close> and \<open>seconds\<close> are the environment variables, \<open>token\<close> the random
  suffix; \<open>workers\<close> is what the threads leave in \<open>counts\<close> and in the database once they
  are joined, for a queue, a number of events and a run time.
\<close>

definition demo_main :: "'s driver \<Rightarrow> string option \<Rightarrow> string option \<Rightarrow> string option \<Rightarrow> string
    \<Rightarrow> (string \<Rightarrow> int \<Rightarrow> rat \<Rightarrow> 's \<Rightarrow> 's \<times> counts) \<Rightarrow> ('s, int) script" where
  "demo_main d dsn events seconds token workers =
     (case dsn of
        None \<Rightarrow> ret 1
      | Some [] \<Rightarrow> ret 1
      | Some url \<Rightarrow>
        (let queue = ''coop_demo_'' @ token; name = ''demo_workers'' in
         case (case events of None \<Rightarrow> Inr DEFAULT_EVENTS | Some e \<Rightarrow> py_int e) of
           Inl e \<Rightarrow> throw e
         | Inr n \<Rightarrow>
         (case (case seconds of None \<Rightarrow> Inr DEFAULT_RUN_SECONDS | Some t \<Rightarrow> py_float t) of
           Inl e \<Rightarrow> throw e
         | Inr run_seconds \<Rightarrow>
             andThen (with_client d url (demo_setup d queue name n)) (\<lambda>_.
             andThen (returning (workers queue n run_seconds)) (\<lambda>counts.
             andThen (with_client d url (demo_cleanup d queue name)) (\<lambda>_.
             ret (if sum_list (map snd counts) = n then 0 else 2)))))))"

text \<open>
  The clean-up never stops at a subconsumer whose removal the server refuses: the
  only exceptions that leave it come from a commit or a rollback, or are not errors of the
  database at all.
\<close>

theorem drain_tolerates_refusals:
  assumes "drain_subconsumers d queue name subs s = (s', Inl e)"
    and "\<And>s1 s2 x. drv_rollback d s1 = (s2, Inl x) \<Longrightarrow> isinstance x CPsycopgError"
    and "\<And>s1 s2 x. drv_commit d s1 = (s2, Inl x) \<Longrightarrow> isinstance x CPsycopgError"
  shows "\<not> isinstance e CPgqueError
    \<and> (isinstance e CPsycopgError \<longrightarrow> (\<exists>s1. drv_rollback d s1 = (s', Inl e) \<or> drv_commit d s1 = (s', Inl e)))"
  using assms(1)
proof (induction subs arbitrary: s)
  case (Cons sub subs)
  let ?once = "andThen (\<lambda>s. unsubscribe_subconsumer d s queue name sub 1) (\<lambda>_. drv_commit d)"
  from Cons.prems consider
      (here) "tryExcept ?once CPgqueError (drv_rollback d) s = (s', Inl e)"
    | (later) s1 where "drain_subconsumers d queue name subs s1 = (s', Inl e)"
    by (auto simp: andThen_Inl)
  then show ?case
  proof cases
    case later
    then show ?thesis by (rule Cons.IH)
  next
    case here
    obtain s1 r where t: "?once s = (s1, r)" by fastforce
    show ?thesis
    proof (cases r)
      case (Inr x)
      with here t show ?thesis by (simp add: tryExcept_def)
    next
      case (Inl x)
      show ?thesis
      proof (cases "isinstance x CPgqueError")
        case True
        with here t Inl have "drv_rollback d s1 = (s', Inl e)" by (simp add: tryExcept_def)
        then show ?thesis using assms(2) isinstance_psycopg by force
      next
        case False
        with here t Inl have e: "e = x" "s1 = s'" by (simp_all add: tryExcept_def)
        from t Inl have "unsubscribe_subconsumer d s queue name sub 1 = (s1, Inl x)
            \<or> (\<exists>s2 v. unsubscribe_subconsumer d s queue name sub 1 = (s2, Inr v) \<and> drv_commit d s2 = (s1, Inl x))"
          by (simp add: andThen_Inl)
        moreover have "unsubscribe_subconsumer d s queue name sub 1 \<noteq> (s1, Inl (PsycopgError p))" for p
          by (simp add: unsubscribe_subconsumer_def call_scalar_no_psycopg)
        ultimately show ?thesis using e False isinstance_psycopg by metis
      qed
    qed
  qed
qed simp

text \<open>
  The handler around \<open>drop_queue\<close> never runs for it: the statement goes to the
  connection itself, so a refusal is a psycopg error, which \<open>except PgqueError\<close> does not
  catch. It leaves the clean-up, and no rollback is done.
\<close>

theorem drop_queue_error_escapes:
  assumes "drain_subconsumers d queue name [''worker-1'', ''worker-2''] s = (s1, Inr ())"
    and "drv_execute d s1 ''select pgque.drop_queue(%s, true)'' [PyStr queue] = (s2, Inl (PsycopgError p))"
  shows "demo_cleanup d queue name s = (s2, Inl (PsycopgError p))"
  using assms by (simp add: demo_cleanup_def andThen_def tryExcept_def del: drain_subconsumers.simps)

text \<open>
  The exit code: 1 without a database address; otherwise, when nothing raises,
  0 exactly when the workers together counted every event that was published, else 2.
\<close>

theorem demo_exit_code:
  assumes "demo_main d dsn events seconds token workers s = (s', Inr code)"
  shows "(code = 1 \<longleftrightarrow> dsn = None \<or> dsn = Some []) \<and> (code \<noteq> 1 \<longrightarrow>
    (\<exists>n t s1 s2 counts. (events = None \<and> n = 40 \<or> (\<exists>e. events = Some e \<and> py_int e = Inr n))
      \<and> workers (''coop_demo_'' @ token) n t s1 = (s2, counts)
      \<and> code = (if sum_list (map snd counts) = n then 0 else 2)))"
  using assms
  by (auto simp: demo_main_def Let_def andThen_Inr DEFAULT_EVENTS_def
      split: option.splits list.splits sum.splits if_splits)

end
