(* ===== verification/EventLog.thy ===== *)
theory EventLog
  imports PyText
begin

text \<open>
  \<open>benchmark/tooling/parse_events_consumed.py\<close>: from the NOTICE lines of a consumer log to
  a time series of delivered events. A log is its lines; a missing file is \<open>None\<close>.
\<close>

section \<open>The two patterns\<close>

definition match_text :: "string \<Rightarrow> string \<Rightarrow> string option" where
  "match_text p s = (if prefix p s then Some (drop (length p) s) else None)"

definition match_spaces :: "string \<Rightarrow> string option" where
  "match_spaces s = (if takeWhile is_space s = [] then None else Some (dropWhile is_space s))"

definition match_digits :: "string \<Rightarrow> (string \<times> string) option" where
  "match_digits s = (if takeWhile is_digit s = [] then None
     else Some (takeWhile is_digit s, dropWhile is_digit s))"

text \<open>
  \<open>NOTICE:\s+ev\s+ts=(\d+)\s+n=(\d+)\<close> at the start of a text. Each repetition is followed by
  something it cannot match, so the greedy choice is the only one.
\<close>

definition notice_here :: "string \<Rightarrow> (int \<times> int) option" where
  "notice_here s = Option.bind (match_text ''NOTICE:'' s) (\<lambda>s. Option.bind (match_spaces s) (\<lambda>s.
     Option.bind (match_text ''ev'' s) (\<lambda>s. Option.bind (match_spaces s) (\<lambda>s.
     Option.bind (match_text ''ts='' s) (\<lambda>s. Option.bind (match_digits s) (\<lambda>(ts, s).
     Option.bind (match_spaces s) (\<lambda>s. Option.bind (match_text ''n='' s) (\<lambda>s.
     map_option (\<lambda>(n, _). (int (nat_of_str ts), int (nat_of_str n))) (match_digits s)))))))))"

fun notice_search :: "string \<Rightarrow> (int \<times> int) option" where
  "notice_search [] = notice_here []"
| "notice_search (c # cs) = (case notice_here (c # cs) of Some r \<Rightarrow> Some r | None \<Rightarrow> notice_search cs)"

text \<open>\<open>^(\d{10})(?:\.\d+)?\s\<close>.\<close>

definition agg_first_ts :: "string \<Rightarrow> int option" where
  "agg_first_ts s = (let ds = take 10 s; rest = drop 10 s in
     if length ds = 10 \<and> list_all is_digit ds \<and>
        (case rest of [] \<Rightarrow> False
         | c # cs \<Rightarrow> is_space c \<or>
             (c = CHR ''.'' \<and> takeWhile is_digit cs \<noteq> [] \<and>
              (case dropWhile is_digit cs of [] \<Rightarrow> False | x # _ \<Rightarrow> is_space x)))
     then Some (int (nat_of_str ds)) else None)"

section \<open>Reading\<close>

definition parse_notice_log :: "string list option \<Rightarrow> (int \<times> int) list" where
  "parse_notice_log file = (case file of None \<Rightarrow> []
     | Some lines \<Rightarrow> List.map_filter notice_search lines)"

fun first_some :: "('a \<Rightarrow> 'b option) \<Rightarrow> 'a list \<Rightarrow> 'b option" where
  "first_some f [] = None"
| "first_some f (x # xs) = (case f x of Some y \<Rightarrow> Some y | None \<Rightarrow> first_some f xs)"

text \<open>The files \<open>producer_agg.*\<close> by name; \<open>None\<close> is a file that cannot be read.\<close>

definition find_t0_from_producer :: "(string \<times> string list option) list \<Rightarrow> int option" where
  "find_t0_from_producer aggs = first_some
     (\<lambda>(name, file). case file of None \<Rightarrow> None | Some lines \<Rightarrow> first_some agg_first_ts lines)
     (sort_key fst aggs)"

section \<open>Buckets\<close>

definition bucket_start :: "int \<Rightarrow> int \<Rightarrow> int \<Rightarrow> int" where
  "bucket_start t0 width ts = (max 0 (ts - t0) div width) * width"

fun bucket :: "(int \<times> int) list \<Rightarrow> int \<Rightarrow> int \<Rightarrow> (int \<times> int) list \<Rightarrow> (int \<times> int) list" where
  "bucket [] t0 width hist = hist"
| "bucket ((ts, n) # events) t0 width hist =
     (let b = bucket_start t0 width ts in
      bucket events t0 width (dict_set b (dict_get b 0 hist + n) hist))"

record consumed_summary =
  cs_t0 :: int
  cs_bucket :: int
  cs_total_calls :: int
  cs_useful_calls :: int
  cs_total_events :: int
  cs_run_s :: int
  cs_avg_eps :: rat

text \<open>
  \<open>main\<close> after the arguments: the rows of \<open>events_consumed_per_sec.csv\<close> and the summary, which
  is the warning (\<open>None\<close>) when the log has no NOTICE line. The bucket width is positive.
\<close>

definition parse_events_main :: "string list option \<Rightarrow> (string \<times> string list option) list \<Rightarrow> int
    \<Rightarrow> (int \<times> int) list \<times> consumed_summary option" where
  "parse_events_main consumer_log aggs width =
     (let events = parse_notice_log consumer_log in
      if events = [] then ([], None)
      else
        let t0 = (case find_t0_from_producer aggs of Some t \<Rightarrow> t | None \<Rightarrow> Min (set (map fst events)));
            hist = bucket events t0 width [];
            sec_keys = sort (map fst hist);
            max_sec = (if sec_keys = [] then 0 else last sec_keys);
            rows = map (\<lambda>s. (s, dict_get s 0 hist)) (range_up 0 (max_sec + width) width);
            total_events = sum_list (map snd events);
            run_s = max_sec + width
        in (rows, Some \<lparr>cs_t0 = t0, cs_bucket = width, cs_total_calls = int (length events),
              cs_useful_calls = int (length (filter (\<lambda>(_, n). 0 < n) events)),
              cs_total_events = total_events, cs_run_s = run_s,
              cs_avg_eps = (if 0 < run_s then of_int total_events / of_int run_s else 0)\<rparr>))"

text \<open>The lines of \<open>events_consumed_summary.txt\<close>.\<close>

definition summary_lines :: "string \<Rightarrow> string \<Rightarrow> string \<Rightarrow> consumed_summary option \<Rightarrow> string list" where
  "summary_lines system bench_dir out_csv summary =
     [''system='' @ (if system = [] then ''unknown'' else system), ''bench_dir='' @ bench_dir, ''method=NOTICE''] @
     (case summary of
        None \<Rightarrow>
          [''notice_lines_found=0'',
           ''WARNING: no NOTICE events_consumed data - verify consumer.sql'',
           ''         uses NOTICE instrumentation. Fallback: use'',
           ''         pg_stat_statements snapshot (pgss_timeseries.csv)'',
           ''         or compute via producer_rate - queue_bloat_delta.'']
      | Some s \<Rightarrow>
          [''t0_epoch_s='' @ str_of_int (cs_t0 s),
           ''bucket_s='' @ str_of_int (cs_bucket s),
           ''total_notice_lines='' @ str_of_int (cs_total_calls s),
           ''useful_calls_n_gt_0='' @ str_of_int (cs_useful_calls s),
           ''total_events_consumed='' @ str_of_int (cs_total_events s),
           ''approx_run_duration_s='' @ str_of_int (cs_run_s s),
           ''avg_events_per_sec='' @ fmt_fixed 1 (cs_avg_eps s),
           ''hit_rate_useful_over_total='' @ str_of_int (cs_useful_calls s) @ ''/'' @ str_of_int (cs_total_calls s)
             @ '' = '' @ fmt_fixed 4 (of_int (cs_useful_calls s) / of_int (cs_total_calls s)),
           ''csv='' @ out_csv])"

definition csv_rows :: "(int \<times> int) list \<Rightarrow> csv_row list" where
  "csv_rows rows = map (\<lambda>(s, n). [(''second_since_start'', str_of_int s), (''events_consumed'', str_of_int n)]) rows"

section \<open>The notice round trip\<close>

text \<open>The line that the consumers print: \<open>f"NOTICE: ev ts={ts} n={n}"\<close>.\<close>

definition notice_line :: "nat \<Rightarrow> nat \<Rightarrow> string" where
  "notice_line ts n = ''NOTICE: ev ts='' @ str_of_nat ts @ '' n='' @ str_of_nat n"

lemma takeWhile_digits: "(\<And>c. c \<in> set ds \<Longrightarrow> is_digit c) \<Longrightarrow> r = [] \<or> \<not> is_digit (hd r) \<Longrightarrow>
    takeWhile is_digit (ds @ r) = ds \<and> dropWhile is_digit (ds @ r) = r"
  by (cases r; induction ds) auto

lemma match_digits_str: "r = [] \<or> \<not> is_digit (hd r) \<Longrightarrow> match_digits (str_of_nat n @ r) = Some (str_of_nat n, r)"
  using takeWhile_digits[of "str_of_nat n" r] str_of_nat_digits by (simp add: match_digits_def)

lemma notice_here_line:
  "r = [] \<or> \<not> is_digit (hd r) \<Longrightarrow> notice_here (notice_line ts n @ r) = Some (int ts, int n)"
proof -
  assume r: "r = [] \<or> \<not> is_digit (hd r)"
  have t: "match_digits (str_of_nat ts @ '' n='' @ str_of_nat n @ r) = Some (str_of_nat ts, '' n='' @ str_of_nat n @ r)"
    by (rule match_digits_str) (simp add: is_digit_def)
  have sp: "match_spaces ('' '' @ x # s) = Some (x # s)" if "\<not> is_space x" for x s
    using that by (simp add: match_spaces_def is_space_def)
  have ns: "\<not> is_space (CHR ''e'')" "\<not> is_space (CHR ''t'')" "\<not> is_space (CHR ''n'')"
    by (simp_all add: is_space_def)
  show ?thesis
    using t sp[OF ns(1)] sp[OF ns(2)] sp[OF ns(3)] match_digits_str[OF r, of n]
    by (simp add: notice_here_def notice_line_def match_text_def)
qed

lemma notice_search_line: "r = [] \<or> \<not> is_digit (hd r) \<Longrightarrow> notice_search (notice_line ts n @ r) = Some (int ts, int n)"
proof -
  assume "r = [] \<or> \<not> is_digit (hd r)"
  then have h: "notice_here (notice_line ts n @ r) = Some (int ts, int n)" by (rule notice_here_line)
  obtain c cs where c: "notice_line ts n @ r = c # cs" by (simp add: notice_line_def)
  show ?thesis using h unfolding c by simp
qed

lemma notice_search_none: "CHR ''N'' \<notin> set s \<Longrightarrow> notice_search s = None"
proof -
  have h: "notice_here u = None" if "CHR ''N'' \<notin> set u" for u
    using that by (cases u) (auto simp: notice_here_def match_text_def)
  show "CHR ''N'' \<notin> set s \<Longrightarrow> ?thesis" by (induction s) (auto simp: h)
qed

section \<open>Conservation\<close>

lemma bucket_sum: "sum_list (map snd (bucket es t0 w hist)) = sum_list (map snd hist) + sum_list (map snd es)"
proof (induction es arbitrary: hist)
  case (Cons e es)
  then show ?case by (cases e) (simp add: Let_def sum_dict_add)
qed simp

lemma bucket_distinct: "distinct (map fst hist) \<Longrightarrow> distinct (map fst (bucket es t0 w hist))"
proof (induction es arbitrary: hist)
  case (Cons e es)
  then show ?case by (cases e) (simp add: Let_def distinct_dict_set)
qed simp

lemma bucket_keys: "fst ` set (bucket es t0 w hist) = fst ` set hist \<union> bucket_start t0 w ` fst ` set es"
proof (induction es arbitrary: hist)
  case (Cons e es)
  then show ?case by (cases e) (auto simp: Let_def keys_dict_set)
qed simp

lemma bucket_start_range:
  assumes "0 < w"
  shows "0 \<le> bucket_start t0 w ts" "w dvd bucket_start t0 w ts"
  using assms by (simp_all add: bucket_start_def pos_imp_zdiv_nonneg_iff)

lemma blocks_div: "0 < w \<Longrightarrow> (j * w + w - 1) div w = (j :: int)"
  using div_pos_pos_trivial[of "w - 1" w] div_mult_self1[of w "w - 1" j] by (simp add: algebra_simps)

lemma set_range_up:
  assumes "0 \<le> m" "w dvd m" "0 < w"
  shows "set (range_up 0 (m + w) w) = {x. 0 \<le> x \<and> x \<le> m \<and> w dvd x}"
proof -
  note w = assms(3)
  obtain k where k: "m = w * k" using assms(2) by blast
  have k0: "0 \<le> k" using assms(1) w k by (simp add: zero_le_mult_iff)
  have "(m + w - 0 + w - 1) div w = k + 1"
    using blocks_div[OF w, of "k + 1"] by (simp add: k algebra_simps)
  then have "set (range_up 0 (m + w) w) = (\<lambda>i. int i * w) ` {0..<nat (k + 1)}"
    by (simp add: range_up_def)
  also have "\<dots> = {x. 0 \<le> x \<and> x \<le> m \<and> w dvd x}"
  proof (intro equalityI subsetI)
    fix x assume "x \<in> (\<lambda>i. int i * w) ` {0..<nat (k + 1)}"
    then obtain i where "i \<in> {0..<nat (k + 1)}" and x: "x = int i * w" by blast
    then have "int i \<le> k" by simp
    with x show "x \<in> {x. 0 \<le> x \<and> x \<le> m \<and> w dvd x}" using w k by (simp add: mult.commute)
  next
    fix x assume "x \<in> {x. 0 \<le> x \<and> x \<le> m \<and> w dvd x}"
    then obtain j where j: "x = w * j" "0 \<le> w * j" "w * j \<le> w * k" using k by (auto elim: dvdE)
    then have "0 \<le> j" "j \<le> k" using w by (simp_all add: zero_le_mult_iff)
    then show "x \<in> (\<lambda>i. int i * w) ` {0..<nat (k + 1)}"
      using j(1) by (intro image_eqI[of _ _ "nat j"]) (auto simp: mult.commute)
  qed
  finally show ?thesis .
qed

lemma range_up_distinct: "0 < w \<Longrightarrow> distinct (range_up a b w)"
  by (simp add: range_up_def distinct_map inj_on_def)

lemma sum_dict_over:
  assumes "distinct (map fst d)" "distinct ks" "fst ` set d \<subseteq> set ks"
  shows "sum_list (map (\<lambda>k. dict_get k 0 d) ks) = sum_list (map snd (d :: (int \<times> int) list))"
proof -
  have "sum_list (map (\<lambda>k. dict_get k 0 d) ks) = (\<Sum>k\<in>set ks. dict_get k 0 d)"
    using assms(2) by (simp add: sum_list_distinct_conv_sum_set)
  also have "\<dots> = (\<Sum>k\<in>fst ` set d. dict_get k 0 d)"
  proof (intro sum.mono_neutral_right ballI)
    show "dict_get k 0 d = 0" if "k \<in> set ks - fst ` set d" for k
      using that by (simp add: dict_get_def map_of_eq_None_iff[symmetric] split: option.splits)
  qed (use assms(3) in auto)
  also have "\<dots> = (\<Sum>p\<in>set d. dict_get (fst p) 0 d)"
    using assms(1) by (subst sum.reindex) (auto simp: distinct_map)
  also have "\<dots> = (\<Sum>p\<in>set d. snd p)"
    using assms(1) by (intro sum.cong) (auto simp: dict_get_def)
  also have "\<dots> = sum_list (map snd d)"
    using assms(1) by (simp add: sum_list_distinct_conv_sum_set distinct_map)
  finally show ?thesis .
qed

lemma range_up_length: "0 < w \<Longrightarrow> 0 \<le> m \<Longrightarrow> w dvd m \<Longrightarrow>
    range_up 0 (int (length (range_up 0 (m + w) w)) * w) w = range_up 0 (m + w) w"
proof -
  assume a: "0 < w" "0 \<le> m" "w dvd m"
  then obtain k where k: "m = w * k" by blast
  have k0: "0 \<le> k" using a k by (simp add: zero_le_mult_iff)
  have n: "(j * w - 0 + w - 1) div w = j" for j
    using blocks_div[OF a(1), of j] by simp
  have "range_up 0 (j * w) w = map (\<lambda>i. int i * w) [0..<nat j]" for j
    by (simp only: range_up_def n) simp
  moreover have "m + w = (k + 1) * w" by (simp add: k algebra_simps)
  ultimately show ?thesis using k0 by simp
qed

lemma series_facts:
  assumes "0 < width"
  shows "case parse_events_main file aggs width of (rows, summary) \<Rightarrow>
     sum_list (map snd rows) = sum_list (map snd (parse_notice_log file))
     \<and> (\<forall>s. summary = Some s \<longrightarrow> cs_total_events s = sum_list (map snd rows)
          \<and> cs_total_calls s = int (length (parse_notice_log file)))
     \<and> map fst rows = range_up 0 (int (length rows) * width) width"
proof (cases "parse_notice_log file = []")
  case True
  then show ?thesis using assms by (simp add: parse_events_main_def range_up_Nil)
next
  case False
  let ?es = "parse_notice_log file"
  define t0 where "t0 = (case find_t0_from_producer aggs of Some t \<Rightarrow> t | None \<Rightarrow> Min (set (map fst ?es)))"
  define hist where "hist = bucket ?es t0 width []"
  define m where "m = last (sort (map fst hist))"
  have keys: "fst ` set hist = bucket_start t0 width ` fst ` set ?es"
    by (simp add: hist_def bucket_keys)
  have ne: "sort (map fst hist) \<noteq> []"
  proof
    assume "sort (map fst hist) = []"
    then have "set hist = {}" by (metis list.map_disc_iff set_empty set_sort list.set_map image_is_empty)
    then show False using keys False by auto
  qed
  have mem: "m \<in> fst ` set hist" using last_in_set[OF ne] by (simp add: m_def)
  have le: "x \<le> m" if "x \<in> fst ` set hist" for x
  proof -
    have "x \<in> set (sort (map fst hist))" using that by simp
    then obtain i where "i < length (sort (map fst hist))" "x = sort (map fst hist) ! i"
      by (metis in_set_conv_nth)
    then show ?thesis unfolding m_def using ne
      by (simp add: last_conv_nth sorted_nth_mono)
  qed
  have rng: "0 \<le> x \<and> width dvd x" if "x \<in> fst ` set hist" for x
    using that bucket_start_range[OF assms, of t0] unfolding keys by auto
  note m = rng[OF mem]
  let ?ks = "range_up 0 (m + width) width"
  have sub: "fst ` set hist \<subseteq> set ?ks"
    using set_range_up[of m width] m assms le rng by auto
  have sum: "sum_list (map (\<lambda>s. dict_get s 0 hist) ?ks) = sum_list (map snd ?es)"
    using sum_dict_over[OF _ range_up_distinct[OF assms] sub] bucket_sum[of ?es t0 width "[]"]
      bucket_distinct[of "[]" ?es t0 width] by (simp add: hist_def)
  have "parse_events_main file aggs width = (map (\<lambda>s. (s, dict_get s 0 hist)) ?ks,
      Some \<lparr>cs_t0 = t0, cs_bucket = width, cs_total_calls = int (length ?es),
        cs_useful_calls = int (length (filter (\<lambda>(_, n). 0 < n) ?es)),
        cs_total_events = sum_list (map snd ?es), cs_run_s = m + width,
        cs_avg_eps = (if 0 < m + width then of_int (sum_list (map snd ?es)) / of_int (m + width) else 0)\<rparr>)"
    using False ne by (simp add: parse_events_main_def Let_def t0_def hist_def m_def)
  then show ?thesis using sum range_up_length[of width m] assms m by (simp add: comp_def)
qed


lemma parse_nonneg: "list_all (\<lambda>(ts, n). 0 \<le> n) (parse_notice_log file)"
proof -
  have h: "0 \<le> snd r" if "notice_here u = Some r" for u r
    using that by (auto simp: notice_here_def split: Option.bind_splits option.splits)
  have "0 \<le> snd r" if "notice_search u = Some r" for u r
    using that by (induction u rule: notice_search.induct) (auto dest: h split: option.splits)
  then show ?thesis
    by (auto simp: parse_notice_log_def List.map_filter_def list_all_iff split: option.splits)
qed

lemma bucket_nonneg:
  "list_all (\<lambda>(ts, n). 0 \<le> n) es \<Longrightarrow> \<forall>k. 0 \<le> dict_get k 0 hist \<Longrightarrow> 0 \<le> dict_get k 0 (bucket es t0 w hist)"
proof (induction es arbitrary: hist)
  case (Cons e es)
  then show ?case by (cases e) (simp add: Let_def dict_get_set)
qed simp

lemma series_nonneg:
  assumes "0 < width" "parse_events_main file aggs width = (rows, summary)"
  shows "list_all (\<lambda>(s, n). 0 \<le> s \<and> 0 \<le> n) rows"
proof -
  have "0 \<le> x" if "x \<in> set (range_up 0 b width)" for x b
    using that assms(1) by (auto simp: range_up_def)
  moreover have "0 \<le> dict_get k 0 (bucket (parse_notice_log file) t0 width [])" for k t0
    by (rule bucket_nonneg[OF parse_nonneg]) (simp add: dict_get_def)
  ultimately show ?thesis
    using assms(2) by (auto simp: parse_events_main_def Let_def list_all_iff split: if_splits)
qed

end
