(* ===== verification/Scaling.thy ===== *)
theory Scaling
  imports EventLog Client
begin

text \<open>
  \<open>benchmark/subconsumer-scaling\<close>: the driver \<open>run.py\<close>, the worker pool
  \<open>consumer_pool.py\<close>, and the numbers behind the charts. A connection is the client's
  \<open>driver\<close>; the clock, the order in which the pool finishes its messages and their time
  stamps are functions of a counter. Files are the values that the code writes and reads;
  directories, plotting and the printing of results are left out.
\<close>

section \<open>Arguments and payloads\<close>

fun worker_parts :: "string list \<Rightarrow> exc + int list" where
  "worker_parts [] = Inr []"
| "worker_parts (p # ps) =
     (if strip p = [] then worker_parts ps
      else bindE (py_int (strip p)) (\<lambda>v. bindE (worker_parts ps) (\<lambda>vs. Inr (v # vs))))"

definition worker_list :: "string \<Rightarrow> exc + int list" where
  "worker_list t = bindE (worker_parts (split_at (CHR '','') t)) (\<lambda>vals.
     if vals = [] then Inl (ValueError ''workers list is empty'') else Inr vals)"

definition msg_payload :: "int \<Rightarrow> string" where
  "msg_payload i = (case json_dumps (PyDict [(PyStr ''msg_id'', PyInt (i + 1))]) of
     Inr t \<Rightarrow> t | Inl _ \<Rightarrow> [])"

text \<open>\<open>payload_chunks\<close> for a positive chunk size (\<open>range\<close> raises for 0).\<close>

definition payload_chunks :: "int \<Rightarrow> int \<Rightarrow> exc + string list list" where
  "payload_chunks tot chunk_size =
     (if chunk_size = 0 then Inl (ValueError ''range() arg 3 must not be zero'')
      else Inr (if chunk_size < 0 then [] else
        map (\<lambda>first. let last = min (first + chunk_size) tot in map msg_payload (range_up first last 1))
          (range_up 0 tot chunk_size)))"

section \<open>Preparing a queue\<close>

definition truthy :: "pyval \<Rightarrow> bool" where
  "truthy v \<longleftrightarrow> v \<noteq> PyBool False \<and> v \<noteq> PyNone \<and> v \<noteq> PyInt 0 \<and> v \<noteq> PyStr [] \<and> v \<noteq> PyList []"

definition execute :: "'s driver \<Rightarrow> string \<Rightarrow> pyval list \<Rightarrow> ('s, pyval list list) script" where
  "execute d sql ps = (\<lambda>s. drv_execute d s sql ps)"

definition drop_queue_if_exists :: "'s driver \<Rightarrow> string \<Rightarrow> ('s, unit) script" where
  "drop_queue_if_exists d queue =
     andThen (execute d ''select exists(select 1 from pgque.queue where queue_name = %s)'' [PyStr queue]) (\<lambda>rows.
     case row_item (fetchone rows) 0 of
       Inl e \<Rightarrow> throw e
     | Inr v \<Rightarrow> if truthy v
         then andThen (execute d ''select pgque.drop_queue(%s, true)'' [PyStr queue]) (\<lambda>_. ret ())
         else ret ())"

fun send_chunks :: "'s driver \<Rightarrow> string \<Rightarrow> string list list \<Rightarrow> ('s, unit) script" where
  "send_chunks d queue [] = ret ()"
| "send_chunks d queue (chunk # chunks) =
     andThen (execute d ''select pgque.send_batch(%s, %s::text[])'' [PyStr queue, PyList (map PyStr chunk)])
       (\<lambda>_. send_chunks d queue chunks)"

definition prep_queue :: "'s driver \<Rightarrow> string \<Rightarrow> string \<Rightarrow> int \<Rightarrow> int \<Rightarrow> ('s, unit) script" where
  "prep_queue d queue consumer message_count batch_size =
     andThen (drop_queue_if_exists d queue) (\<lambda>_.
     andThen (execute d ''select pgque.create_queue(%s)'' [PyStr queue]) (\<lambda>_.
     andThen (execute d ''select pgque.ticker(%s)'' [PyStr queue]) (\<lambda>_.
     andThen (execute d ''select pgque.subscribe(%s, %s)'' [PyStr queue, PyStr consumer]) (\<lambda>_.
     case payload_chunks message_count batch_size of
       Inl e \<Rightarrow> throw e
     | Inr chunks \<Rightarrow>
         andThen (send_chunks d queue chunks) (\<lambda>_.
         andThen (execute d ''select pgque.force_tick(%s)'' [PyStr queue]) (\<lambda>_.
         andThen (execute d ''select pgque.ticker(%s)'' [PyStr queue]) (\<lambda>_. ret ())))))))"

section \<open>The worker pool\<close>

record pool_args =
  pa_queue :: string
  pa_consumer :: string
  pa_workers :: int
  pa_sleep_ms :: rat
  pa_max_return :: int
  pa_expected :: int
  pa_startup_timeout :: rat

text \<open>\<open>clock i\<close> is \<open>time.time()\<close> at observation \<open>i\<close>, \<open>stamp k\<close> the second at which the pool
  finishes its \<open>k\<close>-th message.\<close>

record pool_env =
  pool_clock :: "nat \<Rightarrow> rat"
  pool_stamp :: "nat \<Rightarrow> nat"
  pool_rep :: "pyval \<Rightarrow> string"

record pool_state =
  ps_processed :: nat
  ps_batches :: int
  ps_empty_polls :: int
  ps_out :: "string list"

definition batch_line :: "pool_env \<Rightarrow> pyval \<Rightarrow> nat \<Rightarrow> int \<Rightarrow> string" where
  "batch_line env bid n workers = ''batch '' @ py_str (pool_rep env) bid @ '': fetched '' @ str_of_nat n
     @ '' messages with '' @ str_of_int workers @ '' subconsumers''"

definition acked_line :: "pool_env \<Rightarrow> pyval \<Rightarrow> pyval \<Rightarrow> string" where
  "acked_line env bid a = ''acked batch '' @ py_str (pool_rep env) bid @ '': ack='' @ py_str (pool_rep env) a"

text \<open>One batch: the lines that the workers print, and the count of finished messages.\<close>

definition pool_process :: "pool_args \<Rightarrow> pool_env \<Rightarrow> pyval \<Rightarrow> nat \<Rightarrow> pool_state \<Rightarrow> pool_state" where
  "pool_process a env bid n st = st\<lparr>ps_processed := ps_processed st + n, ps_batches := ps_batches st + 1,
     ps_out := ps_out st @ [batch_line env bid n (pa_workers a)]
       @ map (\<lambda>k. notice_line (pool_stamp env k) 1) [ps_processed st..<ps_processed st + n]\<rparr>"

fun pool_loop :: "nat \<Rightarrow> 's driver \<Rightarrow> pool_args \<Rightarrow> pool_env \<Rightarrow> rat \<Rightarrow> nat \<Rightarrow> pool_state \<Rightarrow> 's
    \<Rightarrow> ('s \<times> (exc + pool_state)) option" where
  "pool_loop 0 d a env deadline i st s = None"
| "pool_loop (Suc fuel) d a env deadline i st s =
     (case drv_execute d s ''select * from pgque.receive(%s, %s, %s)''
             [PyStr (pa_queue a), PyStr (pa_consumer a), PyInt (pa_max_return a)] of
        (s1, Inl e) \<Rightarrow> Some (s1, Inl e)
      | (s1, Inr []) \<Rightarrow>
          (let st1 = st\<lparr>ps_empty_polls := ps_empty_polls st + 1\<rparr> in
           if pa_expected a \<le> int (ps_processed st1) then Some (s1, Inr st1)
           else if deadline < pool_clock env i \<and> ps_processed st1 = 0 then
             Some (s1, Inl (OtherException ''RuntimeError: no batch became visible''))
           else pool_loop fuel d a env deadline (Suc i) st1 s1)
      | (s1, Inr (row # rows)) \<Rightarrow>
          (case row_item (Some row) 1 of
             Inl e \<Rightarrow> Some (s1, Inl e)
           | Inr bid \<Rightarrow>
               if pa_workers a \<le> 0 then
                 Some (s1, Inl (ValueError ''max_workers must be greater than 0''))
               else
               (let st1 = pool_process a env bid (length (row # rows)) st in
                case drv_execute d s1 ''select pgque.ack(%s)'' [bid] of
                  (s2, Inl e) \<Rightarrow> Some (s2, Inl e)
                | (s2, Inr arows) \<Rightarrow>
                    (case row_item (fetchone arows) 0 of
                       Inl e \<Rightarrow> Some (s2, Inl e)
                     | Inr acked \<Rightarrow>
                         (let st2 = st1\<lparr>ps_out := ps_out st1 @ [acked_line env bid acked]\<rparr> in
                          if pa_expected a \<le> int (ps_processed st2) then Some (s2, Inr st2)
                          else pool_loop fuel d a env deadline i st2 s2)))))"

definition pool_start :: pool_state where
  "pool_start = \<lparr>ps_processed = 0, ps_batches = 0, ps_empty_polls = 0, ps_out = []\<rparr>"

record pool_summary =
  sm_workers :: int
  sm_processed :: int
  sm_batches :: int
  sm_empty_polls :: int
  sm_wall_s :: rat
  sm_avg_ev_s :: rat
  sm_ideal_ev_s :: rat
  sm_efficiency :: "rat option"

definition pool_summarise :: "pool_args \<Rightarrow> rat \<Rightarrow> pool_state \<Rightarrow> pool_summary" where
  "pool_summarise a wall_s st =
     (let sleep_s = pa_sleep_ms a / 1000;
          ideal_eps = (if 0 < sleep_s then of_int (pa_workers a) / sleep_s else 0);
          avg_eps = (if 0 < wall_s then of_nat (ps_processed st) / wall_s else 0)
      in \<lparr>sm_workers = pa_workers a, sm_processed = int (ps_processed st), sm_batches = ps_batches st,
          sm_empty_polls = ps_empty_polls st, sm_wall_s = wall_s, sm_avg_ev_s = avg_eps,
          sm_ideal_ev_s = ideal_eps,
          sm_efficiency = (if 0 < ideal_eps then Some (avg_eps / ideal_eps) else None)\<rparr>)"

text \<open>\<open>with psycopg.connect(dsn, autocommit=True) as conn\<close>.\<close>

definition with_conn :: "'s driver \<Rightarrow> string \<Rightarrow> ('s, 'a) script \<Rightarrow> ('s, 'a) script" where
  "with_conn d dsn body = andThen (\<lambda>s. drv_connect d s dsn True) (\<lambda>_.
     tryFinally body (\<lambda>s. (drv_close d s, Inr ())))"

text \<open>
  \<open>main\<close> of the pool: the first clock reading is \<open>t0\<close>, the second the start of the
  startup time-out, \<open>end\<close> the last.
\<close>

definition pool_main :: "nat \<Rightarrow> 's driver \<Rightarrow> string \<Rightarrow> pool_args \<Rightarrow> pool_env \<Rightarrow> rat \<Rightarrow> 's
    \<Rightarrow> ('s \<times> (exc + pool_state \<times> pool_summary)) option" where
  "pool_main fuel d dsn a env finish s =
     (case drv_connect d s dsn True of
        (s1, Inl e) \<Rightarrow> Some (s1, Inl e)
      | (s1, Inr _) \<Rightarrow>
          (case pool_loop fuel d a env (pool_clock env 1 + pa_startup_timeout a) 2 pool_start s1 of
             None \<Rightarrow> None
           | Some (s2, Inl e) \<Rightarrow> Some (drv_close d s2, Inl e)
           | Some (s2, Inr st) \<Rightarrow>
               Some (drv_close d s2, Inr (st, pool_summarise a (finish - pool_clock env 0) st))))"

section \<open>Backlog\<close>

fun backlog_rows :: "int \<Rightarrow> int \<Rightarrow> csv_row list \<Rightarrow> exc + (int \<times> int \<times> int) list" where
  "backlog_rows message_count cumulative [] = Inr []"
| "backlog_rows message_count cumulative (row # rows) =
     bindE (int_column ''second_since_start'' row) (\<lambda>sec.
     bindE (int_column ''events_consumed'' row) (\<lambda>ev.
       let cum = cumulative + ev; backlog = max 0 (message_count - cum) in
       bindE (backlog_rows message_count cum rows) (\<lambda>rest. Inr ((sec, cum, backlog) # rest))))"

definition derive_backlog :: "csv_row list \<Rightarrow> int \<Rightarrow> exc + (int \<times> int \<times> int) list" where
  "derive_backlog rows message_count = backlog_rows message_count 0 rows"

record run_result =
  rr_series :: "(int \<times> int) list"
  rr_backlog :: "(int \<times> int \<times> int) list"
  rr_summary :: pool_summary
  rr_expected_ev_s :: rat

text \<open>
  \<open>run_one\<close>: prepare the queue, run the pool (whose output is the consumer log), parse the
  log with one-second buckets, derive the backlog, drop the queue. A step that fails ends
  the run (\<open>check=True\<close>).
\<close>

definition run_one :: "nat \<Rightarrow> 's driver \<Rightarrow> string \<Rightarrow> string \<Rightarrow> string \<Rightarrow> int \<Rightarrow> rat \<Rightarrow> int \<Rightarrow> int \<Rightarrow> rat
    \<Rightarrow> pool_env \<Rightarrow> rat \<Rightarrow> 's \<Rightarrow> ('s \<times> (exc + run_result)) option" where
  "run_one fuel d dsn queue_prefix consumer message_count sleep_ms batch_size workers startup_timeout env finish s =
     (let queue = queue_prefix @ ''_'' @ pad_left 2 (str_of_int workers);
          a = \<lparr>pa_queue = queue, pa_consumer = consumer, pa_workers = workers, pa_sleep_ms = sleep_ms,
               pa_max_return = message_count, pa_expected = message_count,
               pa_startup_timeout = startup_timeout\<rparr>
      in case with_conn d dsn (prep_queue d queue consumer message_count batch_size) s of
           (s1, Inl e) \<Rightarrow> Some (s1, Inl e)
         | (s1, Inr _) \<Rightarrow>
             (case pool_main fuel d dsn a env finish s1 of
                None \<Rightarrow> None
              | Some (s2, Inl e) \<Rightarrow> Some (s2, Inl (OtherException ''CalledProcessError''))
              | Some (s2, Inr (st, summary)) \<Rightarrow>
                  (let (series, _) = parse_events_main (Some (ps_out st)) [] 1 in
                   case derive_backlog (csv_rows series) message_count of
                     Inl e \<Rightarrow> Some (s2, Inl e)
                   | Inr backlog \<Rightarrow>
                       if sleep_ms = 0 then Some (s2, Inl (OtherException ''ZeroDivisionError''))
                       else
                         (case with_conn d dsn (drop_queue_if_exists d queue) s2 of
                            (s3, Inl e) \<Rightarrow> Some (s3, Inl e)
                          | (s3, Inr _) \<Rightarrow> Some (s3, Inr \<lparr>rr_series = series, rr_backlog = backlog,
                              rr_summary = summary,
                              rr_expected_ev_s = of_int workers / (sleep_ms / 1000)\<rparr>)))))"

section \<open>Properties\<close>

lemma mapE_worker_parts:
  "(\<And>p. p \<in> set ps \<Longrightarrow> strip p \<noteq> [] \<and> py_int (strip p) = Inr (f p)) \<Longrightarrow> worker_parts ps = Inr (map f ps)"
  by (induction ps) auto

lemma split_at_join:
  assumes "\<And>p. p \<in> set ps \<Longrightarrow> c \<notin> set p" "ps \<noteq> []"
  shows "split_at c (join [c] ps) = ps"
proof -
  have one: "split_at c p = [p]" if "c \<notin> set p" for p using that by (induction p) auto
  have app: "split_at c (p @ c # r) = p # split_at c r" if "c \<notin> set p" for p r
    using that by (induction p) auto
  show ?thesis using assms by (induction "[c]" ps rule: join.induct) (auto simp: one app)
qed

text \<open>
  \<open>worker_list\<close> reads back what it is given: the comma-separated decimal texts of
  any non-empty list of counts parse to that list.
\<close>

theorem worker_list_roundtrip:
  assumes "ws \<noteq> []"
  shows "worker_list (join '','' (map str_of_nat ws)) = Inr (map int ws)"
proof -
  have d: "is_digit x" if "x \<in> set (str_of_nat w)" for x w using that by (rule str_of_nat_digits)
  have "CHR '','' \<notin> set p" if "p \<in> set (map str_of_nat ws)" for p
    using that d by (fastforce simp: is_digit_def)
  then have s: "split_at (CHR '','') (join '','' (map str_of_nat ws)) = map str_of_nat ws"
    using assms by (intro split_at_join) auto
  have "strip (str_of_nat w) = str_of_nat w" for w
    by (rule strip_id) (metis d is_digit_not_space hd_in_set last_in_set str_of_nat_ne)
  then have "worker_parts (map str_of_nat ws) = Inr (map int ws)"
    by (induction ws) simp_all
  then show ?thesis using s assms by (simp add: worker_list_def)
qed

text \<open>
  The chunks that are sent are a partition of the messages: together, in order,
  the payloads of the messages 1 to \<open>message_count\<close>, each once; no chunk is empty or
  larger than the chunk size.
\<close>

theorem payload_chunks_partition:
  assumes "0 \<le> n" "0 < k"
  shows "\<exists>chunks. payload_chunks n k = Inr chunks
    \<and> concat chunks = map msg_payload (range_up 0 n 1)
    \<and> (\<forall>c\<in>set chunks. c \<noteq> [] \<and> int (length c) \<le> k)"
proof -
  let ?r = "\<lambda>f. range_up f (min (f + k) n) 1"
  have "concat (map (\<lambda>f. map msg_payload (?r f)) (range_up 0 n k)) = map msg_payload (concat (map ?r (range_up 0 n k)))"
    by (simp add: map_concat comp_def)
  then have c: "concat (map (\<lambda>f. map msg_payload (?r f)) (range_up 0 n k)) = map msg_payload (range_up 0 n 1)"
    by (simp only: range_up_chunks[OF assms(2,1)])
  have below: "a \<le> f \<and> f < n" if "f \<in> set (range_up a n k)" "a \<le> n" for f a
    using that
  proof (induction "nat (n - a)" arbitrary: a rule: less_induct)
    case less
    show ?case
    proof (cases "a < n")
      case False
      with less.prems assms(2) show ?thesis by (simp add: range_up_Nil)
    next
      case True
      show ?thesis
      proof (cases "f = a \<or> \<not> a + k \<le> n")
        case True
        with less.prems assms(2) \<open>a < n\<close> show ?thesis
          by (auto simp: range_up_Cons[OF assms(2) \<open>a < n\<close>] range_up_Nil)
      next
        case False
        then have "nat (n - (a + k)) < nat (n - a)" using assms(2) \<open>a < n\<close> by simp
        from less.hyps[OF this] less.prems False assms(2) show ?thesis
          by (simp add: range_up_Cons[OF assms(2) \<open>a < n\<close>])
      qed
    qed
  qed
  have "?r f \<noteq> [] \<and> int (length (?r f)) \<le> k" if "f \<in> set (range_up 0 n k)" for f
    using below[OF that assms(1)] assms(2) by (simp add: range_up_step1 min_def)
  then show ?thesis
    using c assms(2) by (auto simp: payload_chunks_def Let_def)
qed

section \<open>The pool on a server with numbered batches\<close>

definition receive_sql :: string where
  "receive_sql = ''select * from pgque.receive(%s, %s, %s)''"

definition counted :: "pool_state \<Rightarrow> bool" where
  "counted st \<longleftrightarrow> sum_list (map snd (parse_notice_log (Some (ps_out st)))) = int (ps_processed st)"

lemma parse_append: "parse_notice_log (Some (xs @ ys)) = parse_notice_log (Some xs) @ parse_notice_log (Some ys)"
  by (simp add: parse_notice_log_def List.map_filter_def)

lemma parse_notices: "sum_list (map snd (parse_notice_log (Some (map (\<lambda>k. notice_line (g k) 1) ks)))) = int (length ks)"
  using notice_search_line[of "[]" _ 1]
  by (induction ks) (simp_all add: parse_notice_log_def List.map_filter_def)

lemma str_of_nat_no_N [simp]: "CHR ''N'' \<notin> set (str_of_nat i)"
  using str_of_nat_digits[of "CHR ''N''" i] by (auto simp: is_digit_def)

lemma str_of_int_no_N [simp]: "CHR ''N'' \<notin> set (str_of_int i)"
  by (simp add: str_of_int_def)

lemma parse_other: "CHR ''N'' \<notin> set l \<Longrightarrow> parse_notice_log (Some (l # ls)) = parse_notice_log (Some ls)"
  by (simp add: parse_notice_log_def List.map_filter_def notice_search_none)

lemma parse_Nil [simp]: "parse_notice_log (Some []) = []"
  by (simp add: parse_notice_log_def List.map_filter_def)

lemma counted_process: "counted st \<Longrightarrow> counted (pool_process a env (PyInt b) n st)"
  using parse_notices[of "pool_stamp env" "[ps_processed st..<ps_processed st + n]"]
  by (simp add: counted_def pool_process_def parse_append batch_line_def parse_other)

lemma counted_acked: "counted st \<Longrightarrow> counted (st\<lparr>ps_out := ps_out st @ [acked_line env (PyInt b) (PyInt x)]\<rparr>)"
  by (simp add: counted_def parse_append acked_line_def parse_other)

locale numbered_server =
  fixes d :: "'s driver"
  assumes rows: "drv_execute d s receive_sql ps = (s1, Inr rs) \<Longrightarrow> r \<in> set rs \<Longrightarrow>
      \<exists>b. row_item (Some r) 1 = Inr (PyInt b)"
    and acks: "drv_execute d s ''select pgque.ack(%s)'' ps = (s1, Inr rs) \<Longrightarrow>
      row_item (fetchone rs) 0 = Inr v \<Longrightarrow> \<exists>x. v = PyInt x"
begin

lemma pool_loop_counts:
  "counted st \<Longrightarrow> pool_loop fuel d a env deadline i st s = Some (s', Inr st') \<Longrightarrow>
     counted st' \<and> pa_expected a \<le> int (ps_processed st')"
proof (induction fuel arbitrary: i st s)
  case (Suc fuel)
  let ?ps = "[PyStr (pa_queue a), PyStr (pa_consumer a), PyInt (pa_max_return a)]"
  obtain s1 r where x: "drv_execute d s receive_sql ?ps = (s1, r)" by fastforce
  note x' = x[unfolded receive_sql_def]
  from Suc.prems(2) x' obtain rs where r: "r = Inr rs" by (cases r) auto
  show ?case
  proof (cases rs)
    case Nil
    have "counted (st\<lparr>ps_empty_polls := ps_empty_polls st + 1\<rparr>)"
      using Suc.prems(1) by (simp add: counted_def)
    with Suc x' r Nil show ?thesis by (auto simp: Let_def split: if_splits)
  next
    case (Cons row rows')
    from rows[OF x[unfolded r Cons], of row] obtain b where b: "row_item (Some row) 1 = Inr (PyInt b)" by auto
    let ?st1 = "pool_process a env (PyInt b) (length (row # rows')) st"
    obtain s2 q where y: "drv_execute d s1 ''select pgque.ack(%s)'' [PyInt b] = (s2, q)" by fastforce
    from Suc.prems(2) x' r Cons b y have w: "\<not> pa_workers a \<le> 0" by (auto split: if_splits)
    from Suc.prems(2) x' r Cons b y w obtain as v where q: "q = Inr as" "row_item (fetchone as) 0 = Inr v"
      by (auto simp: Let_def split: sum.splits)
    from acks[OF y[unfolded q(1)] q(2)] obtain z where z: "v = PyInt z" by blast
    have c2: "counted (?st1\<lparr>ps_out := ps_out ?st1 @ [acked_line env (PyInt b) (PyInt z)]\<rparr>)"
      using Suc.prems(1) by (intro counted_acked counted_process)
    from Suc.prems(2) x' r Cons b y w q z c2 Suc.IH[OF c2] show ?thesis
      by (auto simp: Let_def split: if_splits)
  qed
qed simp

end

lemma backlog_rows_csv:
  "backlog_rows n c (csv_rows rows) = Inr (map (\<lambda>k. (fst (rows ! k), c + sum_list (map snd (take (Suc k) rows)),
      max 0 (n - (c + sum_list (map snd (take (Suc k) rows)))))) [0..<length rows])"
  if "list_all (\<lambda>(s, e). 0 \<le> s \<and> 0 \<le> e) rows"
  using that
proof (induction rows arbitrary: c)
  case (Cons r rows)
  obtain sec e where r: "r = (sec, e)" by (cases r)
  have nn: "0 \<le> sec" "0 \<le> e" using Cons.prems by (simp_all add: r)
  then have "py_int (str_of_int sec) = Inr sec" "py_int (str_of_int e) = Inr e"
    by (simp_all add: str_of_int_def)
  then obtain ro where ro: "csv_rows (r # rows) = ro # csv_rows rows"
      "int_column ''second_since_start'' ro = Inr sec" "int_column ''events_consumed'' ro = Inr e"
    by (simp add: int_column_def dict_item_def csv_rows_def r)
  show ?case
    unfolding ro(1) using ro(2,3) Cons.IH[of "c + e"] Cons.prems
    by (simp add: Let_def r map_upt_Suc add.assoc del: upt_Suc)
qed (simp add: csv_rows_def)

end
