(* ===== verification/ScalingRun.thy ===== *)
theory ScalingRun
  imports Delivery Scaling
begin

text \<open>
  The scaling benchmark on the SQL functions: the server numbers its batches, so what the
  pool prints, what the parser reads back and what the backlog chart shows agree.
\<close>

interpretation pgnum: numbered_server "pg_driver other ctxs rep"
proof unfold_locales
  fix s s1 rs r ps assume "drv_execute (pg_driver other ctxs rep) s receive_sql ps = (s1, Inr rs)" and r: "r \<in> set rs"
  then have "pg_execute other ctxs s receive_sql ps = (s1, Inr rs)" by simp
  then obtain n where "pg_call other (ctxs n) receive_sql ps (pg_view s) = (pg_view s1, Inr rs)"
    by (rule pg_execute_ok)
  then have "call_receive (ctxs n) ps (pg_view s) = (pg_view s1, Inr rs)"
    by (simp add: receive_sql_def)
  then obtain ms where "rs = map message_row ms"
    by (auto simp: call_receive_def ill_typed_def pg_raise_def sql_bind_def sql_return_def
        split: list.splits pyval.splits prod.splits sum.splits)
  with r show "\<exists>b. row_item (Some r) 1 = Inr (PyInt b)"
    by (auto simp: row_item_def message_row_def Let_def)
next
  fix s s1 rs v ps assume a: "drv_execute (pg_driver other ctxs rep) s ''select pgque.ack(%s)'' ps = (s1, Inr rs)"
    and v: "row_item (fetchone rs) 0 = Inr v"
  from a have "pg_execute other ctxs s ''select pgque.ack(%s)'' ps = (s1, Inr rs)" by simp
  then obtain n where "pg_call other (ctxs n) ''select pgque.ack(%s)'' ps (pg_view s) = (pg_view s1, Inr rs)"
    by (rule pg_execute_ok)
  then have "call_ack (ctxs n) ps (pg_view s) = (pg_view s1, Inr rs)" by simp
  then obtain x where "rs = [[PyInt x]]"
    by (auto simp: call_ack_def ill_typed_def pg_raise_def dest!: scalar_ok split: list.splits pyval.splits)
  with v show "\<exists>x. v = PyInt x" by (auto simp: row_item_def fetchone_def)
qed

lemma run_one_cases:
  assumes "run_one fuel d dsn pre cname n sleep_ms bs workers tmo env finish s = Some (s', Inr r)"
  obtains a :: pool_args and s2 s3 st where "pa_expected a = n"
    "pool_loop fuel d a env (pool_clock env 1 + pa_startup_timeout a) 2 pool_start s2 = Some (s3, Inr st)"
    "rr_series r = fst (parse_events_main (Some (ps_out st)) [] 1)"
    "derive_backlog (csv_rows (rr_series r)) n = Inr (rr_backlog r)"
    "sm_processed (rr_summary r) = int (ps_processed st)"
proof -
  let ?q = "pre @ ''_'' @ pad_left 2 (str_of_int workers)"
  let ?a = "\<lparr>pa_queue = ?q, pa_consumer = cname, pa_workers = workers, pa_sleep_ms = sleep_ms,
    pa_max_return = n, pa_expected = n, pa_startup_timeout = tmo\<rparr>"
  from assms obtain s1 s3 st sm where m: "pool_main fuel d dsn ?a env finish s1 = Some (s3, Inr (st, sm))"
      "rr_series r = fst (parse_events_main (Some (ps_out st)) [] 1)"
      "derive_backlog (csv_rows (rr_series r)) n = Inr (rr_backlog r)" "rr_summary r = sm"
    by (auto simp: run_one_def Let_def split: prod.splits sum.splits option.splits if_splits)
  from m(1) obtain s2 s4 where
      "pool_loop fuel d ?a env (pool_clock env 1 + tmo) 2 pool_start s2 = Some (s4, Inr st)"
      "sm = pool_summarise ?a (finish - pool_clock env 0) st"
    by (auto simp: pool_main_def split: prod.splits sum.splits option.splits)
  with m that[of ?a s2 s4 st] show thesis by (simp add: pool_summarise_def Let_def del: pad_left.simps)
qed

lemma run_one_facts:
  assumes "run_one fuel (pg_driver other ctxs rep) dsn pre cname n sleep_ms bs workers tmo env finish s
      = Some (s', Inr r)"
  shows "n \<le> sm_processed (rr_summary r)"
    and "sum_list (map snd (rr_series r)) = sm_processed (rr_summary r)"
    and "list_all (\<lambda>(s, e). 0 \<le> s \<and> 0 \<le> e) (rr_series r)"
    and "derive_backlog (csv_rows (rr_series r)) n = Inr (rr_backlog r)"
proof -
  from assms obtain a :: pool_args and s2 s3 st where a: "pa_expected a = n"
    "pool_loop fuel (pg_driver other ctxs rep) a env (pool_clock env 1 + pa_startup_timeout a) 2 pool_start s2 = Some (s3, Inr st)"
    "rr_series r = fst (parse_events_main (Some (ps_out st)) [] 1)"
    "derive_backlog (csv_rows (rr_series r)) n = Inr (rr_backlog r)"
    "sm_processed (rr_summary r) = int (ps_processed st)"
    by (rule run_one_cases)
  have "counted pool_start" by (simp add: counted_def pool_start_def)
  from pgnum.pool_loop_counts[OF this a(2)] have c: "counted st" "n \<le> int (ps_processed st)"
    using a(1) by simp_all
  obtain rows sm where p: "parse_events_main (Some (ps_out st)) [] 1 = (rows, sm)" by fastforce
  show "n \<le> sm_processed (rr_summary r)" using c(2) a(5) by simp
  show "sum_list (map snd (rr_series r)) = sm_processed (rr_summary r)"
    using series_facts[of 1 "Some (ps_out st)" "[]"] p a(3,5) c(1) by (simp add: counted_def)
  show "list_all (\<lambda>(s, e). 0 \<le> s \<and> 0 \<le> e) (rr_series r)"
    using series_nonneg[of 1 "Some (ps_out st)" "[]" rows sm] p a(3) by simp
  show "derive_backlog (csv_rows (rr_series r)) n = Inr (rr_backlog r)" by (fact a(4))
qed

text \<open>
  Claim C38. A scaling run that returns has drained its queue on the record: the series that
  was parsed back from the pool's output adds up to the messages the pool processed, which
  are at least the messages that were sent, so the derived backlog ends at 0; and it never
  rises from one second to the next.
\<close>

theorem run_one_drains:
  assumes "run_one fuel (pg_driver other ctxs rep) dsn pre cname n sleep_ms bs workers tmo env finish s
      = Some (s', Inr r)" and "0 < n"
  shows "sum_list (map snd (rr_series r)) = sm_processed (rr_summary r) \<and> n \<le> sm_processed (rr_summary r)
    \<and> rr_backlog r \<noteq> [] \<and> snd (snd (last (rr_backlog r))) = 0
    \<and> sorted_wrt (\<ge>) (map (snd \<circ> snd) (rr_backlog r))"
proof -
  note f = run_one_facts[OF assms(1)]
  let ?rows = "rr_series r"
  let ?sum = "\<lambda>k. sum_list (map snd (take (Suc k) ?rows))"
  have b: "rr_backlog r = map (\<lambda>k. (fst (?rows ! k), ?sum k, max 0 (n - ?sum k))) [0..<length ?rows]"
    using f(4) backlog_rows_csv[OF f(3), of n 0] by (simp add: derive_backlog_def)
  have ne: "?rows \<noteq> []" using f(1,2) assms(2) by auto
  have "?sum (length ?rows - 1) = sm_processed (rr_summary r)" using f(2) by simp
  then have last: "snd (snd (last (rr_backlog r))) = 0"
    using ne f(1) by (simp add: b last_map)
  have mono: "?sum i \<le> ?sum j" if "i \<le> j" for i j
  proof -
    have "take (Suc j) ?rows = take (Suc i) ?rows @ take (j - i) (drop (Suc i) ?rows)"
      using that by (metis Suc_le_mono le_add_diff_inverse take_add diff_Suc_Suc)
    moreover have "0 \<le> sum_list (map snd (take (j - i) (drop (Suc i) ?rows)))"
      using f(3) by (intro sum_list_nonneg) (auto simp: list_all_iff dest!: in_set_takeD in_set_dropD)
    ultimately show ?thesis by simp
  qed
  have "sorted_wrt (\<ge>) (map (snd \<circ> snd) (rr_backlog r))"
    unfolding b by (simp add: sorted_wrt_map comp_def sorted_wrt_iff_nth_less) (use mono in \<open>smt (verit) less_imp_le\<close>)
  with f(1,2) last ne show ?thesis by (simp add: b)
qed

end
