(* ===== verification/Analyze.thy ===== *)
theory Analyze
  imports EventLog Values
begin

text \<open>
  \<open>benchmark/charts/r8_analyze.py\<close>: the series and the table of the comparison of queue
  systems, from the files of each system's directory. A missing file is the empty list of
  rows or lines. Drawing is left out. \<open>datetime.fromisoformat\<close> is the parameter \<open>fromiso\<close>, which
  gives seconds since the epoch, a time without zone read as UTC.
\<close>

section \<open>Time stamps\<close>

definition expand_zone :: "string \<Rightarrow> string" where
  "expand_zone s = (let n = length s - 3; z = drop n s in
     if length z = 3 \<and> (z ! 0 = CHR ''+'' \<or> z ! 0 = CHR ''-'') \<and> is_digit (z ! 1) \<and> is_digit (z ! 2)
     then s @ '':00'' else s)"

definition normal_ts :: "string \<Rightarrow> string" where
  "normal_ts s = expand_zone (concat (map (\<lambda>c. if c = CHR ''Z'' then ''+00:00'' else [c])
     (map (\<lambda>c. if c = CHR '' '' then CHR ''T'' else c) (strip s))))"

definition parse_ts :: "(string \<Rightarrow> rat option) \<Rightarrow> string \<Rightarrow> rat option" where
  "parse_ts fromiso s = (if s = [] then None else fromiso (normal_ts s))"

section \<open>Events\<close>

record event_point =
  ep_min :: rat
  ep_ev :: int
  ep_p99 :: int
  ep_cum :: int

fun event_points :: "int \<Rightarrow> csv_row list \<Rightarrow> event_point list" where
  "event_points c [] = []"
| "event_points c (r # rs) =
     (case bindE (int_column ''second_since_start'' r) (\<lambda>s.
           bindE (int_column ''events_consumed'' r) (\<lambda>n.
           bindE (int_or0 ''p99_lag_ms'' r) (\<lambda>p. Inr (s, n, p)))) of
        Inl _ \<Rightarrow> event_points c rs
      | Inr (s, n, p) \<Rightarrow>
          \<lparr>ep_min = of_int s / 60, ep_ev = n, ep_p99 = p, ep_cum = c + n\<rparr> # event_points (c + n) rs)"

text \<open>\<open>load_events\<close>: its four lists are the columns.\<close>

definition load_events :: "csv_row list \<Rightarrow> event_point list" where
  "load_events rows = event_points 0 rows"

definition smooth :: "rat list \<Rightarrow> nat \<Rightarrow> rat list" where
  "smooth ys w = map (\<lambda>i. let a = i - w; b = min (length ys) (i + w + 1)
     in sum_list (take (b - a) (drop a ys)) / of_nat (b - a)) [0..<length ys]"

section \<open>Bloat and system metrics\<close>

definition bloat_ts :: "csv_row \<Rightarrow> string" where
  "bloat_ts r = (if dict_get ''ts'' [] r \<noteq> [] then dict_get ''ts'' [] r else dict_get ''sample_time'' [] r)"

definition bloat_pair :: "csv_row \<Rightarrow> exc + int \<times> int" where
  "bloat_pair r = bindE (int_or0 ''n_dead_tup'' r) (\<lambda>d. bindE (int_or0 ''n_live_tup'' r) (\<lambda>l. Inr (d, l)))"

fun bloat_by_ts :: "csv_row list \<Rightarrow> (string \<times> int \<times> int) list \<Rightarrow> (string \<times> int \<times> int) list" where
  "bloat_by_ts [] d = d"
| "bloat_by_ts (r # rs) d = (case bloat_pair r of
       Inl _ \<Rightarrow> bloat_by_ts rs d
     | Inr (dt, lv) \<Rightarrow> (case dict_get (bloat_ts r) (0, 0) d of
           (dead, live) \<Rightarrow> bloat_by_ts rs (dict_set (bloat_ts r) (dead + dt, live + lv) d)))"

definition load_bloat :: "(string \<Rightarrow> rat option) \<Rightarrow> csv_row list \<Rightarrow> (rat \<times> int \<times> int) list" where
  "load_bloat fromiso rows = (let by_ts = bloat_by_ts rows []; ts_sorted = sort (map fst by_ts) in
     if by_ts = [] then []
     else case parse_ts fromiso (hd ts_sorted) of None \<Rightarrow> []
       | Some t0 \<Rightarrow> List.map_filter (\<lambda>ts. map_option (\<lambda>t. ((t - t0) / 60, dict_get ts (0, 0) by_ts)) (parse_ts fromiso ts))
           ts_sorted)"

fun sys_rows :: "(string \<Rightarrow> rat option) \<Rightarrow> rat \<Rightarrow> csv_row list \<Rightarrow> rat list \<Rightarrow> rat list \<Rightarrow> rat list
    \<Rightarrow> exc + rat list \<times> rat list \<times> rat list" where
  "sys_rows fromiso t0 [] xs cpu wmib = Inr (xs, cpu, wmib)"
| "sys_rows fromiso t0 (r # rs) xs cpu wmib = bindE (dict_item ''ts_iso'' r) (\<lambda>ts.
     case parse_ts fromiso ts of
       None \<Rightarrow> sys_rows fromiso t0 rs xs cpu wmib
     | Some t \<Rightarrow>
         (case bindE (bindE (dict_item ''cpu_user_pct'' r) py_float) (\<lambda>u.
               bindE (bindE (dict_item ''cpu_system_pct'' r) py_float) (\<lambda>s. Inr (u + s))) of
            Inl _ \<Rightarrow> sys_rows fromiso t0 rs (xs @ [(t - t0) / 60]) (cpu @ [0]) (wmib @ [0])
          | Inr x \<Rightarrow>
              (case float_or0 ''disk_write_mib_s'' r of
                 Inl _ \<Rightarrow> sys_rows fromiso t0 rs (xs @ [(t - t0) / 60]) (cpu @ [x, 0]) (wmib @ [0])
               | Inr w \<Rightarrow> sys_rows fromiso t0 rs (xs @ [(t - t0) / 60]) (cpu @ [x]) (wmib @ [w]))))"

definition load_sys :: "(string \<Rightarrow> rat option) \<Rightarrow> csv_row list \<Rightarrow> exc + rat list \<times> rat list \<times> rat list" where
  "load_sys fromiso rows = (case rows of [] \<Rightarrow> Inr ([], [], [])
     | r # _ \<Rightarrow> bindE (dict_item ''ts_iso'' r) (\<lambda>ts. case parse_ts fromiso ts of
         None \<Rightarrow> Inr ([], [], []) | Some t0 \<Rightarrow> sys_rows fromiso t0 rows [] [] []))"

section \<open>Totals\<close>

fun summary_dict :: "string list \<Rightarrow> (string \<times> string) list \<Rightarrow> (string \<times> string) list" where
  "summary_dict [] d = d"
| "summary_dict (l # ls) d = (case split_first (CHR ''='') (strip l) of
       None \<Rightarrow> summary_dict ls d
     | Some (k, v) \<Rightarrow> summary_dict ls (dict_set k v d))"

definition load_summary :: "string list \<Rightarrow> (string \<times> string) list" where
  "load_summary lines = summary_dict lines []"

definition processed_here :: "string \<Rightarrow> int option" where
  "processed_here s = Option.bind (match_text ''number of transactions actually processed:'' s)
     (\<lambda>s. map_option (\<lambda>(n, _). int (nat_of_str n)) (match_digits (dropWhile is_space s)))"

fun processed_search :: "string \<Rightarrow> int option" where
  "processed_search [] = processed_here []"
| "processed_search (c # cs) = (case processed_here (c # cs) of Some n \<Rightarrow> Some n | None \<Rightarrow> processed_search cs)"

definition load_producer_total :: "string list \<Rightarrow> int" where
  "load_producer_total lines = (case first_some processed_search lines of Some n \<Rightarrow> n | None \<Rightarrow> 0)"

section \<open>The table\<close>

definition TX_START_MIN :: rat where "TX_START_MIN = 30"
definition TX_END_MIN :: rat where "TX_END_MIN = 90"
definition LAG_CLIP_MS :: rat where "LAG_CLIP_MS = 5000"

definition tx_slice :: "rat list \<Rightarrow> 'a list \<Rightarrow> 'a list" where
  "tx_slice xs ys = map snd (filter (\<lambda>(x, y). TX_START_MIN \<le> x \<and> x \<le> TX_END_MIN) (zip xs ys))"

definition mean :: "rat list \<Rightarrow> rat" where
  "mean xs = (if xs = [] then 0 else sum_list xs / of_nat (length xs))"

definition max0 :: "'a::{linorder,zero} list \<Rightarrow> 'a" where
  "max0 xs = (if xs = [] then 0 else Max (set xs))"

definition fmt_thousands :: "rat \<Rightarrow> string" where
  "fmt_thousands v = (let v = \<bar>v\<bar> in
     if 1000000 \<le> v then fmt_fixed 1 (v / 1000000) @ ''M''
     else if 1000 \<le> v then fmt_fixed 0 (v / 1000) @ ''k''
     else fmt_fixed 0 v)"

text \<open>The producer's rate is 2000 events a second, up to its total.\<close>

definition backlog_series :: "int \<Rightarrow> event_point list \<Rightarrow> rat list" where
  "backlog_series prod_total eps = map (\<lambda>e. let t_s = ep_min e * 60; p_cum = min (2000 * t_s) (of_int prod_total)
     in max 0 (p_cum - of_int (ep_cum e))) eps"

record system_files =
  f_events :: "csv_row list"
  f_bloat :: "csv_row list"
  f_sys :: "csv_row list"
  f_summary :: "string list"
  f_producer :: "string list"

record table_row =
  tr_system :: string
  tr_producer_total :: int
  tr_consumer_total :: int
  tr_tx_avg_evs :: rat
  tr_p50_lag_ms :: int
  tr_p99_lag_ms :: int
  tr_tx_p99_lag_ms :: int
  tr_true_backlog :: int
  tr_peak_cpu :: rat
  tr_peak_wmib :: rat

record panels =
  pa_minutes :: "rat list"
  pa_ev :: "rat list"
  pa_dead :: "(rat \<times> int \<times> int) list"
  pa_sys :: "rat list \<times> rat list \<times> rat list"
  pa_backlog :: "rat list"
  pa_p99 :: "rat list"

text \<open>\<open>int(sm.get(k, "0") or 0)\<close> is \<open>int_or0\<close> of the summary.\<close>

definition system_row :: "(string \<Rightarrow> rat option) \<Rightarrow> string \<Rightarrow> system_files \<Rightarrow> exc + panels \<times> table_row" where
  "system_row fromiso name f =
     (let eps = load_events (f_events f); dead = load_bloat fromiso (f_bloat f) in
      bindE (load_sys fromiso (f_sys f)) (\<lambda>(xs_s, cpu, wmib).
      let sm = load_summary (f_summary f); prod_total = load_producer_total (f_producer f) in
      bindE (int_or0 ''total_events_consumed'' sm) (\<lambda>cons_total.
      bindE (int_or0 ''overall_lag_p50_ms'' sm) (\<lambda>p50. bindE (int_or0 ''overall_lag_p99_ms'' sm) (\<lambda>p99.
      let xs = map ep_min eps in Inr
        (\<lparr>pa_minutes = xs, pa_ev = smooth (map (of_int \<circ> ep_ev) eps) 30, pa_dead = dead, pa_sys = (xs_s, cpu, wmib),
          pa_backlog = backlog_series prod_total eps,
          pa_p99 = map (min LAG_CLIP_MS) (smooth (map (of_int \<circ> ep_p99) eps) 30)\<rparr>,
         \<lparr>tr_system = name, tr_producer_total = prod_total, tr_consumer_total = cons_total,
          tr_tx_avg_evs = mean (tx_slice xs (map (of_int \<circ> ep_ev) eps)),
          tr_p50_lag_ms = p50, tr_p99_lag_ms = p99, tr_tx_p99_lag_ms = max0 (tx_slice xs (map ep_p99 eps)),
          tr_true_backlog = max 0 (prod_total - cons_total),
          tr_peak_cpu = max0 cpu, tr_peak_wmib = max0 wmib\<rparr>))))))"

definition table_line :: "table_row \<Rightarrow> string" where
  "table_line r = ''| '' @ join '' | '' [tr_system r, fmt_commas (tr_producer_total r), fmt_commas (tr_consumer_total r),
     fmt_fixed 0 (tr_tx_avg_evs r), str_of_int (tr_p50_lag_ms r), str_of_int (tr_p99_lag_ms r),
     str_of_int (tr_tx_p99_lag_ms r), fmt_commas (tr_true_backlog r),
     fmt_fixed 1 (tr_peak_cpu r), fmt_fixed 1 (tr_peak_wmib r)] @ '' |''"

section \<open>Lemmas\<close>

lemma strip_key:
  assumes "k \<noteq> []" "\<not> is_space (hd k)"
  shows "strip (k @ CHR ''='' # v) = k @ CHR ''='' # rev (dropWhile is_space (rev v))"
proof -
  obtain x xs where k: "k = x # xs" using assms(1) by (meson neq_Nil_conv)
  have "\<not> is_space (CHR ''='')" by (simp add: is_space_def)
  then show ?thesis using assms(2) by (simp add: strip_def k dropWhile_append)
qed

lemma split_first_key:
  assumes "k \<noteq> []" "\<not> is_space (hd k)" "CHR ''='' \<notin> set k"
  shows "split_first (CHR ''='') (strip (k @ CHR ''='' # v)) = Some (k, rev (dropWhile is_space (rev v)))"
  using assms(3) unfolding strip_key[OF assms(1,2)]
  by (auto simp: split_first_def takeWhile_append dropWhile_append)

lemma set_strip: "set (strip s) \<subseteq> set s"
  by (auto simp: strip_def dest!: set_dropWhileD)

lemma split_first_none: "c \<notin> set s \<Longrightarrow> split_first c (strip s) = None"
  using set_strip[of s] by (auto simp: split_first_def)

lemma rstrip_digits: "rev (dropWhile is_space (rev (str_of_nat n))) = str_of_nat n"
proof -
  obtain x xs where x: "rev (str_of_nat n) = x # xs" by (cases "rev (str_of_nat n)") auto
  then have "x \<in> set (str_of_nat n)" by (metis list.set_intros(1) set_rev)
  then have "\<not> is_space x" by (intro is_digit_not_space str_of_nat_digits)
  then have "dropWhile is_space (rev (str_of_nat n)) = rev (str_of_nat n)" by (simp add: x)
  then show ?thesis by simp
qed

lemma summary_total:
  assumes "\<And>s. summary = Some s \<Longrightarrow> 0 \<le> cs_total_events s"
  shows "int_or0 ''total_events_consumed'' (load_summary (summary_lines sys dir out summary))
    = Inr (case summary of None \<Rightarrow> 0 | Some s \<Rightarrow> cs_total_events s)"
proof -
  have key: "summary_dict ((k @ CHR ''='' # v) # ls) d = summary_dict ls (dict_set k (rev (dropWhile is_space (rev v))) d)"
    if "k \<noteq> []" "\<not> is_space (hd k)" "CHR ''='' \<notin> set k" for k v ls d
    using split_first_key[OF that] by simp
  note k = key[of "''system''", unfolded append_Cons append_Nil]
    key[of "''bench_dir''", unfolded append_Cons append_Nil]
    key[of "''method''", unfolded append_Cons append_Nil]
    key[of "''notice_lines_found''", unfolded append_Cons append_Nil]
    key[of "''t0_epoch_s''", unfolded append_Cons append_Nil]
    key[of "''bucket_s''", unfolded append_Cons append_Nil]
    key[of "''total_notice_lines''", unfolded append_Cons append_Nil]
    key[of "''useful_calls_n_gt_0''", unfolded append_Cons append_Nil]
    key[of "''total_events_consumed''", unfolded append_Cons append_Nil]
    key[of "''approx_run_duration_s''", unfolded append_Cons append_Nil]
    key[of "''avg_events_per_sec''", unfolded append_Cons append_Nil]
    key[of "''hit_rate_useful_over_total''", unfolded append_Cons append_Nil]
    key[of "''csv''", unfolded append_Cons append_Nil]
  have skip: "summary_dict (l # ls) d = summary_dict ls d" if "CHR ''='' \<notin> set l" for l ls d
    using split_first_none[OF that] by simp
  show ?thesis
  proof (cases summary)
    case None
    show ?thesis
      by (simp add: k None load_summary_def summary_lines_def skip is_space_def
          int_or0_def map_of_dict_set del: summary_dict.simps(2))
  next
    case (Some s)
    then have t: "0 \<le> cs_total_events s" by (rule assms)
    show ?thesis
      using t by (simp add: k Some load_summary_def summary_lines_def is_space_def str_of_int_def
          rstrip_digits int_or0_def map_of_dict_set del: summary_dict.simps(2))
  qed
qed

lemma event_points_csv:
  assumes "list_all (\<lambda>(s, n). 0 \<le> s \<and> 0 \<le> n) rows"
  shows "map ep_ev (event_points c (csv_rows rows)) = map snd rows
    \<and> (rows \<noteq> [] \<longrightarrow> ep_cum (last (event_points c (csv_rows rows))) = c + sum_list (map snd rows))"
  using assms
proof (induction rows arbitrary: c)
  case (Cons r rows)
  obtain s n where r: "r = (s, n)" by (cases r)
  have nn: "0 \<le> s" "0 \<le> n" using Cons.prems by (simp_all add: r)
  have "event_points c (csv_rows (r # rows)) = \<lparr>ep_min = of_int s / 60, ep_ev = n, ep_p99 = 0, ep_cum = c + n\<rparr>
      # event_points (c + n) (csv_rows rows)"
    using nn by (simp add: r csv_rows_def int_column_def dict_item_def int_or0_def str_of_int_def)
  moreover have "event_points (c + n) (csv_rows rows) = [] \<longleftrightarrow> rows = []"
    using Cons.IH[of "c + n"] Cons.prems by (cases rows) (auto simp: r csv_rows_def)
  ultimately show ?case using Cons.IH[of "c + n"] Cons.prems by (auto simp: r)
qed (simp add: csv_rows_def)

definition half_bad :: "(string \<Rightarrow> rat option) \<Rightarrow> csv_row \<Rightarrow> bool" where
  "half_bad fromiso r \<longleftrightarrow> parse_ts fromiso (dict_get ''ts_iso'' [] r) \<noteq> None
     \<and> (\<exists>x. bindE (bindE (dict_item ''cpu_user_pct'' r) py_float) (\<lambda>u.
             bindE (bindE (dict_item ''cpu_system_pct'' r) py_float) (\<lambda>s. Inr (u + s))) = Inr x)
     \<and> (\<exists>e. float_or0 ''disk_write_mib_s'' r = Inl e)"

lemma sys_rows_lengths:
  assumes "sys_rows fromiso t0 rows xs cpu wmib = Inr (xs', cpu', wmib')"
  shows "int (length wmib') - int (length wmib) = int (length xs') - int (length xs)
    \<and> int (length cpu') - int (length cpu) = int (length xs') - int (length xs) + int (length (filter (half_bad fromiso) rows))"
  using assms
proof (induction rows arbitrary: xs cpu wmib)
  case (Cons r rows)
  from Cons.prems obtain ts where ts: "map_of r ''ts_iso'' = Some ts"
    by (auto simp: dict_item_def split: option.splits)
  then have g: "dict_get ''ts_iso'' [] r = ts" "dict_item ''ts_iso'' r = Inr ts"
    by (simp_all add: dict_get_def dict_item_def)
  show ?case
  proof (cases "parse_ts fromiso ts")
    case None
    with Cons g show ?thesis by (simp add: half_bad_def)
  next
    case (Some t)
    let ?cpu = "bindE (bindE (dict_item ''cpu_user_pct'' r) py_float) (\<lambda>u.
        bindE (bindE (dict_item ''cpu_system_pct'' r) py_float) (\<lambda>s. Inr (u + s)))"
    show ?thesis
    proof (cases ?cpu)
      case (Inl e)
      then have "\<not> half_bad fromiso r" by (simp add: half_bad_def)
      moreover have "sys_rows fromiso t0 rows (xs @ [(t - t0) / 60]) (cpu @ [0]) (wmib @ [0]) = Inr (xs', cpu', wmib')"
        using Cons.prems g Some Inl by simp
      ultimately show ?thesis using Cons.IH by fastforce
    next
      case (Inr x)
      show ?thesis
      proof (cases "float_or0 ''disk_write_mib_s'' r")
        case (Inl e)
        then have "half_bad fromiso r" using Inr Some g by (simp add: half_bad_def)
        moreover have "sys_rows fromiso t0 rows (xs @ [(t - t0) / 60]) (cpu @ [x, 0]) (wmib @ [0]) = Inr (xs', cpu', wmib')"
          using Cons.prems g Some Inl Inr by simp
        ultimately show ?thesis using Cons.IH by fastforce
      next
        case w: (Inr w)
        then have "\<not> half_bad fromiso r" by (simp add: half_bad_def)
        moreover have "sys_rows fromiso t0 rows (xs @ [(t - t0) / 60]) (cpu @ [x]) (wmib @ [w]) = Inr (xs', cpu', wmib')"
          using Cons.prems g Some w Inr by simp
        ultimately show ?thesis using Cons.IH by fastforce
      qed
    qed
  qed
qed simp

definition bloat_dead :: "csv_row \<Rightarrow> int" where
  "bloat_dead r = (case bloat_pair r of Inl _ \<Rightarrow> 0 | Inr (d, _) \<Rightarrow> d)"

lemma bloat_by_ts_facts:
  assumes "distinct (map fst d)"
  shows "distinct (map fst (bloat_by_ts rows d)) \<and>
    sum_list (map (fst \<circ> snd) (bloat_by_ts rows d)) = sum_list (map (fst \<circ> snd) d) + sum_list (map bloat_dead rows)
    \<and> fst ` set (bloat_by_ts rows d) \<subseteq> fst ` set d \<union> bloat_ts ` set rows"
  using assms
proof (induction rows arbitrary: d)
  case (Cons r rows)
  show ?case
  proof (cases "bloat_pair r")
    case (Inl e)
    with Cons show ?thesis by (auto simp: bloat_dead_def)
  next
    case (Inr x)
    obtain dt lv where x: "x = (dt, lv)" by (cases x)
    obtain a b where ab: "dict_get (bloat_ts r) (0, 0) d = (a, b)" by (cases "dict_get (bloat_ts r) (0, 0) d")
    let ?d = "dict_set (bloat_ts r) (a + dt, b + lv) d"
    have "sum_list (map (fst \<circ> snd) ?d) = sum_list (map (fst \<circ> snd) d) + dt"
      using ab by (induction d) (auto simp: dict_get_def)
    moreover have "distinct (map fst ?d)" using Cons.prems by (rule distinct_dict_set)
    moreover have "fst ` set ?d = insert (bloat_ts r) (fst ` set d)" by (rule keys_dict_set)
    ultimately show ?thesis
      using Cons.IH[of ?d] Inr x ab by (auto simp: bloat_dead_def comp_def)
  qed
qed simp

section \<open>Properties\<close>

text \<open>
  Smoothing keeps the number of points, leaves every value between the least and
  the greatest of the series, and with window 0 changes nothing.
\<close>

theorem smooth_spec:
  "length (smooth ys w) = length ys \<and> smooth ys 0 = ys
    \<and> list_all (\<lambda>y. Min (set ys) \<le> y \<and> y \<le> Max (set ys)) (smooth ys w)"
proof (intro conjI)
  show "length (smooth ys w) = length ys" by (simp add: smooth_def)
  show "smooth ys 0 = ys"
  proof (rule nth_equalityI)
    show "smooth ys 0 ! i = ys ! i" if "i < length (smooth ys 0)" for i
    proof -
      have "i < length ys" "min (length ys) (Suc i) = Suc i" using that by (simp_all add: smooth_def)
      then show ?thesis by (simp add: smooth_def Let_def flip: Cons_nth_drop_Suc)
    qed
  qed (simp add: smooth_def)
  show "list_all (\<lambda>y. Min (set ys) \<le> y \<and> y \<le> Max (set ys)) (smooth ys w)"
    unfolding list_all_length
  proof (intro allI impI)
    fix i assume "i < length (smooth ys w)"
    then have i: "i < length ys" by (simp add: smooth_def)
    define a b where "a = i - w" "b = min (length ys) (i + w + 1)"
    let ?w = "take (b - a) (drop a ys)"
    have n: "length ?w = b - a" "a < b" using i by (auto simp: a_b_def)
    then have "?w \<noteq> []" by (metis diff_is_0_eq linorder_not_less list.size(3))
    moreover have "x \<in> set ys" if "x \<in> set ?w" for x using that by (meson in_set_dropD in_set_takeD)
    ultimately have "Min (set ys) \<le> sum_list ?w / of_nat (length ?w) \<and> sum_list ?w / of_nat (length ?w) \<le> Max (set ys)"
      by (intro average_between) simp_all
    then show "Min (set ys) \<le> smooth ys w ! i \<and> smooth ys w ! i \<le> Max (set ys)"
      using i n(1) by (simp add: smooth_def a_b_def Let_def)
  qed
qed

text \<open>
  The series of \<open>load_sys\<close> do not line up: a row whose CPU columns are numbers and
  whose disk column is not adds two CPU values for one minute, so that the CPU series is
  longer than the other two by the number of these rows.
\<close>

theorem load_sys_lengths:
  assumes "load_sys fromiso rows = Inr (xs, cpu, wmib)" "xs \<noteq> []"
  shows "length wmib = length xs \<and> length cpu = length xs + length (filter (half_bad fromiso) rows)"
proof -
  from assms obtain t0 where "sys_rows fromiso t0 rows [] [] [] = Inr (xs, cpu, wmib)"
    by (auto simp: load_sys_def bindE_eq_Inr split: list.splits option.splits)
  from sys_rows_lengths[OF this] show ?thesis by simp
qed

text \<open>
  The bloat series accounts for every table: when the time stamps parse, the dead
  tuples of its points add up to those of all rows whose counts are numbers.
\<close>

theorem bloat_conserved:
  assumes "list_all (\<lambda>r. parse_ts fromiso (bloat_ts r) \<noteq> None) rows"
  shows "(\<Sum>(x, dead, live) \<leftarrow> load_bloat fromiso rows. dead) = sum_list (map bloat_dead rows)"
proof -
  let ?d = "bloat_by_ts rows []"
  have f: "distinct (map fst ?d)" "sum_list (map (fst \<circ> snd) ?d) = sum_list (map bloat_dead rows)"
    "fst ` set ?d \<subseteq> bloat_ts ` set rows"
    using bloat_by_ts_facts[of "[]" rows] by auto
  show ?thesis
  proof (cases "?d = []")
    case True
    then show ?thesis using f(2) by (simp add: load_bloat_def)
  next
    case False
    let ?ks = "sort (map fst ?d)"
    have ok: "\<exists>t. parse_ts fromiso k = Some t" if "k \<in> set ?ks" for k
    proof -
      have "k \<in> bloat_ts ` set rows" using that f(3) by auto
      then show ?thesis using assms by (auto simp: list_all_iff)
    qed
    have "?ks \<noteq> []" using False by (metis length_0_conv length_map length_sort)
    then obtain t0 where t0: "parse_ts fromiso (hd ?ks) = Some t0" using ok hd_in_set by blast
    have at: "dict_get (fst p) (0, 0) ?d = snd p" if "p \<in> set ?d" for p
      using that map_of_is_SomeI[OF f(1), of "fst p" "snd p"] by (simp add: dict_get_def)
    have "(\<Sum>(x, dead, live) \<leftarrow> List.map_filter (\<lambda>ts. map_option (\<lambda>t. ((t - t0) / 60, dict_get ts (0, 0) ?d)) (parse_ts fromiso ts)) ks. dead)
        = (\<Sum>k \<leftarrow> ks. fst (dict_get k (0, 0) ?d))" if "\<forall>k\<in>set ks. \<exists>t. parse_ts fromiso k = Some t" for ks
      using that by (induction ks) (auto simp only: List.map_filter_simps list.set option.case option.map
        case_prod_unfold list.map sum_list.Nil sum_list.Cons fst_conv snd_conv ball_simps)
    then have "(\<Sum>(x, dead, live) \<leftarrow> load_bloat fromiso rows. dead) = (\<Sum>k \<leftarrow> ?ks. fst (dict_get k (0, 0) ?d))"
      using False t0 ok by (simp add: load_bloat_def Let_def)
    also have "\<dots> = (\<Sum>k \<leftarrow> map fst ?d. fst (dict_get k (0, 0) ?d))"
      using f(1) by (simp add: sum_list_distinct_conv_sum_set del: map_map)
    also have "map (\<lambda>k. fst (dict_get k (0, 0) ?d)) (map fst ?d) = map (fst \<circ> snd) ?d"
      by (simp add: at)
    finally show ?thesis using f(2) by simp
  qed
qed

text \<open>
  The backlog curve stays between 0 and the producer's total, and once the producer
  has sent everything it is what the table calls the true backlog: the total less what has
  been consumed, or 0.
\<close>

theorem backlog_bounds:
  assumes "e \<in> set eps" "0 \<le> ep_cum e" "0 \<le> prod_total"
  shows "\<exists>b. backlog_series prod_total [e] = [b] \<and> b \<in> set (backlog_series prod_total eps)
    \<and> 0 \<le> b \<and> b \<le> of_int prod_total
    \<and> (of_int prod_total \<le> 2000 * (ep_min e * 60) \<longrightarrow> b = of_int (max 0 (prod_total - ep_cum e)))"
  using assms by (auto simp: backlog_series_def Let_def max_def min_def simp flip: of_int_diff)

text \<open>
  Claim C39. From the consumer's log to the table nothing is lost: on the files that
  \<open>parse_events_consumed.py\<close> writes for a log, the consumer total of the table is the number
  of events of the log's NOTICE lines, the event series adds up to it, its last cumulative
  value is it, and the true backlog is the producer's total less it.
\<close>

theorem pipeline_totals:
  assumes "parse_events_main file aggs width = (rows, summary)" "0 < width"
    and "system_row fromiso name f = Inr (pa, tr)"
    and "f_events f = csv_rows rows" "f_summary f = summary_lines sys dir out summary"
  shows "tr_consumer_total tr = sum_list (map snd (parse_notice_log file))
    \<and> sum_list (map ep_ev (load_events (f_events f))) = tr_consumer_total tr
    \<and> (rows = [] \<or> ep_cum (last (load_events (f_events f))) = tr_consumer_total tr)
    \<and> tr_true_backlog tr = max 0 (load_producer_total (f_producer f) - tr_consumer_total tr)"
proof -
  let ?n = "sum_list (map snd (parse_notice_log file))"
  have s: "sum_list (map snd rows) = ?n" "\<And>s. summary = Some s \<Longrightarrow> cs_total_events s = ?n"
  proof -
    have "case parse_events_main file aggs width of (rows, summary) \<Rightarrow>
       sum_list (map snd rows) = sum_list (map snd (parse_notice_log file))
       \<and> (\<forall>s. summary = Some s \<longrightarrow> cs_total_events s = sum_list (map snd rows)
            \<and> cs_total_calls s = int (length (parse_notice_log file)))
       \<and> map fst rows = range_up 0 (int (length rows) * width) width"
      by (rule series_facts[OF assms(2)])
    then show "sum_list (map snd rows) = ?n" "\<And>s. summary = Some s \<Longrightarrow> cs_total_events s = ?n"
      using assms(1) by auto
  qed
  have nn: "list_all (\<lambda>(s, n). 0 \<le> s \<and> 0 \<le> n) rows" by (rule series_nonneg[OF assms(2,1)])
  then have "0 \<le> sum_list (map snd rows)" by (fastforce simp: list_all_iff intro!: sum_list_nonneg)
  then have "int_or0 ''total_events_consumed'' (load_summary (f_summary f))
      = Inr (case summary of None \<Rightarrow> 0 | Some s \<Rightarrow> cs_total_events s)"
    unfolding assms(5) using s by (intro summary_total) simp
  moreover have "(case summary of None \<Rightarrow> 0 | Some s \<Rightarrow> cs_total_events s) = ?n"
    using assms(1) s(2) by (auto simp: parse_events_main_def Let_def split: option.splits if_splits)
  ultimately have c: "tr_consumer_total tr = ?n \<and> tr_true_backlog tr = max 0 (load_producer_total (f_producer f) - ?n)"
    using assms(3) by (auto simp: system_row_def Let_def bindE_eq_Inr)
  show ?thesis
    using c s event_points_csv[OF nn, of 0] by (auto simp: load_events_def assms(4))
qed

end
