(* ===== verification/AshAnalyze.thy ===== *)
theory AshAnalyze
  imports Analyze
begin

text \<open>
  \<open>benchmark/charts/r8_ash_analyze.py\<close>: active sessions by wait category, per minute. A row of
  \<open>ash.csv\<close> is one active backend at one sample time. \<open>fromiso\<close> is as in \<open>Analyze\<close>.
\<close>

section \<open>Categories\<close>

definition CATEGORIES :: "string list" where
  "CATEGORIES = [''CPU*'', ''IO'', ''LWLock'', ''Lock'', ''Client'', ''IPC'', ''Activity'', ''Other'']"

definition cat_of :: "string \<Rightarrow> string" where
  "cat_of wait_event =
     (if wait_event = [] then ''Other''
      else let we = strip wait_event in
        if we = [] \<or> we = ''NULL'' then ''Other''
        else if we = ''CPU*'' then ''CPU*''
        else let pre = (if CHR '':'' \<in> set we then hd (split_at (CHR '':'') we) else we) in
          if pre = ''LWLock'' then ''LWLock''
          else if pre = ''Lock'' then ''Lock''
          else if pre = ''IO'' then ''IO''
          else if pre = ''Client'' then ''Client''
          else if pre = ''IPC'' then ''IPC''
          else if pre = ''Activity'' then ''Activity''
          else if pre = ''Timeout'' then ''Other''
          else ''Other'')"

section \<open>Loading\<close>

definition ash_first_ts :: "string \<Rightarrow> int option" where
  "ash_first_ts s = (let ds = take 10 s; rest = drop 10 s in
     if length ds = 10 \<and> list_all is_digit ds \<and> rest \<noteq> [] \<and> is_space (hd rest)
     then Some (int (nat_of_str ds)) else None)"

definition ash_find_t0 :: "(string \<times> string list option) list \<Rightarrow> int option" where
  "ash_find_t0 aggs = first_some
     (\<lambda>(name, file). case file of None \<Rightarrow> None | Some lines \<Rightarrow> first_some ash_first_ts lines)
     (sort_key fst aggs)"

record ash_state =
  as_t0 :: "int option"
  as_rows :: "(int \<times> string \<times> int) list"
  as_qid :: "(string \<times> int) list"
  as_we :: "(string \<times> int) list"
  as_fail :: int

definition py_trunc :: "rat \<Rightarrow> int" where
  "py_trunc x = (if 0 \<le> x then \<lfloor>x\<rfloor> else \<lceil>x\<rceil>)"

definition active_backends :: "csv_row \<Rightarrow> int" where
  "active_backends r = (let t = dict_get ''active_backends'' [] r in
     if t = [] then 1 else case py_int t of Inl _ \<Rightarrow> 1 | Inr n \<Rightarrow> n)"

text \<open>One row of the file.\<close>

definition ash_row :: "(string \<Rightarrow> rat option) \<Rightarrow> csv_row \<Rightarrow> ash_state \<Rightarrow> ash_state" where
  "ash_row fromiso r st = (case parse_ts fromiso (dict_get ''sample_time'' [] r) of
      None \<Rightarrow> st\<lparr>as_fail := as_fail st + 1\<rparr>
    | Some t \<Rightarrow>
        (let epoch = py_trunc t;
             t0 = (case as_t0 st of None \<Rightarrow> epoch | Some t0 \<Rightarrow> t0);
             off = epoch - t0; st = st\<lparr>as_t0 := Some t0\<rparr> in
         if off < - 60 \<or> 120 * 60 + 300 < off then st
         else let we = dict_get ''wait_event'' [] r; ab = active_backends r;
                  qid = dict_get ''query_id'' [] r; wk = (if we = [] then ''CPU*'' else we) in
           st\<lparr>as_rows := as_rows st @ [(off, cat_of we, ab)],
              as_qid := dict_set qid (dict_get qid 0 (as_qid st) + ab) (as_qid st),
              as_we := dict_set wk (dict_get wk 0 (as_we st) + ab) (as_we st)\<rparr>))"

record ash_meta =
  am_top_qids :: "(string \<times> int) list"
  am_top_we :: "(string \<times> int) list"
  am_samples :: int
  am_parse_fail :: int

definition ash_rows :: "(string \<Rightarrow> rat option) \<Rightarrow> csv_row list \<Rightarrow> ash_state \<Rightarrow> ash_state" where
  "ash_rows fromiso rows st = foldl (\<lambda>st r. ash_row fromiso r st) st rows"

text \<open>Without the file there is no \<open>meta\<close>.\<close>

definition load_ash :: "(string \<Rightarrow> rat option) \<Rightarrow> (string \<times> string list option) list \<Rightarrow> csv_row list option
    \<Rightarrow> int option \<times> (int \<times> string \<times> int) list \<times> ash_meta option" where
  "load_ash fromiso aggs file = (case file of None \<Rightarrow> (None, [], None)
     | Some rows \<Rightarrow>
         (let st = ash_rows fromiso rows
             \<lparr>as_t0 = ash_find_t0 aggs, as_rows = [], as_qid = [], as_we = [], as_fail = 0\<rparr> in
          (as_t0 st, as_rows st, Some
            \<lparr>am_top_qids = take 10 (sort_key (\<lambda>x. - snd x) (as_qid st)),
             am_top_we = take 15 (sort_key (\<lambda>x. - snd x) (as_we st)),
             am_samples = int (length (as_rows st)), am_parse_fail = as_fail st\<rparr>)))"

section \<open>Stacking\<close>

text \<open>The counts per category and bucket, and the sample offsets seen in each bucket.\<close>

fun stack_rows :: "int \<Rightarrow> int \<Rightarrow> (int \<times> string \<times> int) list \<Rightarrow> (string \<times> rat list) list \<Rightarrow> (int \<times> int list) list
    \<Rightarrow> exc + (string \<times> rat list) list \<times> (int \<times> int list) list" where
  "stack_rows bucket_s n [] mat seen = Inr (mat, seen)"
| "stack_rows bucket_s n ((off, cat, ab) # rows) mat seen =
     (let b = off div bucket_s in
      if 0 \<le> b \<and> b < n
      then bindE (dict_item cat mat) (\<lambda>v.
             stack_rows bucket_s n rows (dict_set cat (v[nat b := v ! nat b + 1]) mat)
               (dict_set b (List.insert off (dict_get b [] seen)) seen))
      else stack_rows bucket_s n rows mat seen)"

definition num_samples :: "(int \<times> int list) list \<Rightarrow> nat \<Rightarrow> nat" where
  "num_samples seen b = (let k = length (dict_get (int b) [] seen) in if k = 0 then 1 else k)"

definition bucket_stack :: "(int \<times> string \<times> int) list \<Rightarrow> int \<Rightarrow> int \<Rightarrow> exc + (string \<times> rat list) list \<times> int" where
  "bucket_stack rows bucket_s total_s =
     (let n = total_s div bucket_s in
      bindE (stack_rows bucket_s n rows (map (\<lambda>c. (c, replicate (nat n) 0)) CATEGORIES) []) (\<lambda>(mat, seen).
        Inr (map (\<lambda>(c, v). (c, map (\<lambda>b. v ! b / of_nat (num_samples seen b)) [0..<length v])) mat, n)))"

text \<open>The axis of a system's panel: its limit and its ticks, from the heights of the stack.\<close>

definition stack_totals :: "(string \<times> rat list) list \<Rightarrow> nat \<Rightarrow> rat list" where
  "stack_totals stack n = map (\<lambda>b. \<Sum>c \<leftarrow> CATEGORIES. dict_get c [] stack ! b) [0..<n]"

definition y_axis :: "rat list \<Rightarrow> int \<times> int list" where
  "y_axis totals = (let ymax = max 1 (Max (set totals)); ymax_int = \<lceil>ymax\<rceil> + 1; step = max 1 (ymax_int div 4)
     in (ymax_int, range_up 0 (ymax_int + 1) step))"

section \<open>Lemmas\<close>

lemma cat_of_mem: "cat_of w \<in> set CATEGORIES"
  by (simp add: cat_of_def CATEGORIES_def Let_def)

lemma CATEGORIES_distinct: "distinct CATEGORIES"
  by (simp add: CATEGORIES_def)

definition ash_ok :: "ash_state \<Rightarrow> bool" where
  "ash_ok st \<longleftrightarrow> list_all (\<lambda>(off, cat, ab). - 60 \<le> off \<and> off \<le> 7500 \<and> cat \<in> set CATEGORIES) (as_rows st)
     \<and> sum_list (map snd (as_qid st)) = (\<Sum>(off, cat, ab) \<leftarrow> as_rows st. ab)
     \<and> sum_list (map snd (as_we st)) = (\<Sum>(off, cat, ab) \<leftarrow> as_rows st. ab)"

lemma ash_row_ok: "ash_ok st \<Longrightarrow> ash_ok (ash_row fromiso r st)"
  by (auto simp: ash_ok_def ash_row_def Let_def cat_of_mem sum_dict_add split: option.splits)

lemma ash_rows_ok: "ash_ok st \<Longrightarrow> ash_ok (ash_rows fromiso rows st)"
  unfolding ash_rows_def by (induction rows arbitrary: st) (simp_all add: ash_row_ok)

lemma load_ash_ok:
  assumes "load_ash fromiso aggs (Some rows) = (t0, sel, meta)"
  shows "\<exists>st. ash_ok st \<and> sel = as_rows st \<and>
     meta = Some \<lparr>am_top_qids = take 10 (sort_key (\<lambda>x. - snd x) (as_qid st)),
       am_top_we = take 15 (sort_key (\<lambda>x. - snd x) (as_we st)),
       am_samples = int (length sel), am_parse_fail = as_fail st\<rparr>"
proof -
  let ?st = "ash_rows fromiso rows \<lparr>as_t0 = ash_find_t0 aggs, as_rows = [], as_qid = [], as_we = [], as_fail = 0\<rparr>"
  have "ash_ok ?st" by (intro ash_rows_ok) (simp add: ash_ok_def)
  then show ?thesis using assms by (intro exI[of _ ?st]) (auto simp: load_ash_def Let_def)
qed

text \<open>The stack of one bucket, while counting.\<close>

definition in_bucket :: "int \<Rightarrow> nat \<Rightarrow> int \<times> string \<times> int \<Rightarrow> bool" where
  "in_bucket bucket_s b = (\<lambda>(off, cat, ab). off div bucket_s = int b)"

definition mat_ok :: "nat \<Rightarrow> (string \<times> rat list) list \<Rightarrow> bool" where
  "mat_ok n mat \<longleftrightarrow> map fst mat = CATEGORIES \<and> list_all (\<lambda>(c, v). length v = n) mat"

lemma dict_set_keys_same: "k \<in> fst ` set d \<Longrightarrow> map fst (dict_set k v d) = map fst d"
proof (induction d)
  case (Cons p d)
  then show ?case by (cases p; cases "fst p = k") auto
qed simp

lemma set_dict_set: "set (dict_set k v d) \<subseteq> insert (k, v) (set d)"
  by (induction d) (auto split: if_splits)

lemma mat_ok_set: "mat_ok n mat \<Longrightarrow> c \<in> set CATEGORIES \<Longrightarrow> length v = n \<Longrightarrow> mat_ok n (dict_set c v mat)"
  using set_dict_set[of c v mat] dict_set_keys_same[of c mat v]
  by (fastforce simp: mat_ok_def list_all_iff simp flip: set_map)

lemma sum_dict_set_item:
  assumes "map_of mat c = Some v"
  shows "(\<Sum>(c, v) \<leftarrow> dict_set c v' mat. f v) = (\<Sum>(c, v) \<leftarrow> mat. f v) - f v + (f v' :: rat)"
  using assms by (induction mat) (auto split: if_splits)

lemma stack_rows_counts:
  assumes "mat_ok (nat n) mat" "list_all (\<lambda>(off, cat, ab). cat \<in> set CATEGORIES) rows"
  shows "\<exists>mat' seen'. stack_rows bucket_s n rows mat seen = Inr (mat', seen') \<and> mat_ok (nat n) mat' \<and>
    (\<forall>b < nat n. (\<Sum>(c, v) \<leftarrow> mat'. v ! b) = (\<Sum>(c, v) \<leftarrow> mat. v ! b) + of_nat (length (filter (in_bucket bucket_s b) rows))
      \<and> set (dict_get (int b) [] seen') = set (dict_get (int b) [] seen) \<union> fst ` set (filter (in_bucket bucket_s b) rows)
      \<and> (distinct (dict_get (int b) [] seen) \<longrightarrow> distinct (dict_get (int b) [] seen')))"
  using assms
proof (induction rows arbitrary: mat seen)
  case (Cons row rows)
  obtain off cat ab where row: "row = (off, cat, ab)" by (cases row)
  have cat: "cat \<in> set CATEGORIES" and rest: "list_all (\<lambda>(off, cat, ab). cat \<in> set CATEGORIES) rows"
    using Cons.prems(2) by (simp_all add: row)
  define k where "k = off div bucket_s"
  show ?case
  proof (cases "0 \<le> k \<and> k < n")
    case True
    have "cat \<in> fst ` set mat" using cat Cons.prems(1) by (simp add: mat_ok_def flip: set_map)
    then obtain v where v: "map_of mat cat = Some v" by (metis domIff dom_map_of_conv_image_fst not_None_eq)
    have len: "length v = nat n" using v Cons.prems(1) map_of_SomeD by (fastforce simp: mat_ok_def list_all_iff)
    let ?m = "dict_set cat (v[nat k := v ! nat k + 1]) mat"
    let ?s = "dict_set k (List.insert off (dict_get k [] seen)) seen"
    have ok: "mat_ok (nat n) ?m" using Cons.prems(1) cat len by (intro mat_ok_set) simp_all
    from Cons.IH[OF ok rest, of ?s] obtain mat' seen' where ih:
      "stack_rows bucket_s n rows ?m ?s = Inr (mat', seen')" "mat_ok (nat n) mat'"
      "\<forall>b < nat n. (\<Sum>(c, v) \<leftarrow> mat'. v ! b) = (\<Sum>(c, v) \<leftarrow> ?m. v ! b) + of_nat (length (filter (in_bucket bucket_s b) rows))
      \<and> set (dict_get (int b) [] seen') = set (dict_get (int b) [] ?s) \<union> fst ` set (filter (in_bucket bucket_s b) rows)
      \<and> (distinct (dict_get (int b) [] ?s) \<longrightarrow> distinct (dict_get (int b) [] seen'))" by blast
    have at: "(\<Sum>(c, v) \<leftarrow> ?m. v ! b) = (\<Sum>(c, v) \<leftarrow> mat. v ! b) + (if int b = k then 1 else 0)" if "b < nat n" for b
      using sum_dict_set_item[OF v, where f = "\<lambda>v. v ! b" and v' = "v[nat k := v ! nat k + 1]"] that len True by auto
    have inb: "in_bucket bucket_s b row \<longleftrightarrow> int b = k" for b by (auto simp: in_bucket_def row k_def)
    have step: "stack_rows bucket_s n (row # rows) mat seen = Inr (mat', seen')"
      using True ih(1) v by (simp add: row dict_item_def flip: k_def)
    show ?thesis
    proof (intro exI conjI allI impI)
      fix b assume b: "b < nat n"
      note f = ih(3)[rule_format, OF b]
      show "(\<Sum>(c, v) \<leftarrow> mat'. v ! b) = (\<Sum>(c, v) \<leftarrow> mat. v ! b) + of_nat (length (filter (in_bucket bucket_s b) (row # rows)))"
        using f at[OF b] inb[of b] by simp
      show "set (dict_get (int b) [] seen') = set (dict_get (int b) [] seen) \<union> fst ` set (filter (in_bucket bucket_s b) (row # rows))"
        using f inb[of b] by (auto simp: dict_get_set row)
      show "distinct (dict_get (int b) [] seen')" if "distinct (dict_get (int b) [] seen)"
        using f that by (auto simp: dict_get_set split: if_splits)
    qed (fact step ih(2))+
  next
    case False
    have inb: "\<not> in_bucket bucket_s b row" if "b < nat n" for b
      using that False by (auto simp: in_bucket_def row k_def)
    from Cons.IH[OF Cons.prems(1) rest, of seen] False inb show ?thesis by (auto simp: row simp flip: k_def)
  qed
qed (simp add: mat_ok_def)

section \<open>Properties\<close>


end
