(* ===== verification/ToolWitnesses.thy ===== *)
theory ToolWitnesses
  imports Scenario Delivery CoopDemo ScalingRun ProducerBench AshAnalyze Sessions
begin

text \<open>
  The theorems about the demo and the benchmark tools, each applied where its hypotheses hold.
\<close>

section \<open>The cooperative demo\<close>

theorem publish_chunks_partition_witness:
  "concat (map (\<lambda>first. chunk_payloads first (min (publish_chunk_size 9) (9 - first)))
      (range_up 0 9 (publish_chunk_size 9))) = map demo_payload (range_up 0 9 1)"
  by (rule publish_chunks_partition) simp

definition sc_msg :: message where
  "sc_msg = (client_message (to_message 1 (sc_event 1 12)))\<lparr>msg_type := PyStr ''demo.coop''\<rparr>"

theorem worker_counts_witness:
  "\<exists>c. spawn_consumer [] ''q'' ''demo_workers'' ''worker-1'' = Inr c
     \<and> dict_get ''worker-1'' 0 (fold (handle_effect c) [sc_msg] []) = 1"
proof -
  obtain c where c: "spawn_consumer [] ''q'' ''demo_workers'' ''worker-1'' = Inr c"
    and all: "\<And>ms counts. dict_get ''worker-1'' 0 (fold (handle_effect c) ms counts) = dict_get ''worker-1'' 0 counts
            + int (length (filter (\<lambda>m. msg_type m = PyStr ''demo.coop'') ms))"
    using worker_counts[of "[]" "''q''" "''demo_workers''" "''worker-1''"] unfolding Let_def by blast
  have "dict_get ''worker-1'' 0 (fold (handle_effect c) [sc_msg] []) = 1"
    unfolding all by (simp add: sc_msg_def dict_get_def)
  with c show ?thesis by blast
qed

definition sc_closed :: pgconn where
  "sc_closed = sc_conn\<lparr>pc_closed := True\<rparr>"

lemma closed_psycopg: "isinstance (PsycopgError e) CPsycopgError"
  by (simp add: isinstance_psycopg)

theorem drain_tolerates_refusals_witness:
  "\<exists>s' e s1. drain_subconsumers sc_driver ''q'' ''c'' [''worker-1''] sc_closed = (s', Inl e)
    \<and> \<not> isinstance e CPgqueError
    \<and> (drv_rollback sc_driver s1 = (s', Inl e) \<or> drv_commit sc_driver s1 = (s', Inl e))"
proof -
  let ?d = "drain_subconsumers sc_driver ''q'' ''c'' [''worker-1''] sc_closed"
  have "case snd ?d of Inl (PsycopgError e) \<Rightarrow> True | _ \<Rightarrow> False" by code_simp
  then obtain s' p where d: "?d = (s', Inl (PsycopgError p))" by (cases ?d) (auto split: sum.splits exc.splits)
  have r: "drv_rollback sc_driver s1 = (s2, Inl x) \<Longrightarrow> isinstance x CPsycopgError" for s1 s2 x
    by (auto simp: sc_driver_def pg_driver_def isinstance_psycopg split: if_splits)
  have c: "drv_commit sc_driver s1 = (s2, Inl x) \<Longrightarrow> isinstance x CPsycopgError" for s1 s2 x
    by (auto simp: sc_driver_def pg_commit_def isinstance_psycopg split: if_splits)
  have "\<not> isinstance (PsycopgError p) CPgqueError \<and> (isinstance (PsycopgError p) CPsycopgError \<longrightarrow>
      (\<exists>s1. drv_rollback sc_driver s1 = (s', Inl (PsycopgError p)) \<or> drv_commit sc_driver s1 = (s', Inl (PsycopgError p))))"
    by (rule drain_tolerates_refusals[OF d]) (erule r, erule c)
  with d closed_psycopg show ?thesis by blast
qed

theorem drop_queue_error_escapes_witness:
  "\<exists>s2 p. demo_cleanup sc_driver ''q'' ''c'' sc_conn = (s2, Inl (PsycopgError p))"
proof -
  let ?d = "drain_subconsumers sc_driver ''q'' ''c'' [''worker-1'', ''worker-2''] sc_conn"
  have "snd ?d = Inr ()" by code_simp
  then have d: "?d = (fst ?d, Inr ())" by (metis prod.collapse)
  let ?x = "drv_execute sc_driver (fst ?d) ''select pgque.drop_queue(%s, true)'' [PyStr ''q'']"
  have "case snd ?x of Inl (PsycopgError p) \<Rightarrow> True | _ \<Rightarrow> False" by code_simp
  then obtain s2 p where "?x = (s2, Inl (PsycopgError p))" by (cases ?x) (auto split: sum.splits exc.splits)
  from drop_queue_error_escapes[OF d this] show ?thesis by blast
qed

section \<open>The producer benchmark\<close>

theorem bench_methods_write_the_same_witness:
  "bench_send_batch sc_driver ''q'' [PyDict [], PyStr ''1''] sc_block
    = send_loop sc_driver ''q'' [PyDict [], PyStr ''1''] sc_block"
proof -
  have b: "in_block sc_block" by (simp add: in_block_def sc_block_def sc_conn_def)
  have q: "find_queue ''q'' (pc_work sc_block) = Some (sc_queue ''q'')"
    by (simp add: find_queue_def sc_block_def sc_conn_def sc_db_def sc_queue_def)
  have m: "may_insert (sc_ctx (pc_txn sc_block)) (sc_queue ''q'')" by (simp add: may_insert_def sc_queue_def)
  have "list_all2 (\<lambda>p u. (\<nexists>x ty. p = PyEvent x ty) \<and>
      (\<exists>j. encode_payload p = Inr (PyStr j) \<and> pg_jsonb_text (sc_ctx (pc_txn sc_block)) j = Some u))
      [PyDict [], PyStr ''1''] [''{}'', ''1'']"
    by (simp add: sc_ctx_def)
  from bench_methods_write_the_same[where ctxs = sc_ctx, OF b q m this] show ?thesis
    unfolding sc_driver_def by blast
qed

definition sc_one :: statements where
  "sc_one = (\<lambda>_ _ _. sql_return [[PyInt 1]])"

definition sc_bench_env :: bench_env where
  "sc_bench_env = \<lparr>be_token = (\<lambda>_ _ _. []), be_begin = (\<lambda>_ _ _. 0), be_end = (\<lambda>_ _ k. of_nat k + 1)\<rparr>"

theorem measured_median_witness:
  "\<exists>s' r. measure_method (pg_driver sc_one sc_ctx (\<lambda>_. [])) sc_bench_env 3 ''send_loop'' 1 (\<lambda>_ _. ret ()) sc_conn
      = (s', Inr r) \<and> br_repeats r = 3 \<and> 2 \<le> length (filter (\<lambda>x. x \<le> br_median_ms r) [1000, 2000, 3000])"
proof -
  let ?m = "measure_method (pg_driver sc_one sc_ctx (\<lambda>_. [])) sc_bench_env 3 ''send_loop'' 1 (\<lambda>_ _. ret ()) sc_conn"
  have "case snd ?m of Inr x \<Rightarrow> True | Inl e \<Rightarrow> False" by code_simp
  then obtain s' r where m: "?m = (s', Inr r)" by (cases ?m) (auto split: sum.splits)
  have ts: "map (\<lambda>k. (be_end sc_bench_env ''send_loop'' 1 k - be_begin sc_bench_env ''send_loop'' 1 k) * 1000) [0..<nat 3]
      = [1000, 2000, 3000]" by code_simp
  from measured_median[OF m, unfolded ts] m show ?thesis by simp
qed

section \<open>The scaling benchmark\<close>

definition sc_log :: "string list" where
  "sc_log = [notice_line 7 2, ''start'', notice_line 9 1]"


theorem worker_list_roundtrip_witness:
  "worker_list ''1,20'' = Inr [1, 20]"
proof -
  have "join '','' (map str_of_nat [1, 20]) = ''1,20''" by code_simp
  with worker_list_roundtrip[of "[1, 20]"] show ?thesis by simp
qed

definition sc_other :: statements where
  "sc_other = (\<lambda>_ _ _. sql_return [[PyBool False]])"

definition sc_run_conn :: pgconn where
  "sc_run_conn = sc_conn\<lparr>pc_committed := sc_db ''p_01'', pc_work := sc_db ''p_01''\<rparr>"

definition sc_pool_env :: pool_env where
  "sc_pool_env = \<lparr>pool_clock = of_nat, pool_stamp = (\<lambda>_. 7), pool_rep = (\<lambda>_. [])\<rparr>"

theorem run_one_drains_witness:
  "\<exists>s' r. run_one 5 (pg_driver sc_other sc_ctx (\<lambda>_. [])) [] ''p'' ''c'' 2 10 100 1 30 sc_pool_env 9 sc_run_conn
      = Some (s', Inr r) \<and> snd (snd (last (rr_backlog r))) = 0"
proof -
  let ?r = "run_one 5 (pg_driver sc_other sc_ctx (\<lambda>_. [])) [] ''p'' ''c'' 2 10 100 1 30 sc_pool_env 9 sc_run_conn"
  have "case ?r of Some (_, Inr r) \<Rightarrow> True | _ \<Rightarrow> False" by code_simp
  then obtain s' r where r: "?r = Some (s', Inr r)" by (auto split: option.splits prod.splits sum.splits)
  from run_one_drains[OF r] r show ?thesis by simp
qed

section \<open>The charts\<close>

definition sc_files :: system_files where
  "sc_files = \<lparr>f_events = csv_rows (fst (parse_events_main (Some sc_log) [] 1)), f_bloat = [], f_sys = [],
     f_summary = summary_lines ''s'' ''d'' ''o'' (snd (parse_events_main (Some sc_log) [] 1)), f_producer = []\<rparr>"

theorem pipeline_totals_witness:
  "\<exists>pa tr. system_row (\<lambda>_. None) ''s'' sc_files = Inr (pa, tr) \<and> tr_consumer_total tr = 3"
proof -
  let ?s = "system_row (\<lambda>_. None) ''s'' sc_files"
  have "case ?s of Inr x \<Rightarrow> True | Inl e \<Rightarrow> False" by code_simp
  then obtain pa tr where s: "?s = Inr (pa, tr)" by (auto split: sum.splits)
  have l: "sum_list (map snd (parse_notice_log (Some sc_log))) = 3" by code_simp
  have "tr_consumer_total tr = sum_list (map snd (parse_notice_log (Some sc_log)))"
    using pipeline_totals[where width = 1, OF prod.collapse[symmetric] _ s] by (simp add: sc_files_def)
  with s l show ?thesis by simp
qed


end
