(* ===== verification/Charts.thy ===== *)
theory Charts
  imports Scaling
begin

text \<open>
  The numbers behind the charts of \<open>benchmark/subconsumer-scaling\<close>: \<open>chart_common.py\<close>, the
  completion curve, the race of backlogs and its end labels, and the summary table. Drawing
  is left out. Seconds and counts in the series are integers, positions on a chart rationals.
\<close>

section \<open>chart_common.py and summary_table.py\<close>

record run_dir =
  rd_name :: string
  rd_is_dir :: bool
  rd_meta :: pool_summary
  rd_events :: "csv_row list"
  rd_backlog :: "csv_row list"

text \<open>\<open>sorted\<close> on the paths of one directory is by name.\<close>

definition run_dirs :: "run_dir list \<Rightarrow> run_dir list" where
  "run_dirs dirs = sort_key rd_name
     (filter (\<lambda>p. rd_is_dir p \<and> suffix ''-workers'' (rd_name p)) dirs)"

fun load_series :: "csv_row list \<Rightarrow> string \<Rightarrow> string \<Rightarrow> exc + int list \<times> int list" where
  "load_series [] x_col y_col = Inr ([], [])"
| "load_series (row # rows) x_col y_col =
     bindE (int_column x_col row) (\<lambda>x. bindE (int_column y_col row) (\<lambda>y.
     bindE (load_series rows x_col y_col) (\<lambda>(xs, ys). Inr (x # xs, y # ys))))"

record summary_row =
  sr_workers :: int
  sr_ideal :: rat
  sr_avg :: rat
  sr_wall :: rat
  sr_speedup :: rat
  sr_eff :: rat

definition summary_rows :: "run_dir list \<Rightarrow> summary_row list" where
  "summary_rows dirs =
     (let metas = map rd_meta (run_dirs dirs);
          baseline = (case metas of [] \<Rightarrow> 0 | m # _ \<Rightarrow> sm_wall_s m)
      in map (\<lambda>meta.
           \<lparr>sr_workers = sm_workers meta, sr_ideal = sm_ideal_ev_s meta, sr_avg = sm_avg_ev_s meta,
            sr_wall = sm_wall_s meta,
            sr_speedup = (if 0 < sm_wall_s meta \<and> baseline \<noteq> 0 then baseline / sm_wall_s meta else 0),
            sr_eff = (case sm_efficiency meta of None \<Rightarrow> 0 | Some e \<Rightarrow> e)\<rparr>) metas)"

section \<open>The completion curve\<close>

fun completion_rows :: "int \<Rightarrow> csv_row list \<Rightarrow> exc + int list \<times> int list" where
  "completion_rows cumulative [] = Inr ([], [])"
| "completion_rows cumulative (row # rows) =
     bindE (int_column ''second_since_start'' row) (\<lambda>sec.
     bindE (int_column ''events_consumed'' row) (\<lambda>ev.
     bindE (completion_rows (cumulative + int (nat ev)) rows) (\<lambda>(xs, ys).
       Inr (map (\<lambda>k. cumulative + 1 + int k) [0..<nat ev] @ xs, replicate (nat ev) sec @ ys))))"

definition load_completion_curve :: "csv_row list \<Rightarrow> exc + int list \<times> int list" where
  "load_completion_curve rows = completion_rows 0 rows"

lemma int_columns_csv:
  assumes "0 \<le> s" "0 \<le> e"
  shows "int_column ''second_since_start'' (hd (csv_rows ((s, e) # rows))) = Inr s"
    and "int_column ''events_consumed'' (hd (csv_rows ((s, e) # rows))) = Inr e"
proof -
  have "py_int (str_of_int s) = Inr s" "py_int (str_of_int e) = Inr e"
    using assms by (simp_all add: str_of_int_def)
  then show "int_column ''second_since_start'' (hd (csv_rows ((s, e) # rows))) = Inr s"
    "int_column ''events_consumed'' (hd (csv_rows ((s, e) # rows))) = Inr e"
    by (simp_all add: int_column_def dict_item_def csv_rows_def)
qed

lemma completion_rows_csv:
  assumes "list_all (\<lambda>(s, e). 0 \<le> s \<and> 0 \<le> e) rows"
  shows "completion_rows c (csv_rows rows) = Inr
    (map (\<lambda>k. c + 1 + int k) [0..<nat (sum_list (map snd rows))],
     concat (map (\<lambda>(s, e). replicate (nat e) s) rows))"
  using assms
proof (induction rows arbitrary: c)
  case (Cons r rows)
  obtain s e where r: "r = (s, e)" by (cases r)
  have nn: "0 \<le> s" "0 \<le> e" "0 \<le> sum_list (map snd rows)"
    using Cons.prems by (simp_all add: r) (fastforce simp: list_all_iff intro!: sum_list_nonneg)
  obtain ro where ro: "csv_rows (r # rows) = ro # csv_rows rows" "hd (csv_rows (r # rows)) = ro"
    by (simp add: csv_rows_def)
  have n: "nat (e + sum_list (map snd rows)) = nat e + nat (sum_list (map snd rows))"
    using nn by simp
  have "[nat e..<nat e + m] = map (\<lambda>k. k + nat e) [0..<m]" for m
    by (metis add.commute map_add_upt)
  then have tail: "map (\<lambda>k. c + 1 + int k) [nat e..<nat e + m] = map (\<lambda>k. c + e + 1 + int k) [0..<m]" for m
    using nn(2) by (simp add: comp_def algebra_simps)
  have "[0..<nat e + m] = [0..<nat e] @ [nat e..<nat e + m]" for m by (rule upt_add_eq_append) simp
  then have cut: "map (\<lambda>k. c + 1 + int k) [0..<nat e + m] =
      map (\<lambda>k. c + 1 + int k) [0..<nat e] @ map (\<lambda>k. c + e + 1 + int k) [0..<m]" for m
    by (simp only: map_append tail)
  have ih: "completion_rows (c + int (nat e)) (csv_rows rows) = Inr
      (map (\<lambda>k. c + e + 1 + int k) [0..<nat (sum_list (map snd rows))],
       concat (map (\<lambda>(s, e). replicate (nat e) s) rows))"
    using Cons nn(2) by (simp add: r)
  have cols: "int_column ''second_since_start'' ro = Inr s" "int_column ''events_consumed'' ro = Inr e"
    using int_columns_csv[OF nn(1,2), of rows] ro(2) by (simp_all add: r)
  show ?case
    unfolding ro(1) using cols ih by (simp add: r n cut del: upt_Suc)
qed (simp add: csv_rows_def)

text \<open>
  The completion curve of a series numbers the messages 1, 2, 3, and so on up to the
  number of events, each with the second of its row, so that it never falls along a series
  whose seconds are in order.
\<close>

theorem completion_curve:
  assumes "list_all (\<lambda>(s, e). 0 \<le> s \<and> 0 \<le> e) rows" "sorted (map fst rows)"
  shows "\<exists>ys. load_completion_curve (csv_rows rows) =
      Inr (map (\<lambda>k. 1 + int k) [0..<nat (sum_list (map snd rows))], ys)
    \<and> int (length ys) = sum_list (map snd rows) \<and> sorted ys
    \<and> (\<forall>s. length (filter (\<lambda>y. y = s) ys) = sum_list (map (\<lambda>(x, e). if x = s then nat e else 0) rows))"
proof -
  let ?ys = "concat (map (\<lambda>(s, e). replicate (nat e) s) rows)"
  have nn: "list_all (\<lambda>(s, e). 0 \<le> s \<and> 0 \<le> e) rows" using assms(1) .
  have len: "int (length ?ys) = sum_list (map snd rows)"
    using nn by (induction rows) auto
  have count: "length (filter (\<lambda>y. y = s) ?ys) = sum_list (map (\<lambda>(x, e). if x = s then nat e else 0) rows)" for s
    by (induction rows) auto
  have "sorted ?ys"
    using assms(2) by (induction rows) (auto simp: sorted_append)
  with len count completion_rows_csv[OF assms(1), of 0] show ?thesis
    by (intro exI[of _ ?ys]) (simp add: load_completion_curve_def)
qed

section \<open>Clipping a series\<close>

fun clip_prefix :: "int list \<Rightarrow> int list \<Rightarrow> rat \<Rightarrow> int list \<times> int list" where
  "clip_prefix (x # xs) (y # ys) now =
     (if of_int x \<le> now then (case clip_prefix xs ys now of (us, vs) \<Rightarrow> (x # us, y # vs)) else ([], []))"
| "clip_prefix _ _ now = ([], [])"

text \<open>\<open>clip_series\<close> of \<open>gif_subconsumer_scaling.py\<close>.\<close>

definition clip_series_gif :: "int list \<Rightarrow> int list \<Rightarrow> rat \<Rightarrow> int list \<times> int list" where
  "clip_series_gif xs ys now = clip_prefix xs ys now"

text \<open>\<open>clip_series\<close> of \<open>backlog_race.py\<close>: a last point at \<open>now\<close> holds the line.\<close>

definition clip_series :: "int list \<Rightarrow> int list \<Rightarrow> rat \<Rightarrow> rat list \<times> int list" where
  "clip_series xs ys now = (case clip_prefix xs ys now of (us, vs) \<Rightarrow>
     if us \<noteq> [] \<and> of_int (last us) < now then (map of_int us @ [now], vs @ [last vs])
     else (map of_int us, vs))"

lemma clip_prefix_takeWhile:
  "length xs = length ys \<Longrightarrow> clip_prefix xs ys now =
     (takeWhile (\<lambda>x. of_int x \<le> now) xs, take (length (takeWhile (\<lambda>x. of_int x \<le> now) xs)) ys)"
  by (induction xs ys now rule: clip_prefix.induct) (auto split: prod.splits)

text \<open>
  A clipped series is drawn up to \<open>now\<close> and no further: it is a prefix of the
  series, all its points lie at or before \<open>now\<close>, it ends at \<open>now\<close> when the series has begun,
  its last value is that of the last point reached, and from the end of the series on it
  shows all of it.
\<close>

theorem clip_series_spec:
  assumes "length xs = length ys" "sorted xs"
  shows "case clip_series xs ys now of (us, vs) \<Rightarrow> length us = length vs
    \<and> (\<forall>u\<in>set us. u \<le> now)
    \<and> (us \<noteq> [] \<longleftrightarrow> xs \<noteq> [] \<and> of_int (hd xs) \<le> now) \<and> (us \<noteq> [] \<longrightarrow> last us = now)
    \<and> (\<exists>k. prefix (map of_int (take k xs)) us \<and> length us \<le> Suc k \<and> prefix (take k ys) vs
         \<and> set vs = set (take k ys) \<and> (\<forall>i<length xs. i < k \<longleftrightarrow> of_int (xs ! i) \<le> now))"
proof -
  let ?P = "\<lambda>x. rat_of_int x \<le> now"
  define us where "us = takeWhile ?P xs"
  define k where "k = length us"
  have t: "us = take k xs" unfolding k_def us_def by (rule takeWhile_eq_take)
  have k: "k \<le> length ys" "k \<le> length xs"
    using assms(1) length_takeWhile_le[of ?P xs] by (simp_all add: k_def us_def)
  have idx: "i < k \<longleftrightarrow> ?P (xs ! i)" if "i < length xs" for i
  proof
    assume "i < k" then show "?P (xs ! i)"
      unfolding k_def us_def by (metis nth_mem set_takeWhileD takeWhile_nth)
  next
    assume p: "?P (xs ! i)"
    show "i < k"
    proof (rule ccontr)
      assume "\<not> i < k"
      then have "xs ! k \<le> xs ! i" using that assms(2) by (simp add: sorted_nth_mono)
      moreover have "\<not> ?P (xs ! k)"
        using \<open>\<not> i < k\<close> that unfolding k_def us_def by (intro nth_length_takeWhile) simp
      ultimately show False using p by (meson of_int_le_iff order_trans)
    qed
  qed
  have le: "?P u" if "u \<in> set us" for u using set_takeWhileD[OF that[unfolded us_def]] by simp
  have ne: "us \<noteq> [] \<longleftrightarrow> xs \<noteq> [] \<and> ?P (hd xs)" unfolding us_def by (cases xs) auto
  have vs: "us \<noteq> [] \<Longrightarrow> take k ys \<noteq> []" using k(1) by (auto simp: k_def)
  have clip: "clip_prefix xs ys now = (us, take k ys)"
    using clip_prefix_takeWhile[OF assms(1), of now] by (simp add: us_def k_def)
  have us_k: "length us = k" by (simp add: k_def)
  have fin: "\<exists>j. prefix (map of_int (take j xs)) (map of_int us @ es) \<and> length (map rat_of_int us @ es) \<le> Suc j
      \<and> prefix (take j ys) (take k ys @ fs) \<and> set (take k ys @ fs) = set (take j ys)
      \<and> (\<forall>i<length xs. i < j \<longleftrightarrow> ?P (xs ! i))"
    if "length es \<le> 1" "set fs \<subseteq> set (take k ys)" for es fs
  proof (intro exI[of _ k] conjI)
    show "prefix (map of_int (take k xs)) (map of_int us @ es)" unfolding t by (rule prefixI) (rule refl)
    show "length (map rat_of_int us @ es) \<le> Suc k" using that(1) us_k by simp
    show "prefix (take k ys) (take k ys @ fs)" by (rule prefixI) (rule refl)
    show "set (take k ys @ fs) = set (take k ys)" using that(2) by auto
    show "\<forall>i<length xs. i < k \<longleftrightarrow> ?P (xs ! i)" using idx by blast
  qed
  show ?thesis
  proof (cases "us \<noteq> [] \<and> of_int (last us) < now")
    case True
    have c: "clip_series xs ys now = (map of_int us @ [now], take k ys @ [last (take k ys)])"
      using True by (simp add: clip_series_def clip)
    have "last (take k ys) \<in> set (take k ys)" using vs True by (intro last_in_set) blast
    then have f: "set [last (take k ys)] \<subseteq> set (take k ys)" by simp
    show ?thesis
      unfolding c prod.case using fin[of "[now]", OF _ f] le ne k us_k True
      by (intro conjI) auto
  next
    case False
    have c: "clip_series xs ys now = (map of_int us, take k ys)"
      using False by (simp add: clip_series_def clip)
    have "last (map rat_of_int us) = now" if "us \<noteq> []"
    proof -
      have "?P (last us)" using le last_in_set[OF that] by blast
      with False that show ?thesis by (simp add: last_map)
    qed
    then show ?thesis
      unfolding c prod.case using fin[of "[]" "[]"] le ne k us_k
      by (intro conjI) auto
  qed
qed

section \<open>End labels\<close>

text \<open>
  The loop that moves labels up, shared by \<open>completion_latency.py\<close> and \<open>label_lines\<close> of
  \<open>backlog_race.py\<close>, on labels sorted by height.
\<close>

fun push_labels :: "rat \<Rightarrow> (rat \<times> 'a) list \<Rightarrow> (rat \<times> 'a) list" where
  "push_labels min_gap ((y0, a) # (y1, b) # rest) =
     (y0, a) # push_labels min_gap ((if y1 - y0 < min_gap then y0 + min_gap else y1, b) # rest)"
| "push_labels min_gap labels = labels"

definition spread_labels :: "rat \<Rightarrow> (rat \<times> 'a) list \<Rightarrow> (rat \<times> 'a) list" where
  "spread_labels min_gap labels = push_labels min_gap (sort_key fst labels)"

lemma push_labels_fst: "labels \<noteq> [] \<Longrightarrow> fst (hd (push_labels g labels)) = fst (hd labels)"
  by (induction g labels rule: push_labels.induct) auto

lemma push_labels_snd: "map snd (push_labels g labels) = map snd labels"
  by (induction g labels rule: push_labels.induct) auto

lemma push_labels_gap: "0 \<le> g \<Longrightarrow> successively (\<lambda>p q. fst p + g \<le> fst q) (push_labels g labels)"
proof (induction g labels rule: push_labels.induct)
  case (1 g y0 a y1 b rest)
  let ?l = "(if y1 - y0 < g then y0 + g else y1, b) # rest"
  have "fst (hd (push_labels g ?l)) = fst (hd ?l)" by (rule push_labels_fst) simp
  moreover have "push_labels g ?l \<noteq> []" using push_labels_snd[of g ?l] by auto
  ultimately show ?case using 1 by (auto simp: successively_Cons)
qed auto

lemma push_labels_up: "list_all2 (\<lambda>p q. fst p \<le> fst q) labels (push_labels g labels)"
proof -
  have ge: "list_all2 (\<lambda>p q. fst p \<le> fst q) xs ys" if "list_all2 (\<lambda>p q. fst p \<le> fst q) zs ys"
    "list_all2 (\<lambda>p q. fst p \<le> fst q) xs zs" for xs ys zs :: "(rat \<times> 'a) list"
    by (rule list_all2_trans[OF _ that(2,1)]) (erule (1) order_trans)
  show ?thesis
  proof (induction g labels rule: push_labels.induct)
    case (1 g y0 a y1 b rest)
    let ?l = "(if y1 - y0 < g then y0 + g else y1, b) # rest"
    have "list_all2 (\<lambda>p q. fst p \<le> fst q) ((y1, b) # rest) ?l"
      by (auto intro: list_all2_refl)
    from ge[OF 1 this] show ?case by simp
  qed (auto simp: list_all2_refl)
qed

text \<open>
  The labels at the ends of the lines do not overlap: after the pass every label is
  at least the gap above the one before it, none is below its line's end, and they keep the
  order of the ends.
\<close>

theorem labels_do_not_overlap:
  assumes "0 \<le> gap"
  shows "successively (\<lambda>p q. fst p + gap \<le> fst q) (spread_labels gap labels)
    \<and> list_all2 (\<lambda>p q. fst p \<le> fst q) (sort_key fst labels) (spread_labels gap labels)
    \<and> map snd (spread_labels gap labels) = map snd (sort_key fst labels)"
proof -
  note g = push_labels_gap[OF assms, of "sort_key fst labels"]
  note u = push_labels_up[of "sort_key fst labels" gap]
  note s = push_labels_snd[of gap "sort_key fst labels"]
  from g u s show ?thesis unfolding spread_labels_def by (rule conjI[OF _ conjI])
qed

section \<open>backlog_race.py\<close>

type_synonym race_run = "pool_summary \<times> int list \<times> int list \<times> nat"

text \<open>\<open>load_runs\<close>: the runs (with the index of their colour), the last second or wall time,
  and the largest backlog.\<close>

fun load_run_list :: "nat \<Rightarrow> run_dir list \<Rightarrow> exc + race_run list" where
  "load_run_list idx [] = Inr []"
| "load_run_list idx (p # ps) =
     bindE (load_series (rd_backlog p) ''second_since_start'' ''messages_remaining'') (\<lambda>(xs, ys).
     bindE (load_run_list (Suc idx) ps) (\<lambda>runs. Inr ((rd_meta p, xs, ys, idx mod 6) # runs)))"

definition load_runs :: "run_dir list \<Rightarrow> exc + race_run list \<times> rat \<times> int" where
  "load_runs dirs = bindE (load_run_list 0 (run_dirs dirs)) (\<lambda>runs. Inr (runs,
     foldl (\<lambda>t (meta, xs, ys, c). max (max t (of_int (if xs = [] then 0 else Max (set xs)))) (sm_wall_s meta)) 0 runs,
     foldl (\<lambda>b (meta, xs, ys, c). max b (if ys = [] then 0 else Max (set ys))) 0 runs))"

text \<open>The positions of the labels of one frame: height, end of the line, run.\<close>

definition label_ends :: "race_run list \<Rightarrow> rat option \<Rightarrow> exc + (rat \<times> rat \<times> pool_summary) list" where
  "label_ends runs now = mapE (\<lambda>(meta, xs, ys, c).
     (case now of
        None \<Rightarrow> if xs = [] \<or> ys = [] then Inl (IndexError ''list index out of range'')
                else Inr (of_int (last ys), of_int (last xs), meta)
      | Some t \<Rightarrow> (case clip_series xs ys t of (xc, yc) \<Rightarrow>
           if xc \<noteq> [] then Inr (of_int (last yc), last xc, meta)
           else if ys = [] then Inl (IndexError ''list index out of range'')
           else Inr (of_int (hd ys), 0, meta)))) runs"

definition label_lines :: "race_run list \<Rightarrow> rat option \<Rightarrow> exc + (rat \<times> rat \<times> pool_summary) list" where
  "label_lines runs now = bindE (label_ends runs now) (\<lambda>labels. Inr (spread_labels 6 labels))"

text \<open>The times of the frames of the animation: \<open>now = (i / max(FRAME_COUNT - 1, 1)) * max_t\<close>.\<close>

definition frame_times :: "nat \<Rightarrow> rat \<Rightarrow> rat list" where
  "frame_times frames max_t = map (\<lambda>i. (of_nat i / of_nat (max (frames - 1) 1)) * max_t) [0..<frames]"

lemma foldl_max_ge:
  fixes f :: "'a \<Rightarrow> 'b :: linorder"
  shows "b \<le> foldl (\<lambda>t r. max t (f r)) b rs \<and> (\<forall>r\<in>set rs. f r \<le> foldl (\<lambda>t r. max t (f r)) b rs)"
proof (induction rs arbitrary: b)
  case (Cons r rs)
  from Cons[of "max b (f r)"] show ?case by (auto intro: order_trans)
qed simp

text \<open>
  The animation covers the whole race: its first frame is at 0, its last at the
  end of the slowest run, the frames in between are in order, and no run has a point or a
  wall time after the end.
\<close>

theorem race_covers_all_runs:
  assumes "load_runs dirs = Inr (runs, max_t, max_b)" "2 \<le> frames"
  shows "hd (frame_times frames max_t) = 0 \<and> last (frame_times frames max_t) = max_t
    \<and> sorted (frame_times frames max_t)
    \<and> (\<forall>(meta, xs, ys, c)\<in>set runs. sm_wall_s meta \<le> max_t \<and> (\<forall>x\<in>set xs. of_int x \<le> max_t)
         \<and> (\<forall>y\<in>set ys. y \<le> max_b))"
proof -
  let ?f = "\<lambda>(meta, xs, ys, c :: nat). max (of_int (if xs = [] then 0 else Max (set xs))) (sm_wall_s meta) :: rat"
  let ?g = "\<lambda>(meta :: pool_summary, xs :: int list, ys, c :: nat). if ys = [] then 0 else Max (set ys) :: int"
  have f: "(\<lambda>t (meta, xs, ys, c). max (max t (of_int (if xs = [] then 0 else Max (set xs)))) (sm_wall_s meta))
      = (\<lambda>t r. max t (?f r))" by (auto simp: fun_eq_iff max.assoc)
  have g: "(\<lambda>b (meta :: pool_summary, xs :: int list, ys, c :: nat). max b (if ys = [] then 0 else Max (set ys)))
      = (\<lambda>b r. max b (?g r))" by (auto simp: fun_eq_iff)
  from assms(1) have m: "max_t = foldl (\<lambda>t r. max t (?f r)) 0 runs" "max_b = foldl (\<lambda>b r. max b (?g r)) 0 runs"
    by (auto simp: load_runs_def bindE_eq_Inr f g)
  have t: "0 \<le> max_t" "\<And>r. r \<in> set runs \<Longrightarrow> ?f r \<le> max_t" "\<And>r. r \<in> set runs \<Longrightarrow> ?g r \<le> max_b"
    using foldl_max_ge[of 0 ?f runs] foldl_max_ge[of 0 ?g runs] unfolding m by blast+
  have "sm_wall_s meta \<le> max_t \<and> (\<forall>x\<in>set xs. of_int x \<le> max_t) \<and> (\<forall>y\<in>set ys. y \<le> max_b)"
    if r: "(meta, xs, ys, c) \<in> set runs" for meta xs ys c
  proof -
    from t(2)[OF r] have a: "of_int (if xs = [] then 0 else Max (set xs)) \<le> max_t" "sm_wall_s meta \<le> max_t" by auto
    have "of_int x \<le> max_t" if "x \<in> set xs" for x
    proof -
      have "x \<le> Max (set xs)" using that by simp
      then have "rat_of_int x \<le> of_int (Max (set xs))" by simp
      moreover have "rat_of_int (Max (set xs)) \<le> max_t" using a(1) that by (auto split: if_splits)
      ultimately show ?thesis by (rule order_trans)
    qed
    moreover have "y \<le> max_b" if "y \<in> set ys" for y
      using t(3)[OF r] that by (auto split: if_splits intro: order_trans[OF Max_ge])
    ultimately show ?thesis using a(2) by blast
  qed
  moreover have "sorted (frame_times frames max_t)"
    unfolding frame_times_def sorted_map
    by (rule sorted_wrt_mono_rel[OF _ sorted_upt[unfolded sorted_wrt_map[symmetric]]])
       (use t(1) in \<open>auto intro!: mult_right_mono divide_right_mono\<close>)
  moreover have "hd (frame_times frames max_t) = 0" "last (frame_times frames max_t) = max_t"
    using assms(2) by (simp_all add: frame_times_def hd_map last_map)
  ultimately show ?thesis by blast
qed

end
