(* ===== verification/TickBench.thy ===== *)
theory TickBench
  imports Client PyText
begin

text \<open>
  \<open>benchmark/tick-rate/bench.py\<close>: the latency benchmark. The two threads run against the
  client's \<open>driver\<close> with an environment for the clock and the stop event, indexed by a
  counter that each observation advances; loops have fuel. Times are rationals, \<open>nan\<close> is
  \<open>None\<close>. Decoding the JSON payload to its \<open>send_ts\<close> is a parameter.
\<close>

section \<open>Statistics\<close>

definition percentile :: "rat list \<Rightarrow> rat \<Rightarrow> rat option" where
  "percentile xs p = (if xs = [] then None
     else let ys = sort xs; k = py_round ((p / 100) * (of_nat (length ys) - 1))
          in Some (ys ! nat k))"

definition fmean :: "rat list \<Rightarrow> rat option" where
  "fmean xs = (if xs = [] then None else Some (sum_list xs / of_nat (length xs)))"

definition fmt_ms :: "rat option \<Rightarrow> string" where
  "fmt_ms x = (case x of None \<Rightarrow> ''n/a'' | Some v \<Rightarrow> fmt_fixed 2 v)"

section \<open>Set-up and tear-down\<close>

definition run :: "'s driver \<Rightarrow> string \<Rightarrow> pyval list \<Rightarrow> ('s, pyval list list) script" where
  "run d sql ps = (\<lambda>s. drv_execute d s sql ps)"

definition closing :: "'s driver \<Rightarrow> string \<Rightarrow> ('s, 'a) script \<Rightarrow> ('s, 'a) script" where
  "closing d dsn body = andThen (\<lambda>s. drv_connect d s dsn True) (\<lambda>_.
     tryFinally body (\<lambda>s. (drv_close d s, Inr ())))"

definition subscribed_sql :: string where
  "subscribed_sql = ''select 1 from pgque.subscription s join pgque.queue q on q.queue_id=s.sub_queue '' @
     ''where q.queue_name=%s and s.sub_consumer=(select co_id from pgque.consumer where co_name=%s)''"

definition bench_setup :: "'s driver \<Rightarrow> string \<Rightarrow> string \<Rightarrow> string \<Rightarrow> ('s, unit) script" where
  "bench_setup d dsn queue cname = closing d dsn (
     andThen (run d ''select 1 from pgque.queue where queue_name = %s'' [PyStr queue]) (\<lambda>rows.
     andThen (if rows = [] then run d ''select pgque.create_queue(%s)'' [PyStr queue] else ret []) (\<lambda>_.
     andThen (run d ''select pgque.set_queue_config(%s, 'ticker_max_lag', '1 microsecond')'' [PyStr queue]) (\<lambda>_.
     andThen (run d ''select pgque.set_queue_config(%s, 'ticker_idle_period', '1 microsecond')'' [PyStr queue]) (\<lambda>_.
     andThen (run d ''select pgque.set_queue_config(%s, 'ticker_max_count', '1')'' [PyStr queue]) (\<lambda>_.
     andThen (run d subscribed_sql [PyStr queue, PyStr cname]) (\<lambda>subs.
     andThen (if subs = [] then run d ''select pgque.subscribe(%s, %s)'' [PyStr queue, PyStr cname] else ret [])
       (\<lambda>_. ret ()))))))))"

definition bench_teardown :: "'s driver \<Rightarrow> string \<Rightarrow> string \<Rightarrow> string \<Rightarrow> ('s, unit) script" where
  "bench_teardown d dsn queue cname = closing d dsn (
     andThen (tryExcept (run d ''select pgque.unsubscribe(%s, %s)'' [PyStr queue, PyStr cname]) CException (ret [])) (\<lambda>_.
     andThen (tryExcept (run d ''select pgque.drop_queue(%s)'' [PyStr queue]) CException (ret [])) (\<lambda>_. ret ())))"

section \<open>The producer\<close>

record thread_env =
  te_clock :: "nat \<Rightarrow> rat"
  te_stop :: "nat \<Rightarrow> bool"

definition send_ts_sql :: string where
  "send_ts_sql = ''select pgque.send(%s, jsonb_build_object('seq', %s::int, '' @
     '''send_ts', extract(epoch from clock_timestamp())))''"

text \<open>The state is the events sent, the failed sends and the time of the next send.\<close>

fun producer_loop :: "nat \<Rightarrow> 's driver \<Rightarrow> thread_env \<Rightarrow> string \<Rightarrow> rat \<Rightarrow> rat \<Rightarrow> rat \<Rightarrow> nat
    \<Rightarrow> int \<Rightarrow> exc list \<Rightarrow> rat \<Rightarrow> 's \<Rightarrow> ('s \<times> (exc + nat \<times> int \<times> exc list)) option" where
  "producer_loop 0 d env queue interval t0 duration i sent errors next_send s = None"
| "producer_loop (Suc fuel) d env queue interval t0 duration i sent errors next_send s =
     (if te_stop env i then Some (s, Inr (Suc i, sent, errors))
      else if \<not> te_clock env (i + 1) - t0 < duration then Some (s, Inr (i + 2, sent, errors))
      else let now = te_clock env (i + 2) in
        if now < next_send then producer_loop fuel d env queue interval t0 duration (i + 3) sent errors next_send s
        else (case drv_execute d s send_ts_sql [PyStr queue, PyInt sent] of
            (s1, Inr _) \<Rightarrow> producer_loop fuel d env queue interval t0 duration (i + 3) (sent + 1) errors
                             (next_send + interval) s1
          | (s1, Inl e) \<Rightarrow>
              if isinstance e CException
              then producer_loop fuel d env queue interval t0 duration (i + 3) sent (errors @ [e])
                     (next_send + interval) s1
              else Some (s1, Inl e)))"

section \<open>The consumer\<close>

definition recv_sql :: string where
  "recv_sql = ''select extract(epoch from clock_timestamp()), payload, batch_id '' @
     ''from pgque.receive(%s, %s, 1000)''"

record consumer_stats =
  st_received :: int
  st_latencies :: "rat list"

text \<open>A row: the receive time and the payload to a latency in milliseconds.\<close>

definition latency_of :: "(pyval \<Rightarrow> exc + rat) \<Rightarrow> (pyval \<Rightarrow> exc + rat) \<Rightarrow> pyval list \<Rightarrow> exc + rat" where
  "latency_of to_float send_ts row = (case row of
      [recv_epoch, pl, _] \<Rightarrow> bindE (send_ts pl) (\<lambda>t. bindE (to_float recv_epoch) (\<lambda>r. Inr ((r - t) * 1000)))
    | _ \<Rightarrow> Inl (ValueError ''not enough values to unpack''))"

fun consumer_loop :: "nat \<Rightarrow> 's driver \<Rightarrow> thread_env \<Rightarrow> (pyval \<Rightarrow> exc + rat) \<Rightarrow> (pyval \<Rightarrow> exc + rat)
    \<Rightarrow> string \<Rightarrow> string \<Rightarrow> rat \<Rightarrow> nat \<Rightarrow> rat \<Rightarrow> consumer_stats \<Rightarrow> 's \<Rightarrow> ('s \<times> (exc + consumer_stats)) option" where
  "consumer_loop 0 d env fl ts queue cname drain i last_msg st s = None"
| "consumer_loop (Suc fuel) d env fl ts queue cname drain i last_msg st s =
     (case drv_execute d s recv_sql [PyStr queue, PyStr cname] of
        (s1, Inl e) \<Rightarrow> Some (s1, Inl e)
      | (s1, Inr []) \<Rightarrow>
          if te_stop env i \<and> drain < te_clock env (i + 1) - last_msg then Some (s1, Inr st)
          else consumer_loop fuel d env fl ts queue cname drain (i + 2) last_msg st s1
      | (s1, Inr (row # rows)) \<Rightarrow>
          (case row_item (Some row) 2 of
             Inl e \<Rightarrow> Some (s1, Inl e)
           | Inr bid \<Rightarrow>
               (case mapE (latency_of fl ts) (row # rows) of
                  Inl e \<Rightarrow> Some (s1, Inl e)
                | Inr ls \<Rightarrow>
                    (case drv_execute d s1 ''select pgque.ack(%s)'' [bid] of
                       (s2, Inl e) \<Rightarrow> Some (s2, Inl e)
                     | (s2, Inr _) \<Rightarrow>
                         consumer_loop fuel d env fl ts queue cname drain (i + 1) (te_clock env i)
                           \<lparr>st_received = st_received st + int (length ls),
                            st_latencies = st_latencies st @ ls\<rparr> s2))))"

section \<open>One cell\<close>

record cell =
  ce_tick_period_ms :: rat
  ce_rate_eps :: rat
  ce_duration_s :: rat
  ce_sent :: int
  ce_received :: int
  ce_p50 :: "rat option"
  ce_p95 :: "rat option"
  ce_p99 :: "rat option"
  ce_max :: "rat option"
  ce_mean :: "rat option"

definition drain_budget :: "rat \<Rightarrow> rat" where
  "drain_budget tick_period_ms = max 2 ((tick_period_ms / 1000) * 3)"

text \<open>
  \<open>run_one\<close> after its threads: \<open>p_stats\<close> is the producer's event count and duration, if it
  ended normally, \<open>c_stats\<close> the consumer's, if it ended within the join's time-out.
\<close>

definition bench_cell :: "rat \<Rightarrow> rat \<Rightarrow> rat \<Rightarrow> (int \<times> rat) option \<Rightarrow> consumer_stats option \<Rightarrow> cell" where
  "bench_cell tick_period_ms rate_eps duration_s p_stats c_stats =
     (let lat = (case c_stats of None \<Rightarrow> [] | Some c \<Rightarrow> st_latencies c) in
      \<lparr>ce_tick_period_ms = tick_period_ms, ce_rate_eps = rate_eps,
       ce_duration_s = (case p_stats of None \<Rightarrow> duration_s | Some (_, t) \<Rightarrow> t),
       ce_sent = (case p_stats of None \<Rightarrow> 0 | Some (n, _) \<Rightarrow> n),
       ce_received = (case c_stats of None \<Rightarrow> 0 | Some c \<Rightarrow> st_received c),
       ce_p50 = percentile lat 50, ce_p95 = percentile lat 95, ce_p99 = percentile lat 99,
       ce_max = (if lat = [] then None else Some (Max (set lat))), ce_mean = fmean lat\<rparr>)"

text \<open>
  \<open>main\<close> after the arguments: the cells to run, and a clean-up that runs however they end;
  \<open>cell\<close> stands for \<open>run_one\<close> on a tick period.
\<close>

definition parse_periods :: "string \<Rightarrow> exc + int list" where
  "parse_periods t = mapE py_int (split_at (CHR '','') t)"

fun run_cells :: "(int \<Rightarrow> ('s, cell) script) \<Rightarrow> int list \<Rightarrow> ('s, cell list) script" where
  "run_cells one [] = ret []"
| "run_cells one (tp # tps) = andThen (one tp) (\<lambda>r. andThen (run_cells one tps) (\<lambda>rs. ret (r # rs)))"

definition tick_bench_main :: "'s driver \<Rightarrow> string \<Rightarrow> string \<Rightarrow> string \<Rightarrow> string \<Rightarrow> string \<Rightarrow> int
    \<Rightarrow> (int \<Rightarrow> ('s, cell) script) \<Rightarrow> ('s, cell list) script" where
  "tick_bench_main d dsn queue cname scenario periods tick_period_ms one =
     andThen (bench_setup d dsn queue cname) (\<lambda>_.
     tryFinally
       (if scenario = ''idle''
        then (case parse_periods periods of Inl e \<Rightarrow> throw e | Inr tps \<Rightarrow> run_cells one tps)
        else andThen (one tick_period_ms) (\<lambda>r. ret [r]))
       (bench_teardown d dsn queue cname))"

section \<open>Properties\<close>

lemma py_round_mono: "x \<le> y \<Longrightarrow> py_round x \<le> py_round y"
proof -
  assume le: "x \<le> y"
  have lo: "\<lfloor>z\<rfloor> \<le> py_round z" and hi: "py_round z \<le> \<lfloor>z\<rfloor> + 1" for z
    by (auto simp: py_round_def Let_def)
  show ?thesis
  proof (cases "\<lfloor>x\<rfloor> = \<lfloor>y\<rfloor>")
    case False
    then have "\<lfloor>x\<rfloor> + 1 \<le> \<lfloor>y\<rfloor>" using floor_mono[OF le] by simp
    with lo[of y] hi[of x] show ?thesis by linarith
  next
    case True
    then show ?thesis using le by (auto simp: py_round_def Let_def)
  qed
qed

lemma percentile_index:
  assumes "xs \<noteq> []" "0 \<le> p" "p \<le> 100"
  shows "nat (py_round ((p / 100) * (of_nat (length xs) - 1))) < length xs"
proof -
  let ?n = "of_nat (length xs) - 1 :: rat"
  have n: "0 \<le> ?n" using assms(1) by (cases xs) simp_all
  have n': "?n = of_int (int (length xs) - 1)" by simp
  have "p / 100 * ?n \<le> 1 * ?n" using assms(3) n by (intro mult_right_mono) simp_all
  then have hi: "p / 100 * ?n \<le> of_int (int (length xs) - 1)" using n' by (simp only: mult_1)
  have lo: "of_int 0 \<le> p / 100 * ?n" using assms(2) n by simp
  have "py_round (p / 100 * ?n) \<le> int (length xs) - 1"
    using py_round_mono_bounds[OF lo hi] by simp
  moreover have "0 < int (length xs)" using assms(1) by simp
  ultimately show ?thesis by linarith
qed

lemma percentile_facts:
  assumes "xs \<noteq> []" "0 \<le> p" "p \<le> q" "q \<le> 100"
  shows "\<exists>a b. percentile xs p = Some a \<and> percentile xs q = Some b \<and> a \<in> set xs \<and> b \<in> set xs \<and> a \<le> b
    \<and> percentile xs 0 = Some (Min (set xs)) \<and> percentile xs 100 = Some (Max (set xs))"
proof -
  let ?ys = "sort xs"
  let ?k = "\<lambda>p. nat (py_round ((p / 100) * (of_nat (length ?ys) - 1)))"
  have in_range: "?k r < length ?ys" if "0 \<le> r" "r \<le> 100" for r
    using percentile_index[OF assms(1) that] by simp
  have p: "percentile xs r = Some (?ys ! ?k r)" for r using assms(1) by (simp add: percentile_def)
  have mem: "?ys ! ?k r \<in> set xs" if "0 \<le> r" "r \<le> 100" for r
    using nth_mem[OF in_range[OF that]] by simp
  have mono: "?ys ! ?k r \<le> ?ys ! ?k r'" if "0 \<le> r" "r \<le> r'" "r' \<le> 100" for r r'
  proof -
    have "0 \<le> (of_nat (length ?ys) - 1 :: rat)" using assms(1) by (cases xs) simp_all
    then have "r / 100 * (of_nat (length ?ys) - 1) \<le> r' / 100 * (of_nat (length ?ys) - 1)"
      using that(2) by (intro mult_right_mono) (simp_all add: divide_right_mono)
    then have "?k r \<le> ?k r'" by (intro nat_mono py_round_mono)
    then show ?thesis using in_range[of r'] that by (intro sorted_nth_mono) simp_all
  qed
  have k0: "?k 0 = 0" by (simp add: py_round_def)
  have k100: "?k 100 = length ?ys - 1"
  proof -
    have "(of_nat (length ?ys) - 1 :: rat) = of_int (int (length ?ys) - 1)" by simp
    then have "py_round ((of_nat (length ?ys) - 1 :: rat)) = int (length ?ys) - 1" by (simp only: py_round_of_int)
    then show ?thesis by simp
  qed
  have ne: "0 < length ?ys" using assms(1) by simp
  have "?ys ! 0 = Min (set xs)"
  proof (rule Min_eqI[symmetric])
    show "?ys ! 0 \<in> set xs" using nth_mem[OF ne] by simp
    show "?ys ! 0 \<le> y" if "y \<in> set xs" for y
    proof -
      have "y \<in> set ?ys" using that by simp
      then obtain i where "i < length ?ys" "y = ?ys ! i" by (metis in_set_conv_nth)
      then show ?thesis by (simp add: sorted_nth_mono)
    qed
  qed simp
  moreover have "?ys ! (length ?ys - 1) = Max (set xs)"
  proof (rule Max_eqI[symmetric])
    show "?ys ! (length ?ys - 1) \<in> set xs" using nth_mem[of "length ?ys - 1" ?ys] ne by simp
    show "y \<le> ?ys ! (length ?ys - 1)" if "y \<in> set xs" for y
    proof -
      have "y \<in> set ?ys" using that by simp
      then obtain i where "i < length ?ys" "y = ?ys ! i" by (metis in_set_conv_nth)
      then show ?thesis by (simp add: sorted_nth_mono)
    qed
  qed simp
  ultimately have ends: "percentile xs 0 = Some (Min (set xs))" "percentile xs 100 = Some (Max (set xs))"
    by (simp_all only: p k0 k100)
  show ?thesis
  proof (intro exI conjI)
    show "percentile xs p = Some (?ys ! ?k p)" "percentile xs q = Some (?ys ! ?k q)" by (rule p)+
    show "?ys ! ?k p \<in> set xs" "?ys ! ?k q \<in> set xs" using assms by (intro mem; simp)+
    show "?ys ! ?k p \<le> ?ys ! ?k q" using assms by (intro mono) simp_all
  qed (fact ends)+
qed

text \<open>
  \<open>percentile\<close> never indexes out of range between 0 and 100 and gives one of the
  samples; 0 and 100 give the least and the greatest; and a higher percentage never gives
  a smaller value.
\<close>

theorem percentile_spec:
  assumes "xs \<noteq> []" "0 \<le> p" "p \<le> q" "q \<le> 100"
  shows "\<exists>a b. percentile xs p = Some a \<and> percentile xs q = Some b \<and> a \<in> set xs \<and> b \<in> set xs \<and> a \<le> b
    \<and> percentile xs 0 = Some (Min (set xs)) \<and> percentile xs 100 = Some (Max (set xs))"
  using assms by (rule percentile_facts)

text \<open>
  The consumer thread counts what it measures: when it ends, the number received
  is the number of latencies, one for each row of every batch it acked.
\<close>

theorem consumer_counts_latencies:
  assumes "consumer_loop fuel d env fl ts queue cname drain i last_msg st s = Some (s', Inr st')"
    and "st_received st = int (length (st_latencies st))"
  shows "st_received st' = int (length (st_latencies st')) \<and> prefix (st_latencies st) (st_latencies st')"
  using assms
proof (induction fuel d env fl ts queue cname drain i last_msg st s rule: consumer_loop.induct)
  case (2 fuel d env fl ts queue cname drain i last_msg st s)
  obtain s1 r where x: "drv_execute d s recv_sql [PyStr queue, PyStr cname] = (s1, r)" by fastforce
  from "2.prems"(1) x obtain rs where r: "r = Inr rs" by (cases r) auto
  show ?case
  proof (cases rs)
    case Nil
    show ?thesis
    proof (cases "te_stop env i \<and> drain < te_clock env (i + 1) - last_msg")
      case True
      with "2.prems" x r Nil show ?thesis by simp
    next
      case False
      with "2.prems" x r Nil have l: "consumer_loop fuel d env fl ts queue cname drain (i + 2) last_msg st s1 = Some (s', Inr st')"
        by (simp only: consumer_loop.simps list.case sum.case prod.case if_False)
      show ?thesis by (rule "2.IH"(1)[OF x[symmetric] r Nil False l "2.prems"(2)])
    qed
  next
    case (Cons row rows)
    from "2.prems"(1) x r Cons obtain bid ls s2 as where y: "row_item (Some row) 2 = Inr bid"
        "mapE (latency_of fl ts) (row # rows) = Inr ls"
        "drv_execute d s1 ''select pgque.ack(%s)'' [bid] = (s2, Inr as)"
      by (auto simp del: mapE.simps split: sum.splits prod.splits)
    let ?st = "\<lparr>st_received = st_received st + int (length ls), st_latencies = st_latencies st @ ls\<rparr>"
    have l: "consumer_loop fuel d env fl ts queue cname drain (i + 1) (te_clock env i) ?st s2 = Some (s', Inr st')"
      using "2.prems"(1) x r Cons y by (simp del: mapE.simps)
    have e: "st_received ?st = int (length (st_latencies ?st))" using "2.prems"(2) by simp
    have "st_received st' = int (length (st_latencies st')) \<and> prefix (st_latencies ?st) (st_latencies st')"
      by (rule "2.IH"(2)[OF x[symmetric] r Cons y(1,2) y(3)[symmetric] refl l e])
    then show ?thesis by (auto dest: append_prefixD)
  qed
qed simp

text \<open>
  A cell of the table is consistent: with at least one latency the percentiles are
  in order and at most the maximum, and the mean lies between the least latency and the
  maximum; without any, all of them are shown as "n/a".
\<close>

theorem cell_consistent:
  "case bench_cell tp rate dur p (Some c) of cell \<Rightarrow>
     if st_latencies c = [] then map fmt_ms [ce_p50 cell, ce_p95 cell, ce_p99 cell, ce_max cell, ce_mean cell]
        = replicate 5 ''n/a''
     else (\<exists>a b e m v. ce_p50 cell = Some a \<and> ce_p95 cell = Some b \<and> ce_p99 cell = Some e
       \<and> ce_max cell = Some m \<and> ce_mean cell = Some v \<and> a \<le> b \<and> b \<le> e \<and> e \<le> m
       \<and> Min (set (st_latencies c)) \<le> v \<and> v \<le> m)"
proof (cases "st_latencies c = []")
  case True
  then show ?thesis
    by (simp add: bench_cell_def percentile_def fmean_def fmt_ms_def eval_nat_numeral)
next
  case False
  let ?l = "st_latencies c"
  have mean: "Min (set ?l) \<le> sum_list ?l / of_nat (length ?l)" "sum_list ?l / of_nat (length ?l) \<le> Max (set ?l)"
    using average_between[OF False, of "Min (set ?l)" "Max (set ?l)"] by simp_all
  have le: "(50::rat) \<le> 95" "(95::rat) \<le> 99" "(99::rat) \<le> 100" by simp_all
  from percentile_facts[OF False _ le(1)] obtain a b where a: "percentile ?l 50 = Some a" "percentile ?l 95 = Some b" "a \<le> b"
    by auto
  from percentile_facts[OF False _ le(2)] obtain e where e: "percentile ?l 99 = Some e" "b \<le> e"
    using a by auto
  from percentile_facts[OF False _ le(3)] have m: "e \<le> Max (set ?l)" using e by auto
  show ?thesis using False a e m mean by (simp add: bench_cell_def fmean_def Let_def split: prod.splits option.splits)
qed

end
