(* ===== verification/SysMetrics.thy ===== *)
theory SysMetrics
  imports PyText Values
begin

text \<open>
  \<open>benchmark/tooling/sys_metrics_sampler.py\<close>: CPU, memory and disk samples. The environment
  gives what the k-th read of each \<open>/proc\<close> file and of the clock returns; the loop has fuel.
\<close>

section \<open>/proc/stat\<close>

record cpu_times =
  c_user :: int
  c_system :: int
  c_iowait :: int
  c_idle :: int
  c_total :: int

definition list_item :: "nat \<Rightarrow> 'a list \<Rightarrow> exc + 'a" where
  "list_item k xs = (if k < length xs then Inr (xs ! k) else Inl (IndexError ''list index out of range''))"

definition cpu_of_vals :: "int list \<Rightarrow> exc + cpu_times" where
  "cpu_of_vals vals =
     bindE (list_item 0 vals) (\<lambda>v0. bindE (list_item 1 vals) (\<lambda>v1. bindE (list_item 2 vals) (\<lambda>v2.
     bindE (list_item 5 vals) (\<lambda>v5. bindE (list_item 6 vals) (\<lambda>v6. bindE (list_item 4 vals) (\<lambda>v4.
     bindE (list_item 3 vals) (\<lambda>v3. Inr
       \<lparr>c_user = v0 + v1, c_system = v2 + v5 + v6, c_iowait = v4, c_idle = v3, c_total = sum_list vals\<rparr>)))))))"

definition read_proc_stat :: "string \<Rightarrow> exc + cpu_times" where
  "read_proc_stat line = bindE (mapE py_int (drop 1 (split_ws line))) cpu_of_vals"

section \<open>/proc/meminfo\<close>

fun meminfo_lines :: "string list \<Rightarrow> (string \<times> int) list \<Rightarrow> exc + (string \<times> int) list" where
  "meminfo_lines [] info = Inr info"
| "meminfo_lines (line # lns) info =
     (case split_first (CHR '':'') line of
        None \<Rightarrow> Inl (ValueError ''not enough values to unpack (expected 2, got 1)'')
      | Some (key, v) \<Rightarrow> bindE (bindE (list_item 0 (split_ws (strip v))) py_int)
          (\<lambda>n. meminfo_lines lns (dict_set key n info)))"

record mem_mb =
  m_total :: rat
  m_used :: rat
  m_buff_cache :: rat
  m_available :: rat

definition read_meminfo :: "string list \<Rightarrow> exc + mem_mb" where
  "read_meminfo lines = bindE (meminfo_lines lines []) (\<lambda>info.
     bindE (dict_item ''MemTotal'' info) (\<lambda>mt. bindE (dict_item ''MemFree'' info) (\<lambda>mf.
       let tot = of_int mt / 1024; free = of_int mf / 1024;
           buff = of_int (dict_get ''Buffers'' 0 info) / 1024;
           cache = of_int (dict_get ''Cached'' 0 info) / 1024 + of_int (dict_get ''SReclaimable'' 0 info) / 1024;
           avail = (case map_of info ''MemAvailable'' of Some a \<Rightarrow> of_int a | None \<Rightarrow> free) / 1024
       in Inr \<lparr>m_total = tot, m_used = tot - avail, m_buff_cache = buff + cache, m_available = avail\<rparr>)))"

section \<open>/proc/diskstats\<close>

record disk_stat =
  d_reads :: int
  d_sectors_read :: int
  d_read_ms :: int
  d_writes :: int
  d_sectors_writ :: int
  d_write_ms :: int

fun read_diskstat :: "string \<Rightarrow> string list \<Rightarrow> exc + disk_stat option" where
  "read_diskstat device [] = Inr None"
| "read_diskstat device (line # lns) =
     (let parts = split_ws line in
      if length parts < 14 then read_diskstat device lns
      else if parts ! 2 \<noteq> device then read_diskstat device lns
      else bindE (py_int (parts ! 3)) (\<lambda>r. bindE (py_int (parts ! 5)) (\<lambda>sr. bindE (py_int (parts ! 6)) (\<lambda>rms.
           bindE (py_int (parts ! 7)) (\<lambda>w. bindE (py_int (parts ! 9)) (\<lambda>sw. bindE (py_int (parts ! 10)) (\<lambda>wms.
             Inr (Some \<lparr>d_reads = r, d_sectors_read = sr, d_read_ms = rms,
                        d_writes = w, d_sectors_writ = sw, d_write_ms = wms\<rparr>))))))))"

section \<open>Differences\<close>

record cpu_pct =
  p_user :: rat
  p_system :: rat
  p_iowait :: rat
  p_idle :: rat

definition cpu_delta :: "cpu_times \<Rightarrow> cpu_times \<Rightarrow> cpu_pct" where
  "cpu_delta prev cur =
     (let d = c_total cur - c_total prev; dt_total = (if d = 0 then 1 else d) in
      \<lparr>p_user = 100 * of_int (c_user cur - c_user prev) / of_int dt_total,
       p_system = 100 * of_int (c_system cur - c_system prev) / of_int dt_total,
       p_iowait = 100 * of_int (c_iowait cur - c_iowait prev) / of_int dt_total,
       p_idle = 100 * of_int (c_idle cur - c_idle prev) / of_int dt_total\<rparr>)"

record disk_rates =
  r_iops_r :: rat
  r_iops_w :: rat
  r_mib_r :: rat
  r_mib_w :: rat
  r_lat_r :: rat
  r_lat_w :: rat

text \<open>The previous sample is \<open>None\<close> for the empty dictionary.\<close>

definition disk_delta :: "int \<Rightarrow> disk_stat option \<Rightarrow> disk_stat option \<Rightarrow> exc + disk_rates" where
  "disk_delta interval prev cur = (case (cur, prev) of
      (Some c, Some p) \<Rightarrow>
        if interval = 0 then Inl (OtherException ''ZeroDivisionError: division by zero'')
        else
          let dr = d_reads c - d_reads p; dw = d_writes c - d_writes p;
              d_sr = d_sectors_read c - d_sectors_read p; d_sw = d_sectors_writ c - d_sectors_writ p;
              d_rms = d_read_ms c - d_read_ms p; d_wms = d_write_ms c - d_write_ms p
          in Inr \<lparr>r_iops_r = of_int dr / of_int interval, r_iops_w = of_int dw / of_int interval,
               r_mib_r = of_int (d_sr * 512) / of_int (interval * 2 ^ 20),
               r_mib_w = of_int (d_sw * 512) / of_int (interval * 2 ^ 20),
               r_lat_r = (if 0 < dr then of_int d_rms / of_int dr else 0),
               r_lat_w = (if 0 < dw then of_int d_wms / of_int dw else 0)\<rparr>
    | _ \<Rightarrow> Inr \<lparr>r_iops_r = 0, r_iops_w = 0, r_mib_r = 0, r_mib_w = 0, r_lat_r = 0, r_lat_w = 0\<rparr>)"

section \<open>The loop\<close>

record sample_env =
  sm_clock :: "nat \<Rightarrow> rat"
  sm_stamp :: "nat \<Rightarrow> string"
  sm_stat :: "nat \<Rightarrow> string"
  sm_mem :: "nat \<Rightarrow> string list"
  sm_disk :: "nat \<Rightarrow> string list"

record sampler_args =
  sa_interval :: int
  sa_duration :: int
  sa_device :: string

definition sample_line :: "string \<Rightarrow> cpu_pct \<Rightarrow> mem_mb \<Rightarrow> disk_rates \<Rightarrow> string" where
  "sample_line ts c m d = join '',''
     ([ts, fmt_fixed 2 (p_user c), fmt_fixed 2 (p_system c), fmt_fixed 2 (p_iowait c), fmt_fixed 2 (p_idle c)]
      @ [fmt_fixed 1 (m_total m), fmt_fixed 1 (m_used m), fmt_fixed 1 (m_buff_cache m), fmt_fixed 1 (m_available m)]
      @ [fmt_fixed 1 (r_iops_r d), fmt_fixed 1 (r_iops_w d), fmt_fixed 3 (r_mib_r d), fmt_fixed 3 (r_mib_w d)]
      @ [fmt_fixed 3 (r_lat_r d), fmt_fixed 3 (r_lat_w d)])"

text \<open>One pass: the new reference values and the numbers of the line.\<close>

definition sample_once :: "sample_env \<Rightarrow> sampler_args \<Rightarrow> nat \<Rightarrow> cpu_times \<Rightarrow> disk_stat option
    \<Rightarrow> exc + (cpu_times \<times> disk_stat option \<times> cpu_pct \<times> mem_mb \<times> disk_rates)" where
  "sample_once env args i prev_cpu prev_disk =
     (if sa_interval args < 0 then Inl (ValueError ''sleep length must be non-negative'')
      else bindE (read_proc_stat (sm_stat env (Suc i))) (\<lambda>cur_cpu.
           bindE (read_meminfo (sm_mem env i)) (\<lambda>mem.
           bindE (read_diskstat (sa_device args) (sm_disk env (Suc i))) (\<lambda>cur_disk.
           bindE (disk_delta (sa_interval args) prev_disk cur_disk) (\<lambda>rates.
             Inr (cur_cpu, cur_disk, cpu_delta prev_cpu cur_cpu, mem, rates))))))"

fun sampler_loop :: "nat \<Rightarrow> sample_env \<Rightarrow> sampler_args \<Rightarrow> rat \<Rightarrow> nat \<Rightarrow> cpu_times \<Rightarrow> disk_stat option
    \<Rightarrow> (cpu_pct \<times> mem_mb \<times> disk_rates) list \<Rightarrow> ((cpu_pct \<times> mem_mb \<times> disk_rates) list \<times> (exc + unit)) option" where
  "sampler_loop 0 env args t_end i prev_cpu prev_disk out = None"
| "sampler_loop (Suc fuel) env args t_end i prev_cpu prev_disk out =
     (if \<not> sm_clock env (Suc i) < t_end then Some (out, Inr ())
      else (case sample_once env args i prev_cpu prev_disk of
          Inl e \<Rightarrow> Some (out, Inl e)
        | Inr (cur_cpu, cur_disk, row) \<Rightarrow>
            sampler_loop fuel env args t_end (Suc i) cur_cpu cur_disk (out @ [row])))"

definition csv_header :: string where
  "csv_header = ''ts_iso,cpu_user_pct,cpu_system_pct,cpu_iowait_pct,cpu_idle_pct,'' @
     ''mem_total_mb,mem_used_mb,mem_buff_cache_mb,mem_available_mb,'' @
     ''disk_read_iops,disk_write_iops,disk_read_mib_s,disk_write_mib_s,'' @
     ''disk_read_lat_ms,disk_write_lat_ms''"

text \<open>The whole script: the lines of the file and how it ends.\<close>

definition sampler_main :: "nat \<Rightarrow> sample_env \<Rightarrow> sampler_args \<Rightarrow> (string list \<times> (exc + unit)) option" where
  "sampler_main fuel env args =
     (case bindE (read_proc_stat (sm_stat env 0)) (\<lambda>c.
             bindE (read_diskstat (sa_device args) (sm_disk env 0)) (\<lambda>d. Inr (c, d))) of
        Inl e \<Rightarrow> Some ([csv_header], Inl e)
      | Inr (prev_cpu, prev_disk) \<Rightarrow>
          map_option (\<lambda>(rows, r). (csv_header # map (\<lambda>(i, c, m, d). sample_line (sm_stamp env i) c m d)
              (zip [0..<length rows] rows), r))
            (sampler_loop fuel env args (sm_clock env 0 + of_int (sa_duration args)) 0 prev_cpu prev_disk []))"

section \<open>Lemmas\<close>

lemma list_item_Inr [simp]: "list_item k xs = Inr x \<longleftrightarrow> k < length xs \<and> x = xs ! k"
  by (auto simp: list_item_def)

lemma seven_sum:
  assumes "7 \<le> length (vs :: int list)"
  shows "sum_list vs = vs ! 0 + vs ! 1 + vs ! 2 + vs ! 3 + vs ! 4 + vs ! 5 + vs ! 6 + sum_list (drop 7 vs)"
proof -
  have "take 7 vs = [vs ! 0, vs ! 1, vs ! 2, vs ! 3, vs ! 4, vs ! 5, vs ! 6]"
    using assms by (intro nth_equalityI) (auto simp: less_Suc_eq nth_Cons' numeral_eq_Suc)
  then have "sum_list (take 7 vs) = vs ! 0 + vs ! 1 + vs ! 2 + vs ! 3 + vs ! 4 + vs ! 5 + vs ! 6" by simp
  then show ?thesis by (metis append_take_drop_id sum_list.append)
qed

text \<open>Counters that never go back.\<close>

definition counters_le :: "int list \<Rightarrow> int list \<Rightarrow> bool" where
  "counters_le us vs \<longleftrightarrow> list_all2 (\<le>) us vs"

lemma counters_le_sum: "counters_le us vs \<Longrightarrow> sum_list us \<le> sum_list vs"
  unfolding counters_le_def by (induction us vs rule: list_all2_induct) simp_all

lemma cpu_of_vals_Inr: "cpu_of_vals vs = Inr a \<longleftrightarrow> 7 \<le> length vs \<and>
    a = \<lparr>c_user = vs ! 0 + vs ! 1, c_system = vs ! 2 + vs ! 5 + vs ! 6, c_iowait = vs ! 4,
         c_idle = vs ! 3, c_total = sum_list vs\<rparr>"
  by (auto simp: cpu_of_vals_def bindE_eq_Inr)

lemma cpu_of_vals_mono:
  assumes le: "counters_le us vs" and c: "cpu_of_vals us = Inr a" "cpu_of_vals vs = Inr b"
  shows "c_user a \<le> c_user b" "c_system a \<le> c_system b" "c_iowait a \<le> c_iowait b" "c_idle a \<le> c_idle b"
    "c_user b - c_user a + (c_system b - c_system a) + (c_iowait b - c_iowait a) + (c_idle b - c_idle a)
      \<le> c_total b - c_total a"
proof -
  have n: "7 \<le> length us" "7 \<le> length vs" using c by (auto simp: cpu_of_vals_Inr)
  have at: "us ! k \<le> vs ! k" if "k < 7" for k
    using le n that by (simp add: counters_le_def list_all2_conv_all_nth)
  have "counters_le (drop 7 us) (drop 7 vs)" using le by (simp add: counters_le_def list_all2_dropI)
  then have tl: "sum_list (drop 7 us) \<le> sum_list (drop 7 vs)" by (rule counters_le_sum)
  show "c_user a \<le> c_user b" "c_system a \<le> c_system b" "c_iowait a \<le> c_iowait b" "c_idle a \<le> c_idle b"
    using c at[of 0] at[of 1] at[of 2] at[of 3] at[of 4] at[of 5] at[of 6] by (auto simp: cpu_of_vals_Inr)
  show "c_user b - c_user a + (c_system b - c_system a) + (c_iowait b - c_iowait a) + (c_idle b - c_idle a)
      \<le> c_total b - c_total a"
    using c tl seven_sum[OF n(1)] seven_sum[OF n(2)] by (simp add: cpu_of_vals_Inr)
qed

lemma disk_delta_facts:
  assumes "disk_delta h (Some p) (Some c) = Inr r"
  shows "h \<noteq> 0" "r_iops_w r * of_int h = of_int (d_writes c - d_writes p)"
    "r_mib_w r * of_int h * 2 ^ 20 = of_int (d_sectors_writ c - d_sectors_writ p) * 512"
  using assms by (auto simp: disk_delta_def Let_def split: if_splits)

lemma sample_once_Inr:
  assumes "sample_once env args i pc pd = Inr (cc, cd, cp, m, r)"
  shows "read_proc_stat (sm_stat env (Suc i)) = Inr cc" "cp = cpu_delta pc cc"
    "read_meminfo (sm_mem env i) = Inr m" "read_diskstat (sa_device args) (sm_disk env (Suc i)) = Inr cd"
    "disk_delta (sa_interval args) pd cd = Inr r"
  using assms by (auto simp: sample_once_def bindE_eq_Inr split: if_splits)

lemma sampler_loop_writes:
  assumes "sampler_loop fuel env args t_end i c (Some (D i)) out = Some (rows, Inr ())"
    and D: "\<And>k. read_diskstat (sa_device args) (sm_disk env k) = Inr (Some (D k))"
  shows "\<exists>new. rows = out @ new \<and>
    (\<Sum>(_, _, r) \<leftarrow> new. r_iops_w r * of_int (sa_interval args)) = of_int (d_writes (D (i + length new)) - d_writes (D i)) \<and>
    (\<Sum>(_, _, r) \<leftarrow> new. r_mib_w r * of_int (sa_interval args) * 2 ^ 20)
      = of_int (d_sectors_writ (D (i + length new)) - d_sectors_writ (D i)) * 512"
  using assms(1)
proof (induction fuel arbitrary: i c out)
  case (Suc fuel)
  show ?case
  proof (cases "sm_clock env (Suc i) < t_end")
    case True
    then obtain cc cd cp m r where s: "sample_once env args i c (Some (D i)) = Inr (cc, cd, cp, m, r)"
      using Suc.prems by (auto split: sum.splits prod.splits)
    note f = sample_once_Inr[OF s]
    have cd: "cd = Some (D (Suc i))" using f(4) D[of "Suc i"] by simp
    note dd = disk_delta_facts[OF f(5)[unfolded cd]]
    have "sampler_loop fuel env args t_end (Suc i) cc (Some (D (Suc i))) (out @ [(cp, m, r)]) = Some (rows, Inr ())"
      using Suc.prems True s cd by simp
    from Suc.IH[OF this] obtain new where "rows = (out @ [(cp, m, r)]) @ new"
        "(\<Sum>(_, _, r) \<leftarrow> new. r_iops_w r * of_int (sa_interval args)) = of_int (d_writes (D (Suc i + length new)) - d_writes (D (Suc i)))"
        "(\<Sum>(_, _, r) \<leftarrow> new. r_mib_w r * of_int (sa_interval args) * 2 ^ 20)
          = of_int (d_sectors_writ (D (Suc i + length new)) - d_sectors_writ (D (Suc i))) * 512" by blast
    then show ?thesis using dd by (intro exI[of _ "(cp, m, r) # new"]) (simp add: algebra_simps)
  next
    case False
    with Suc.prems show ?thesis by simp
  qed
qed simp

lemma sampler_loop_returns:
  assumes step: "\<And>k. sm_clock env (Suc k) + of_int h \<le> sm_clock env (Suc (Suc k))" and h: "0 < h"
  shows "t_end - sm_clock env (Suc i) \<le> of_nat n * of_int h \<Longrightarrow>
    \<exists>rows r. sampler_loop (Suc n) env args t_end i c d out = Some (rows, r) \<and> length rows \<le> length out + n"
proof (induction n arbitrary: i c d out)
  case 0
  then show ?case by simp
next
  case (Suc n)
  show ?case
  proof (cases "sm_clock env (Suc i) < t_end")
    case True
    show ?thesis
    proof (cases "sample_once env args i c d")
      case (Inr x)
      obtain cc cd row where x: "x = (cc, cd, row)" by (cases x)
      have "t_end - sm_clock env (Suc (Suc i)) \<le> of_nat n * of_int h"
        using Suc.prems step[of i] by (simp add: algebra_simps)
      from Suc.IH[OF this, of cc cd "out @ [row]"] show ?thesis
        using True Inr x by (auto simp del: sampler_loop.simps simp: sampler_loop.simps(2)[of "Suc n"])
    qed (use True in simp)
  qed simp
qed

section \<open>Properties\<close>

text \<open>
  As long as no counter of \<open>/proc/stat\<close> goes back between two reads, the four
  percentages of a sample lie between 0 and 100, and so does their sum.
\<close>

theorem cpu_percentages:
  assumes "mapE py_int (drop 1 (split_ws l1)) = Inr us" "mapE py_int (drop 1 (split_ws l2)) = Inr vs"
    and "counters_le us vs" "read_proc_stat l1 = Inr a" "read_proc_stat l2 = Inr b"
  shows "0 \<le> p_user (cpu_delta a b) \<and> 0 \<le> p_system (cpu_delta a b)
    \<and> 0 \<le> p_iowait (cpu_delta a b) \<and> 0 \<le> p_idle (cpu_delta a b)
    \<and> p_user (cpu_delta a b) + p_system (cpu_delta a b) + p_iowait (cpu_delta a b) + p_idle (cpu_delta a b) \<le> 100"
proof -
  have "cpu_of_vals us = Inr a" "cpu_of_vals vs = Inr b"
    using assms by (simp_all add: read_proc_stat_def)
  note m = cpu_of_vals_mono[OF assms(3) this]
  define d where "d = (if c_total b - c_total a = 0 then 1 else c_total b - c_total a)"
  have d: "0 < d" using m by (auto simp: d_def)
  let ?s = "c_user b - c_user a + (c_system b - c_system a) + (c_iowait b - c_iowait a) + (c_idle b - c_idle a)"
  have le: "?s \<le> d" using m by (auto simp: d_def)
  have f: "p_user (cpu_delta a b) = 100 * of_int (c_user b - c_user a) / of_int d"
      "p_system (cpu_delta a b) = 100 * of_int (c_system b - c_system a) / of_int d"
      "p_iowait (cpu_delta a b) = 100 * of_int (c_iowait b - c_iowait a) / of_int d"
      "p_idle (cpu_delta a b) = 100 * of_int (c_idle b - c_idle a) / of_int d"
    by (simp_all add: cpu_delta_def d_def Let_def)
  have "p_user (cpu_delta a b) + p_system (cpu_delta a b) + p_iowait (cpu_delta a b) + p_idle (cpu_delta a b)
      = 100 * of_int ?s / of_int d"
    unfolding f by (simp only: add_divide_distrib[symmetric] distrib_left of_int_add)
  also have "\<dots> \<le> 100" using le d by (simp add: divide_le_eq)
  finally show ?thesis using m d by (simp add: f)
qed

text \<open>
  Used and available memory add up to the total; the available memory is
  \<open>MemAvailable\<close> in MiB, and without that line it is \<open>MemFree\<close> divided by 1024 twice.
\<close>

theorem meminfo_split:
  assumes "meminfo_lines lines [] = Inr info" "read_meminfo lines = Inr m"
  shows "m_used m + m_available m = m_total m \<and>
    m_available m = (case map_of info ''MemAvailable'' of
        Some a \<Rightarrow> of_int a / 1024
      | None \<Rightarrow> of_int (dict_get ''MemFree'' 0 info) / 1024 / 1024)"
  using assms dict_get_def[of "''MemFree''" 0 info]
  by (auto simp: read_meminfo_def bindE_eq_Inr dict_item_def Let_def split: option.splits)

text \<open>
  The disk rates lose nothing: over a run in which the device is always listed, the
  write rates times the interval add up to the writes, and the MiB rates to the sectors of
  512 bytes, between the first and the last read of the counters.
\<close>

theorem disk_rates_telescope:
  assumes "sampler_loop fuel env args t_end 0 c (Some (D 0)) [] = Some (rows, Inr ())"
    and "\<And>k. read_diskstat (sa_device args) (sm_disk env k) = Inr (Some (D k))"
  shows "(\<Sum>(_, _, r) \<leftarrow> rows. r_iops_w r * of_int (sa_interval args)) = of_int (d_writes (D (length rows)) - d_writes (D 0))
    \<and> (\<Sum>(_, _, r) \<leftarrow> rows. r_mib_w r * of_int (sa_interval args) * 2 ^ 20)
      = of_int (d_sectors_writ (D (length rows)) - d_sectors_writ (D 0)) * 512"
  using sampler_loop_writes[of fuel env args t_end 0 c D "[]" rows, OF assms] by auto

text \<open>
  The sampler ends: when each pass takes at least the interval, it writes at most
  the duration over the interval, rounded up, samples, whatever the files contain.
\<close>

theorem sampler_terminates:
  assumes "0 < sa_interval args" "0 \<le> sa_duration args" "sm_clock env 0 \<le> sm_clock env 1"
    and "\<And>k. sm_clock env (Suc k) + of_int (sa_interval args) \<le> sm_clock env (Suc (Suc k))"
  shows "\<exists>lines r. sampler_main (Suc (nat \<lceil>of_int (sa_duration args) / of_int (sa_interval args) :: rat\<rceil>)) env args = Some (lines, r)
    \<and> length lines \<le> Suc (nat \<lceil>of_int (sa_duration args) / of_int (sa_interval args) :: rat\<rceil>)"
proof -
  let ?q = "of_int (sa_duration args) / of_int (sa_interval args) :: rat"
  let ?n = "nat \<lceil>?q\<rceil>" and ?e = "sm_clock env 0 + of_int (sa_duration args)"
  have "?q \<le> of_nat ?n" by (simp add: of_nat_ceiling)
  then have "of_int (sa_duration args) \<le> of_nat ?n * (of_int (sa_interval args) :: rat)"
    using assms(1) by (simp add: divide_le_eq)
  then have "?e - sm_clock env (Suc 0) \<le> of_nat ?n * of_int (sa_interval args)" using assms(3) by simp
  note l = sampler_loop_returns[OF assms(4,1) this]
  show ?thesis
  proof (cases "bindE (read_proc_stat (sm_stat env 0)) (\<lambda>c.
      bindE (read_diskstat (sa_device args) (sm_disk env 0)) (\<lambda>d. Inr (c, d)))")
    case (Inr x)
    obtain c d where x: "x = (c, d)" by (cases x)
    from l[of args c d "[]"] obtain rows r where
        "sampler_loop (Suc ?n) env args ?e 0 c d [] = Some (rows, r)" "length rows \<le> ?n" by auto
    then show ?thesis using Inr x by (simp add: sampler_main_def del: sampler_loop.simps)
  qed (simp add: sampler_main_def)
qed

end
