(* ===== verification/Spec2Isabelle.thy ===== *)
theory Spec2Isabelle
  imports CoopWitnesses RotationWitnesses AdminWitnesses PartitionWitnesses ConfigWitnesses ClientTypes CoreWitnesses DeliveryWitnesses ToolWitnesses Charts TickBench SysMetrics
begin

text \<open>
  PgQue is a message queue in PostgreSQL: SQL functions over tables of queues, ticks,
  subscriptions and events (\<open>devel/sql/pgque.sql\<close>), and clients that call them. This library
  models the Python client (\<open>clients/python/pgque\<close>), its demo and benchmarks, and as much of
  the SQL as the client's promises rest on.

  How the parts interact. A producer calls \<open>PgqueClient.send\<close> or \<open>send_batch\<close>, which insert
  events with the id of their transaction. A ticker records the snapshot of its transaction
  (\<open>ticker\<close>, \<open>force_next_tick\<close>). \<open>receive\<close> opens a batch for a subscription: the events visible
  to one tick and not to the one before. \<open>nack\<close> puts a message of the open batch into the retry
  queue or among the dead letters, \<open>ack\<close> finishes the batch and moves the subscription on.
  \<open>Consumer\<close> does receive, handlers, nacks and ack in one transaction, waits for a NOTIFY or a
  time-out in between, and reconnects after database errors.

  The theories, from the bottom:

  Prelude: results as \<open>exc + 'a\<close> with \<open>bindE\<close> and \<open>mapE\<close>, decimal text, substring search.

  Errors (\<open>errors.py\<close>, \<open>_wrap_sql_error\<close>): the exceptions as a datatype, \<open>isinstance\<close> by the
  chain of base classes, the pickling of the overflow error, the classification of a database
  error by SQLSTATE and text. Values (\<open>types.py\<close>): Python values, \<open>Message\<close>, \<open>Event\<close>, JSON text.
  Client (\<open>client.py\<close>): one definition per method, over a record of the psycopg operations
  (\<open>driver\<close>), which is a parameter. ClientErrors: which exceptions can leave the methods.

  Consumer and ConsumerLoops (\<open>consumer.py\<close>): registration, \<open>_poll_once\<close>, the waits, the session
  and \<open>start\<close>. The clock, \<open>select\<close>, notifications and the reads of \<open>_running\<close> are an environment
  indexed by one counter of observations. The loops have fuel, and \<open>None\<close> is "still running":
  \<open>wait_bounded\<close> shows that twice the poll interval plus one rounds are enough for a wait, and
  theory ConsumerStop that n + 1 rounds of every loop are enough for \<open>start\<close> when the flag is
  clear from the n-th observation on. The locale \<open>tx_driver\<close> states what a poll needs from
  transactions, \<open>batch_server\<close> what it needs from a queue server.

  Snapshots: the query that \<open>batch_event_sql\<close> generates, its reference (visible now, not visible
  before), and that successive batches cover every event once. Server: the tables as lists of
  records, the sequences, and one definition per SQL function, in a state monad with exceptions
  (\<open>'a sql\<close>). ServerFacts: the uniqueness invariant of the subscriptions and what the functions do
  on each branch. PgConn: a PostgreSQL session (autocommit or block, aborted blocks, rollback that
  keeps sequence values) with the table from the client's statement texts to the SQL functions;
  it interprets \<open>tx_driver\<close>. Delivery interprets \<open>batch_server\<close> and concludes what a poll achieves in
  the database. SqlClaims, SqlErrors: sending, forced ticks, nacks; the exceptions of the client
  for the errors of the SQL functions. Pipeline: what is sent to a caught-up subscription and
  ticked is in its next batch, and a batch that is not acked is delivered again, the same.
  Maintenance: a nacked message, through the retry queue, back into the event table.

  Cooperative: the functions behind \<open>receive_coop\<close> and its relatives. The members of a group share
  the subscription of a main row, which alone has a position; a member holds at most one batch,
  and a member without one may take over the batch of a sibling with an old heartbeat.
  CoopGroups: the invariant of the groups (one main row per \<open>sub_id\<close>, members with its queue,
  windows of members disjoint and behind the main row), what each SQL helper leaves
  alone, and rules for pre- and postconditions of statements. CoopInvariant: every cooperative
  function keeps it. CoopDelivery: no event in two open batches, and a takeover delivers the whole
  batch. CoopRefinement: the functions refine a group of workers with a position and a window
  each. CoopLeave: a removed worker loses no message.

  Rotation: the ring of event tables of a queue, which Server shows as one table, as a state
  machine of concurrent transactions: inserts, ticks, subscriptions, the two steps of the switch,
  commits and aborts. A transaction has its id before it reads the row of the queue, and
  \<open>maint_rotate_tables_step2\<close> runs in a transaction of its own, as its comment demands. A first
  subscription has the premise that no transaction older than the last switch is still running:
  without it an event can be lost, which \<open>unguarded_registration_loses_event\<close> shows. RotationInvariant: where the events of
  a window are. RotationClaims: the ring refines the one table, and when it turns.

  Queues: \<open>create_queue\<close> and \<open>drop_queue\<close> with the foreign keys that the removal meets.
  DeadLetters: the functions on the dead letters, and that a message comes back from there.

  Partitions: slots of a partitioned consumer, with their leases and the consume path that
  filters the stream by the hash of the key. PartitionClaims: the slots share the stream out, a worker
  without the lease is fenced (a null worker is not: lemma \<open>null_worker_passes_fence\<close>), a successor gets
  the same batch, epochs tell workers apart while the slot is subscribed. Idempotent: sends with a key,
  the sweep of expired keys, and that a key sends once in its time to live.

  Ticking: the external ticker, which takes exactly the ticks that continue the series of the queue
  (\<open>ticks_rise\<close>: ids and event sequences rise together); batches under limits (\<open>next_batch_custom\<close>), which cover
  at least what was asked for and of which the plain \<open>next_batch\<close> is the case without limits; and the loop
  of \<open>ticker_loop\<close>, which stays in its second (its count of rounds is the budget of the code, so that it ends).
  Configuration: \<open>set_queue_config\<close>, which keeps the limits of the queues positive, and the information
  functions, which agree with the batches that are opened and finished.

  SqlInvariant, Sessions: the invariant of the tables under every statement of the client, the
  cooperative ones included, and under any interleaving of clients, maintenance and rollbacks.
  ClientTypes: the types of what the methods return over the SQL functions.

  PyText: number and text conversions, \<open>range\<close>, dictionaries, and statements that raise or return
  (\<open>script\<close>) for the programs around the client. CoopDemo (\<open>bench/coop_demo.py\<close>), ProducerBench
  (\<open>bench_producer.py\<close>), EventLog (\<open>parse_events_consumed.py\<close>), Scaling and ScalingRun
  (\<open>subconsumer-scaling\<close>, with the locale \<open>numbered_server\<close> and its interpretation), Charts,
  TickBench (\<open>tick-rate/bench.py\<close>), SysMetrics, Analyze and AshAnalyze (\<open>charts/r8_*.py\<close>).

  Scenario holds a small concrete deployment; CoreWitnesses, DeliveryWitnesses, CoopWitnesses,
  RotationWitnesses, AdminWitnesses, PartitionWitnesses, ConfigWitnesses and ToolWitnesses apply the theorems where their hypotheses hold.

  Modelling choices. Python integers and SQL bigints are \<open>int\<close>; a float is a rational where it is
  computed with, and the text of its \<open>repr\<close> where it is passed through. Times are microseconds.
  Text is a list of 8-bit characters. What PostgreSQL supplies to a statement (clock, transaction
  id, snapshot, the casts from text, the hash of a text) is a parameter of each SQL function.

  Not modelled: triggers, DDL, permissions, the jobs of pg_cron and pg_timetable (for a connection, statements
  other than those of the client are a parameter), the pages of a batch cursor (\<open>receive_partitioned\<close> reads one page and probes one row), waiting
  for row locks (statements of different transactions are taken one after the other), log messages,
  the drawing of charts, argument parsers, and \<open>__init__.py\<close>, which only re-exports names.
\<close>

end
